(* ===== verification/Prelude.thy ===== *)
theory Prelude
  imports Main "HOL-Library.Word" "HOL-Library.Sublist"
begin

text \<open>
  Shared material of the development: the fixed-width integers of the Rust code, Rust
  strings and the standard-library operations on bytes the modelled code calls, and the
  generic lemmas on lists and sums that several components use.

  A Rust \<^verbatim>\<open>String\<close> or \<^verbatim>\<open>&str\<close> is a sequence of bytes in UTF-8. It is modelled by
  the HOL type \<^typ>\<open>string\<close>, whose characters are 8-bit values: one \<^typ>\<open>char\<close> is one
  byte. \<^verbatim>\<open>c as char\<close> for a byte \<open>c\<close>, pushed to a \<^verbatim>\<open>String\<close>, pushes the UTF-8
  encoding of the code point \<open>c\<close>, which is two bytes from 128 on.
\<close>

named_theorems rust_defs \<open>definitions of the modelled standard-library operations\<close>

unbundle bit_operations_syntax

type_synonym u8 = "8 word"
type_synonym u32 = "32 word"
type_synonym u64 = "64 word"
type_synonym i64 = "64 word"

subsection \<open>Bytes and strings\<close>

abbreviation byte :: "char \<Rightarrow> nat" where
  "byte c \<equiv> of_char c"

definition is_ascii :: "char \<Rightarrow> bool" where
  [rust_defs]: "is_ascii c \<longleftrightarrow> byte c < 128"

definition is_ascii_uppercase :: "char \<Rightarrow> bool" where
  [rust_defs]: "is_ascii_uppercase c \<longleftrightarrow> 65 \<le> byte c \<and> byte c \<le> 90"

definition is_ascii_lowercase :: "char \<Rightarrow> bool" where
  [rust_defs]: "is_ascii_lowercase c \<longleftrightarrow> 97 \<le> byte c \<and> byte c \<le> 122"

definition is_ascii_alphabetic :: "char \<Rightarrow> bool" where
  [rust_defs]: "is_ascii_alphabetic c \<longleftrightarrow> is_ascii_uppercase c \<or> is_ascii_lowercase c"

definition is_ascii_digit :: "char \<Rightarrow> bool" where
  [rust_defs]: "is_ascii_digit c \<longleftrightarrow> 48 \<le> byte c \<and> byte c \<le> 57"

definition is_ascii_alphanumeric :: "char \<Rightarrow> bool" where
  [rust_defs]: "is_ascii_alphanumeric c \<longleftrightarrow> is_ascii_alphabetic c \<or> is_ascii_digit c"

definition to_ascii_lowercase :: "char \<Rightarrow> char" where
  [rust_defs]: "to_ascii_lowercase c = (if is_ascii_uppercase c then char_of (byte c + 32) else c)"

definition eq_ignore_ascii_case :: "string \<Rightarrow> string \<Rightarrow> bool" where
  [rust_defs]: "eq_ignore_ascii_case s t \<longleftrightarrow> map to_ascii_lowercase s = map to_ascii_lowercase t"

definition byte_as_char :: "char \<Rightarrow> string" where
  [rust_defs]: "byte_as_char c =
    (if is_ascii c then [c]
     else [char_of (192 + byte c div 64), char_of (128 + byte c mod 64)])"

text \<open>The byte classes on the bits of a character: how they are evaluated.\<close>

lemma is_ascii_Char [code]:
  "is_ascii (Char b0 b1 b2 b3 b4 b5 b6 b7) \<longleftrightarrow> \<not> b7"
  by (cases b0; cases b1; cases b2; cases b3; cases b4; cases b5; cases b6; cases b7; simp add: is_ascii_def)

lemma is_ascii_uppercase_Char [code]:
  "is_ascii_uppercase (Char b0 b1 b2 b3 b4 b5 b6 b7) \<longleftrightarrow>
     \<not> b7 \<and> b6 \<and> \<not> b5 \<and> (b0 \<or> b1 \<or> b2 \<or> b3 \<or> b4) \<and> \<not> (b4 \<and> b3 \<and> (b2 \<or> b1 \<and> b0))"
  by (cases b0; cases b1; cases b2; cases b3; cases b4; cases b5; cases b6; cases b7;
      simp add: is_ascii_uppercase_def)

lemma is_ascii_lowercase_Char [code]:
  "is_ascii_lowercase (Char b0 b1 b2 b3 b4 b5 b6 b7) \<longleftrightarrow>
     \<not> b7 \<and> b6 \<and> b5 \<and> (b0 \<or> b1 \<or> b2 \<or> b3 \<or> b4) \<and> \<not> (b4 \<and> b3 \<and> (b2 \<or> b1 \<and> b0))"
  by (cases b0; cases b1; cases b2; cases b3; cases b4; cases b5; cases b6; cases b7;
      simp add: is_ascii_lowercase_def)

lemma is_ascii_digit_Char [code]:
  "is_ascii_digit (Char b0 b1 b2 b3 b4 b5 b6 b7) \<longleftrightarrow>
     \<not> b7 \<and> \<not> b6 \<and> b5 \<and> b4 \<and> (b3 \<longrightarrow> \<not> b2 \<and> \<not> b1)"
  by (cases b0; cases b1; cases b2; cases b3; cases b4; cases b5; cases b6; cases b7;
      simp add: is_ascii_digit_def)

lemma to_ascii_lowercase_Char [code]:
  "to_ascii_lowercase (Char b0 b1 b2 b3 b4 b5 b6 b7) =
     (if is_ascii_uppercase (Char b0 b1 b2 b3 b4 b5 b6 b7)
      then Char b0 b1 b2 b3 b4 True b6 b7 else Char b0 b1 b2 b3 b4 b5 b6 b7)"
  by (cases b0; cases b1; cases b2; cases b3; cases b4; cases b5; cases b6; cases b7;
      simp add: to_ascii_lowercase_def is_ascii_uppercase_def char_of_eq_iff)

text \<open>\<^verbatim>\<open>std::str::from_utf8\<close> succeeds exactly on well-formed UTF-8 (Unicode table 3-7).\<close>

definition utf8_cont :: "char \<Rightarrow> bool" where
  "utf8_cont c \<longleftrightarrow> 128 \<le> byte c \<and> byte c < 192"

fun utf8_valid :: "string \<Rightarrow> bool" where
  "utf8_valid [] = True"
| "utf8_valid (a # cs) =
    (let n = byte a in
     if is_ascii a then utf8_valid cs
     else (case cs of
       [] \<Rightarrow> False
     | b # cs1 \<Rightarrow>
         if 194 \<le> n \<and> n \<le> 223 then utf8_cont b \<and> utf8_valid cs1
         else (case cs1 of
           [] \<Rightarrow> False
         | c # cs2 \<Rightarrow>
             if 224 \<le> n \<and> n \<le> 239 then
               utf8_cont b \<and> utf8_cont c \<and> (n = 224 \<longrightarrow> 160 \<le> byte b)
               \<and> (n = 237 \<longrightarrow> byte b < 160) \<and> utf8_valid cs2
             else (case cs2 of
               [] \<Rightarrow> False
             | d # cs3 \<Rightarrow>
                 240 \<le> n \<and> n \<le> 244 \<and> utf8_cont b \<and> utf8_cont c \<and> utf8_cont d
                 \<and> (n = 240 \<longrightarrow> 144 \<le> byte b) \<and> (n = 244 \<longrightarrow> byte b < 144) \<and> utf8_valid cs3))))"

lemma utf8_valid_ascii: "\<forall>c \<in> set s. is_ascii c \<Longrightarrow> utf8_valid s"
  by (induction s) (auto simp: is_ascii_def Let_def)

lemma byte_as_char_ascii: "is_ascii c \<Longrightarrow> byte_as_char c = [c]"
  by (simp add: byte_as_char_def)

lemma concat_byte_as_char_ascii:
  "\<forall>c \<in> set s. is_ascii c \<Longrightarrow> concat (map byte_as_char s) = s"
  by (induction s) (auto simp: byte_as_char_ascii)

lemma byte_char_of: "n < 256 \<Longrightarrow> byte (char_of n) = n"
  by simp

subsection \<open>Decimal numbers\<close>

text \<open>\<^verbatim>\<open>write!(out, "{}", n)\<close> for an unsigned integer, and the value of a run of digits as
  \<^verbatim>\<open>str::parse\<close> reads it.\<close>

fun dec_string :: "nat \<Rightarrow> string" where
  "dec_string n =
    (if n < 10 then [char_of (48 + n)]
     else dec_string (n div 10) @ [char_of (48 + n mod 10)])"

declare dec_string.simps [simp del]

definition dec_value :: "string \<Rightarrow> int" where
  "dec_value s = foldl (\<lambda>acc c. 10 * acc + (of_char c - 48)) 0 s"

lemma dec_value_snoc: "dec_value (s @ [c]) = 10 * dec_value s + (of_char c - 48)"
  by (simp add: dec_value_def)

lemma dec_value_dec_string [simp]: "dec_value (dec_string n) = int n"
proof (induction n rule: dec_string.induct)
  case (1 n)
  show ?case
  proof (cases "n < 10")
    case True
    moreover from True have "of_char (char_of (48 + n)) = (48 + int n)"
      using of_nat_of_char [of "char_of (48 + n)", where 'a = int] by simp
    ultimately show ?thesis by (subst dec_string.simps) (simp add: dec_value_def)
  next
    case False
    with "1" have "dec_value (dec_string (n div 10)) = int (n div 10)" by simp
    moreover have "of_char (char_of (48 + n mod 10)) - 48 = int (n mod 10)"
      using of_nat_of_char [of "char_of (48 + n mod 10)", where 'a = int] by simp
    moreover have "10 * int (n div 10) + int (n mod 10) = int n"
      by (metis mult_div_mod_eq of_nat_add of_nat_mult of_nat_numeral)
    ultimately show ?thesis using False
      by (subst dec_string.simps) (simp add: dec_value_snoc)
  qed
qed

lemma dec_string_digits: "\<forall>c \<in> set (dec_string n). is_ascii_digit c"
proof (induction n rule: dec_string.induct)
  case (1 n)
  then show ?case
    by (subst dec_string.simps) (auto simp: is_ascii_digit_def)
qed

lemma dec_string_nonempty [simp]: "dec_string n \<noteq> []"
  by (subst dec_string.simps) simp

subsection \<open>Joining strings\<close>

text \<open>The loops of the renderers that push a separator before every element but the first
  (also \<^verbatim>\<open>[..].join(sep)\<close>).\<close>

fun join_with :: "string \<Rightarrow> string list \<Rightarrow> string" where
  "join_with sep [] = []"
| "join_with sep [s] = s"
| "join_with sep (s # t # ts) = s @ sep @ join_with sep (t # ts)"

lemma join_with_Cons: "join_with sep (s # ts) = s @ (if ts = [] then [] else sep @ join_with sep ts)"
  by (cases ts) auto

subsection \<open>Lists\<close>

lemma suffix_ConsD2: "suffix (x # xs) ys \<Longrightarrow> suffix xs ys"
  by (meson suffix_ConsD)

lemma suffix_drop_length: "suffix xs ys \<Longrightarrow> drop (length ys - length xs) ys = xs"
  by (auto simp: suffix_def)

lemma suffix_appendD2: "suffix (xs @ ys) zs \<Longrightarrow> suffix ys zs"
  by (auto simp: suffix_def)

lemma list_all_mono: "list_all P xs \<Longrightarrow> (\<And>x. x \<in> set xs \<Longrightarrow> P x \<Longrightarrow> Q x) \<Longrightarrow> list_all Q xs"
  by (simp add: list_all_iff)

end
