(* ===== verification/Advice_Mask.thy ===== *)
theory Advice_Mask
  imports Prelude
begin

text \<open>
  The two flag words of plan advice: the 64-bit strategy mask \<^verbatim>\<open>PgsMask\<close>
  (\<^verbatim>\<open>crates/ra-plan-advice/src/mask.rs\<close>) and the 8-bit \<^verbatim>\<open>FeedbackFlags\<close> with their
  rendering (\<^verbatim>\<open>crates/ra-plan-advice/src/feedback.rs\<close>). Both have the same three
  operations; the laws of the operations are proved once, in the locale \<open>flag_word\<close>, from
  the reading of the word as a set of bit positions, and the locale is interpreted on both.
\<close>

subsection \<open>The strategy mask\<close>

type_synonym pgs_mask = u64

definition PGS_SEQ_SCAN :: u64 where "PGS_SEQ_SCAN = 0x00000001"
definition PGS_INDEX_SCAN :: u64 where "PGS_INDEX_SCAN = 0x00000002"
definition PGS_INDEX_ONLY_SCAN :: u64 where "PGS_INDEX_ONLY_SCAN = 0x00000004"
definition PGS_BITMAP_SCAN :: u64 where "PGS_BITMAP_SCAN = 0x00000008"
definition PGS_TID_SCAN :: u64 where "PGS_TID_SCAN = 0x00000010"
definition PGS_FOREIGN_JOIN :: u64 where "PGS_FOREIGN_JOIN = 0x00000020"
definition PGS_MERGE_JOIN_PLAIN :: u64 where "PGS_MERGE_JOIN_PLAIN = 0x00000040"
definition PGS_MERGE_JOIN_MATERIALIZE :: u64 where "PGS_MERGE_JOIN_MATERIALIZE = 0x00000080"
definition PGS_NESTLOOP_PLAIN :: u64 where "PGS_NESTLOOP_PLAIN = 0x00000100"
definition PGS_NESTLOOP_MATERIALIZE :: u64 where "PGS_NESTLOOP_MATERIALIZE = 0x00000200"
definition PGS_NESTLOOP_MEMOIZE :: u64 where "PGS_NESTLOOP_MEMOIZE = 0x00000400"
definition PGS_HASH_JOIN :: u64 where "PGS_HASH_JOIN = 0x00000800"
definition PGS_APPEND :: u64 where "PGS_APPEND = 0x00001000"
definition PGS_MERGE_APPEND :: u64 where "PGS_MERGE_APPEND = 0x00002000"
definition PGS_GATHER :: u64 where "PGS_GATHER = 0x00004000"
definition PGS_GATHER_MERGE :: u64 where "PGS_GATHER_MERGE = 0x00008000"
definition PGS_CONSIDER_INDEXONLY :: u64 where "PGS_CONSIDER_INDEXONLY = 0x00010000"
definition PGS_CONSIDER_PARTITIONWISE :: u64 where "PGS_CONSIDER_PARTITIONWISE = 0x00020000"
definition PGS_CONSIDER_NONPARTIAL :: u64 where "PGS_CONSIDER_NONPARTIAL = 0x00040000"

lemmas pgs_bit_defs = PGS_SEQ_SCAN_def PGS_INDEX_SCAN_def PGS_INDEX_ONLY_SCAN_def
  PGS_BITMAP_SCAN_def PGS_TID_SCAN_def PGS_FOREIGN_JOIN_def PGS_MERGE_JOIN_PLAIN_def
  PGS_MERGE_JOIN_MATERIALIZE_def PGS_NESTLOOP_PLAIN_def PGS_NESTLOOP_MATERIALIZE_def
  PGS_NESTLOOP_MEMOIZE_def PGS_HASH_JOIN_def PGS_APPEND_def PGS_MERGE_APPEND_def
  PGS_GATHER_def PGS_GATHER_MERGE_def PGS_CONSIDER_INDEXONLY_def
  PGS_CONSIDER_PARTITIONWISE_def PGS_CONSIDER_NONPARTIAL_def

definition PGS_SCAN_ANY :: u64 where
  "PGS_SCAN_ANY = PGS_SEQ_SCAN OR PGS_INDEX_SCAN OR PGS_INDEX_ONLY_SCAN OR PGS_BITMAP_SCAN
     OR PGS_TID_SCAN"

definition PGS_MERGEJOIN_ANY :: u64 where
  "PGS_MERGEJOIN_ANY = PGS_MERGE_JOIN_PLAIN OR PGS_MERGE_JOIN_MATERIALIZE"

definition PGS_NESTLOOP_ANY :: u64 where
  "PGS_NESTLOOP_ANY = PGS_NESTLOOP_PLAIN OR PGS_NESTLOOP_MATERIALIZE OR PGS_NESTLOOP_MEMOIZE"

definition PGS_JOIN_ANY :: u64 where
  "PGS_JOIN_ANY = PGS_FOREIGN_JOIN OR PGS_MERGEJOIN_ANY OR PGS_NESTLOOP_ANY OR PGS_HASH_JOIN"

definition pgs_all :: pgs_mask where
  "pgs_all = PGS_SCAN_ANY OR PGS_FOREIGN_JOIN OR PGS_MERGEJOIN_ANY OR PGS_NESTLOOP_ANY
     OR PGS_HASH_JOIN OR PGS_APPEND OR PGS_MERGE_APPEND OR PGS_GATHER OR PGS_GATHER_MERGE
     OR PGS_CONSIDER_INDEXONLY OR PGS_CONSIDER_PARTITIONWISE OR PGS_CONSIDER_NONPARTIAL"

lemmas pgs_any_defs = PGS_SCAN_ANY_def PGS_MERGEJOIN_ANY_def PGS_NESTLOOP_ANY_def
  PGS_JOIN_ANY_def pgs_all_def

definition pgs_contains :: "pgs_mask \<Rightarrow> u64 \<Rightarrow> bool" where
  "pgs_contains m b \<longleftrightarrow> m AND b \<noteq> 0"

definition pgs_without :: "pgs_mask \<Rightarrow> u64 \<Rightarrow> pgs_mask" where
  "pgs_without m bits = m AND NOT bits"

definition pgs_with :: "pgs_mask \<Rightarrow> u64 \<Rightarrow> pgs_mask" where
  "pgs_with m bits = m OR bits"

subsection \<open>Feedback flags\<close>

type_synonym feedback_flags = u8

definition FB_MATCH_PARTIAL :: u8 where "FB_MATCH_PARTIAL = 0x01"
definition FB_MATCH_FULL :: u8 where "FB_MATCH_FULL = 0x02"
definition FB_INAPPLICABLE :: u8 where "FB_INAPPLICABLE = 0x04"
definition FB_CONFLICTING :: u8 where "FB_CONFLICTING = 0x08"
definition FB_FAILED :: u8 where "FB_FAILED = 0x10"

lemmas fb_bit_defs = FB_MATCH_PARTIAL_def FB_MATCH_FULL_def FB_INAPPLICABLE_def
  FB_CONFLICTING_def FB_FAILED_def

definition fb_empty :: feedback_flags where "fb_empty = 0"

definition fb_contains :: "feedback_flags \<Rightarrow> u8 \<Rightarrow> bool" where
  "fb_contains f flag \<longleftrightarrow> f AND flag \<noteq> 0"

definition fb_with :: "feedback_flags \<Rightarrow> u8 \<Rightarrow> feedback_flags" where
  "fb_with f flag = f OR flag"

definition fb_without :: "feedback_flags \<Rightarrow> u8 \<Rightarrow> feedback_flags" where
  "fb_without f flag = f AND NOT flag"

definition format_feedback :: "feedback_flags \<Rightarrow> string" where
  "format_feedback flags =
     (if fb_contains flags FB_MATCH_FULL then ''matched''
      else if fb_contains flags FB_MATCH_PARTIAL then ''partially matched''
      else ''not matched'')
   @ (if fb_contains flags FB_INAPPLICABLE then '', inapplicable'' else [])
   @ (if fb_contains flags FB_CONFLICTING then '', conflicting'' else [])
   @ (if fb_contains flags FB_FAILED then '', failed'' else [])"

subsection \<open>The interface of a flag word\<close>

text \<open>A flag word as its clients see it: \<open>bits_of\<close> reads a word as a set of positions, and
  the three operations are membership of some bit, difference and union.\<close>

locale flag_word =
  fixes contains :: "'w \<Rightarrow> 'w \<Rightarrow> bool"
    and without :: "'w \<Rightarrow> 'w \<Rightarrow> 'w"
    and with_bits :: "'w \<Rightarrow> 'w \<Rightarrow> 'w"
    and bits_of :: "'w \<Rightarrow> nat set"
  assumes contains_iff: "contains m b \<longleftrightarrow> bits_of m \<inter> bits_of b \<noteq> {}"
    and bits_without: "bits_of (without m b) = bits_of m - bits_of b"
    and bits_with: "bits_of (with_bits m b) = bits_of m \<union> bits_of b"
    and bits_inj: "bits_of m = bits_of n \<Longrightarrow> m = n"
begin

lemma contains_with: "contains (with_bits m b) c \<longleftrightarrow> contains m c \<or> contains b c"
  by (auto simp: contains_iff bits_with)

lemma not_contains_without: "\<not> contains (without m b) b"
  by (auto simp: contains_iff bits_without)

lemma contains_without_other:
  "bits_of b \<inter> bits_of c = {} \<Longrightarrow> contains (without m b) c \<longleftrightarrow> contains m c"
  by (auto simp: contains_iff bits_without)

lemma with_without: "without (with_bits m b) b = without m b"
  by (rule bits_inj) (auto simp: bits_with bits_without)

lemma without_with: "with_bits (without m b) b = with_bits m b"
  by (rule bits_inj) (auto simp: bits_with bits_without)

lemma without_commute: "without (without m b) c = without (without m c) b"
  by (rule bits_inj) (auto simp: bits_without)

lemma without_without: "without (without m b) c = without m (with_bits b c)"
  by (rule bits_inj) (auto simp: bits_without bits_with)

end

definition word_bits :: "'a::len word \<Rightarrow> nat set" where
  "word_bits w = {n. bit w n}"

lemma word_and_zero_iff: "(v AND w \<noteq> 0) \<longleftrightarrow> word_bits v \<inter> word_bits w \<noteq> {}" for v w :: "'a::len word"
  by (auto simp: word_bits_def bit_eq_iff bit_and_iff dest: bit_imp_le_length)

lemma word_bits_and_not: "word_bits (v AND NOT w) = word_bits v - word_bits w" for v w :: "'a::len word"
  by (auto simp: word_bits_def bit_and_iff bit_not_iff dest: bit_imp_le_length)

lemma word_bits_or: "word_bits (v OR w) = word_bits v \<union> word_bits w" for v w :: "'a::len word"
  by (auto simp: word_bits_def bit_or_iff)

lemma word_bits_inj: "word_bits v = word_bits w \<Longrightarrow> v = w" for v w :: "'a::len word"
  by (rule bit_eqI) (auto simp: word_bits_def)

lemmas word_bits_simps = word_and_zero_iff word_bits_and_not word_bits_or

interpretation pgs: flag_word pgs_contains pgs_without pgs_with word_bits
  by unfold_locales
    (auto simp: pgs_contains_def pgs_without_def pgs_with_def word_bits_simps intro: word_bits_inj)

interpretation fb: flag_word fb_contains fb_without fb_with word_bits
  by unfold_locales
    (auto simp: fb_contains_def fb_without_def fb_with_def word_bits_simps intro: word_bits_inj)

subsection \<open>The masks the planner starts from\<close>

definition pgs_strategies :: "u64 list" where
  "pgs_strategies = [PGS_SEQ_SCAN, PGS_INDEX_SCAN, PGS_INDEX_ONLY_SCAN, PGS_BITMAP_SCAN,
     PGS_TID_SCAN, PGS_FOREIGN_JOIN, PGS_MERGE_JOIN_PLAIN, PGS_MERGE_JOIN_MATERIALIZE,
     PGS_NESTLOOP_PLAIN, PGS_NESTLOOP_MATERIALIZE, PGS_NESTLOOP_MEMOIZE, PGS_HASH_JOIN,
     PGS_APPEND, PGS_MERGE_APPEND, PGS_GATHER, PGS_GATHER_MERGE, PGS_CONSIDER_INDEXONLY,
     PGS_CONSIDER_PARTITIONWISE, PGS_CONSIDER_NONPARTIAL]"

lemma pgs_strategies_bits: "pgs_strategies = map (\<lambda>n. 2 ^ n) [0..<19]"
  by (simp add: pgs_strategies_def pgs_bit_defs upt_rec)

lemma word_bits_exp: "n < LENGTH('a) \<Longrightarrow> word_bits (2 ^ n :: 'a::len word) = {n}"
  by (auto simp: word_bits_def bit_exp_iff)

lemma pgs_all_value: "pgs_all = mask 19"
  by (simp add: pgs_any_defs pgs_bit_defs mask_eq_exp_minus_1)

lemma pgs_all_bits: "word_bits pgs_all = {0..<19}"
  by (auto simp: pgs_all_value word_bits_def bit_mask_iff)

lemma pgs_strategy_nth: "i < 19 \<Longrightarrow> word_bits (pgs_strategies ! i) = {i}"
  by (simp add: pgs_strategies_bits word_bits_exp)

text \<open>What a planner that starts from \<open>pgs_all\<close> and clears the strategies of a list may
  still use: exactly the strategies outside the list.\<close>

lemma bits_fold_without:
  "word_bits (fold (\<lambda>b m. pgs_without m b) bs m) = word_bits m - (\<Union>b \<in> set bs. word_bits b)"
  by (induction bs arbitrary: m) (auto simp: pgs.bits_without)

text \<open>Starting from \<^verbatim>\<open>PgsMask::all()\<close>, clearing the strategies of any list of
  advice leaves exactly the strategies that the list does not mention: \<^verbatim>\<open>without\<close> never
  disturbs another strategy, whatever the order and the repetitions.\<close>

lemma pgs_cleared_strategies:
  assumes "\<forall>i \<in> set is. i < 19" and "j < 19"
  shows "pgs_contains (fold (\<lambda>i m. pgs_without m (pgs_strategies ! i)) is pgs_all)
           (pgs_strategies ! j) \<longleftrightarrow> j \<notin> set is"
proof -
  have "fold (\<lambda>i m. pgs_without m (pgs_strategies ! i)) is pgs_all =
      fold (\<lambda>b m. pgs_without m b) (map (\<lambda>i. pgs_strategies ! i) is) pgs_all"
    by (simp add: fold_map comp_def)
  moreover have "(\<Union>b \<in> set (map (\<lambda>i. pgs_strategies ! i) is). word_bits b) = set is"
    using assms(1) by (auto simp: pgs_strategy_nth)
  ultimately show ?thesis
    using assms(2) by (auto simp: pgs.contains_iff bits_fold_without pgs_all_bits pgs_strategy_nth)
qed

lemma pgs_cleared_strategies_witness:
  "\<not> pgs_contains (fold (\<lambda>i m. pgs_without m (pgs_strategies ! i)) [0, 11, 0] pgs_all) PGS_HASH_JOIN"
proof -
  have "pgs_strategies ! 11 = PGS_HASH_JOIN" by (simp add: pgs_strategies_def)
  then show ?thesis using pgs_cleared_strategies [of "[0, 11, 0]" 11] by simp
qed

text \<open>The feedback text of \<^verbatim>\<open>format_feedback\<close> determines the flags: two flag
  words render to the same text exactly when they agree on inapplicable, conflicting, failed
  and full match and, where there is no full match, on the partial match.\<close>

lemma format_feedback_eq_iff:
  "format_feedback f = format_feedback g \<longleftrightarrow>
     fb_contains f FB_MATCH_FULL = fb_contains g FB_MATCH_FULL
     \<and> fb_contains f FB_INAPPLICABLE = fb_contains g FB_INAPPLICABLE
     \<and> fb_contains f FB_CONFLICTING = fb_contains g FB_CONFLICTING
     \<and> fb_contains f FB_FAILED = fb_contains g FB_FAILED
     \<and> (fb_contains f FB_MATCH_FULL
          \<or> fb_contains f FB_MATCH_PARTIAL = fb_contains g FB_MATCH_PARTIAL)"
  unfolding format_feedback_def
  by (cases "fb_contains f FB_MATCH_FULL"; cases "fb_contains f FB_MATCH_PARTIAL";
      cases "fb_contains g FB_MATCH_FULL"; cases "fb_contains g FB_MATCH_PARTIAL";
      cases "fb_contains f FB_INAPPLICABLE"; cases "fb_contains g FB_INAPPLICABLE"; simp; fail)

end
