(* ===== verification/Advice_Parser.thy ===== *)
theory Advice_Parser
  imports Advice_Ast
begin

text \<open>
  The lexer-fused recursive-descent parser of plan advice
  (\<^verbatim>\<open>crates/ra-plan-advice/src/parser.rs\<close>), method by method. The mutable
  \<^verbatim>\<open>Parser\<close> struct is the record \<open>parser\<close>, passed and returned; a method that returns
  \<^verbatim>\<open>Result\<close> gives \<open>Inl\<close> of the error or \<open>Inr\<close> of the value, together with the
  parser it leaves behind. The parser left by a failing call matters in one place only:
  \<^verbatim>\<open>skip_whitespace_and_comments\<close> drops the error and goes on from it.
\<close>

record parse_error =
  position :: nat
  message :: string

record parser =
  src :: string
  pos :: nat
  depth :: nat

type_synonym 'a parse_result = "(parse_error + 'a) \<times> parser"

definition MAX_NESTING_DEPTH :: nat where "MAX_NESTING_DEPTH = 64"

definition parser_new :: "string \<Rightarrow> parser" where
  "parser_new s = \<lparr>src = s, pos = 0, depth = 0\<rparr>"

text \<open>The \<^verbatim>\<open>?\<close> operator: go on with the value, or return the error.\<close>

definition and_then :: "'a parse_result \<Rightarrow> ('a \<Rightarrow> parser \<Rightarrow> 'b parse_result) \<Rightarrow> 'b parse_result" where
  "and_then r f = (case r of (Inl e, p) \<Rightarrow> (Inl e, p) | (Inr x, p) \<Rightarrow> f x p)"

lemma and_then_simps [simp]:
  "and_then (Inl e, p) f = (Inl e, p)"
  "and_then (Inr x, p) f = f x p"
  by (simp_all add: and_then_def)

lemma and_then_cong [fundef_cong]:
  "r = s \<Longrightarrow> (\<And>x p. s = (Inr x, p) \<Longrightarrow> f x p = g x p) \<Longrightarrow> and_then r f = and_then s g"
  by (auto simp: and_then_def split: prod.splits sum.splits)

definition QUOTE :: char where "QUOTE = CHR 0x22"
definition APOS :: char where "APOS = CHR 0x27"

subsection \<open>Errors and nesting\<close>

definition parser_error :: "parser \<Rightarrow> string \<Rightarrow> parse_error" where
  "parser_error p msg = \<lparr>position = pos p,
     message = (if pos p < length (src p)
       then msg @ '' at or near '' @ [QUOTE] @ byte_as_char (src p ! pos p) @ [QUOTE]
       else msg @ '' at end of input'')\<rparr>"

definition enter_sublist :: "parser \<Rightarrow> unit parse_result" where
  "enter_sublist p =
    (let p1 = p\<lparr>depth := depth p + 1\<rparr> in
     if MAX_NESTING_DEPTH < depth p1
     then (Inl (parser_error p1 (''plan advice nested too deeply (max ''
             @ dec_string MAX_NESTING_DEPTH @ '')'')), p1)
     else (Inr (), p1))"

definition exit_sublist :: "parser \<Rightarrow> parser" where
  "exit_sublist p = p\<lparr>depth := depth p - 1\<rparr>"

subsection \<open>Whitespace and comments\<close>

definition is_space :: "char \<Rightarrow> bool" where
  "is_space c \<longleftrightarrow> c = CHR '' '' \<or> c = CHR 0x09 \<or> c = CHR 0x0A \<or> c = CHR 0x0D
     \<or> c = CHR 0x0C \<or> c = CHR 0x0B"

text \<open>The inner loops only move the position; each is a recursion on the distance to the
  end of the input.\<close>

function skip_spaces :: "string \<Rightarrow> nat \<Rightarrow> nat" where
  "skip_spaces s i = (if i < length s \<and> is_space (s ! i) then skip_spaces s (i + 1) else i)"
  by pat_completeness auto
termination by (relation "measure (\<lambda>(s, i). length s - i)") auto

function find_comment_end :: "string \<Rightarrow> nat \<Rightarrow> nat" where
  "find_comment_end s i =
    (if i + 1 < length s \<and> \<not> (s ! i = CHR ''*'' \<and> s ! (i + 1) = CHR ''/'')
     then find_comment_end s (i + 1) else i)"
  by pat_completeness auto
termination by (relation "measure (\<lambda>(s, i). length s - i)") auto

declare skip_spaces.simps [simp del] find_comment_end.simps [simp del]

lemma skip_spaces_ge: "i \<le> skip_spaces s i"
  by (induction s i rule: skip_spaces.induct) (subst skip_spaces.simps, auto)

lemma find_comment_end_ge: "i \<le> find_comment_end s i"
  by (induction s i rule: find_comment_end.induct) (subst find_comment_end.simps, auto)

lemma skip_spaces_le: "i \<le> length s \<Longrightarrow> skip_spaces s i \<le> length s"
  by (induction s i rule: skip_spaces.induct) (subst skip_spaces.simps, auto)

lemma find_comment_end_le: "i \<le> length s \<Longrightarrow> find_comment_end s i \<le> length s"
  by (induction s i rule: find_comment_end.induct) (subst find_comment_end.simps, auto)

function skip_ws_or_err :: "parser \<Rightarrow> unit parse_result" where
  "skip_ws_or_err p =
    (let s = src p; i = skip_spaces s (pos p) in
     if i + 1 < length s \<and> s ! i = CHR ''/'' \<and> s ! (i + 1) = CHR ''*'' then
       (let j = find_comment_end s (i + 2) in
        if j + 1 < length s then skip_ws_or_err (p\<lparr>pos := j + 2\<rparr>)
        else (Inl \<lparr>position = i, message = ''unterminated comment''\<rparr>, p\<lparr>pos := j\<rparr>))
     else (Inr (), p\<lparr>pos := i\<rparr>))"
  by pat_completeness auto
termination
proof (relation "measure (\<lambda>p. length (src p) - pos p)", goal_cases)
  case (2 p s i j)
  then show ?case
    using skip_spaces_ge [of "pos p" s] find_comment_end_ge [of "i + 2" s] by simp
qed simp

declare skip_ws_or_err.simps [simp del]

definition skip_whitespace_and_comments :: "parser \<Rightarrow> bool \<times> parser" where
  "skip_whitespace_and_comments p =
    (case skip_ws_or_err p of
       (Inl e, q) \<Rightarrow> (False, q)
     | (Inr u, q) \<Rightarrow> (pos q < length (src q), q))"

subsection \<open>Single bytes\<close>

definition peek :: "parser \<Rightarrow> char option" where
  "peek p = (if pos p < length (src p) then Some (src p ! pos p) else None)"

definition advance :: "parser \<Rightarrow> parser" where
  "advance p = p\<lparr>pos := pos p + 1\<rparr>"

definition eat :: "char \<Rightarrow> parser \<Rightarrow> bool \<times> parser" where
  "eat b p = (if peek p = Some b then (True, advance p) else (False, p))"

definition expect :: "char \<Rightarrow> parser \<Rightarrow> unit parse_result" where
  "expect b p =
    (case eat b p of
       (True, q) \<Rightarrow> (Inr (), q)
     | (False, q) \<Rightarrow>
         (Inl (parser_error q (''syntax error: expected '' @ [APOS] @ byte_as_char b @ [APOS])), q))"

subsection \<open>Tokens\<close>

definition is_ident_start :: "char \<Rightarrow> bool" where
  "is_ident_start c \<longleftrightarrow> is_ascii_alphabetic c \<or> c = CHR ''_'' \<or> \<not> is_ascii c"

definition is_ident_cont :: "char \<Rightarrow> bool" where
  "is_ident_cont c \<longleftrightarrow> is_ascii_alphanumeric c \<or> c = CHR ''_'' \<or> c = CHR ''$'' \<or> \<not> is_ascii c"

definition downcase_identifier :: "string \<Rightarrow> string" where
  "downcase_identifier s =
    concat (map (\<lambda>b. byte_as_char (to_ascii_lowercase b)) s)"

function ident_end :: "string \<Rightarrow> nat \<Rightarrow> nat" where
  "ident_end s i = (if i < length s \<and> is_ident_cont (s ! i) then ident_end s (i + 1) else i)"
  by pat_completeness auto
termination by (relation "measure (\<lambda>(s, i). length s - i)") auto

declare ident_end.simps [simp del]

definition parse_bare_identifier :: "parser \<Rightarrow> string parse_result" where
  "parse_bare_identifier p =
    (case peek p of
       None \<Rightarrow> (Inl (parser_error p ''syntax error: expected identifier''), p)
     | Some c \<Rightarrow>
         if \<not> is_ident_start c
         then (Inl (parser_error p ''syntax error: expected identifier''), p)
         else (let p1 = p\<lparr>pos := ident_end (src p) (pos p + 1)\<rparr>;
                   bytes = take (pos p1 - pos p) (drop (pos p) (src p)) in
               if utf8_valid bytes then (Inr (downcase_identifier bytes), p1)
               else (Inl (parser_error p1 ''identifier contains invalid UTF-8''), p1)))"

text \<open>The loop of \<^verbatim>\<open>parse_quoted_identifier\<close>, with the buffer as its accumulator.\<close>

function quoted_loop :: "parser \<Rightarrow> string \<Rightarrow> string parse_result" where
  "quoted_loop p buf =
    (case peek p of
       None \<Rightarrow> (Inl (parser_error p ''unterminated quoted identifier''), p)
     | Some c \<Rightarrow>
         if c = QUOTE then
           (let p1 = advance p in
            if peek p1 = Some QUOTE then quoted_loop (advance p1) (buf @ [QUOTE])
            else if buf = [] then (Inl (parser_error p1 ''zero-length delimited identifier''), p1)
            else (Inr buf, p1))
         else quoted_loop (advance p) (buf @ byte_as_char c))"
  by pat_completeness auto
termination
  by (relation "measure (\<lambda>(p, buf). length (src p) - pos p)")
    (auto simp: peek_def advance_def split: if_splits)

declare quoted_loop.simps [simp del]

definition parse_quoted_identifier :: "parser \<Rightarrow> string parse_result" where
  "parse_quoted_identifier p = quoted_loop (advance p) []"

definition parse_identifier :: "parser \<Rightarrow> string parse_result" where
  "parse_identifier p =
    (if peek p = Some QUOTE then parse_quoted_identifier p else parse_bare_identifier p)"

function integer_loop :: "parser \<Rightarrow> string \<Rightarrow> string parse_result" where
  "integer_loop p buf =
    (case peek p of
       None \<Rightarrow> (Inr buf, p)
     | Some c \<Rightarrow>
         if c = CHR ''_'' then
           (let p1 = advance p in
            case peek p1 of
              None \<Rightarrow> (Inl (parser_error p1 (''integer literal cannot end in '' @ [APOS] @ ''_'' @ [APOS])), p1)
            | Some d \<Rightarrow>
                if \<not> is_ascii_digit d
                then (Inl (parser_error p1 (''integer literal cannot have '' @ [APOS] @ ''_'' @ [APOS] @ '' before non-digit'')), p1)
                else integer_loop (advance p1) (buf @ [d]))
         else if is_ascii_digit c then integer_loop (advance p) (buf @ [c])
         else (Inr buf, p))"
  by pat_completeness auto
termination
  by (relation "measure (\<lambda>(p, buf). length (src p) - pos p)")
    (auto simp: peek_def advance_def split: if_splits)

declare integer_loop.simps [simp del]

text \<open>\<^verbatim>\<open>buf.parse::<u32>()\<close> on a non-empty run of digits fails exactly on overflow.\<close>

definition parse_integer :: "parser \<Rightarrow> u32 parse_result" where
  "parse_integer p =
    (case peek p of
       None \<Rightarrow> (Inl (parser_error p ''syntax error: expected integer''), p)
     | Some c \<Rightarrow>
         if \<not> is_ascii_digit c then (Inl (parser_error p ''syntax error: expected integer''), p)
         else and_then (integer_loop (advance p) [c]) (\<lambda>buf q.
           if dec_value buf < 2 ^ 32 then (Inr (word_of_int (dec_value buf)), q)
           else (Inl \<lparr>position = pos p, message = ''integer out of range''\<rparr>, q)))"

subsection \<open>What a successful token leaves behind\<close>

text \<open>\<open>goes p q\<close>: the parser \<open>q\<close> reads the same input at the same depth, no earlier than
  \<open>p\<close>; \<open>consumes p q\<close>: strictly later. These carry the termination of the list loops.\<close>

definition goes :: "parser \<Rightarrow> parser \<Rightarrow> bool" where
  "goes p q \<longleftrightarrow> src q = src p \<and> depth q = depth p \<and> pos p \<le> pos q
     \<and> (pos p \<le> length (src p) \<longrightarrow> pos q \<le> length (src p))"

definition consumes :: "parser \<Rightarrow> parser \<Rightarrow> bool" where
  "consumes p q \<longleftrightarrow> goes p q \<and> pos p < pos q \<and> pos p < length (src p)"

lemma goes_refl [simp, intro]: "goes p p"
  by (simp add: goes_def)

lemma goes_trans [trans]: "goes p q \<Longrightarrow> goes q r \<Longrightarrow> goes p r"
  by (auto simp: goes_def)

lemma consumes_goes: "consumes p q \<Longrightarrow> goes p q"
  by (simp add: consumes_def)

lemma consumes_goes_trans [trans]: "consumes p q \<Longrightarrow> goes q r \<Longrightarrow> consumes p r"
  by (auto simp: consumes_def goes_def)

lemma goes_consumes_trans [trans]: "goes p q \<Longrightarrow> consumes q r \<Longrightarrow> consumes p r"
  by (auto simp: consumes_def goes_def)

lemma goes_advance: "peek p \<noteq> None \<Longrightarrow> consumes p (advance p)"
  by (auto simp: consumes_def goes_def advance_def peek_def split: if_splits)

lemma peek_Some_consumes: "peek p = Some c \<Longrightarrow> consumes p (advance p)"
  by (rule goes_advance) simp

lemma goes_skip_ws: "skip_ws_or_err p = (r, q) \<Longrightarrow> goes p q"
proof (induction p arbitrary: r q rule: skip_ws_or_err.induct)
  case (1 p)
  let ?s = "src p" and ?i = "skip_spaces (src p) (pos p)"
  let ?j = "find_comment_end ?s (?i + 2)"
  have i: "pos p \<le> ?i" "pos p \<le> length ?s \<Longrightarrow> ?i \<le> length ?s"
    by (simp_all add: skip_spaces_ge skip_spaces_le)
  have j: "?i + 2 \<le> ?j" "?i + 2 \<le> length ?s \<Longrightarrow> ?j \<le> length ?s"
    by (simp_all add: find_comment_end_ge find_comment_end_le)
  show ?case
  proof (cases "?i + 1 < length ?s \<and> ?s ! ?i = CHR ''/'' \<and> ?s ! (?i + 1) = CHR ''*''")
    case comment: True
    show ?thesis
    proof (cases "?j + 1 < length ?s")
      case True
      have "goes p (p\<lparr>pos := ?j + 2\<rparr>)"
        using i j comment True by (auto simp: goes_def)
      moreover have "goes (p\<lparr>pos := ?j + 2\<rparr>) q"
        using "1.IH" [OF refl refl comment refl True] "1.prems" comment True
        by (simp add: skip_ws_or_err.simps [of p] Let_def)
      ultimately show ?thesis by (rule goes_trans)
    next
      case False
      then show ?thesis using "1.prems" comment i j
        by (auto simp: skip_ws_or_err.simps [of p] Let_def goes_def)
    qed
  next
    case False
    then show ?thesis using "1.prems" i
      by (auto simp: skip_ws_or_err.simps [of p] Let_def goes_def split: if_splits)
  qed
qed

lemma goes_skip: "skip_whitespace_and_comments p = (b, q) \<Longrightarrow> goes p q"
  by (auto simp: skip_whitespace_and_comments_def dest: goes_skip_ws split: prod.splits sum.splits)

lemma goes_eat: "eat b p = (r, q) \<Longrightarrow> goes p q"
  by (auto simp: eat_def dest: peek_Some_consumes [THEN consumes_goes] split: if_splits)

lemma consumes_expect: "expect b p = (Inr u, q) \<Longrightarrow> consumes p q"
  by (auto simp: expect_def eat_def dest: peek_Some_consumes split: if_splits)

lemma ident_end_bounds: "i \<le> length s \<Longrightarrow> i \<le> ident_end s i \<and> ident_end s i \<le> length s"
  by (induction s i rule: ident_end.induct) (subst (1 2) ident_end.simps, auto)

lemma consumes_bare: "parse_bare_identifier p = (Inr s, q) \<Longrightarrow> consumes p q"
  using ident_end_bounds [of "pos p + 1" "src p"]
  by (auto simp: parse_bare_identifier_def Let_def consumes_def goes_def peek_def
      split: option.splits if_splits)

lemma goes_quoted_loop: "quoted_loop p buf = (Inr s, q) \<Longrightarrow> consumes p q"
proof (induction p buf rule: quoted_loop.induct)
  case (1 p buf)
  from "1.prems" obtain c where c: "peek p = Some c"
    by (auto simp: quoted_loop.simps [of p] split: option.splits)
  show ?case
  proof (cases "c = QUOTE")
    case q: True
    show ?thesis
    proof (cases "peek (advance p) = Some QUOTE")
      case True
      have "consumes (advance (advance p)) q"
        using "1.IH"(1) [OF c q refl True] "1.prems" c q True
        by (simp add: quoted_loop.simps [of p] Let_def)
      with peek_Some_consumes [OF c] peek_Some_consumes [OF True] show ?thesis
        by (blast intro: consumes_goes_trans consumes_goes)
    next
      case False
      with "1.prems" c q show ?thesis
        by (auto simp: quoted_loop.simps [of p] Let_def dest: peek_Some_consumes split: if_splits)
    qed
  next
    case False
    have "consumes (advance p) q"
      using "1.IH"(2) [OF c False] "1.prems" c False by (simp add: quoted_loop.simps [of p])
    with peek_Some_consumes [OF c] show ?thesis
      by (blast intro: consumes_goes_trans consumes_goes)
  qed
qed

lemma consumes_identifier: "parse_identifier p = (Inr s, q) \<Longrightarrow> consumes p q"
  by (auto simp: parse_identifier_def parse_quoted_identifier_def
      dest: goes_quoted_loop consumes_bare peek_Some_consumes split: if_splits
      intro: consumes_goes_trans consumes_goes)

lemma goes_integer_loop: "integer_loop p buf = (Inr s, q) \<Longrightarrow> goes p q"
proof (induction p buf rule: integer_loop.induct)
  case (1 p buf)
  show ?case
  proof (cases "peek p")
    case None
    with "1.prems" show ?thesis by (simp add: integer_loop.simps [of p])
  next
    case (Some c)
    note c = this
    show ?thesis
    proof (cases "c = CHR ''_''")
      case u: True
      with "1.prems" c obtain d where d: "peek (advance p) = Some d" "is_ascii_digit d"
        by (auto simp: integer_loop.simps [of p] Let_def split: option.splits if_splits)
      have "goes (advance (advance p)) q"
        using "1.IH"(1) [OF c u refl d(1)] "1.prems" c u d
        by (simp add: integer_loop.simps [of p] Let_def)
      with peek_Some_consumes [OF c] peek_Some_consumes [OF d(1)] show ?thesis
        by (blast intro: goes_trans consumes_goes)
    next
      case nu: False
      show ?thesis
      proof (cases "is_ascii_digit c")
        case True
        have "goes (advance p) q"
          using "1.IH"(2) [OF c nu True] "1.prems" c nu True by (simp add: integer_loop.simps [of p])
        with peek_Some_consumes [OF c] show ?thesis by (blast intro: goes_trans consumes_goes)
      next
        case False
        with "1.prems" c nu show ?thesis by (simp add: integer_loop.simps [of p])
      qed
    qed
  qed
qed

lemma consumes_integer: "parse_integer p = (Inr n, q) \<Longrightarrow> consumes p q"
  by (auto simp: parse_integer_def and_then_def
      dest!: goes_integer_loop peek_Some_consumes intro: consumes_goes_trans
      split: option.splits if_splits prod.splits sum.splits)

subsection \<open>Grammar productions\<close>

text \<open>\<^verbatim>\<open>parse_relation_identifier\<close>, cut at its three optional parts.\<close>

definition parse_opt_occurrence :: "parser \<Rightarrow> u32 parse_result" where
  "parse_opt_occurrence p =
    (if peek p = Some CHR ''#'' then
       and_then (skip_ws_or_err (advance p)) (\<lambda>_ p.
       and_then (parse_integer p) (\<lambda>n p.
         if n = 0 then (Inl (parser_error p ''only positive occurrence numbers are permitted''), p)
         else and_then (skip_ws_or_err p) (\<lambda>_ p. (Inr n, p))))
     else (Inr 1, p))"

definition parse_opt_partition :: "parser \<Rightarrow> (string option \<times> string option) parse_result" where
  "parse_opt_partition p =
    (if peek p = Some CHR ''/'' then
       and_then (skip_ws_or_err (advance p)) (\<lambda>_ p.
       and_then (parse_identifier p) (\<lambda>first p.
       and_then (skip_ws_or_err p) (\<lambda>_ p.
         (case eat CHR ''.'' p of
            (True, p) \<Rightarrow>
              and_then (skip_ws_or_err p) (\<lambda>_ p.
              and_then (parse_identifier p) (\<lambda>second p.
              and_then (skip_ws_or_err p) (\<lambda>_ p. (Inr (Some first, Some second), p))))
          | (False, p) \<Rightarrow> (Inr (None, Some first), p)))))
     else (Inr (None, None), p))"

definition parse_opt_plan :: "parser \<Rightarrow> string option parse_result" where
  "parse_opt_plan p =
    (if peek p = Some CHR ''@'' then
       and_then (skip_ws_or_err (advance p)) (\<lambda>_ p.
       and_then (parse_identifier p) (\<lambda>n p. (Inr (Some n), p)))
     else (Inr None, p))"

definition parse_relation_identifier :: "parser \<Rightarrow> relation_identifier parse_result" where
  "parse_relation_identifier p =
     and_then (parse_identifier p) (\<lambda>alias p.
     and_then (skip_ws_or_err p) (\<lambda>_ p.
     and_then (parse_opt_occurrence p) (\<lambda>occ p.
     and_then (parse_opt_partition p) (\<lambda>part p.
     and_then (parse_opt_plan p) (\<lambda>plan p.
       (Inr \<lparr>alias_name = alias, occurrence = occ, partition_schema = fst part,
             partition_name = snd part, plan_name = plan\<rparr>, p))))))"

definition parse_index_name :: "parser \<Rightarrow> index_target parse_result" where
  "parse_index_name p =
     and_then (parse_identifier p) (\<lambda>first p.
     and_then (skip_ws_or_err p) (\<lambda>_ p.
       (case eat CHR ''.'' p of
          (True, p) \<Rightarrow>
            and_then (skip_ws_or_err p) (\<lambda>_ p.
            and_then (parse_identifier p) (\<lambda>second p.
              (Inr \<lparr>it_schema = Some first, it_name = second\<rparr>, p)))
        | (False, p) \<Rightarrow> (Inr \<lparr>it_schema = None, it_name = first\<rparr>, p))))"

lemma and_then_Inr:
  "and_then r f = (Inr y, q) \<longleftrightarrow> (\<exists>x p. r = (Inr x, p) \<and> f x p = (Inr y, q))"
  by (auto simp: and_then_def split: prod.splits sum.splits)

text \<open>Chains of \<open>and_then\<close> only move forward: closure rules over the shape of a production.\<close>

definition going :: "(parser \<Rightarrow> 'a parse_result) \<Rightarrow> bool" where
  "going m \<longleftrightarrow> (\<forall>p x q. m p = (Inr x, q) \<longrightarrow> goes p q)"

named_theorems going_intros \<open>which parser actions only move forward\<close>

lemma goingI: "(\<And>p x q. m p = (Inr x, q) \<Longrightarrow> goes p q) \<Longrightarrow> going m"
  by (simp add: going_def)

lemma goingD: "going m \<Longrightarrow> m p = (Inr x, q) \<Longrightarrow> goes p q"
  by (simp add: going_def)

lemma going_return [going_intros]: "going (\<lambda>p. (Inr x, p))"
  by (simp add: going_def)

lemma going_fail [going_intros]: "going (\<lambda>p. (Inl (e p), p))"
  by (simp add: going_def)

lemma going_then [going_intros]:
  "going m \<Longrightarrow> (\<And>x. going (f x)) \<Longrightarrow> going (\<lambda>p. and_then (m p) f)"
  unfolding going_def and_then_Inr by (blast intro: goes_trans)

lemma going_if [going_intros]: "going m \<Longrightarrow> going n \<Longrightarrow> going (\<lambda>p. if b then m p else n p)"
  by (simp add: going_def)

lemma going_peek [going_intros]:
  assumes "going m" "\<And>x. going (f x)" "going n"
  shows "going (\<lambda>p. if peek p = Some c then and_then (m (advance p)) f else n p)"
proof (rule goingI)
  fix p x q
  assume r: "(if peek p = Some c then and_then (m (advance p)) f else n p) = (Inr x, q)"
  show "goes p q"
  proof (cases "peek p = Some c")
    case True
    have "goes (advance p) q"
      using goingD [OF going_then [OF assms(1,2)]] r True by simp
    with peek_Some_consumes [OF True] show ?thesis by (blast intro: goes_trans consumes_goes)
  next
    case False
    with r assms(3) show ?thesis by (simp add: goingD)
  qed
qed

lemma going_eat [going_intros]:
  assumes "going m" "going n"
  shows "going (\<lambda>p. case eat c p of (True, p) \<Rightarrow> m p | (False, p) \<Rightarrow> n p)"
  using assms unfolding going_def
  by (fastforce split: prod.splits bool.splits dest: goes_eat intro: goes_trans)

lemma going_skip_ws [going_intros]: "going skip_ws_or_err"
  by (rule goingI) (rule goes_skip_ws)

lemma going_identifier [going_intros]: "going parse_identifier"
  by (rule goingI) (rule consumes_goes, rule consumes_identifier)

lemma going_integer [going_intros]: "going parse_integer"
  by (rule goingI) (rule consumes_goes, rule consumes_integer)

lemma going_opt_occurrence [going_intros]: "going parse_opt_occurrence"
  unfolding parse_opt_occurrence_def by (intro going_intros)

lemma going_opt_partition [going_intros]: "going parse_opt_partition"
  unfolding parse_opt_partition_def by (intro going_intros)

lemma going_opt_plan [going_intros]: "going parse_opt_plan"
  unfolding parse_opt_plan_def by (intro going_intros)

lemma going_index_name [going_intros]: "going parse_index_name"
  unfolding parse_index_name_def by (intro going_intros)

lemma consumes_relation_identifier:
  assumes "parse_relation_identifier p = (Inr r, q)"
  shows "consumes p q"
proof -
  let ?rest = "\<lambda>s p. and_then (skip_ws_or_err p) (\<lambda>_ p. and_then (parse_opt_occurrence p) (\<lambda>occ p.
     and_then (parse_opt_partition p) (\<lambda>part p. and_then (parse_opt_plan p) (\<lambda>plan p.
       (Inr \<lparr>alias_name = s, occurrence = occ, partition_schema = fst part,
             partition_name = snd part, plan_name = plan\<rparr>, p)))))"
  from assms obtain s a where a: "parse_identifier p = (Inr s, a)" "?rest s a = (Inr r, q)"
    unfolding parse_relation_identifier_def and_then_Inr [of "parse_identifier p"] by auto
  have "going (?rest s)" by (intro going_intros)
  from goingD [OF this a(2)] consumes_identifier [OF a(1)] show ?thesis
    by (rule consumes_goes_trans [rotated])
qed

lemma going_relation_identifier [going_intros]: "going parse_relation_identifier"
  by (rule goingI) (rule consumes_goes, rule consumes_relation_identifier)

text \<open>The four target lists. Each is a \<^verbatim>\<open>while\<close> loop that pushes to \<^verbatim>\<open>out\<close>; one
  iteration is one unfolding. Termination: every iteration that goes on consumes input.\<close>

definition parser_left :: "parser \<Rightarrow> nat" where
  "parser_left p = length (src p) - pos p"

lemma consumes_left: "consumes p q \<Longrightarrow> parser_left q < parser_left p"
  by (auto simp: consumes_def goes_def parser_left_def)

lemma goes_left: "goes p q \<Longrightarrow> parser_left q \<le> parser_left p"
  by (auto simp: goes_def parser_left_def)

definition prepend :: "'a \<Rightarrow> 'a list parse_result \<Rightarrow> 'a list parse_result" where
  "prepend x r = and_then r (\<lambda>xs p. (Inr (x # xs), p))"

function parse_simple_target_list :: "parser \<Rightarrow> advice_target list parse_result" where
  "parse_simple_target_list p =
    (let (more, p1) = skip_whitespace_and_comments p in
     if more \<and> peek p1 \<noteq> Some CHR '')'' \<and> peek p1 \<noteq> Some CHR ''}'' then
       and_then (parse_relation_identifier p1) (\<lambda>rid p2.
         prepend (target_identifier rid) (parse_simple_target_list p2))
     else (Inr [], p1))"
  by pat_completeness auto
termination
  by (relation "measure parser_left")
    (auto dest!: consumes_relation_identifier goes_skip [OF sym] intro: consumes_left goes_consumes_trans)

declare parse_simple_target_list.simps [simp del]

lemma goes_simple_list: "parse_simple_target_list p = (Inr ts, q) \<Longrightarrow> goes p q"
proof (induction p arbitrary: ts rule: parse_simple_target_list.induct)
  case (1 p)
  obtain more p1 where sk: "skip_whitespace_and_comments p = (more, p1)" by fastforce
  then have p1: "goes p p1" by (rule goes_skip)
  show ?case
  proof (cases "more \<and> peek p1 \<noteq> Some CHR '')'' \<and> peek p1 \<noteq> Some CHR ''}''")
    case True
    with "1.prems" sk obtain rid p2 xs where r: "parse_relation_identifier p1 = (Inr rid, p2)"
      and rest: "parse_simple_target_list p2 = (Inr xs, q)"
      by (auto simp: parse_simple_target_list.simps [of p] prepend_def and_then_Inr)
    from "1.IH" [OF sk [symmetric] refl True r rest] have "goes p2 q" .
    with p1 consumes_relation_identifier [OF r, THEN consumes_goes] show ?thesis
      by (blast intro: goes_trans)
  next
    case False
    with "1.prems" sk p1 show ?thesis by (simp add: parse_simple_target_list.simps [of p])
  qed
qed

text \<open>\<open>self.skip_whitespace_and_comments(); self.expect(b)?\<close>\<close>

definition close_list :: "char \<Rightarrow> parser \<Rightarrow> unit parse_result" where
  "close_list b p = (let (more, p1) = skip_whitespace_and_comments p in expect b p1)"

lemma consumes_close_list: "close_list b p = (Inr u, q) \<Longrightarrow> consumes p q"
  by (auto simp: close_list_def dest!: consumes_expect split: prod.splits
      dest: goes_skip intro: goes_consumes_trans)

lemma enter_sublist_Inr:
  "enter_sublist p = (Inr u, q) \<longleftrightarrow> q = p\<lparr>depth := depth p + 1\<rparr> \<and> depth p < MAX_NESTING_DEPTH"
  by (auto simp: enter_sublist_def Let_def)

text \<open>A sublist opened at \<open>p\<close>, read from inside and left again: back at the depth of \<open>p\<close>.\<close>

lemma consumes_sublist:
  assumes "peek p = Some c" and "enter_sublist (advance p) = (Inr u, p2)"
    and "goes p2 p3" and "close_list b (exit_sublist p3) = (Inr v, p4)"
  shows "consumes p p4"
proof -
  have "consumes p (exit_sublist p3)"
    using assms(1-3)
    by (auto simp: enter_sublist_Inr consumes_def goes_def advance_def exit_sublist_def peek_def
        split: if_splits)
  with consumes_close_list [OF assms(4)] show ?thesis
    by (blast intro: consumes_goes_trans consumes_goes)
qed

definition parse_generic_target :: "parser \<Rightarrow> advice_target parse_result" where
  "parse_generic_target p1 =
    (if peek p1 = Some CHR ''('' then
       and_then (enter_sublist (advance p1)) (\<lambda>_ p2.
       and_then (parse_simple_target_list p2) (\<lambda>cs p3.
       and_then (close_list CHR '')'' (exit_sublist p3)) (\<lambda>_ p4.
         (Inr (target_ordered cs), p4))))
     else
       and_then (parse_relation_identifier p1) (\<lambda>rid p2. (Inr (target_identifier rid), p2)))"

lemma consumes_generic_target: "parse_generic_target p = (Inr t, q) \<Longrightarrow> consumes p q"
  by (auto simp: parse_generic_target_def and_then_Inr
      dest: consumes_relation_identifier goes_simple_list consumes_sublist split: if_splits)

function parse_generic_target_list :: "parser \<Rightarrow> advice_target list parse_result" where
  "parse_generic_target_list p =
    (let (more, p1) = skip_whitespace_and_comments p in
     if more \<and> peek p1 \<noteq> Some CHR '')'' then
       and_then (parse_generic_target p1) (\<lambda>t p2. prepend t (parse_generic_target_list p2))
     else (Inr [], p1))"
  by pat_completeness auto
termination
  by (relation "measure parser_left")
    (auto dest!: consumes_generic_target goes_skip [OF sym] intro: consumes_left goes_consumes_trans)

declare parse_generic_target_list.simps [simp del]

definition parse_index_target :: "parser \<Rightarrow> advice_target parse_result" where
  "parse_index_target p1 =
     and_then (parse_relation_identifier p1) (\<lambda>rid p2.
       (let (more, p3) = skip_whitespace_and_comments p2 in
        and_then (parse_index_name p3) (\<lambda>idx p4.
          (Inr (AdviceTarget Identifier (Some rid) [] (Some idx)), p4))))"

lemma consumes_index_target:
  assumes "parse_index_target p = (Inr t, q)"
  shows "consumes p q"
proof -
  from assms obtain rid p2 where r: "parse_relation_identifier p = (Inr rid, p2)"
    by (auto simp: parse_index_target_def and_then_Inr)
  obtain more p3 where sk: "skip_whitespace_and_comments p2 = (more, p3)" by fastforce
  from assms r sk obtain idx where "parse_index_name p3 = (Inr idx, q)"
    by (auto simp: parse_index_target_def and_then_Inr)
  with consumes_relation_identifier [OF r] goes_skip [OF sk] show ?thesis
    by (blast intro: consumes_goes_trans goingD [OF going_index_name])
qed

function parse_index_target_list :: "parser \<Rightarrow> advice_target list parse_result" where
  "parse_index_target_list p =
    (let (more, p1) = skip_whitespace_and_comments p in
     if more \<and> peek p1 \<noteq> Some CHR '')'' then
       and_then (parse_index_target p1) (\<lambda>t p2. prepend t (parse_index_target_list p2))
     else (Inr [], p1))"
  by pat_completeness auto
termination
  by (relation "measure parser_left")
    (auto dest!: consumes_index_target goes_skip [OF sym] intro: consumes_left goes_consumes_trans)

declare parse_index_target_list.simps [simp del]

text \<open>\<^verbatim>\<open>JOIN_ORDER\<close> lists nest, and the loop goes on from the parser the nested call leaves:
  that the nested call only moves forward is proved on its domain first, by induction on the
  calls, and then gives the termination of the loop.\<close>

function (domintros) parse_join_order_target_list :: "parser \<Rightarrow> advice_target list parse_result" where
  "parse_join_order_target_list p =
    (let (more, p1) = skip_whitespace_and_comments p in
     if more \<and> peek p1 \<noteq> Some CHR '')'' then
       (if peek p1 = Some CHR ''('' then
          and_then (enter_sublist (advance p1)) (\<lambda>_ p2.
          and_then (parse_join_order_target_list p2) (\<lambda>cs p3.
          and_then (close_list CHR '')'' (exit_sublist p3)) (\<lambda>_ p4.
            prepend (target_ordered cs) (parse_join_order_target_list p4))))
        else if peek p1 = Some CHR ''{'' then
          and_then (parse_simple_target_list (advance p1)) (\<lambda>cs p2.
          and_then (close_list CHR ''}'' p2) (\<lambda>_ p3.
            prepend (target_unordered cs) (parse_join_order_target_list p3)))
        else
          and_then (parse_relation_identifier p1) (\<lambda>rid p2.
            prepend (target_identifier rid) (parse_join_order_target_list p2)))
     else (Inr [], p1))"
  by pat_completeness auto

lemma consumes_unordered:
  "peek p = Some c \<Longrightarrow> parse_simple_target_list (advance p) = (Inr cs, p2) \<Longrightarrow>
   close_list b p2 = (Inr v, p3) \<Longrightarrow> consumes p p3"
  by (meson consumes_close_list consumes_goes consumes_goes_trans goes_simple_list peek_Some_consumes)

lemma goes_join_order_dom:
  "parse_join_order_target_list_dom p \<Longrightarrow> parse_join_order_target_list p = (Inr ts, q) \<Longrightarrow> goes p q"
proof (induction p arbitrary: ts q rule: parse_join_order_target_list.pinduct)
  case (1 p)
  obtain more p1 where sk: "skip_whitespace_and_comments p = (more, p1)" by fastforce
  then have p1: "goes p p1" by (rule goes_skip)
  note psimp = parse_join_order_target_list.psimps [OF "1.hyps"] and IH = "1.IH" [OF sk [symmetric] refl]
  have step: "goes p q" if "consumes p1 p'" "goes p' q" for p'
    using that p1 by (meson consumes_goes goes_trans)
  show ?case
  proof (cases "more \<and> peek p1 \<noteq> Some CHR '')''")
    case more: True
    consider (ordered) "peek p1 = Some CHR ''(''" | (unordered) "peek p1 = Some CHR ''{''"
      | (rid) "peek p1 \<noteq> Some CHR ''(''" "peek p1 \<noteq> Some CHR ''{''" by blast
    then show ?thesis
    proof cases
      case ordered
      with "1.prems" sk more obtain u p2 cs p3 v p4 xs
        where e: "enter_sublist (advance p1) = (Inr u, p2)"
          and c: "parse_join_order_target_list p2 = (Inr cs, p3)"
          and x: "close_list CHR '')'' (exit_sublist p3) = (Inr v, p4)"
          and r: "parse_join_order_target_list p4 = (Inr xs, q)"
        by (auto simp: psimp prepend_def and_then_Inr)
      from IH(1) [OF more ordered e c] have "goes p2 p3" .
      from consumes_sublist [OF ordered e this x] IH(2) [OF more ordered e c x r]
      show ?thesis by (rule step)
    next
      case unordered
      with "1.prems" sk more obtain cs p2 v p3 xs
        where c: "parse_simple_target_list (advance p1) = (Inr cs, p2)"
          and x: "close_list CHR ''}'' p2 = (Inr v, p3)"
          and r: "parse_join_order_target_list p3 = (Inr xs, q)"
        by (auto simp: psimp prepend_def and_then_Inr)
      have "peek p1 \<noteq> Some CHR ''(''" using unordered by simp
      from consumes_unordered [OF unordered c x] IH(3) [OF more this unordered c x r]
      show ?thesis by (rule step)
    next
      case rid
      with "1.prems" sk more obtain r p2 xs
        where c: "parse_relation_identifier p1 = (Inr r, p2)"
          and r: "parse_join_order_target_list p2 = (Inr xs, q)"
        by (auto simp: psimp prepend_def and_then_Inr)
      from consumes_relation_identifier [OF c] IH(4) [OF more rid c r] show ?thesis by (rule step)
    qed
  next
    case False
    with "1.prems" sk p1 show ?thesis by (simp add: psimp)
  qed
qed

lemma join_order_dom: "parse_join_order_target_list_dom p"
proof (induction p rule: measure_induct_rule [where f = parser_left])
  case (less p)
  have step: "goes p p1 \<and> (peek p1 = Some c \<longrightarrow> parser_left (advance p1) < parser_left p)"
    if "(True, p1) = skip_whitespace_and_comments p" for p1 c
    using that by (metis consumes_left goes_consumes_trans goes_skip peek_Some_consumes)
  show ?case
  proof (rule parse_join_order_target_list.domintros, goal_cases)
    case (1 p2 a b x p1)
    with step [of p1] have "parser_left p2 < parser_left p"
      by (auto simp: enter_sublist_Inr parser_left_def)
    then show ?case by (rule less)
  next
    case (2 p4 a b x p1 p2 cs p3)
    with step [of p1] have p1: "goes p p1" and "parser_left p2 < parser_left p"
      by (auto simp: enter_sublist_Inr parser_left_def)
    from goes_join_order_dom [OF less [OF this(2)]] 2 have "goes p2 p3" by simp
    with 2 p1 have "parser_left p4 < parser_left p"
      by (meson consumes_left consumes_sublist goes_consumes_trans)
    then show ?case by (rule less)
  next
    case (3 p3 a b x p1 cs p2)
    then have "parser_left p3 < parser_left p"
      by (meson consumes_left consumes_unordered goes_consumes_trans step)
    then show ?case by (rule less)
  next
    case (4 p2 a b x p1 rid)
    then have "parser_left p2 < parser_left p"
      by (meson consumes_left consumes_relation_identifier goes_consumes_trans step)
    then show ?case by (rule less)
  qed
qed

termination parse_join_order_target_list
  by (blast intro: join_order_dom)

declare parse_join_order_target_list.simps [simp del]

lemma goes_join_order: "parse_join_order_target_list p = (Inr ts, q) \<Longrightarrow> goes p q"
  by (rule goes_join_order_dom [OF join_order_dom])

text \<open>Every target of \<^verbatim>\<open>FOREIGN_JOIN\<close> must be a list of more than one relation.\<close>

definition foreign_join_bad :: "advice_target \<Rightarrow> bool" where
  "foreign_join_bad t \<longleftrightarrow> tgt_kind t = Identifier \<or> length (tgt_children t) \<le> 1"

definition parse_targets :: "advice_tag \<Rightarrow> parser \<Rightarrow> advice_target list parse_result" where
  "parse_targets t p =
    (if is_join_order t then parse_join_order_target_list p
     else if requires_index_argument t then parse_index_target_list p
     else if is_simple t then parse_simple_target_list p
     else parse_generic_target_list p)"

definition parse_item :: "parser \<Rightarrow> advice_item parse_result" where
  "parse_item p =
     and_then (parse_identifier p) (\<lambda>raw p.
       (case from_lowercase raw of
          None \<Rightarrow> (Inl \<lparr>position = pos p - length raw,
                     message = ''unrecognized advice tag at or near '' @ [QUOTE] @ raw @ [QUOTE]\<rparr>, p)
        | Some t \<Rightarrow>
            and_then (close_list CHR ''('' p) (\<lambda>_ p.
            and_then (parse_targets t p) (\<lambda>ts p.
            and_then (close_list CHR '')'' p) (\<lambda>_ p.
              if t = JoinOrder \<and> ts = []
              then (Inl (parser_error p ''JOIN_ORDER must have at least one target''), p)
              else if t = ForeignJoin \<and> list_ex foreign_join_bad ts
              then (Inl (parser_error p
                     ''FOREIGN_JOIN targets must contain more than one relation identifier''), p)
              else (Inr \<lparr>tag = t, targets = ts\<rparr>, p))))))"

subsection \<open>The loop of the target lists, as an interface\<close>

text \<open>All four target lists are the same loop around an element parser: skip, stop at a
  closing byte or at the end, otherwise read one element and go on. What the productions need
  of a list is proved once, from the loop equation and the fact that an element consumes
  input; each list is an interpretation.\<close>

locale target_loop =
  fixes elem :: "parser \<Rightarrow> 'a parse_result"
    and stops :: "char list"
    and loop :: "parser \<Rightarrow> 'a list parse_result"
  assumes loop_eq: "loop p =
      (let (more, p1) = skip_whitespace_and_comments p in
       if more \<and> list_all (\<lambda>c. peek p1 \<noteq> Some c) stops
       then and_then (elem p1) (\<lambda>t p2. prepend t (loop p2))
       else (Inr [], p1))"
    and elem_consumes: "elem p = (Inr t, q) \<Longrightarrow> consumes p q"
begin

lemma loop_cases:
  assumes "loop p = (Inr ts, q)"
  obtains (stop) more where "skip_whitespace_and_comments p = (more, q)" and "ts = []"
    | (step) p1 t p2 ts' where "skip_whitespace_and_comments p = (True, p1)"
        and "elem p1 = (Inr t, p2)" and "loop p2 = (Inr ts', q)" and "ts = t # ts'"
  using assms by (subst (asm) loop_eq)
    (auto simp: prepend_def and_then_Inr split: prod.splits if_splits)

lemma loop_goes: "loop p = (Inr ts, q) \<Longrightarrow> goes p q"
proof (induction "parser_left p" arbitrary: p ts rule: less_induct)
  case less
  from less.prems show ?case
  proof (cases rule: loop_cases)
    case (stop more)
    then show ?thesis by (blast intro: goes_skip)
  next
    case (step p1 t p2 ts')
    have c: "consumes p p2"
      using goes_skip [OF step(1)] elem_consumes [OF step(2)] by (rule goes_consumes_trans)
    from less.hyps [OF consumes_left [OF c] step(3)] consumes_goes [OF c] show ?thesis
      by (blast intro: goes_trans)
  qed
qed

lemma loop_all:
  assumes "loop p = (Inr ts, q)"
    and "\<And>p1 t p2. goes p p1 \<Longrightarrow> elem p1 = (Inr t, p2) \<Longrightarrow> P t"
  shows "list_all P ts"
  using assms
proof (induction "parser_left p" arbitrary: p ts rule: less_induct)
  case less
  from less.prems(1) show ?case
  proof (cases rule: loop_cases)
    case (step p1 t p2 ts')
    have g: "goes p p1" using step(1) by (rule goes_skip)
    have c: "consumes p p2" using g elem_consumes [OF step(2)] by (rule goes_consumes_trans)
    have "list_all P ts'"
      using less.hyps [OF consumes_left [OF c] step(3)] less.prems(2) consumes_goes [OF c]
      by (blast intro: goes_trans)
    moreover have "P t" using g step(2) by (rule less.prems(2))
    ultimately show ?thesis by (simp add: step(4))
  qed simp
qed

end

definition parse_simple_target :: "parser \<Rightarrow> advice_target parse_result" where
  "parse_simple_target p =
     and_then (parse_relation_identifier p) (\<lambda>rid p2. (Inr (target_identifier rid), p2))"

definition parse_join_order_target :: "parser \<Rightarrow> advice_target parse_result" where
  "parse_join_order_target p1 =
    (if peek p1 = Some CHR ''('' then
       and_then (enter_sublist (advance p1)) (\<lambda>_ p2.
       and_then (parse_join_order_target_list p2) (\<lambda>cs p3.
       and_then (close_list CHR '')'' (exit_sublist p3)) (\<lambda>_ p4. (Inr (target_ordered cs), p4))))
     else if peek p1 = Some CHR ''{'' then
       and_then (parse_simple_target_list (advance p1)) (\<lambda>cs p2.
       and_then (close_list CHR ''}'' p2) (\<lambda>_ p3. (Inr (target_unordered cs), p3)))
     else parse_simple_target p1)"

lemma and_then_assoc: "and_then (and_then r f) g = and_then r (\<lambda>x p. and_then (f x p) g)"
  by (auto simp: and_then_def split: prod.splits sum.splits)

lemma consumes_simple_target: "parse_simple_target p = (Inr t, q) \<Longrightarrow> consumes p q"
  by (auto simp: parse_simple_target_def and_then_Inr dest: consumes_relation_identifier)

interpretation simple_loop: target_loop parse_simple_target "[CHR '')'', CHR ''}'']" parse_simple_target_list
  by unfold_locales
    (subst parse_simple_target_list.simps,
     simp add: parse_simple_target_def and_then_assoc cong: if_cong, rule consumes_simple_target)

interpretation generic_loop: target_loop parse_generic_target "[CHR '')'']" parse_generic_target_list
  by unfold_locales
    (subst parse_generic_target_list.simps, simp, rule consumes_generic_target)

interpretation index_loop: target_loop parse_index_target "[CHR '')'']" parse_index_target_list
  by unfold_locales
    (subst parse_index_target_list.simps, simp, rule consumes_index_target)

lemma consumes_join_order_target: "parse_join_order_target p = (Inr t, q) \<Longrightarrow> consumes p q"
  by (auto simp: parse_join_order_target_def and_then_Inr
      dest: consumes_simple_target goes_join_order consumes_sublist consumes_unordered split: if_splits)

interpretation join_order_loop: target_loop parse_join_order_target "[CHR '')'']"
  parse_join_order_target_list
proof (unfold_locales, goal_cases)
  case (1 p)
  show ?case
    by (subst parse_join_order_target_list.simps)
      (simp add: parse_join_order_target_def parse_simple_target_def and_then_assoc
        if_distrib [of "\<lambda>r. and_then r _"] split del: if_split cong: if_cong)
next
  case 2
  then show ?case by (rule consumes_join_order_target)
qed

lemma going_targets: "going (parse_targets t)"
  unfolding parse_targets_def
  by (intro going_intros goingI;
      rule join_order_loop.loop_goes index_loop.loop_goes simple_loop.loop_goes generic_loop.loop_goes;
      assumption)

lemma consumes_item:
  assumes "parse_item p = (Inr it, q)"
  shows "consumes p q"
proof -
  from assms obtain raw p1 where i: "parse_identifier p = (Inr raw, p1)"
    by (auto simp: parse_item_def and_then_Inr)
  from assms i obtain u p2 ts p3 v where
    "close_list CHR ''('' p1 = (Inr u, p2)" "parse_targets (the (from_lowercase raw)) p2 = (Inr ts, p3)"
    "close_list CHR '')'' p3 = (Inr v, q)"
    by (auto simp: parse_item_def and_then_Inr split: option.splits if_splits)
  then have "goes p1 q"
    by (meson consumes_close_list consumes_goes goes_trans goingD going_targets)
  with consumes_identifier [OF i] show ?thesis by (rule consumes_goes_trans)
qed

function parse_items :: "parser \<Rightarrow> advice parse_result" where
  "parse_items p =
     and_then (skip_ws_or_err p) (\<lambda>_ p1.
       if length (src p1) \<le> pos p1 then (Inr [], p1)
       else and_then (parse_item p1) (\<lambda>it p2. prepend it (parse_items p2)))"
  by pat_completeness auto
termination
  by (relation "measure parser_left")
    (auto dest!: consumes_item goes_skip_ws intro: consumes_left goes_consumes_trans)

declare parse_items.simps [simp del]

definition parse_advice :: "string \<Rightarrow> parse_error + advice" where
  "parse_advice input = fst (parse_items (parser_new input))"

end
