(* ===== verification/Advice_Shape.thy ===== *)
theory Advice_Shape
  imports Advice_Parser
begin

text \<open>
  The grammar of plan advice as predicates on the syntax trees, and the safety theorem of the
  parser: whatever the input, an accepted document is an instance of the grammar, its lists
  nest at most \<open>MAX_NESTING_DEPTH\<close> deep, occurrence numbers are positive, and the validation
  rules of \<^verbatim>\<open>JOIN_ORDER\<close> and \<^verbatim>\<open>FOREIGN_JOIN\<close> hold.
\<close>

subsection \<open>The grammar\<close>

definition opt_nonempty :: "string option \<Rightarrow> bool" where
  "opt_nonempty s \<longleftrightarrow> s \<noteq> Some []"

definition rid_wf :: "relation_identifier \<Rightarrow> bool" where
  "rid_wf r \<longleftrightarrow> alias_name r \<noteq> [] \<and> occurrence r \<noteq> 0
     \<and> (partition_schema r = None \<or> partition_name r \<noteq> None)
     \<and> opt_nonempty (partition_schema r) \<and> opt_nonempty (partition_name r)
     \<and> opt_nonempty (plan_name r)"

definition idx_wf :: "index_target \<Rightarrow> bool" where
  "idx_wf i \<longleftrightarrow> it_name i \<noteq> [] \<and> opt_nonempty (it_schema i)"

fun leaf_wf :: "advice_target \<Rightarrow> bool" where
  "leaf_wf (AdviceTarget Identifier (Some r) [] None) = rid_wf r"
| "leaf_wf _ = False"

fun index_wf :: "advice_target \<Rightarrow> bool" where
  "index_wf (AdviceTarget Identifier (Some r) [] (Some i)) = (rid_wf r \<and> idx_wf i)"
| "index_wf _ = False"

fun generic_wf :: "advice_target \<Rightarrow> bool" where
  "generic_wf (AdviceTarget OrderedList None cs None) = list_all leaf_wf cs"
| "generic_wf t = leaf_wf t"

text \<open>\<open>join_order_wf d\<close>: at most \<open>d\<close> more levels of ordered lists.\<close>

fun join_order_wf :: "nat \<Rightarrow> advice_target \<Rightarrow> bool" where
  "join_order_wf (Suc d) (AdviceTarget OrderedList None cs None) = list_all (join_order_wf d) cs"
| "join_order_wf d (AdviceTarget UnorderedList None cs None) = list_all leaf_wf cs"
| "join_order_wf d t = leaf_wf t"

definition targets_wf :: "advice_tag \<Rightarrow> advice_target list \<Rightarrow> bool" where
  "targets_wf t ts =
    (if is_join_order t then list_all (join_order_wf MAX_NESTING_DEPTH) ts
     else if requires_index_argument t then list_all index_wf ts
     else if is_simple t then list_all leaf_wf ts
     else list_all generic_wf ts)"

definition item_wf :: "advice_item \<Rightarrow> bool" where
  "item_wf it \<longleftrightarrow> targets_wf (tag it) (targets it)
     \<and> \<not> (tag it = JoinOrder \<and> targets it = [])
     \<and> \<not> (tag it = ForeignJoin \<and> list_ex foreign_join_bad (targets it))"

lemma leaf_wf_join_order: "leaf_wf t \<Longrightarrow> join_order_wf d t"
  by (cases t rule: leaf_wf.cases) auto

lemma leaf_wf_generic: "leaf_wf t \<Longrightarrow> generic_wf t"
  by (cases t rule: leaf_wf.cases) auto

lemma leaf_wf_identifier [simp]: "leaf_wf (target_identifier r) = rid_wf r"
  by (simp add: target_identifier_def)

subsection \<open>What tokens return\<close>

lemma byte_as_char_nonempty [simp]: "byte_as_char c \<noteq> []"
  by (simp add: byte_as_char_def)

lemma bare_nonempty: "parse_bare_identifier p = (Inr s, q) \<Longrightarrow> s \<noteq> []"
  using ident_end_bounds [of "pos p + 1" "src p"]
  by (auto simp: parse_bare_identifier_def Let_def downcase_identifier_def peek_def
      split: option.splits if_splits)

lemma quoted_nonempty: "quoted_loop p buf = (Inr s, q) \<Longrightarrow> s \<noteq> []"
proof (induction p buf rule: quoted_loop.induct)
  case (1 p buf)
  then show ?case
    by (subst (asm) (2) quoted_loop.simps)
      (auto simp: Let_def split: option.splits if_splits)
qed

lemma identifier_nonempty: "parse_identifier p = (Inr s, q) \<Longrightarrow> s \<noteq> []"
  by (auto simp: parse_identifier_def parse_quoted_identifier_def
      dest: bare_nonempty quoted_nonempty split: if_splits)

lemma opt_occurrence_pos: "parse_opt_occurrence p = (Inr n, q) \<Longrightarrow> n \<noteq> 0"
  by (auto simp: parse_opt_occurrence_def and_then_Inr split: if_splits)

lemma opt_partition_wf:
  "parse_opt_partition p = (Inr (s, n), q) \<Longrightarrow>
   (s = None \<or> n \<noteq> None) \<and> opt_nonempty s \<and> opt_nonempty n"
  by (auto simp: parse_opt_partition_def and_then_Inr opt_nonempty_def eat_def
      dest: identifier_nonempty split: if_splits)

lemma opt_plan_wf: "parse_opt_plan p = (Inr n, q) \<Longrightarrow> opt_nonempty n"
  by (auto simp: parse_opt_plan_def and_then_Inr opt_nonempty_def
      dest: identifier_nonempty split: if_splits)

lemma relation_identifier_wf: "parse_relation_identifier p = (Inr r, q) \<Longrightarrow> rid_wf r"
  by (auto simp: parse_relation_identifier_def and_then_Inr rid_wf_def
      dest: identifier_nonempty opt_occurrence_pos opt_partition_wf opt_plan_wf)

lemma index_name_wf: "parse_index_name p = (Inr i, q) \<Longrightarrow> idx_wf i"
  by (auto simp: parse_index_name_def and_then_Inr idx_wf_def opt_nonempty_def
      eat_def dest: identifier_nonempty split: if_splits)

subsection \<open>What target lists return\<close>

lemma simple_target_wf: "parse_simple_target p = (Inr t, q) \<Longrightarrow> leaf_wf t"
  by (auto simp: parse_simple_target_def and_then_Inr dest: relation_identifier_wf)

lemma simple_list_wf: "parse_simple_target_list p = (Inr ts, q) \<Longrightarrow> list_all leaf_wf ts"
  by (rule simple_loop.loop_all) (auto dest: simple_target_wf)

lemma index_target_wf: "parse_index_target p = (Inr t, q) \<Longrightarrow> index_wf t"
  by (auto simp: parse_index_target_def and_then_Inr split_beta
      dest: relation_identifier_wf index_name_wf)

lemma generic_target_wf: "parse_generic_target p = (Inr t, q) \<Longrightarrow> generic_wf t"
  by (auto simp: parse_generic_target_def and_then_Inr target_ordered_def
      dest!: relation_identifier_wf simple_list_wf intro: leaf_wf_generic split: if_splits)

lemma join_order_list_wf:
  "parse_join_order_target_list p = (Inr ts, q) \<Longrightarrow>
   list_all (join_order_wf (MAX_NESTING_DEPTH - depth p)) ts"
proof (induction "parser_left p" arbitrary: p q ts rule: less_induct)
  case less
  show ?case
  proof (rule join_order_loop.loop_all [OF less.prems])
    fix p1 t p2
    assume g: "goes p p1" and t: "parse_join_order_target p1 = (Inr t, p2)"
    have d: "depth p1 = depth p" and l: "parser_left p1 \<le> parser_left p"
      using g by (auto simp: goes_def goes_left)
    consider (ordered) "peek p1 = Some CHR ''(''" | (unordered) "peek p1 = Some CHR ''{''"
      | (rid) "peek p1 \<noteq> Some CHR ''(''" "peek p1 \<noteq> Some CHR ''{''" by blast
    then show "join_order_wf (MAX_NESTING_DEPTH - depth p) t"
    proof cases
      case ordered
      with t obtain u p3 cs p4 where e: "enter_sublist (advance p1) = (Inr u, p3)"
        and c: "parse_join_order_target_list p3 = (Inr cs, p4)" and ts: "t = target_ordered cs"
        by (auto simp: parse_join_order_target_def and_then_Inr)
      have "parser_left (advance p1) < parser_left p1"
        using ordered by (intro consumes_left peek_Some_consumes)
      then have "parser_left p3 < parser_left p"
        using e l by (auto simp: enter_sublist_Inr parser_left_def)
      from less.hyps [OF this c]
      have "list_all (join_order_wf (MAX_NESTING_DEPTH - depth p3)) cs" .
      moreover have "MAX_NESTING_DEPTH - depth p = Suc (MAX_NESTING_DEPTH - depth p3)"
        using e d by (auto simp: enter_sublist_Inr advance_def)
      ultimately show ?thesis by (simp add: ts target_ordered_def)
    next
      case unordered
      with t show ?thesis
        by (auto simp: parse_join_order_target_def and_then_Inr target_unordered_def
            dest: simple_list_wf)
    next
      case rid
      with t show ?thesis
        by (auto simp: parse_join_order_target_def intro!: leaf_wf_join_order simple_target_wf)
    qed
  qed
qed

lemma parse_targets_wf:
  assumes "parse_targets t p = (Inr ts, q)" and "depth p = 0"
  shows "targets_wf t ts"
proof -
  have "list_all index_wf ts" if "parse_index_target_list p = (Inr ts, q)"
    using index_loop.loop_all [OF that] by (blast dest: index_target_wf)
  moreover have "list_all generic_wf ts" if "parse_generic_target_list p = (Inr ts, q)"
    using generic_loop.loop_all [OF that] by (blast dest: generic_target_wf)
  ultimately show ?thesis
    using assms join_order_list_wf [of p ts q] simple_list_wf [of p ts q]
    by (simp add: parse_targets_def targets_wf_def split: if_splits)
qed

subsection \<open>Items and documents\<close>

lemma parse_item_wf:
  assumes "parse_item p = (Inr it, q)" and d: "depth p = 0"
  shows "item_wf it"
proof -
  from assms(1) obtain raw p1 t u p2 ts p3 v p4 where
    i: "parse_identifier p = (Inr raw, p1)" and o: "close_list CHR ''('' p1 = (Inr u, p2)"
    and t: "parse_targets t p2 = (Inr ts, p3)" and it: "it = \<lparr>tag = t, targets = ts\<rparr>"
    and v: "\<not> (t = JoinOrder \<and> ts = [])" "\<not> (t = ForeignJoin \<and> list_ex foreign_join_bad ts)"
    by (auto simp: parse_item_def and_then_Inr split: option.splits if_splits)
  have "depth p2 = 0"
    using consumes_identifier [OF i] consumes_close_list [OF o] d by (simp add: consumes_def goes_def)
  with t v show ?thesis by (simp add: it item_wf_def parse_targets_wf)
qed

lemma parse_items_wf:
  "parse_items p = (Inr a, q) \<Longrightarrow> depth p = 0 \<Longrightarrow> list_all item_wf a"
proof (induction p arbitrary: a rule: parse_items.induct)
  case (1 p)
  from "1.prems"(1) obtain u p1 where sk: "skip_ws_or_err p = (Inr u, p1)"
    by (auto simp: parse_items.simps [of p] and_then_Inr)
  then have d1: "depth p1 = 0" using goes_skip_ws [OF sk] "1.prems"(2) by (simp add: goes_def)
  show ?case
  proof (cases "length (src p1) \<le> pos p1")
    case True
    with "1.prems"(1) sk show ?thesis by (simp add: parse_items.simps [of p])
  next
    case False
    with "1.prems"(1) sk obtain it p2 xs where it: "parse_item p1 = (Inr it, p2)"
      and r: "parse_items p2 = (Inr xs, q)" and a: "a = it # xs"
      by (auto simp: parse_items.simps [of p] and_then_Inr prepend_def)
    have "depth p2 = 0" using consumes_item [OF it] d1 by (simp add: consumes_def goes_def)
    with "1.IH" [OF sk False it r] parse_item_wf [OF it d1] show ?thesis by (simp add: a)
  qed
qed

text \<open>Claim C2. Whatever bytes the advice setting holds, a document that \<^verbatim>\<open>parse_advice\<close>
  accepts is an instance of the grammar: every tag has the targets its class allows, ordered
  lists nest at most \<^verbatim>\<open>MAX_NESTING_DEPTH\<close> = 64 deep (the guard against a stack overflow),
  occurrence numbers are positive, no name is empty, \<^verbatim>\<open>JOIN_ORDER\<close> has a target and every
  \<^verbatim>\<open>FOREIGN_JOIN\<close> target lists at least two relations.\<close>

theorem parse_advice_wf:
  assumes "parse_advice s = Inr a"
  shows "list_all item_wf a"
proof -
  from assms obtain q where "parse_items (parser_new s) = (Inr a, q)"
    by (cases "parse_items (parser_new s)") (simp add: parse_advice_def)
  then show ?thesis by (rule parse_items_wf) (simp add: parser_new_def)
qed

theorem parse_advice_wf_witness:
  "list_all item_wf [\<lparr>tag = SeqScan, targets = [target_identifier (simple_rid ''t'')]\<rparr>]"
  by (rule parse_advice_wf [of "''SEQ_SCAN(t)''"]) code_simp

text \<open>What the theorem does not say: that every rejected document is outside the grammar as it
  is documented. A comment that is not closed is an error where the parser skips space with
  \<^verbatim>\<open>skip_ws_or_err\<close> and \<^verbatim>\<open>?\<close>, but \<^verbatim>\<open>skip_whitespace_and_comments\<close> drops that
  error and leaves the position one byte before the end, where the closing bracket is found.\<close>

theorem unterminated_comment_accepted:
  "parse_advice ''SEQ_SCAN(/* x)'' = Inr [\<lparr>tag = SeqScan, targets = []\<rparr>]"
  "parse_advice ''SEQ_SCAN(t /* x)'' = Inl \<lparr>position = 11, message = ''unterminated comment''\<rparr>"
  by code_simp+

end
