(* ===== verification/Advice_Render.thy ===== *)
theory Advice_Render
  imports Advice_Shape
begin

text \<open>
  The renderer of plan advice (\<^verbatim>\<open>crates/ra-plan-advice/src/render.rs\<close>) and its round trip
  with the parser. The source documents that every advice value parses back from its
  rendering; the theorem here states for which values that is so (\<open>item_ok\<close>: instances of
  the grammar whose names are ASCII and, where they are printed bare, in lower case), and
  two closed theorems show that the two conditions on names are needed.
\<close>

subsection \<open>The renderer\<close>

definition needs_quoting :: "string \<Rightarrow> bool" where
  "needs_quoting s = (case s of
     [] \<Rightarrow> True
   | first # rest \<Rightarrow>
       if \<not> (is_ascii_alphabetic first \<or> first = CHR ''_'' \<or> \<not> is_ascii first) then True
       else if \<not> list_all (\<lambda>b. is_ascii_alphanumeric b \<or> b = CHR ''_'' \<or> b = CHR ''$'' \<or> \<not> is_ascii b) rest
       then True
       else from_lowercase s \<noteq> None)"

definition escape_quotes :: "string \<Rightarrow> string" where
  "escape_quotes s = concat (map (\<lambda>c. if c = QUOTE then [QUOTE, QUOTE] else [c]) s)"

definition write_quoted :: "string \<Rightarrow> string" where
  "write_quoted s = (if needs_quoting s then [QUOTE] @ escape_quotes s @ [QUOTE] else s)"

definition render_occurrence :: "u32 \<Rightarrow> string" where
  "render_occurrence n = (if n \<noteq> 1 then ''#'' @ dec_string (unat n) else [])"

definition render_partition :: "string option \<Rightarrow> string option \<Rightarrow> string" where
  "render_partition schema part = (case part of
     None \<Rightarrow> []
   | Some p \<Rightarrow> ''/'' @ (case schema of Some s \<Rightarrow> write_quoted s @ ''.'' | None \<Rightarrow> []) @ write_quoted p)"

definition render_plan :: "string option \<Rightarrow> string" where
  "render_plan plan = (case plan of None \<Rightarrow> [] | Some p \<Rightarrow> ''@'' @ write_quoted p)"

definition render_identifier :: "relation_identifier \<Rightarrow> string" where
  "render_identifier r = write_quoted (alias_name r) @ render_occurrence (occurrence r)
     @ render_partition (partition_schema r) (partition_name r) @ render_plan (plan_name r)"

definition render_index_target :: "index_target \<Rightarrow> string" where
  "render_index_target i =
     (case it_schema i of Some s \<Rightarrow> write_quoted s @ ''.'' | None \<Rightarrow> []) @ write_quoted (it_name i)"

fun render_target :: "bool \<Rightarrow> advice_target \<Rightarrow> string" where
  "render_target needs_index (AdviceTarget k rid cs idx) = (case k of
     Identifier \<Rightarrow>
       (case rid of Some r \<Rightarrow> render_identifier r | None \<Rightarrow> [])
       @ (if needs_index
          then (case idx of Some i \<Rightarrow> '' '' @ render_index_target i | None \<Rightarrow> []) else [])
   | OrderedList \<Rightarrow> ''('' @ join_with '' '' (map (render_target False) cs) @ '')''
   | UnorderedList \<Rightarrow> ''{'' @ join_with '' '' (map (render_target False) cs) @ ''}'')"

definition render_item :: "advice_item \<Rightarrow> string" where
  "render_item it = as_keyword (tag it) @ ''(''
     @ join_with '' '' (map (render_target (requires_index_argument (tag it))) (targets it)) @ '')''"

definition render_advice :: "advice \<Rightarrow> string" where
  "render_advice a = join_with '' '' (map render_item a)"

subsection \<open>Names that survive\<close>

definition ident_ok :: "string \<Rightarrow> bool" where
  "ident_ok s \<longleftrightarrow> s \<noteq> [] \<and> list_all is_ascii s
     \<and> (needs_quoting s \<or> list_all (\<lambda>c. \<not> is_ascii_uppercase c) s)"

definition opt_ok :: "string option \<Rightarrow> bool" where
  "opt_ok s = (case s of None \<Rightarrow> True | Some x \<Rightarrow> ident_ok x)"

definition rid_names_ok :: "relation_identifier \<Rightarrow> bool" where
  "rid_names_ok r \<longleftrightarrow> ident_ok (alias_name r) \<and> opt_ok (partition_schema r)
     \<and> opt_ok (partition_name r) \<and> opt_ok (plan_name r)"

definition idx_names_ok :: "index_target \<Rightarrow> bool" where
  "idx_names_ok i \<longleftrightarrow> ident_ok (it_name i) \<and> opt_ok (it_schema i)"

fun names_ok :: "advice_target \<Rightarrow> bool" where
  "names_ok (AdviceTarget k rid cs idx) \<longleftrightarrow>
     (case rid of None \<Rightarrow> True | Some r \<Rightarrow> rid_names_ok r)
     \<and> (case idx of None \<Rightarrow> True | Some i \<Rightarrow> idx_names_ok i) \<and> list_all names_ok cs"

definition item_ok :: "advice_item \<Rightarrow> bool" where
  "item_ok it \<longleftrightarrow> item_wf it \<and> list_all names_ok (targets it)"

subsection \<open>The parser at a suffix of its input\<close>

text \<open>\<open>st S d xs\<close>: the parser over \<open>S\<close> at depth \<open>d\<close> with \<open>xs\<close> still to read. For suffixes of
  \<open>S\<close> this is every parser over \<open>S\<close>, and the operations of the parser become equations on
  the text that is left.\<close>

definition st :: "string \<Rightarrow> nat \<Rightarrow> string \<Rightarrow> parser" where
  "st S d xs = \<lparr>src = S, pos = length S - length xs, depth = d\<rparr>"

named_theorems st_simps \<open>parser operations as equations on the remaining text\<close>

lemma st_nth: "suffix (c # xs) S \<Longrightarrow> S ! (length S - Suc (length xs)) = c"
  by (auto simp: suffix_def nth_append)

lemma src_st [st_simps]: "src (st S d xs) = S" and depth_st [st_simps]: "depth (st S d xs) = d"
  by (simp_all add: st_def)

lemma peek_st [st_simps]:
  "suffix xs S \<Longrightarrow> peek (st S d xs) = (case xs of [] \<Rightarrow> None | c # ys \<Rightarrow> Some c)"
  by (auto simp: peek_def st_def st_nth dest: suffix_length_le split: list.splits)

lemma advance_st [st_simps]: "suffix (c # xs) S \<Longrightarrow> advance (st S d (c # xs)) = st S d xs"
  by (auto simp: advance_def st_def dest: suffix_length_le)

lemma pos_end_st: "suffix xs S \<Longrightarrow> pos (st S d xs) < length S \<longleftrightarrow> xs \<noteq> []"
  by (auto simp: st_def suffix_def)

text \<open>Spaces.\<close>

definition drop_spaces :: "string \<Rightarrow> string" where
  "drop_spaces xs = dropWhile is_space xs"

text \<open>No comment starts here.\<close>

definition no_comment :: "string \<Rightarrow> bool" where
  "no_comment xs \<longleftrightarrow> take 2 xs \<noteq> ''/*''"

lemma suffix_drop_spaces: "suffix (drop_spaces xs) xs"
  by (simp add: drop_spaces_def suffix_dropWhile)

lemma skip_spaces_suffix:
  "suffix xs S \<Longrightarrow> skip_spaces S (length S - length xs) = length S - length (drop_spaces xs)"
proof (induction xs)
  case Nil
  then show ?case by (subst skip_spaces.simps) (simp add: drop_spaces_def)
next
  case (Cons c xs)
  then have s: "suffix xs S" and n: "S ! (length S - Suc (length xs)) = c"
    and l: "length S - Suc (length xs) + 1 = length S - length xs" "Suc (length xs) \<le> length S"
    by (auto dest: suffix_ConsD2 suffix_length_le simp: st_nth)
  show ?case
    using Cons.IH [OF s] n l by (subst skip_spaces.simps) (auto simp: drop_spaces_def)
qed

lemma skip_ws_st [st_simps]:
  assumes "suffix xs S" and "no_comment (drop_spaces xs)"
  shows "skip_ws_or_err (st S d xs) = (Inr (), st S d (drop_spaces xs))"
proof -
  let ?ys = "drop_spaces xs"
  have s: "suffix ?ys S" using assms(1) suffix_drop_spaces by (blast intro: suffix_order.order_trans)
  have "\<not> (S ! (length S - length ?ys) = CHR ''/'' \<and> S ! (length S - length ?ys + 1) = CHR ''*'')"
    if "length S - length ?ys + 1 < length S"
  proof
    assume a: "S ! (length S - length ?ys) = CHR ''/'' \<and> S ! (length S - length ?ys + 1) = CHR ''*''"
    from s obtain zs where S: "S = zs @ ?ys" by (auto simp: suffix_def)
    with that have "1 < length ?ys" by (metis add_diff_cancel_right' length_append nat_add_left_cancel_less)
    then obtain a b r where ys: "?ys = a # b # r"
      by (metis One_nat_def length_Cons less_numeral_extra(4) list.exhaust list.size(3) not_less_zero)
    have "S ! (length S - length ?ys) = a" "S ! (length S - length ?ys + 1) = b"
      by (subst S, simp add: ys nth_append)+
    with a ys have "take 2 ?ys = ''/*''" by simp
    with assms(2) show False by (simp add: no_comment_def)
  qed
  then show ?thesis
    using skip_spaces_suffix [OF assms(1)]
    by (subst skip_ws_or_err.simps) (auto simp: st_def Let_def)
qed

lemma skip_st [st_simps]:
  assumes "suffix xs S" and "no_comment (drop_spaces xs)"
  shows "skip_whitespace_and_comments (st S d xs) = (drop_spaces xs \<noteq> [], st S d (drop_spaces xs))"
proof -
  have "suffix (drop_spaces xs) S"
    using assms(1) suffix_drop_spaces by (blast intro: suffix_order.order_trans)
  from pos_end_st [OF this, of d] show ?thesis
    by (simp add: skip_whitespace_and_comments_def st_simps assms)
qed

lemma eat_st [st_simps]:
  "suffix xs S \<Longrightarrow> eat b (st S d xs) =
     (case xs of c # ys \<Rightarrow> (if c = b then (True, st S d ys) else (False, st S d xs))
      | [] \<Rightarrow> (False, st S d xs))"
  by (auto simp: eat_def st_simps split: list.splits)

lemma expect_st [st_simps]: "suffix (b # xs) S \<Longrightarrow> expect b (st S d (b # xs)) = (Inr (), st S d xs)"
  by (simp add: expect_def st_simps)

lemma close_list_st:
  "suffix xs S \<Longrightarrow> drop_spaces xs = b # ys \<Longrightarrow> b \<noteq> CHR ''/'' \<Longrightarrow>
   close_list b (st S d xs) = (Inr (), st S d ys)"
  using suffix_drop_spaces [of xs]
  by (auto simp: close_list_def st_simps no_comment_def dest: suffix_order.order_trans)

subsection \<open>Names and numbers\<close>

definition token_end :: "string \<Rightarrow> bool" where
  "token_end t \<longleftrightarrow> t = [] \<or> (\<not> is_ident_cont (hd t) \<and> hd t \<noteq> QUOTE)"

lemma ident_end_suffix:
  "suffix (cs @ t) S \<Longrightarrow> list_all is_ident_cont cs \<Longrightarrow> token_end t \<Longrightarrow>
   ident_end S (length S - length (cs @ t)) = length S - length t"
proof (induction cs)
  case Nil
  then show ?case
    by (subst ident_end.simps) (auto simp: token_end_def suffix_def nth_append hd_conv_nth)
next
  case (Cons c cs)
  then have s: "suffix (cs @ t) S" by (auto dest: suffix_ConsD2)
  have n: "S ! (length S - length ((c # cs) @ t)) = c" using Cons.prems(1) st_nth by fastforce
  have l: "length S - length ((c # cs) @ t) + 1 = length S - length (cs @ t)"
      "length S - length ((c # cs) @ t) < length S"
    using suffix_length_le [OF Cons.prems(1)] by auto
  show ?case using Cons.IH [OF s] Cons.prems(2,3) n l by (subst ident_end.simps) simp
qed

lemma is_ascii_to_lower: "is_ascii c \<Longrightarrow> is_ascii (to_ascii_lowercase c)"
  by (auto simp: to_ascii_lowercase_def is_ascii_def is_ascii_uppercase_def)

lemma parse_bare_st:
  assumes s: "suffix (c # cs @ t) S" and i: "is_ident_start c" "list_all is_ident_cont cs"
    and t: "token_end t" and a: "list_all is_ascii (c # cs)"
  shows "parse_bare_identifier (st S d (c # cs @ t)) =
    (Inr (map to_ascii_lowercase (c # cs)), st S d t)"
proof -
  have s': "suffix (cs @ t) S" using s by (rule suffix_ConsD2)
  have p: "length S - length (c # cs @ t) + 1 = length S - length (cs @ t)"
    using suffix_length_le [OF s] by auto
  have e: "ident_end S (pos (st S d (c # cs @ t)) + 1) = length S - length t"
    using ident_end_suffix [OF s' i(2) t] p by (simp add: st_def)
  have "drop (length S - length (c # cs @ t)) S = c # cs @ t" using s by (rule suffix_drop_length)
  moreover have "length S - length t - (length S - length (c # cs @ t)) = length (c # cs)"
    using suffix_length_le [OF s] by simp
  ultimately have b: "take (length S - length t - (length S - length (c # cs @ t)))
      (drop (length S - length (c # cs @ t)) S) = c # cs" by simp
  have "\<forall>c \<in> set (map to_ascii_lowercase (c # cs)). is_ascii c"
    using a by (auto simp: list_all_iff is_ascii_to_lower)
  from concat_byte_as_char_ascii [OF this]
  have "downcase_identifier (c # cs) = map to_ascii_lowercase (c # cs)"
    by (simp add: downcase_identifier_def comp_def)
  moreover have "utf8_valid (c # cs)" using a by (simp add: utf8_valid_ascii list_all_iff)
  ultimately show ?thesis
    using s i(1) e b
    by (simp add: parse_bare_identifier_def st_simps) (simp add: st_def)
qed

lemma quoted_loop_st:
  "suffix (escape_quotes s @ QUOTE # t) S \<Longrightarrow> list_all is_ascii s \<Longrightarrow> t = [] \<or> hd t \<noteq> QUOTE \<Longrightarrow>
   buf @ s \<noteq> [] \<Longrightarrow>
   quoted_loop (st S d (escape_quotes s @ QUOTE # t)) buf = (Inr (buf @ s), st S d t)"
proof (induction s arbitrary: buf)
  case Nil
  then show ?case
    by (subst quoted_loop.simps)
      (auto simp: escape_quotes_def st_simps suffix_ConsD2 split: list.splits)
next
  case (Cons c s)
  show ?case
  proof (cases "c = QUOTE")
    case True
    then have e: "escape_quotes (c # s) @ QUOTE # t = QUOTE # QUOTE # escape_quotes s @ QUOTE # t"
      by (simp add: escape_quotes_def)
    have s1: "suffix (QUOTE # escape_quotes s @ QUOTE # t) S"
      and s2: "suffix (escape_quotes s @ QUOTE # t) S"
      using Cons.prems(1) unfolding e by (auto dest: suffix_ConsD2)
    show ?thesis
      using Cons.IH [OF s2, of "buf @ [QUOTE]"] Cons.prems s1 True
      unfolding e by (subst quoted_loop.simps) (simp add: st_simps e)
  next
    case False
    then have e: "escape_quotes (c # s) @ QUOTE # t = c # escape_quotes s @ QUOTE # t"
      by (simp add: escape_quotes_def)
    have s1: "suffix (escape_quotes s @ QUOTE # t) S"
      using Cons.prems(1) unfolding e by (auto dest: suffix_ConsD2)
    show ?thesis
      using Cons.IH [OF s1, of "buf @ [c]"] Cons.prems False
      unfolding e by (subst quoted_loop.simps) (simp add: st_simps e byte_as_char_ascii)
  qed
qed

lemma identifier_st [st_simps]:
  assumes s: "suffix (write_quoted x @ t) S" and x: "ident_ok x" and t: "token_end t"
  shows "parse_identifier (st S d (write_quoted x @ t)) = (Inr x, st S d t)"
proof (cases "needs_quoting x")
  case True
  then have e: "write_quoted x @ t = QUOTE # escape_quotes x @ QUOTE # t"
    by (simp add: write_quoted_def)
  have s1: "suffix (escape_quotes x @ QUOTE # t) S" using s unfolding e by (rule suffix_ConsD2)
  have "t = [] \<or> hd t \<noteq> QUOTE" using t by (auto simp: token_end_def)
  then show ?thesis
    using quoted_loop_st [OF s1, of "[]" d] x s
    unfolding e by (simp add: parse_identifier_def parse_quoted_identifier_def st_simps ident_ok_def)
next
  case False
  then obtain c cs where c: "x = c # cs" "is_ident_start c" "list_all is_ident_cont cs"
    by (auto simp: needs_quoting_def is_ident_start_def is_ident_cont_def list_all_iff
        split: list.splits if_splits)
  have e: "write_quoted x @ t = c # cs @ t" using False c by (simp add: write_quoted_def)
  have "c \<noteq> QUOTE"
    using c(2) by (auto simp: is_ident_start_def rust_defs QUOTE_def)
  moreover have "map to_ascii_lowercase x = x"
    using x False by (auto simp: ident_ok_def list_all_iff to_ascii_lowercase_def intro: map_idI)
  moreover have "parse_bare_identifier (st S d (c # cs @ t)) = (Inr (map to_ascii_lowercase x), st S d t)"
    using parse_bare_st [OF s [unfolded e] c(2,3) t] x by (simp add: c(1) ident_ok_def)
  ultimately show ?thesis
    using s unfolding e by (simp add: parse_identifier_def st_simps)
qed

lemma integer_loop_st:
  "suffix (ds @ t) S \<Longrightarrow> list_all is_ascii_digit ds \<Longrightarrow> token_end t \<Longrightarrow>
   integer_loop (st S d (ds @ t)) buf = (Inr (buf @ ds), st S d t)"
proof (induction ds arbitrary: buf)
  case Nil
  then show ?case
    by (subst integer_loop.simps)
      (auto simp: st_simps token_end_def is_ident_cont_def is_ascii_alphanumeric_def split: list.splits)
next
  case (Cons c ds)
  then have s: "suffix (ds @ t) S" by (auto dest: suffix_ConsD2)
  have "c \<noteq> CHR ''_''" using Cons.prems(2) by (auto simp: is_ascii_digit_def)
  with Cons.IH [OF s, of "buf @ [c]"] Cons.prems show ?case
    by (subst integer_loop.simps) (simp add: st_simps)
qed

lemma integer_st [st_simps]:
  assumes s: "suffix (dec_string (unat n) @ t) S" and t: "token_end t"
  shows "parse_integer (st S d (dec_string (unat n) @ t)) = (Inr n, st S d t)"
proof -
  obtain c cs where c: "dec_string (unat n) = c # cs" by (cases "dec_string (unat n)") auto
  have dg: "is_ascii_digit c" "list_all is_ascii_digit cs"
    using dec_string_digits [of "unat n"] by (auto simp: c list_all_iff)
  have "suffix (cs @ t) S" using s by (simp add: c suffix_ConsD2)
  from integer_loop_st [OF this dg(2) t, of d "[c]"]
  have "integer_loop (st S d (cs @ t)) [c] = (Inr (dec_string (unat n)), st S d t)" by (simp add: c)
  moreover have "int (unat n) < 2 ^ 32" using unsigned_less [of n, where ?'a = int] by simp
  ultimately show ?thesis
    using s dg(1) dec_value_dec_string [of "unat n"] unfolding c
    by (simp add: parse_integer_def st_simps)
qed

subsection \<open>Relation identifiers\<close>

text \<open>\<open>gap cs r\<close>: a name may end before \<open>r\<close>, and what follows the spaces is no comment and
  none of \<open>cs\<close>.\<close>

definition gap :: "char list \<Rightarrow> string \<Rightarrow> bool" where
  "gap cs r \<longleftrightarrow> token_end r \<and> no_comment (drop_spaces r)
     \<and> drop_spaces r \<noteq> [] \<and> hd (drop_spaces r) \<notin> set cs"

lemma gap_token_end: "gap cs r \<Longrightarrow> token_end r"
  and gap_no_comment: "gap cs r \<Longrightarrow> no_comment (drop_spaces r)"
  by (simp_all add: gap_def)

lemma gap_mono: "gap cs r \<Longrightarrow> set ds \<subseteq> set cs \<Longrightarrow> gap ds r"
  by (auto simp: gap_def)

lemma suffix_drop_spacesI [simp]: "suffix xs S \<Longrightarrow> suffix (drop_spaces xs) S"
  using suffix_drop_spaces by (blast intro: suffix_order.order_trans)

lemma drop_spaces_Cons: "\<not> is_space c \<Longrightarrow> drop_spaces (c # r) = c # r"
  by (simp add: drop_spaces_def)

lemma drop_spaces_idem [simp]: "drop_spaces (drop_spaces r) = drop_spaces r"
  by (simp add: drop_spaces_def)

lemma drop_spaces_space [simp]: "drop_spaces (CHR '' '' # r) = drop_spaces r"
  by (simp add: drop_spaces_def is_space_def)

lemmas char_eval = is_ident_cont_def is_ident_start_def is_space_def QUOTE_def
  is_ascii_alphanumeric_def is_ascii_alphabetic_def is_ascii_Char is_ascii_uppercase_Char
  is_ascii_lowercase_Char is_ascii_digit_Char

lemma gap_space: "drop_spaces r = c # r' \<Longrightarrow> c \<noteq> CHR ''/'' \<Longrightarrow> c \<notin> set cs \<Longrightarrow> gap cs (CHR '' '' # r)"
  by (simp add: gap_def token_end_def no_comment_def char_eval)

lemma gap_close: "c = CHR '')'' \<or> c = CHR ''}'' \<Longrightarrow> c \<notin> set cs \<Longrightarrow> gap cs (c # r)"
  by (elim disjE; simp add: gap_def token_end_def no_comment_def drop_spaces_Cons char_eval)

text \<open>The first byte of a printed name.\<close>

definition name_start :: "char \<Rightarrow> bool" where
  "name_start c \<longleftrightarrow> c = QUOTE \<or> is_ident_start c"

lemma name_startD:
  "name_start c \<Longrightarrow> \<not> is_space c \<and> c \<notin> set ''*/#@.(){}''"
  by (cases c) (auto simp: name_start_def char_eval)

lemma write_quoted_start:
  obtains c cs where "write_quoted x = c # cs" and "name_start c"
proof (cases "needs_quoting x")
  case False
  then obtain c cs where "x = c # cs" "is_ident_start c"
    by (auto simp: needs_quoting_def is_ident_start_def split: list.splits if_splits)
  with False that show thesis by (simp add: write_quoted_def name_start_def)
qed (use that in \<open>simp add: write_quoted_def name_start_def\<close>)

lemma name_no_space [simp]: "drop_spaces (write_quoted x @ r) = write_quoted x @ r"
  by (rule write_quoted_start [of x]) (use name_startD in \<open>auto simp: drop_spaces_Cons\<close>)

lemma name_no_comment [simp]: "no_comment (write_quoted x @ r)"
  by (rule write_quoted_start [of x]) (use name_startD in \<open>auto simp: no_comment_def\<close>)

lemma no_comment_slash_name [simp]: "no_comment (CHR ''/'' # write_quoted x @ r)"
  by (rule write_quoted_start [of x]) (use name_startD in \<open>auto simp: no_comment_def\<close>)

lemma token_end_punct [simp]:
  "c \<in> set ''#/@.) }'' \<Longrightarrow> token_end (c # r)"
  by (auto simp: token_end_def char_eval)

lemma drop_spaces_punct [simp]:
  "c \<in> set ''#/@.)}('' \<Longrightarrow> drop_spaces (c # r) = c # r"
  by (auto simp: drop_spaces_def char_eval)

lemma no_comment_punct [simp]: "c \<noteq> CHR ''/'' \<Longrightarrow> no_comment (c # r)"
  by (simp add: no_comment_def)

lemma gap_peek:
  "gap cs r \<Longrightarrow> suffix r S \<Longrightarrow> c \<in> set cs \<Longrightarrow> peek (st S d (drop_spaces r)) \<noteq> Some c"
  by (auto simp: gap_def st_simps split: list.splits)

text \<open>The three optional parts, from the last to the first.\<close>

lemma plan_st:
  assumes s: "suffix (render_plan pn @ r) S" and g: "gap ''#/@.'' r" and ok: "opt_ok pn"
  shows "parse_opt_plan (st S d (drop_spaces (render_plan pn @ r))) =
    (Inr pn, st S d (if pn = None then drop_spaces r else r))"
proof (cases pn)
  case None
  with gap_peek [OF g, of S "CHR ''@''" d] s show ?thesis
    by (simp add: parse_opt_plan_def render_plan_def)
next
  case (Some x)
  have "suffix (write_quoted x @ r) S" using s Some by (simp add: render_plan_def suffix_ConsD2)
  with s Some g ok show ?thesis
    by (simp add: parse_opt_plan_def render_plan_def st_simps opt_ok_def gap_token_end gap_no_comment)
qed

lemma plan_gap: "gap ''#/@.'' r \<Longrightarrow> gap ''#/.'' (render_plan pn @ r)"
  by (auto simp: render_plan_def gap_def split: option.splits)

lemma partition_st:
  assumes s: "suffix (render_partition ps pp @ X) S" and g: "gap ''#/.'' X"
    and ok: "opt_ok ps" "opt_ok pp" and w: "ps = None \<or> pp \<noteq> None"
  shows "parse_opt_partition (st S d (drop_spaces (render_partition ps pp @ X))) =
    (Inr (ps, pp), st S d (drop_spaces X))"
proof (cases pp)
  case None
  with gap_peek [OF g, of S "CHR ''/''" d] s w show ?thesis
    by (simp add: parse_opt_partition_def render_partition_def)
next
  case pp: (Some x)
  have sx: "suffix (write_quoted x @ X) S"
    using s pp
    by (auto simp: render_partition_def dest!: suffix_ConsD2 dest: suffix_appendD2 suffix_ConsD2
        split: option.splits)
  show ?thesis
  proof (cases ps)
    case None
    have "eat CHR ''.'' (st S d (drop_spaces X)) = (False, st S d (drop_spaces X))"
      using gap_peek [OF g, of S "CHR ''.''" d] suffix_appendD2 [OF sx] by (simp add: eat_def)
    with s sx pp None g ok suffix_appendD2 [OF sx] show ?thesis
      by (simp add: parse_opt_partition_def render_partition_def st_simps opt_ok_def gap_token_end gap_no_comment)
  next
    case (Some y)
    have sy: "suffix (write_quoted y @ CHR ''.'' # write_quoted x @ X) S"
      using s pp Some by (auto simp: render_partition_def suffix_ConsD2)
    with s sx pp Some g ok suffix_appendD2 [OF sx] suffix_appendD2 [OF sy] show ?thesis
      by (simp add: parse_opt_partition_def render_partition_def st_simps opt_ok_def gap_token_end gap_no_comment)
  qed
qed

lemma partition_gap: "gap ''#/.'' X \<Longrightarrow> gap ''#'' (render_partition ps pp @ X)"
  by (auto simp: render_partition_def gap_def split: option.splits)

lemma occurrence_st:
  assumes s: "suffix (render_occurrence n @ Y) S" and g: "gap ''#'' Y" and n: "n \<noteq> 0"
  shows "parse_opt_occurrence (st S d (drop_spaces (render_occurrence n @ Y))) =
    (Inr n, st S d (drop_spaces Y))"
proof (cases "n = 1")
  case True
  with gap_peek [OF g, of S "CHR ''#''" d] s show ?thesis
    by (simp add: parse_opt_occurrence_def render_occurrence_def)
next
  case False
  have sn: "suffix (dec_string (unat n) @ Y) S"
    using s False by (simp add: render_occurrence_def suffix_ConsD2)
  obtain c cs where c: "dec_string (unat n) = c # cs" by (cases "dec_string (unat n)") auto
  then have "is_ascii_digit c" using dec_string_digits [of "unat n"] by simp
  then have "drop_spaces (dec_string (unat n) @ Y) = dec_string (unat n) @ Y"
    "no_comment (dec_string (unat n) @ Y)"
    unfolding c by (auto simp: drop_spaces_def is_space_def is_ascii_digit_def no_comment_def)
  with s sn False g n suffix_appendD2 [OF sn] show ?thesis
    by (simp add: parse_opt_occurrence_def render_occurrence_def st_simps gap_token_end gap_no_comment)
qed

lemma occurrence_gap: "gap ''#'' Y \<Longrightarrow> gap [] (render_occurrence n @ Y)"
  by (auto simp: render_occurrence_def gap_def)

text \<open>A relation identifier parses back; without a plan name the parser has also skipped the
  spaces that follow.\<close>

lemma rid_st:
  assumes s: "suffix (render_identifier i @ r) S" and g: "gap ''#/@.'' r"
    and w: "rid_wf i" and ok: "rid_names_ok i"
  shows "parse_relation_identifier (st S d (render_identifier i @ r)) =
    (Inr i, st S d (if plan_name i = None then drop_spaces r else r))"
proof -
  let ?X = "render_plan (plan_name i) @ r"
  let ?Y = "render_partition (partition_schema i) (partition_name i) @ ?X"
  let ?Z = "render_occurrence (occurrence i) @ ?Y"
  have gs: "gap ''#/.'' ?X" "gap ''#'' ?Y" "gap [] ?Z"
    using g by (auto intro: plan_gap partition_gap occurrence_gap)
  have e: "render_identifier i @ r = write_quoted (alias_name i) @ ?Z"
    by (simp add: render_identifier_def)
  have ss: "suffix (write_quoted (alias_name i) @ ?Z) S" using s by (simp only: e)
  then have "suffix ?Z S" by (rule suffix_appendD2)
  moreover then have "suffix ?Y S" by (rule suffix_appendD2)
  moreover then have "suffix ?X S" by (rule suffix_appendD2)
  ultimately show ?thesis
    using ss w ok gs g plan_st [of "plan_name i" r S d]
      partition_st [of "partition_schema i" "partition_name i" ?X S d]
      occurrence_st [of "occurrence i" ?Y S d]
    unfolding e parse_relation_identifier_def
    by (simp add: st_simps gap_token_end gap_no_comment rid_names_ok_def rid_wf_def)
qed

lemma index_name_st:
  assumes s: "suffix (render_index_target i @ r) S" and g: "gap ''#/@.'' r" and ok: "idx_names_ok i"
  shows "parse_index_name (st S d (render_index_target i @ r)) =
    (Inr i, st S d (if it_schema i = None then drop_spaces r else r))"
proof (cases "it_schema i")
  case None
  have sx: "suffix (write_quoted (it_name i) @ r) S" using s None by (simp add: render_index_target_def)
  have "eat CHR ''.'' (st S d (drop_spaces r)) = (False, st S d (drop_spaces r))"
    using gap_peek [OF g, of S "CHR ''.''" d] suffix_appendD2 [OF sx] by (simp add: eat_def)
  with sx None g ok suffix_appendD2 [OF sx] show ?thesis
    by (simp add: parse_index_name_def render_index_target_def st_simps gap_token_end gap_no_comment idx_names_ok_def)
next
  case (Some y)
  have sy: "suffix (write_quoted y @ CHR ''.'' # write_quoted (it_name i) @ r) S"
    using s Some by (simp add: render_index_target_def)
  have sx: "suffix (write_quoted (it_name i) @ r) S"
    using suffix_appendD2 [OF sy] by (rule suffix_ConsD2)
  with sy Some g ok suffix_appendD2 [OF sy] show ?thesis
    by (simp add: parse_index_name_def render_index_target_def st_simps gap_token_end gap_no_comment idx_names_ok_def opt_ok_def)
qed

subsection \<open>Target lists\<close>

text \<open>The printed list after the byte that opens it: the elements separated by spaces, the
  closing byte \<open>b\<close>, and the rest of the document.\<close>

definition listing :: "('a \<Rightarrow> string) \<Rightarrow> 'a list \<Rightarrow> char \<Rightarrow> string \<Rightarrow> string" where
  "listing f ts b r = join_with '' '' (map f ts) @ b # r"

lemma listing_Nil [simp]: "listing f [] b r = b # r"
  by (simp add: listing_def)

lemma listing_Cons:
  "listing f (t # ts) b r = f t @ (if ts = [] then b # r else CHR '' '' # listing f ts b r)"
  by (simp add: listing_def join_with_Cons)

text \<open>How an element starts.\<close>

definition elem_start :: "char \<Rightarrow> bool" where
  "elem_start c \<longleftrightarrow> name_start c \<or> c = CHR ''('' \<or> c = CHR ''{''"

lemma elem_startD: "elem_start c \<Longrightarrow> \<not> is_space c \<and> c \<notin> set ''*/#@.)}''"
  unfolding elem_start_def
  by (elim disjE) (drule name_startD, simp, simp_all add: is_space_def)

definition starts :: "(char \<Rightarrow> bool) \<Rightarrow> string \<Rightarrow> bool" where
  "starts P s \<longleftrightarrow> (\<exists>c cs. s = c # cs \<and> P c)"

lemma starts_append: "starts P s \<Longrightarrow> starts P (s @ t)"
  by (auto simp: starts_def)

lemma starts_mono: "starts P s \<Longrightarrow> (\<And>c. P c \<Longrightarrow> Q c) \<Longrightarrow> starts Q s"
  by (auto simp: starts_def)

lemma name_starts: "starts name_start (write_quoted x)"
  by (rule write_quoted_start [of x]) (simp add: starts_def)

lemma identifier_starts: "starts name_start (render_identifier i)"
  by (simp add: render_identifier_def starts_append name_starts)

lemma index_target_starts: "starts name_start (render_index_target i)"
  by (simp add: render_index_target_def starts_append name_starts split: option.split)

context target_loop
begin

text \<open>If every element parses back, wherever it is printed and up to the spaces after it, the
  list does.\<close>

lemma loop_st:
  assumes el: "\<And>t r. t \<in> set ts \<Longrightarrow> suffix (f t @ r) S \<Longrightarrow> gap ''#/@.'' r \<Longrightarrow>
      \<exists>r'. suffix r' S \<and> drop_spaces r' = drop_spaces r \<and> elem (st S d (f t @ r)) = (Inr t, st S d r')"
    and start: "\<And>t. t \<in> set ts \<Longrightarrow> starts elem_start (f t)"
    and b: "b \<in> set stops" "set stops \<subseteq> set '')}''"
    and x: "suffix x S" "drop_spaces x = drop_spaces (listing f ts b r)"
  shows "loop (st S d x) = (Inr ts, st S d (b # r))"
  using x el start
proof (induction ts arbitrary: x)
  case Nil
  have "drop_spaces (b # r) = b # r" "no_comment (b # r)"
    using b by (auto simp: drop_spaces_def is_space_def no_comment_def)
  moreover then have "suffix (b # r) S"
    using Nil.prems(1,2) suffix_drop_spacesI [of x S] by simp
  ultimately show ?case
    using Nil.prems(1,2) b(1) by (subst loop_eq) (auto simp: st_simps list_all_iff)
next
  case (Cons t ts)
  define y where "y = (if ts = [] then b # r else CHR '' '' # listing f ts b r)"
  obtain c cs where c: "f t = c # cs" "elem_start c" using Cons.prems(4) [of t] by (auto simp: starts_def)
  have x': "drop_spaces x = f t @ y"
    using Cons.prems(2) elem_startD [OF c(2)] c(1)
    by (simp add: listing_Cons y_def [symmetric] drop_spaces_Cons)
  have s: "suffix (f t @ y) S" using suffix_drop_spacesI [OF Cons.prems(1)] by (simp add: x')
  have y: "drop_spaces y = drop_spaces (listing f ts b r)" by (simp add: y_def)
  have g: "gap ''#/@.'' y"
  proof (cases ts)
    case Nil
    then show ?thesis using b unfolding y_def by (auto intro!: gap_close)
  next
    case (Cons t' ts')
    then obtain c' cs' where c': "f t' = c' # cs'" "elem_start c'" using Cons.prems(4) [of t'] by (auto simp: starts_def)
    have "drop_spaces (listing f ts b r) = c' # cs' @ (if ts' = [] then b # r else CHR '' '' # listing f ts' b r)"
      using elem_startD [OF c'(2)] c'(1) by (simp add: Cons listing_Cons drop_spaces_Cons)
    from gap_space [OF this, of "''#/@.''"] elem_startD [OF c'(2)] Cons show ?thesis
      by (simp add: y_def)
  qed
  obtain z where z: "suffix z S" "drop_spaces z = drop_spaces y"
      "elem (st S d (f t @ y)) = (Inr t, st S d z)"
    using Cons.prems(3) [of t y] s g by auto
  have "loop (st S d z) = (Inr ts, st S d (b # r))"
    using Cons.IH [of z] z(1,2) y Cons.prems(3,4) by simp
  moreover have "no_comment (f t @ y)" "\<forall>c \<in> set stops. peek (st S d (f t @ y)) \<noteq> Some c"
    using elem_startD [OF c(2)] c(1) s b(2) by (auto simp: no_comment_def st_simps)
  ultimately show ?case
    using Cons.prems(1) x' z(3) s c(1)
    by (subst loop_eq) (simp add: st_simps list_all_iff prepend_def)
qed

end

subsection \<open>The four kinds of lists\<close>

lemma enter_sublist_st [st_simps]:
  "d < MAX_NESTING_DEPTH \<Longrightarrow> enter_sublist (st S d xs) = (Inr (), st S (Suc d) xs)"
  by (simp add: enter_sublist_def st_def)

lemma exit_sublist_st [st_simps]: "exit_sublist (st S (Suc d) xs) = st S d xs"
  by (simp add: exit_sublist_def st_def)

lemma leaf_cases:
  assumes "leaf_wf t" and "names_ok t"
  obtains i where "t = target_identifier i" and "rid_wf i" and "rid_names_ok i"
  using assms by (cases t rule: leaf_wf.cases) (auto simp: target_identifier_def)

lemma render_leaf [simp]: "render_target False (target_identifier i) = render_identifier i"
  by (simp add: target_identifier_def)

text \<open>The element law, as the loops need it.\<close>

definition parses_back ::
  "(parser \<Rightarrow> 'a parse_result) \<Rightarrow> string \<Rightarrow> nat \<Rightarrow> ('a \<Rightarrow> string) \<Rightarrow> 'a \<Rightarrow> bool" where
  "parses_back el S d f t \<longleftrightarrow> (\<forall>r. suffix (f t @ r) S \<longrightarrow> gap ''#/@.'' r \<longrightarrow>
     (\<exists>r'. suffix r' S \<and> drop_spaces r' = drop_spaces r \<and> el (st S d (f t @ r)) = (Inr t, st S d r')))"

lemma parses_backI:
  assumes "\<And>r. suffix (f t @ r) S \<Longrightarrow> gap ''#/@.'' r \<Longrightarrow>
    \<exists>b. el (st S d (f t @ r)) = (Inr t, st S d (if b then drop_spaces r else r))"
  shows "parses_back el S d f t"
  unfolding parses_back_def
proof (intro allI impI)
  fix r
  assume s: "suffix (f t @ r) S" and g: "gap ''#/@.'' r"
  from assms [OF s g] obtain b where
    "el (st S d (f t @ r)) = (Inr t, st S d (if b then drop_spaces r else r))" ..
  with suffix_appendD2 [OF s] show "\<exists>r'. suffix r' S \<and> drop_spaces r' = drop_spaces r
      \<and> el (st S d (f t @ r)) = (Inr t, st S d r')"
    by (intro exI [of _ "if b then drop_spaces r else r"]) simp
qed

lemma rid_parses_back:
  "rid_wf i \<Longrightarrow> rid_names_ok i \<Longrightarrow> parses_back parse_relation_identifier S d render_identifier i"
  by (rule parses_backI, rule exI [of _ "plan_name i = None"]) (simp add: rid_st)

lemma leaf_parses_back:
  assumes "leaf_wf t" and "names_ok t"
  shows "parses_back parse_simple_target S d (render_target False) t"
    and "starts elem_start (render_target False t)"
proof -
  obtain i where i: "t = target_identifier i" "rid_wf i" "rid_names_ok i"
    using leaf_cases [OF assms] .
  from rid_parses_back [OF i(2,3), of S d]
  show "parses_back parse_simple_target S d (render_target False) t"
    unfolding parses_back_def by (fastforce simp: i(1) parse_simple_target_def)
  show "starts elem_start (render_target False t)"
    using identifier_starts [of i] by (auto simp: i(1) elem_start_def elim: starts_mono)
qed

lemma simple_list_st:
  assumes "list_all leaf_wf ts" "list_all names_ok ts" "b = CHR '')'' \<or> b = CHR ''}''"
    and "suffix x S" "drop_spaces x = drop_spaces (listing (render_target False) ts b r)"
  shows "parse_simple_target_list (st S d x) = (Inr ts, st S d (b # r))"
proof (rule simple_loop.loop_st)
  show "\<exists>r'. suffix r' S \<and> drop_spaces r' = drop_spaces r \<and>
      parse_simple_target (st S d (render_target False t @ r)) = (Inr t, st S d r')"
    if "t \<in> set ts" "suffix (render_target False t @ r) S" "gap ''#/@.'' r" for t r
    using that assms(1,2) leaf_parses_back(1) [of t S d] by (simp add: list_all_iff parses_back_def)
  show "starts elem_start (render_target False t)" if "t \<in> set ts" for t
    using that assms(1,2) leaf_parses_back(2) [of t] by (simp add: list_all_iff)
qed (use assms(3-) in auto)

lemma close_st:
  "suffix (b # r) S \<Longrightarrow> b = CHR '')'' \<or> b = CHR ''}'' \<Longrightarrow> close_list b (st S d (b # r)) = (Inr (), st S d r)"
  by (rule close_list_st) (auto simp: drop_spaces_def is_space_def)

text \<open>A printed ordered or unordered list, as an element.\<close>

lemma starts_bracket:
  "starts elem_start (render_target n (AdviceTarget OrderedList rid cs idx))"
  "starts elem_start (render_target n (AdviceTarget UnorderedList rid cs idx))"
  by (simp_all add: starts_def elem_start_def)

lemma render_ordered:
  "render_target n (target_ordered cs) @ r = CHR ''('' # listing (render_target False) cs CHR '')'' r"
  and render_unordered:
  "render_target n (target_unordered cs) @ r = CHR ''{'' # listing (render_target False) cs CHR ''}'' r"
  by (simp_all add: target_defs listing_def)

lemma suffix_listing: "suffix (listing f ts b r) S \<Longrightarrow> suffix (b # r) S"
  by (simp add: listing_def suffix_appendD2)

lemma generic_parses_back:
  assumes w: "generic_wf t" and ok: "names_ok t" and d: "d < MAX_NESTING_DEPTH"
  shows "parses_back parse_generic_target S d (render_target False) t
    \<and> starts elem_start (render_target False t)"
proof (cases "leaf_wf t")
  case True
  obtain i where i: "t = target_identifier i" "rid_wf i" "rid_names_ok i"
    using leaf_cases [OF True ok] .
  have "parse_generic_target (st S d (render_identifier i @ r))
      = parse_simple_target (st S d (render_identifier i @ r))" if "suffix (render_identifier i @ r) S" for r
    using identifier_starts [of i] that name_startD
    by (auto simp: starts_def parse_generic_target_def parse_simple_target_def st_simps)
  with leaf_parses_back(1) [OF True ok, of S d] leaf_parses_back(2) [OF True ok] show ?thesis
    by (auto simp: parses_back_def i(1))
next
  case False
  with w obtain cs where t: "t = target_ordered cs" and cs: "list_all leaf_wf cs" "list_all names_ok cs"
    using ok by (cases t rule: generic_wf.cases) (auto simp: target_ordered_def)
  have "parse_generic_target (st S d (render_target False t @ r)) = (Inr t, st S d r)"
    if s: "suffix (render_target False t @ r) S" for r
  proof -
    have s1: "suffix (listing (render_target False) cs CHR '')'' r) S"
      using s by (simp add: t render_ordered suffix_ConsD2)
    from simple_list_st [OF cs _ s1 refl, of "Suc d"] s suffix_listing [OF s1] d show ?thesis
      by (simp add: t render_ordered parse_generic_target_def st_simps close_st)
  qed
  then have "parses_back parse_generic_target S d (render_target False) t"
    by (intro parses_backI exI [of _ False]) simp
  then show ?thesis unfolding t target_ordered_def using starts_bracket(1) by blast
qed

lemma generic_list_st:
  assumes "list_all generic_wf ts" "list_all names_ok ts" "d < MAX_NESTING_DEPTH"
    and "suffix x S" "drop_spaces x = drop_spaces (listing (render_target False) ts CHR '')'' r)"
  shows "parse_generic_target_list (st S d x) = (Inr ts, st S d (CHR '')'' # r))"
proof (rule generic_loop.loop_st)
  show "\<exists>r'. suffix r' S \<and> drop_spaces r' = drop_spaces r \<and>
      parse_generic_target (st S d (render_target False t @ r)) = (Inr t, st S d r')"
    if "t \<in> set ts" "suffix (render_target False t @ r) S" "gap ''#/@.'' r" for t r
    using that assms(1-3) generic_parses_back [of t d S] by (simp add: list_all_iff parses_back_def)
  show "starts elem_start (render_target False t)" if "t \<in> set ts" for t
    using that assms(1-3) generic_parses_back [of t d S] by (simp add: list_all_iff)
qed (use assms(4,5) in auto)

lemma index_parses_back:
  assumes w: "index_wf t" and ok: "names_ok t"
  shows "parses_back parse_index_target S d (render_target True) t
    \<and> starts elem_start (render_target True t)"
proof -
  obtain i j where t: "t = AdviceTarget Identifier (Some i) [] (Some j)"
    and w: "rid_wf i" "rid_names_ok i" "idx_wf j" "idx_names_ok j"
    using w ok by (cases t rule: index_wf.cases) auto
  let ?j = "\<lambda>r. render_index_target j @ r"
  have "\<exists>b. parse_index_target (st S d (render_target True t @ r))
      = (Inr t, st S d (if b then drop_spaces r else r))"
    if s: "suffix (render_target True t @ r) S" and g: "gap ''#/@.'' r" for r
  proof -
    have s1: "suffix (render_identifier i @ CHR '' '' # ?j r) S" using s by (simp add: t)
    then have s2: "suffix (CHR '' '' # ?j r) S" by (rule suffix_appendD2)
    then have s3: "suffix (?j r) S" by (rule suffix_ConsD2)
    obtain c cs where c: "render_index_target j = c # cs" "name_start c"
      using index_target_starts [of j] by (auto simp: starts_def)
    have ds: "drop_spaces (?j r) = ?j r" "no_comment (?j r)"
      using name_startD [OF c(2)] by (auto simp: c(1) drop_spaces_Cons no_comment_def)
    have "gap ''#/@.'' (CHR '' '' # ?j r)"
      using name_startD [OF c(2)] ds by (intro gap_space [of _ c "cs @ r"]) (auto simp: c(1))
    from rid_st [OF s1 this w(1,2), of d]
    have "parse_relation_identifier (st S d (render_identifier i @ CHR '' '' # ?j r)) =
      (Inr i, st S d (if plan_name i = None then ?j r else CHR '' '' # ?j r))" by (simp add: ds)
    moreover have "skip_whitespace_and_comments (st S d y) = (True, st S d (?j r))"
      if "y = ?j r \<or> y = CHR '' '' # ?j r" for y
      using that s2 s3 ds c(1) by (auto simp: st_simps)
    ultimately have "parse_index_target (st S d (render_target True t @ r))
        = (Inr t, st S d (if it_schema j = None then drop_spaces r else r))"
      using index_name_st [OF s3 g w(4), of d] by (simp add: t parse_index_target_def)
    then show ?thesis by blast
  qed
  then have "parses_back parse_index_target S d (render_target True) t" by (rule parses_backI)
  moreover have "starts elem_start (render_target True t)"
    using identifier_starts [of i]
    by (auto simp: t elem_start_def intro!: starts_append elim: starts_mono)
  ultimately show ?thesis ..
qed

lemma index_list_st:
  assumes "list_all index_wf ts" "list_all names_ok ts"
    and "suffix x S" "drop_spaces x = drop_spaces (listing (render_target True) ts CHR '')'' r)"
  shows "parse_index_target_list (st S d x) = (Inr ts, st S d (CHR '')'' # r))"
proof (rule index_loop.loop_st)
  show "\<exists>r'. suffix r' S \<and> drop_spaces r' = drop_spaces r \<and>
      parse_index_target (st S d (render_target True t @ r)) = (Inr t, st S d r')"
    if "t \<in> set ts" "suffix (render_target True t @ r) S" "gap ''#/@.'' r" for t r
    using that assms(1,2) index_parses_back [of t S d] by (simp add: list_all_iff parses_back_def)
  show "starts elem_start (render_target True t)" if "t \<in> set ts" for t
    using that assms(1,2) index_parses_back [of t S d] by (simp add: list_all_iff)
qed (use assms(3,4) in auto)

text \<open>\<open>JOIN_ORDER\<close>: by induction on the target, at every depth that leaves room for it.\<close>

lemma join_order_list_step:
  assumes "\<And>t. t \<in> set ts \<Longrightarrow> parses_back parse_join_order_target S d (render_target False) t"
    and "\<And>t. t \<in> set ts \<Longrightarrow> starts elem_start (render_target False t)"
    and "suffix x S" "drop_spaces x = drop_spaces (listing (render_target False) ts CHR '')'' r)"
  shows "parse_join_order_target_list (st S d x) = (Inr ts, st S d (CHR '')'' # r))"
  by (rule join_order_loop.loop_st) (use assms in \<open>auto simp: parses_back_def\<close>)

lemma join_order_wf_cases:
  assumes "join_order_wf e t"
  obtains (ordered) e' cs where "e = Suc e'" "t = target_ordered cs" "list_all (join_order_wf e') cs"
    | (unordered) cs where "t = target_unordered cs" "list_all leaf_wf cs"
    | (leaf) "leaf_wf t"
  using assms by (cases "(e, t)" rule: join_order_wf.cases) (auto simp: target_defs)

lemma join_order_starts:
  "join_order_wf e t \<Longrightarrow> names_ok t \<Longrightarrow> starts elem_start (render_target False t)"
  by (erule join_order_wf_cases)
    (auto simp only: target_defs starts_bracket intro: leaf_parses_back(2))

lemma join_order_parses_back:
  "join_order_wf (MAX_NESTING_DEPTH - d) t \<Longrightarrow> names_ok t \<Longrightarrow>
   parses_back parse_join_order_target S d (render_target False) t"
proof (induction t arbitrary: d)
  case (AdviceTarget k rid cs idx)
  let ?t = "AdviceTarget k rid cs idx"
  consider (ordered) "?t = target_ordered cs" "list_all (join_order_wf (MAX_NESTING_DEPTH - Suc d)) cs"
      "d < MAX_NESTING_DEPTH" "list_all names_ok cs"
    | (unordered) "?t = target_unordered cs" "list_all leaf_wf cs" "list_all names_ok cs"
    | (leaf) "leaf_wf ?t"
    using AdviceTarget.prems(1)
  proof (cases rule: join_order_wf_cases)
    case (ordered e' cs')
    moreover from ordered(1) have "MAX_NESTING_DEPTH - Suc d = e'" "d < MAX_NESTING_DEPTH" by auto
    ultimately show thesis using AdviceTarget.prems(2) by (intro that(1)) (auto simp: target_ordered_def)
  next
    case (unordered cs')
    then show thesis using AdviceTarget.prems(2) by (intro that(2)) (auto simp: target_unordered_def)
  qed (rule that(3))
  then show ?case
  proof cases
    case leaf
    obtain i where i: "?t = target_identifier i" using leaf_cases [OF leaf AdviceTarget.prems(2)] .
    have "parse_join_order_target (st S d (render_identifier i @ r))
        = parse_simple_target (st S d (render_identifier i @ r))"
      if "suffix (render_identifier i @ r) S" for r
      using identifier_starts [of i] that name_startD
      by (auto simp: starts_def parse_join_order_target_def st_simps)
    with leaf_parses_back(1) [OF leaf AdviceTarget.prems(2), of S d] show ?thesis
      by (simp add: parses_back_def i)
  next
    case unordered
    have "parse_join_order_target (st S d (render_target False ?t @ r)) = (Inr ?t, st S d r)"
      if s: "suffix (render_target False ?t @ r) S" for r
    proof -
      have s0: "suffix (CHR ''{'' # listing (render_target False) cs CHR ''}'' r) S"
        using s by (simp only: unordered(1) render_unordered)
      then have s1: "suffix (listing (render_target False) cs CHR ''}'' r) S" by (rule suffix_ConsD2)
      from simple_list_st [OF unordered(2,3) _ s1 refl, of d] s0 suffix_listing [OF s1] show ?thesis
        unfolding unordered(1) render_unordered
        by (simp add: parse_join_order_target_def st_simps close_st)
    qed
    then show ?thesis by (intro parses_backI exI [of _ False]) simp
  next
    case ordered
    have "parse_join_order_target (st S d (render_target False ?t @ r)) = (Inr ?t, st S d r)"
      if s: "suffix (render_target False ?t @ r) S" for r
    proof -
      have s0: "suffix (CHR ''('' # listing (render_target False) cs CHR '')'' r) S"
        using s by (simp only: ordered(1) render_ordered)
      then have s1: "suffix (listing (render_target False) cs CHR '')'' r) S" by (rule suffix_ConsD2)
      have "parse_join_order_target_list (st S (Suc d) (listing (render_target False) cs CHR '')'' r))
          = (Inr cs, st S (Suc d) (CHR '')'' # r))"
        using ordered(2,4) s1
        by (intro join_order_list_step AdviceTarget.IH)
          (auto simp: list_all_iff intro: join_order_starts)
      with s0 suffix_listing [OF s1] ordered(3) show ?thesis
        unfolding ordered(1) render_ordered
        by (simp add: parse_join_order_target_def st_simps close_st)
    qed
    then show ?thesis by (intro parses_backI exI [of _ False]) simp
  qed
qed

subsection \<open>Items and documents\<close>

lemma keyword_st:
  assumes "suffix (as_keyword t @ CHR ''('' # r) S"
  shows "parse_identifier (st S d (as_keyword t @ CHR ''('' # r)) =
    (Inr (map to_ascii_lowercase (as_keyword t)), st S d (CHR ''('' # r))"
proof -
  have k: "c \<noteq> QUOTE \<and> is_ident_start c \<and> is_ident_cont c \<and> is_ascii c" if "c \<in> set (as_keyword t)" for c
    using as_keyword_chars [of t] that
    by (auto simp: char_eval) (auto simp: is_ascii_uppercase_def is_ascii_def)
  obtain c cs where c: "as_keyword t = c # cs" by (cases "as_keyword t") auto
  have "parse_bare_identifier (st S d (c # cs @ CHR ''('' # r)) =
    (Inr (map to_ascii_lowercase (c # cs)), st S d (CHR ''('' # r))"
  proof (rule parse_bare_st)
    show "suffix (c # cs @ CHR ''('' # r) S" using assms by (simp add: c)
    show "is_ident_start c" "list_all is_ident_cont cs" "list_all is_ascii (c # cs)"
      using k by (auto simp: c list_all_iff)
    show "token_end (CHR ''('' # r)" by (simp add: token_end_def char_eval)
  qed
  with assms k [of c] show ?thesis by (simp add: c parse_identifier_def st_simps)
qed

lemma targets_st:
  assumes w: "targets_wf t ts" "list_all names_ok ts"
    and s: "suffix (listing (render_target (requires_index_argument t)) ts CHR '')'' r) S"
  shows "parse_targets t (st S 0 (listing (render_target (requires_index_argument t)) ts CHR '')'' r))
    = (Inr ts, st S 0 (CHR '')'' # r))"
proof -
  have d: "0 < MAX_NESTING_DEPTH" by (simp add: MAX_NESTING_DEPTH_def)
  consider (jo) "is_join_order t" | (idx) "\<not> is_join_order t" "requires_index_argument t"
    | (simple) "\<not> is_join_order t" "\<not> requires_index_argument t" "is_simple t"
    | (generic) "\<not> is_join_order t" "\<not> requires_index_argument t" "\<not> is_simple t" by blast
  then show ?thesis
  proof cases
    case jo
    then have n: "requires_index_argument t = False" by (auto simp: tag_class_defs)
    have "list_all (join_order_wf (MAX_NESTING_DEPTH - 0)) ts" using w jo by (simp add: targets_wf_def)
    then have "parse_join_order_target_list (st S 0 (listing (render_target False) ts CHR '')'' r))
        = (Inr ts, st S 0 (CHR '')'' # r))"
      using w(2) s by (intro join_order_list_step [OF _ _ _ refl] join_order_parses_back)
        (auto simp: list_all_iff n intro: join_order_starts)
    with jo n show ?thesis by (simp add: parse_targets_def)
  next
    case idx
    with index_list_st [OF _ w(2), of _ S r 0] w(1) s show ?thesis
      by (simp add: parse_targets_def targets_wf_def)
  next
    case simple
    with simple_list_st [OF _ w(2), of "CHR '')''" _ S r 0] w(1) s show ?thesis
      by (simp add: parse_targets_def targets_wf_def)
  next
    case generic
    with generic_list_st [OF _ w(2) d, of _ S r] w(1) s show ?thesis
      by (simp add: parse_targets_def targets_wf_def)
  qed
qed

lemma item_st:
  assumes s: "suffix (render_item it @ r) S" and ok: "item_ok it"
  shows "parse_item (st S 0 (render_item it @ r)) = (Inr it, st S 0 r)"
proof -
  let ?L = "listing (render_target (requires_index_argument (tag it))) (targets it) CHR '')'' r"
  have e: "render_item it @ r = as_keyword (tag it) @ CHR ''('' # ?L"
    by (simp add: render_item_def listing_def)
  have s1: "suffix (as_keyword (tag it) @ CHR ''('' # ?L) S" using s by (simp only: e)
  then have s2: "suffix (CHR ''('' # ?L) S" by (rule suffix_appendD2)
  then have s3: "suffix ?L S" by (rule suffix_ConsD2)
  have "close_list CHR ''('' (st S 0 (CHR ''('' # ?L)) = (Inr (), st S 0 ?L)"
    using s2 by (intro close_list_st) auto
  moreover have w: "targets_wf (tag it) (targets it)" "list_all names_ok (targets it)"
      "\<not> (tag it = JoinOrder \<and> targets it = [])"
      "\<not> (tag it = ForeignJoin \<and> list_ex foreign_join_bad (targets it))"
    using ok by (auto simp: item_ok_def item_wf_def)
  ultimately show ?thesis
    using keyword_st [OF s1] targets_st [OF w(1,2) s3] close_st [OF suffix_listing [OF s3]]
    unfolding e by (auto simp: parse_item_def)
qed

lemma render_item_starts: "starts is_ascii_uppercase (render_item it)"
  using hd_as_keyword [of "tag it"] by (cases "as_keyword (tag it)") (auto simp: render_item_def starts_def)

lemma items_st:
  assumes "list_all item_ok a" and "suffix x S" and "drop_spaces x = render_advice a"
  shows "\<exists>p. parse_items (st S 0 x) = (Inr a, p)"
  using assms
proof (induction a arbitrary: x)
  case Nil
  then have "\<not> pos (st S 0 (drop_spaces x)) < length S"
    using pos_end_st [of "drop_spaces x" S 0] by (simp add: render_advice_def)
  with Nil show ?case
    by (subst parse_items.simps) (simp add: st_simps no_comment_def render_advice_def)
next
  case (Cons it a)
  define y where "y = (if a = [] then [] else CHR '' '' # render_advice a)"
  have x: "drop_spaces x = render_item it @ y"
    using Cons.prems(3) by (auto simp: render_advice_def join_with_Cons y_def)
  have s: "suffix (render_item it @ y) S" using suffix_drop_spacesI [OF Cons.prems(2)] by (simp add: x)
  have ds: "drop_spaces y = render_advice a"
  proof (cases a)
    case Nil
    then show ?thesis by (simp add: y_def render_advice_def drop_spaces_def)
  next
    case (Cons it' a')
    obtain c cs where c: "render_item it' = c # cs" "is_ascii_uppercase c"
      using render_item_starts [of it'] by (auto simp: starts_def)
    then have "\<not> is_space c" by (auto simp: is_space_def is_ascii_uppercase_def)
    then show ?thesis
      by (simp add: y_def render_advice_def Cons join_with_Cons c(1) drop_spaces_Cons)
  qed
  obtain p where "parse_items (st S 0 y) = (Inr a, p)"
    using Cons.IH [OF _ suffix_appendD2 [OF s] ds] Cons.prems(1) by auto
  moreover have "no_comment (render_item it @ y)" "pos (st S 0 (render_item it @ y)) < length S"
    using render_item_starts [of it] pos_end_st [OF s, of 0]
    by (auto simp: starts_def no_comment_def is_ascii_uppercase_Char)
  ultimately show ?case
    using Cons.prems(1,2) item_st [OF s] s
    by (subst parse_items.simps) (simp add: st_simps x prepend_def)
qed

lemma render_parse:
  assumes "list_all item_ok a"
  shows "parse_advice (render_advice a) = Inr a"
proof -
  have "drop_spaces (render_advice a) = render_advice a"
  proof (cases a)
    case (Cons it b)
    obtain c cs where "render_item it = c # cs" "is_ascii_uppercase c"
      using render_item_starts [of it] by (auto simp: starts_def)
    moreover then have "\<not> is_space c" by (auto simp: is_space_def is_ascii_uppercase_def)
    ultimately show ?thesis by (simp add: Cons render_advice_def join_with_Cons drop_spaces_Cons)
  qed (simp add: render_advice_def drop_spaces_def)
  from items_st [OF assms _ this, of "render_advice a"] show ?thesis
    by (auto simp: parse_advice_def parser_new_def st_def)
qed

text \<open>Claim C1. Rendering a plan-advice document and parsing it back gives the document, for
  every document that is an instance of the grammar and whose names are ASCII and, where they
  are printed without quotes, in lower case: every tag, occurrence number, partition, plan
  name, index argument and nested join-order list survives.\<close>

theorem render_parse_roundtrip:
  assumes "list_all item_ok a"
  shows "parse_advice (render_advice a) = Inr a"
  using assms by (rule render_parse)

theorem render_parse_roundtrip_witness:
  "parse_advice (render_advice
     [\<lparr>tag = JoinOrder, targets = [target_identifier (simple_rid ''a''),
         target_ordered [target_identifier (simple_rid ''B c''), target_identifier (simple_rid ''d'')]]\<rparr>])
   = Inr [\<lparr>tag = JoinOrder, targets = [target_identifier (simple_rid ''a''),
         target_ordered [target_identifier (simple_rid ''B c''), target_identifier (simple_rid ''d'')]]\<rparr>]"
  by (rule render_parse_roundtrip) code_simp

text \<open>Outside these names the round trip documented for every value fails: an alias with an
  upper-case letter is printed bare and comes back in lower case, a non-ASCII alias comes back
  with each of its bytes encoded again, and an empty alias does not parse.\<close>

theorem render_parse_mixed_case:
  "parse_advice (render_advice [\<lparr>tag = SeqScan, targets = [target_identifier (simple_rid ''Foo'')]\<rparr>])
     = Inr [\<lparr>tag = SeqScan, targets = [target_identifier (simple_rid ''foo'')]\<rparr>]"
  by code_simp

theorem render_parse_non_ascii:
  "parse_advice (render_advice [\<lparr>tag = SeqScan, targets = [target_identifier (simple_rid [CHR 0xC3, CHR 0xA9])]\<rparr>])
     = Inr [\<lparr>tag = SeqScan, targets = [target_identifier
         (simple_rid [CHR 0xC3, CHR 0x83, CHR 0xC2, CHR 0xA9])]\<rparr>]"
  by code_simp

end
