(* ===== verification/Advice_Trove.thy ===== *)
theory Advice_Trove
  imports Advice_Shape
begin

text \<open>
  The lookup index over a plan-advice document (\<^verbatim>\<open>crates/ra-plan-advice/src/trove.rs\<close>).
  \<^verbatim>\<open>Trove::build\<close> walks the document once and files every relation identifier under its
  alias; \<^verbatim>\<open>Trove::lookup\<close> filters one bucket. The abstract specification is a linear scan
  of the document (\<open>scan_lookup\<close>), and the index is shown to return exactly what the scan
  returns, in the same order. The references of the source are the values they refer to.
\<close>

subsection \<open>The index\<close>

record trove_entry =
  te_item :: advice_item
  te_target_index :: nat
  te_identifier :: relation_identifier

type_synonym trove = "string \<rightharpoonup> trove_entry list"

datatype lookup_category = LookupScan | LookupRel | LookupJoin

text \<open>\<^verbatim>\<open>by_alias.entry(key).or_default().push(entry)\<close>\<close>

definition bucket_push :: "string \<Rightarrow> trove_entry \<Rightarrow> trove \<Rightarrow> trove" where
  "bucket_push k e m = m(k \<mapsto> (case m k of None \<Rightarrow> [] | Some es \<Rightarrow> es) @ [e])"

fun collect_identifiers :: "advice_item \<Rightarrow> nat \<Rightarrow> advice_target \<Rightarrow> trove \<Rightarrow> trove" where
  "collect_identifiers it i (AdviceTarget k rid cs idx) m = (case k of
     Identifier \<Rightarrow>
       (case rid of
          Some r \<Rightarrow> bucket_push (alias_name r)
            \<lparr>te_item = it, te_target_index = i, te_identifier = r\<rparr> m
        | None \<Rightarrow> m)
   | OrderedList \<Rightarrow> foldl (\<lambda>m c. collect_identifiers it i c m) m cs
   | UnorderedList \<Rightarrow> foldl (\<lambda>m c. collect_identifiers it i c m) m cs)"

definition trove_build :: "advice \<Rightarrow> trove" where
  "trove_build a = foldl (\<lambda>m it.
     foldl (\<lambda>m (i, t). collect_identifiers it i t m) m (List.enumerate 0 (targets it))) Map.empty a"

definition category_matches :: "lookup_category \<Rightarrow> advice_tag \<Rightarrow> bool" where
  "category_matches l t = (case l of
     LookupScan \<Rightarrow> t \<in> {SeqScan, IndexScan, IndexOnlyScan, BitmapHeapScan, TidScan, ForeignJoin, DoNotScan}
   | LookupRel \<Rightarrow> t \<in> {NoGather, Gather, GatherMerge, Partitionwise}
   | LookupJoin \<Rightarrow> t \<in> {JoinOrder, HashJoin, MergeJoinPlain, MergeJoinMaterialize, NestedLoopPlain,
       NestedLoopMaterialize, NestedLoopMemoize, SemijoinUnique, SemijoinNonUnique})"

definition identifier_matches :: "relation_identifier \<Rightarrow> relation_identifier \<Rightarrow> bool" where
  "identifier_matches stored query \<longleftrightarrow> alias_name stored = alias_name query
     \<and> occurrence stored = occurrence query \<and> partition_schema stored = partition_schema query
     \<and> partition_name stored = partition_name query \<and> plan_name stored = plan_name query"

fun target_contains_identifier :: "advice_target \<Rightarrow> relation_identifier \<Rightarrow> bool" where
  "target_contains_identifier (AdviceTarget k rid cs idx) r = (case k of
     Identifier \<Rightarrow> (case rid of Some s \<Rightarrow> identifier_matches s r | None \<Rightarrow> False)
   | OrderedList \<Rightarrow> list_ex (\<lambda>c. target_contains_identifier c r) cs
   | UnorderedList \<Rightarrow> list_ex (\<lambda>c. target_contains_identifier c r) cs)"

text \<open>The body of the loop of \<^verbatim>\<open>lookup\<close>: whether the entry is pushed.\<close>

definition entry_matches ::
  "relation_identifier \<Rightarrow> relation_identifier list \<Rightarrow> lookup_category \<Rightarrow> trove_entry \<Rightarrow> bool" where
  "entry_matches first rest l e \<longleftrightarrow> category_matches l (tag (te_item e))
     \<and> identifier_matches (te_identifier e) first
     \<and> list_all (\<lambda>r. list_ex (\<lambda>t. target_contains_identifier t r) (targets (te_item e))) rest"

definition trove_lookup :: "trove \<Rightarrow> relation_identifier list \<Rightarrow> lookup_category \<Rightarrow> trove_entry list" where
  "trove_lookup m ids l = (case ids of
     [] \<Rightarrow> []
   | first # rest \<Rightarrow>
       (case m (alias_name first) of
          None \<Rightarrow> []
        | Some bucket \<Rightarrow> filter (entry_matches first rest l) bucket))"

definition lookup_scan :: "trove \<Rightarrow> relation_identifier \<Rightarrow> trove_entry list" where
  "lookup_scan m r = trove_lookup m [r] LookupScan"

definition lookup_rel :: "trove \<Rightarrow> relation_identifier \<Rightarrow> trove_entry list" where
  "lookup_rel m r = trove_lookup m [r] LookupRel"

definition lookup_join :: "trove \<Rightarrow> relation_identifier list \<Rightarrow> trove_entry list" where
  "lookup_join m ids = trove_lookup m ids LookupJoin"

subsection \<open>The specification: a scan of the document\<close>

text \<open>The identifiers of a target, from left to right, and all entries of a document.\<close>

fun mentions :: "advice_target \<Rightarrow> relation_identifier list" where
  "mentions (AdviceTarget k rid cs idx) = (case k of
     Identifier \<Rightarrow> (case rid of Some r \<Rightarrow> [r] | None \<Rightarrow> [])
   | OrderedList \<Rightarrow> concat (map mentions cs)
   | UnorderedList \<Rightarrow> concat (map mentions cs))"

definition item_entries :: "advice_item \<Rightarrow> trove_entry list" where
  "item_entries it = concat (map (\<lambda>(i, t).
     map (\<lambda>r. \<lparr>te_item = it, te_target_index = i, te_identifier = r\<rparr>) (mentions t))
     (List.enumerate 0 (targets it)))"

definition item_mentions :: "advice_item \<Rightarrow> relation_identifier \<Rightarrow> bool" where
  "item_mentions it r \<longleftrightarrow> (\<exists>t \<in> set (targets it). r \<in> set (mentions t))"

definition scan_lookup :: "advice \<Rightarrow> relation_identifier list \<Rightarrow> lookup_category \<Rightarrow> trove_entry list" where
  "scan_lookup a ids l = (if ids = [] then [] else
     filter (\<lambda>e. category_matches l (tag (te_item e)) \<and> te_identifier e = hd ids
       \<and> list_all (item_mentions (te_item e)) (tl ids)) (concat (map item_entries a)))"

subsection \<open>The index agrees with the scan\<close>

lemma identifier_matches_eq [simp]: "identifier_matches s r \<longleftrightarrow> s = r"
  by (cases s; cases r) (auto simp: identifier_matches_def)

lemma target_contains_mentions [simp]: "target_contains_identifier t r \<longleftrightarrow> r \<in> set (mentions t)"
  by (induction t) (auto simp: list_ex_iff split: advice_target_kind.splits option.splits)

text \<open>Reading a bucket, an absent one as empty.\<close>

definition bucket :: "trove \<Rightarrow> string \<Rightarrow> trove_entry list" where
  "bucket m k = (case m k of None \<Rightarrow> [] | Some es \<Rightarrow> es)"

lemma bucket_push [simp]: "bucket (bucket_push k e m) j = bucket m j @ (if j = k then [e] else [])"
  by (simp add: bucket_def bucket_push_def split: option.split)

text \<open>A pass that appends the entries \<open>es x\<close> of each element \<open>x\<close> to their buckets.\<close>

definition in_bucket :: "string \<Rightarrow> trove_entry \<Rightarrow> bool" where
  "in_bucket k e \<longleftrightarrow> alias_name (te_identifier e) = k"

lemma bucket_foldl:
  assumes "\<And>x m. x \<in> set xs \<Longrightarrow> bucket (f m x) k = bucket m k @ filter (in_bucket k) (es x)"
  shows "bucket (foldl f m xs) k = bucket m k @ filter (in_bucket k) (concat (map es xs))"
  using assms by (induction xs arbitrary: m) auto

lemma bucket_collect:
  "bucket (collect_identifiers it i t m) k = bucket m k @ filter (in_bucket k)
     (map (\<lambda>r. \<lparr>te_item = it, te_target_index = i, te_identifier = r\<rparr>) (mentions t))"
proof (induction t arbitrary: m)
  case (AdviceTarget kind rid cs idx)
  have "bucket (foldl (\<lambda>m c. collect_identifiers it i c m) m cs) k = bucket m k
    @ filter (in_bucket k) (concat (map (\<lambda>c. map
        (\<lambda>r. \<lparr>te_item = it, te_target_index = i, te_identifier = r\<rparr>) (mentions c)) cs))"
    by (rule bucket_foldl) (rule AdviceTarget.IH)
  then show ?case
    by (auto simp: in_bucket_def [abs_def] map_concat comp_def split: advice_target_kind.split option.split)
qed

lemma bucket_build: "bucket (trove_build a) k = filter (in_bucket k) (concat (map item_entries a))"
proof -
  have "bucket (foldl (\<lambda>m (i, t). collect_identifiers it i t m) m (List.enumerate 0 (targets it))) k
      = bucket m k @ filter (in_bucket k) (item_entries it)" for m it
    unfolding item_entries_def by (rule bucket_foldl) (auto simp: bucket_collect)
  then have "bucket (trove_build a) k
      = bucket Map.empty k @ filter (in_bucket k) (concat (map item_entries a))"
    unfolding trove_build_def by (intro bucket_foldl)
  then show ?thesis by (simp add: bucket_def)
qed

lemma trove_lookup_bucket:
  "trove_lookup m (r # rs) l = filter (entry_matches r rs l) (bucket m (alias_name r))"
  by (simp add: trove_lookup_def bucket_def split: option.split)

text \<open>Claim C36. The trove is a faithful index: for every document, every list of identifiers and
  every category, \<^verbatim>\<open>lookup\<close> in the index built from the document returns exactly the
  entries a linear scan of the document finds, in document order: those whose identifier equals
  the first one in every component, whose tag is of the category, and whose item mentions all
  the other identifiers at any nesting depth.\<close>

theorem trove_lookup_scan: "trove_lookup (trove_build a) ids l = scan_lookup a ids l"
proof (cases ids)
  case (Cons r rs)
  have "entry_matches r rs l e \<and> in_bucket (alias_name r) e \<longleftrightarrow>
      category_matches l (tag (te_item e)) \<and> te_identifier e = r
      \<and> list_all (item_mentions (te_item e)) rs" for e
    by (auto simp: entry_matches_def in_bucket_def item_mentions_def list_ex_iff list_all_iff)
  then show ?thesis
    unfolding Cons trove_lookup_bucket bucket_build scan_lookup_def
    by (simp add: conj_commute)
qed (simp add: trove_lookup_def scan_lookup_def)

text \<open>The three convenience queries never share a match: each tag is in exactly one category.\<close>

lemma category_unique:
  "category_matches LookupScan t \<noteq> (category_matches LookupRel t \<or> category_matches LookupJoin t)"
  "\<not> (category_matches LookupRel t \<and> category_matches LookupJoin t)"
  by (cases t; simp add: category_matches_def)+

lemma set_item_entries:
  "e \<in> set (item_entries it) \<longleftrightarrow> te_item e = it \<and> te_target_index e < length (targets it)
     \<and> te_identifier e \<in> set (mentions (targets it ! te_target_index e))"
  by (cases e) (auto simp: item_entries_def in_set_enumerate_eq image_iff)

text \<open>The matches of a lookup point into the document: the item is an item of the
  document, \<^verbatim>\<open>target_index\<close> is in range, and the target it names contains the matched
  identifier, which is the one asked for; so callers may index \<^verbatim>\<open>item.targets\<close> with it.\<close>

lemma trove_lookup_sound:
  assumes "e \<in> set (trove_lookup (trove_build a) ids l)"
  shows "te_item e \<in> set a \<and> te_target_index e < length (targets (te_item e))
    \<and> target_contains_identifier (targets (te_item e) ! te_target_index e) (hd ids)
    \<and> te_identifier e = hd ids"
proof (cases ids)
  case (Cons r rs)
  with assms have "te_identifier e = r" "e \<in> set (concat (map item_entries a))"
    by (auto simp: trove_lookup_bucket bucket_build entry_matches_def)
  then show ?thesis by (auto simp: Cons set_item_entries)
qed (use assms in \<open>simp add: trove_lookup_def\<close>)

lemma trove_lookup_sound_witness:
  "target_contains_identifier (targets \<lparr>tag = JoinOrder, targets = [target_identifier (simple_rid ''a''),
     target_ordered [target_identifier (simple_rid ''b''), target_identifier (simple_rid ''c'')]]\<rparr> ! 1)
     (simple_rid ''c'')"
  (is "target_contains_identifier (targets ?d ! 1) _")
proof -
  have "\<lparr>te_item = ?d, te_target_index = 1, te_identifier = simple_rid ''c''\<rparr>
    \<in> set (trove_lookup (trove_build [?d]) [simple_rid ''c'', simple_rid ''a''] LookupJoin)"
    by code_simp
  from trove_lookup_sound [OF this] show ?thesis by simp
qed

end
