(* ===== verification/Sparsemap.thy ===== *)
theory Sparsemap
  imports Prelude
begin

text \<open>
  The compressed bitmap of the optimizer (\<^verbatim>\<open>crates/ra-engine/src/sparsemap.rs\<close>). A chunk
  holds 32 bit vectors of 64 bits: two flag bits each, packed four to a byte, say whether the
  vector is all zeros, all ones or stored. The invariant \<open>chunk_inv\<close> says that exactly the
  vectors flagged as mixed are stored and that the compression is canonical; every operation
  keeps it and implements the operation on sets of indices (\<open>bits_of\<close>, \<open>map_bits\<close>).
  The set interface is the locale \<open>bit_set\<close>, interpreted on the bitmap.
\<close>

subsection \<open>Chunks\<close>

abbreviation BITS_PER_VEC :: nat where "BITS_PER_VEC \<equiv> 64"
abbreviation FLAGS_PER_BYTE :: nat where "FLAGS_PER_BYTE \<equiv> 4"
abbreviation VECS_PER_CHUNK :: nat where "VECS_PER_CHUNK \<equiv> 32"
abbreviation BITS_PER_CHUNK :: nat where "BITS_PER_CHUNK \<equiv> 2048"

datatype flag = Zeros | Ones | Mixed | Unused

definition flag_bits :: "flag \<Rightarrow> u8" where
  "flag_bits f = (case f of Zeros \<Rightarrow> 0 | Ones \<Rightarrow> 3 | Mixed \<Rightarrow> 2 | Unused \<Rightarrow> 1)"

definition from_bits :: "u8 \<Rightarrow> flag" where
  "from_bits b = (let x = b AND 3 in
     if x = 0 then Zeros else if x = 3 then Ones else if x = 2 then Mixed else Unused)"

record chunk =
  flags :: "u8 list"
  vectors :: "u64 list"

definition chunk_new :: chunk where
  "chunk_new = \<lparr>flags = replicate (VECS_PER_CHUNK div FLAGS_PER_BYTE) 0, vectors = []\<rparr>"

definition get_flag :: "chunk \<Rightarrow> nat \<Rightarrow> flag" where
  "get_flag c i = from_bits (drop_bit (i mod FLAGS_PER_BYTE * 2) (flags c ! (i div FLAGS_PER_BYTE)) AND 3)"

definition set_flag :: "chunk \<Rightarrow> nat \<Rightarrow> flag \<Rightarrow> chunk" where
  "set_flag c i f =
    (let byte_idx = i div FLAGS_PER_BYTE;
         bit_offset = i mod FLAGS_PER_BYTE * 2;
         mask = NOT (push_bit bit_offset 3)
     in c\<lparr>flags := (flags c)[byte_idx := (flags c ! byte_idx AND mask) OR push_bit bit_offset (flag_bits f)]\<rparr>)"

definition vector_position :: "chunk \<Rightarrow> nat \<Rightarrow> nat" where
  "vector_position c idx = foldl (\<lambda>pos i. if get_flag c i = Mixed then pos + 1 else pos) 0 [0..<idx]"

definition get_vector :: "chunk \<Rightarrow> nat \<Rightarrow> u64" where
  "get_vector c i = (case get_flag c i of
     Ones \<Rightarrow> NOT 0
   | Mixed \<Rightarrow> vectors c ! vector_position c i
   | Zeros \<Rightarrow> 0
   | Unused \<Rightarrow> 0)"

text \<open>\<^verbatim>\<open>Vec::insert\<close> and \<^verbatim>\<open>Vec::remove\<close> within the length of the vector.\<close>

definition vec_insert :: "nat \<Rightarrow> 'a \<Rightarrow> 'a list \<Rightarrow> 'a list" where
  "vec_insert i x xs = take i xs @ x # drop i xs"

definition vec_remove :: "nat \<Rightarrow> 'a list \<Rightarrow> 'a list" where
  "vec_remove i xs = take i xs @ drop (Suc i) xs"

definition flag_for :: "u64 \<Rightarrow> flag" where
  "flag_for v = (if v = 0 then Zeros else if v = NOT 0 then Ones else Mixed)"

definition set_vector :: "chunk \<Rightarrow> nat \<Rightarrow> u64 \<Rightarrow> chunk" where
  "set_vector c i v =
    (let flag = get_flag c i; new_flag = flag_for v; p = vector_position c i in
     if flag = new_flag then
       (if new_flag = Mixed then c\<lparr>vectors := (vectors c)[p := v]\<rparr> else c)
     else if new_flag = Mixed then set_flag (c\<lparr>vectors := vec_insert p v (vectors c)\<rparr>) i Mixed
     else if flag = Mixed then set_flag (c\<lparr>vectors := vec_remove p (vectors c)\<rparr>) i new_flag
     else set_flag c i new_flag)"

definition set_bit_chunk :: "chunk \<Rightarrow> nat \<Rightarrow> chunk" where
  "set_bit_chunk c b = (let i = b div BITS_PER_VEC; off = b mod BITS_PER_VEC in
     set_vector c i (get_vector c i OR push_bit off 1))"

definition clear_bit_chunk :: "chunk \<Rightarrow> nat \<Rightarrow> chunk" where
  "clear_bit_chunk c b = (let i = b div BITS_PER_VEC; off = b mod BITS_PER_VEC in
     set_vector c i (get_vector c i AND NOT (push_bit off 1)))"

definition is_set_chunk :: "chunk \<Rightarrow> nat \<Rightarrow> bool" where
  "is_set_chunk c b \<longleftrightarrow> get_vector c (b div BITS_PER_VEC) AND push_bit (b mod BITS_PER_VEC) 1 \<noteq> 0"

text \<open>\<^verbatim>\<open>u64::count_ones\<close>\<close>

definition count_ones :: "u64 \<Rightarrow> u32" where
  "count_ones w = of_nat (length (filter (bit w) [0..<64]))"

definition count_chunk :: "chunk \<Rightarrow> u32" where
  "count_chunk c = foldl (\<lambda>n i. case get_flag c i of
     Zeros \<Rightarrow> n | Unused \<Rightarrow> n | Ones \<Rightarrow> n + of_nat BITS_PER_VEC
   | Mixed \<Rightarrow> n + count_ones (get_vector c i)) 0 [0..<VECS_PER_CHUNK]"

subsection \<open>The map\<close>

type_synonym sparsemap = "chunk option list"

definition sm_new :: sparsemap where "sm_new = []"

text \<open>\<^verbatim>\<open>resize_with(n, || None)\<close> where the vector is shorter, then the slot allocated.\<close>

definition grow :: "sparsemap \<Rightarrow> nat \<Rightarrow> sparsemap" where
  "grow m i = (if length m \<le> i then m @ replicate (i + 1 - length m) None else m)"

definition allocate :: "sparsemap \<Rightarrow> nat \<Rightarrow> sparsemap" where
  "allocate m i = (if m ! i = None then m[i := Some chunk_new] else m)"

definition update_chunk :: "(chunk \<Rightarrow> chunk) \<Rightarrow> sparsemap \<Rightarrow> nat \<Rightarrow> sparsemap" where
  "update_chunk f m i = (case m ! i of None \<Rightarrow> m | Some c \<Rightarrow> m[i := Some (f c)])"

definition sm_set :: "sparsemap \<Rightarrow> u32 \<Rightarrow> sparsemap" where
  "sm_set m idx =
    (let i = unat idx div BITS_PER_CHUNK; b = unat idx mod BITS_PER_CHUNK in
     update_chunk (\<lambda>c. set_bit_chunk c b) (allocate (grow m i) i) i)"

definition sm_clear :: "sparsemap \<Rightarrow> u32 \<Rightarrow> sparsemap" where
  "sm_clear m idx =
    (let i = unat idx div BITS_PER_CHUNK; b = unat idx mod BITS_PER_CHUNK in
     if i < length m then update_chunk (\<lambda>c. clear_bit_chunk c b) m i else m)"

definition sm_is_set :: "sparsemap \<Rightarrow> u32 \<Rightarrow> bool" where
  "sm_is_set m idx =
    (let i = unat idx div BITS_PER_CHUNK; b = unat idx mod BITS_PER_CHUNK in
     i < length m \<and> (case m ! i of None \<Rightarrow> False | Some c \<Rightarrow> is_set_chunk c b))"

definition sm_count :: "sparsemap \<Rightarrow> u32" where
  "sm_count m = sum_list (map count_chunk (List.map_filter id m))"

definition union_chunk :: "chunk \<Rightarrow> chunk \<Rightarrow> chunk" where
  "union_chunk d c = foldl (\<lambda>c i. set_vector c i (get_vector c i OR get_vector d i)) c [0..<VECS_PER_CHUNK]"

definition intersect_chunk :: "chunk \<Rightarrow> chunk \<Rightarrow> chunk" where
  "intersect_chunk d c = foldl (\<lambda>c i. set_vector c i (get_vector c i AND get_vector d i)) c [0..<VECS_PER_CHUNK]"

definition sm_union :: "sparsemap \<Rightarrow> sparsemap \<Rightarrow> sparsemap" where
  "sm_union m other = foldl (\<lambda>m (i, oc). case oc of
       None \<Rightarrow> m
     | Some d \<Rightarrow> update_chunk (union_chunk d) (allocate (grow m i) i) i)
     m (List.enumerate 0 other)"

definition sm_intersect :: "sparsemap \<Rightarrow> sparsemap \<Rightarrow> sparsemap" where
  "sm_intersect m other = map (\<lambda>(i, sc). case sc of
       None \<Rightarrow> None
     | Some c \<Rightarrow> Some (if i < length other
         then (case other ! i of Some d \<Rightarrow> intersect_chunk d c | None \<Rightarrow> chunk_new)
         else chunk_new)) (List.enumerate 0 m)"

definition chunk_iter :: "nat \<Rightarrow> chunk \<Rightarrow> u32 list" where
  "chunk_iter k c = concat (map (\<lambda>i. let vec = get_vector c i in
     map (\<lambda>off. of_nat (k * BITS_PER_CHUNK + i * BITS_PER_VEC + off))
       (filter (\<lambda>off. vec AND push_bit off 1 \<noteq> 0) [0..<BITS_PER_VEC])) [0..<VECS_PER_CHUNK])"

definition sm_iter :: "sparsemap \<Rightarrow> u32 list" where
  "sm_iter m = concat (map (\<lambda>(k, c). case c of None \<Rightarrow> [] | Some c \<Rightarrow> chunk_iter k c) (List.enumerate 0 m))"

subsection \<open>Packed flags\<close>

lemma from_bits_flag_bits: "from_bits (flag_bits f AND 3) = f"
  by (cases f) (simp_all add: flag_bits_def from_bits_def)

lemma bit_3_int: "bit (3 :: int) n \<longleftrightarrow> n < 2"
proof -
  have "(3 :: int) = mask 2" by (simp add: mask_eq_exp_minus_1)
  show ?thesis unfolding \<open>3 = mask 2\<close> bit_mask_iff by simp
qed

lemma bit_3_iff: "bit (3 :: u8) n \<longleftrightarrow> n < 2"
  by (auto simp: bit_3_int)

lemma bit_flag_bits: "bit (flag_bits f) n \<Longrightarrow> n < 2"
  by (cases f; cases n; cases "n - 1") (auto simp: flag_bits_def bit_3_int bit_simps)

lemma packed_flag:
  assumes "p < 4" "q < 4"
  shows "drop_bit (q * 2) ((b AND NOT (push_bit (p * 2) 3)) OR push_bit (p * 2) (flag_bits f)) AND 3 =
    (if p = q then flag_bits f AND 3 else drop_bit (q * 2) b AND (3 :: u8))"
proof (rule bit_word_eqI)
  fix n assume "n < LENGTH(8)"
  show "bit (drop_bit (q * 2) ((b AND NOT (push_bit (p * 2) 3)) OR push_bit (p * 2) (flag_bits f)) AND 3) n
    = bit (if p = q then flag_bits f AND 3 else drop_bit (q * 2) b AND (3 :: u8)) n"
  proof (cases "n < 2")
    case n: True
    then have lt: "q * 2 + n < 8" using assms by simp
    have "p = q" if "p * 2 \<le> q * 2 + n" "q * 2 + n - p * 2 < 2" using that n by presburger
    with n lt bit_flag_bits [of f "q * 2 + n - p * 2"] show ?thesis
      by (auto simp: bit_simps bit_3_int)
  qed (simp add: bit_simps bit_3_int)
qed

lemma get_set_flag:
  assumes "i < 32" "j < 32" "length (flags c) = 8"
  shows "get_flag (set_flag c i f) j = (if j = i then f else get_flag c j)"
proof -
  have ij: "i div 4 < 8" "i mod 4 < 4" "j mod 4 < 4" using assms by auto
  have e: "j = i \<longleftrightarrow> j div 4 = i div 4 \<and> j mod 4 = i mod 4" by (metis div_mult_mod_eq)
  show ?thesis
    using assms(3) ij packed_flag [of "i mod 4" "j mod 4" "flags c ! (i div 4)" f]
    by (auto simp: get_flag_def set_flag_def Let_def nth_list_update e from_bits_flag_bits)
qed

lemma length_set_flag [simp]: "length (flags (set_flag c i f)) = length (flags c)"
  and vectors_set_flag [simp]: "vectors (set_flag c i f) = vectors c"
  by (simp_all add: set_flag_def Let_def)

lemma get_flag_vectors [simp]: "get_flag (c\<lparr>vectors := vs\<rparr>) i = get_flag c i"
  by (simp add: get_flag_def)

lemma get_flag_set_flag_fun:
  "i < 32 \<Longrightarrow> length (flags c) = 8 \<Longrightarrow> j < 32 \<Longrightarrow>
   get_flag (set_flag (c\<lparr>vectors := vs\<rparr>) i f) j = ((get_flag c)(i := f)) j"
  by (simp add: get_set_flag)

subsection \<open>Positions of stored vectors\<close>

definition mixed_before :: "(nat \<Rightarrow> flag) \<Rightarrow> nat \<Rightarrow> nat" where
  "mixed_before g i = length (filter (\<lambda>k. g k = Mixed) [0..<i])"

lemma foldl_count: "foldl (\<lambda>n x. if P x then n + 1 else n) a xs = a + length (filter P xs)"
  by (induction xs arbitrary: a) auto

lemma vector_position_eq: "vector_position c i = mixed_before (get_flag c) i"
  by (simp add: vector_position_def mixed_before_def foldl_count)

lemma mixed_before_Suc: "mixed_before g (Suc i) = mixed_before g i + (if g i = Mixed then 1 else 0)"
  by (simp add: mixed_before_def)

lemma mixed_before_0 [simp]: "mixed_before g 0 = 0"
  by (simp add: mixed_before_def)

lemma mixed_before_mono: "i \<le> j \<Longrightarrow> mixed_before g i \<le> mixed_before g j"
  by (induction rule: dec_induct) (auto simp: mixed_before_Suc)

lemma mixed_before_less: "i < j \<Longrightarrow> g i = Mixed \<Longrightarrow> mixed_before g i < mixed_before g j"
  using mixed_before_mono [of "Suc i" j g] by (simp add: mixed_before_Suc)

lemma mixed_before_cong: "(\<And>k. k < i \<Longrightarrow> g k = h k) \<Longrightarrow> mixed_before g i = mixed_before h i"
  by (auto simp: mixed_before_def intro!: arg_cong [where f = length] filter_cong)

lemma mixed_before_upd:
  "mixed_before (g(i := f)) j + (if i < j \<and> g i = Mixed then 1 else 0)
     = mixed_before g j + (if i < j \<and> f = Mixed then 1 else 0)"
  by (induction j) (auto simp: mixed_before_Suc less_Suc_eq)

lemma mixed_before_inj:
  "g i = Mixed \<Longrightarrow> g j = Mixed \<Longrightarrow> mixed_before g i = mixed_before g j \<longleftrightarrow> i = j"
  by (metis linorder_neqE_nat mixed_before_less nat_neq_iff)

lemma nth_vec_insert:
  "p \<le> length xs \<Longrightarrow> vec_insert p x xs ! k = (if k < p then xs ! k else if k = p then x else xs ! (k - 1))"
  by (auto simp: vec_insert_def nth_append nth_Cons')

lemma nth_vec_remove:
  "p < length xs \<Longrightarrow> vec_remove p xs ! k = (if k < p then xs ! k else xs ! Suc k)"
  by (auto simp: vec_remove_def nth_append)

lemma length_vec_insert [simp]: "p \<le> length xs \<Longrightarrow> length (vec_insert p x xs) = Suc (length xs)"
  and length_vec_remove [simp]: "p < length xs \<Longrightarrow> length (vec_remove p xs) = length xs - 1"
  by (auto simp: vec_insert_def vec_remove_def)

subsection \<open>The invariant of a chunk\<close>

definition chunk_inv :: "chunk \<Rightarrow> bool" where
  "chunk_inv c \<longleftrightarrow> length (flags c) = 8 \<and> length (vectors c) = vector_position c VECS_PER_CHUNK
     \<and> list_all (\<lambda>i. get_flag c i = flag_for (get_vector c i)) [0..<VECS_PER_CHUNK]"

lemma chunk_inv_flag: "chunk_inv c \<Longrightarrow> i < 32 \<Longrightarrow> get_flag c i = flag_for (get_vector c i)"
  by (auto simp: chunk_inv_def list_all_iff)

text \<open>Every access to \<^verbatim>\<open>vectors\<close> is in range.\<close>

lemma vector_position_less:
  "chunk_inv c \<Longrightarrow> i < 32 \<Longrightarrow> get_flag c i = Mixed \<Longrightarrow> vector_position c i < length (vectors c)"
  by (auto simp: chunk_inv_def vector_position_eq intro: mixed_before_less)

lemma vector_position_le:
  "chunk_inv c \<Longrightarrow> i < 32 \<Longrightarrow> vector_position c i \<le> length (vectors c)"
  by (auto simp: chunk_inv_def vector_position_eq intro: mixed_before_mono)

lemma get_vector_flags:
  "get_flag c i = Zeros \<Longrightarrow> get_vector c i = 0"
  "get_flag c i = Unused \<Longrightarrow> get_vector c i = 0"
  "get_flag c i = Ones \<Longrightarrow> get_vector c i = NOT 0"
  "get_flag c i = Mixed \<Longrightarrow> get_vector c i = vectors c ! mixed_before (get_flag c) i"
  by (simp_all add: get_vector_def vector_position_eq)

text \<open>A chunk whose flags are those of \<open>c\<close> with \<open>i\<close> reflagged.\<close>

lemma reflag_position:
  assumes "i < 32" "length (flags c) = 8" "j \<le> 32"
  shows "vector_position (set_flag (c\<lparr>vectors := vs\<rparr>) i f) j = mixed_before ((get_flag c)(i := f)) j"
  unfolding vector_position_eq
  by (rule mixed_before_cong) (use assms in \<open>simp add: get_set_flag\<close>)

lemma get_vector_reflag:
  assumes "i < 32" "length (flags c) = 8" "j < 32"
  shows "get_vector (set_flag (c\<lparr>vectors := vs\<rparr>) i f) j =
    (case ((get_flag c)(i := f)) j of Ones \<Rightarrow> NOT 0
     | Mixed \<Rightarrow> vs ! mixed_before ((get_flag c)(i := f)) j | Zeros \<Rightarrow> 0 | Unused \<Rightarrow> 0)"
  using assms by (simp add: get_vector_def reflag_position get_set_flag split: flag.split)

lemma get_set_vector:
  assumes inv: "chunk_inv c" and i: "i < 32" and j: "j < 32"
  shows "get_vector (set_vector c i v) j = (if j = i then v else get_vector c j)"
proof -
  let ?g = "get_flag c" and ?vs = "vectors c" and ?p = "mixed_before (get_flag c) i"
  have len: "length (flags c) = 8" using inv by (simp add: chunk_inv_def)
  note reflag = get_vector_reflag [OF i len j]
  have nomix: "v = 0 \<or> v = NOT 0" if "flag_for v \<noteq> Mixed"
    using that by (auto simp: flag_for_def split: if_splits)
  have self: "c = c\<lparr>vectors := ?vs\<rparr>" by simp
  have upd: "mixed_before (?g(i := f)) j + (if i < j \<and> ?g i = Mixed then 1 else 0)
     = mixed_before ?g j + (if i < j \<and> f = Mixed then 1 else 0)" for f
    by (rule mixed_before_upd)
  consider (same) "?g i = flag_for v" | (insert) "?g i \<noteq> Mixed" "flag_for v = Mixed"
    | (remove) "?g i = Mixed" "flag_for v \<noteq> Mixed"
    | (flag) "?g i \<noteq> Mixed" "flag_for v \<noteq> Mixed" "?g i \<noteq> flag_for v" by metis
  then show ?thesis
  proof cases
    case same
    show ?thesis
    proof (cases "flag_for v = Mixed")
      case True
      then have "get_vector (set_vector c i v) j = (case ?g j of Ones \<Rightarrow> NOT 0
          | Mixed \<Rightarrow> ?vs[?p := v] ! mixed_before ?g j | Zeros \<Rightarrow> 0 | Unused \<Rightarrow> 0)"
        using same by (simp add: set_vector_def Let_def get_vector_def vector_position_eq
            cong: flag.case_cong) (simp add: mixed_before_def cong: flag.case_cong)
      then show ?thesis
        using vector_position_less [OF inv i] same True mixed_before_inj [of ?g i j]
        by (cases "?g j") (auto simp: get_vector_flags vector_position_eq)
    next
      case False
      then have "set_vector c i v = c" using same by (simp add: set_vector_def)
      with False nomix same show ?thesis
        by (cases "?g i") (auto simp: get_vector_flags flag_for_def split: if_splits)
    qed
  next
    case insert
    have "?p \<le> length ?vs" using vector_position_le [OF inv i] by (simp add: vector_position_eq)
    then have "get_vector (set_vector c i v) j = (case (?g(i := Mixed)) j of Ones \<Rightarrow> NOT 0
        | Mixed \<Rightarrow> (let k = mixed_before (?g(i := Mixed)) j in
            if k < ?p then ?vs ! k else if k = ?p then v else ?vs ! (k - 1)) | Zeros \<Rightarrow> 0 | Unused \<Rightarrow> 0)"
      using insert reflag [of "vec_insert ?p v ?vs" Mixed]
      by (simp add: set_vector_def Let_def vector_position_eq nth_vec_insert split: flag.split)
    then show ?thesis
      using upd [of Mixed] insert(1) mixed_before_less [of j i ?g] mixed_before_mono [of i j ?g]
      by (cases "?g j"; cases j i rule: linorder_cases) (auto simp: get_vector_flags Let_def)
  next
    case remove
    have "?p < length ?vs" using vector_position_less [OF inv i remove(1)] by (simp add: vector_position_eq)
    then have "get_vector (set_vector c i v) j = (case (?g(i := flag_for v)) j of Ones \<Rightarrow> NOT 0
        | Mixed \<Rightarrow> (let k = mixed_before (?g(i := flag_for v)) j in
            if k < ?p then ?vs ! k else ?vs ! Suc k) | Zeros \<Rightarrow> 0 | Unused \<Rightarrow> 0)"
      using remove reflag [of "vec_remove ?p ?vs" "flag_for v"]
      by (simp add: set_vector_def Let_def vector_position_eq nth_vec_remove split: flag.split)
    then show ?thesis
      using upd [of "flag_for v"] remove mixed_before_less [of j i ?g] mixed_before_less [of i j ?g] nomix
      by (cases "?g j"; cases j i rule: linorder_cases)
        (auto simp: get_vector_flags Let_def flag_for_def split: if_splits)
  next
    case flag
    then have "set_vector c i v = set_flag (c\<lparr>vectors := ?vs\<rparr>) i (flag_for v)"
      by (simp add: set_vector_def Let_def)
    then show ?thesis
      using reflag [of ?vs "flag_for v"] upd [of "flag_for v"] flag nomix
      by (cases "?g j"; cases "j = i")
        (auto simp: get_vector_flags flag_for_def split: if_splits)
  qed
qed

lemma get_flag_set_vector:
  assumes inv: "chunk_inv c" and i: "i < 32" and j: "j < 32"
  shows "get_flag (set_vector c i v) j = (if j = i then flag_for v else get_flag c j)"
proof -
  have "length (flags c) = 8" using inv by (simp add: chunk_inv_def)
  with i j show ?thesis by (simp add: set_vector_def Let_def get_set_flag)
qed

lemma chunk_inv_set_vector:
  assumes inv: "chunk_inv c" and i: "i < 32"
  shows "chunk_inv (set_vector c i v)"
proof -
  let ?g = "get_flag c" and ?p = "mixed_before (get_flag c) i"
  have len: "length (flags c) = 8" "length (vectors c) = mixed_before ?g 32"
    using inv by (auto simp: chunk_inv_def vector_position_eq)
  have p: "?p \<le> length (vectors c)" "?g i = Mixed \<Longrightarrow> ?p < length (vectors c)"
    using vector_position_le [OF inv i] vector_position_less [OF inv i] by (auto simp: vector_position_eq)
  have "mixed_before (get_flag (set_vector c i v)) 32 = mixed_before (?g(i := flag_for v)) 32"
    by (rule mixed_before_cong) (simp add: get_flag_set_vector [OF inv i])
  moreover have "length (vectors (set_vector c i v)) + (if ?g i = Mixed then 1 else 0)
      = length (vectors c) + (if flag_for v = Mixed then 1 else 0)"
    using p by (auto simp: set_vector_def Let_def vector_position_eq)
  ultimately have "length (vectors (set_vector c i v)) = mixed_before (get_flag (set_vector c i v)) 32"
    using mixed_before_upd [of ?g i "flag_for v" 32] i len(2) by simp
  moreover have "length (flags (set_vector c i v)) = 8"
    using len(1) by (simp add: set_vector_def Let_def)
  moreover have "get_flag (set_vector c i v) j = flag_for (get_vector (set_vector c i v) j)" if "j < 32" for j
    using that inv i by (simp add: get_flag_set_vector get_set_vector chunk_inv_flag)
  ultimately show ?thesis by (simp add: chunk_inv_def vector_position_eq list_all_iff)
qed

lemma get_flag_new: "i < 32 \<Longrightarrow> get_flag chunk_new i = Zeros"
  by (simp add: chunk_new_def get_flag_def from_bits_def div_less_mono)

lemma get_vector_new: "i < 32 \<Longrightarrow> get_vector chunk_new i = 0"
  by (simp add: get_vector_def get_flag_new)

lemma chunk_inv_new: "chunk_inv chunk_new"
proof -
  have "mixed_before (get_flag chunk_new) 32 = 0"
    by (simp add: mixed_before_def filter_empty_conv get_flag_new)
  then show ?thesis
    by (simp add: chunk_inv_def vector_position_eq list_all_iff get_flag_new get_vector_new flag_for_def)
      (simp add: chunk_new_def)
qed

subsection \<open>Chunks as sets of bits\<close>

definition chunk_bit :: "chunk \<Rightarrow> nat \<Rightarrow> bool" where
  "chunk_bit c b \<longleftrightarrow> bit (get_vector c (b div BITS_PER_VEC)) (b mod BITS_PER_VEC)"

lemma div_mod_eq64: "(b :: nat) = d \<longleftrightarrow> b div 64 = d div 64 \<and> b mod 64 = d mod 64"
  by (metis div_mult_mod_eq)

lemma is_set_chunk_bit: "is_set_chunk c b = chunk_bit c b"
  by (simp add: is_set_chunk_def chunk_bit_def and_exp_eq_0_iff_not_bit)

lemma chunk_bit_set:
  "chunk_inv c \<Longrightarrow> b < 2048 \<Longrightarrow> d < 2048 \<Longrightarrow>
   chunk_bit (set_bit_chunk c b) d \<longleftrightarrow> d = b \<or> chunk_bit c d"
  using div_mod_eq64 [of d b]
  by (auto simp: chunk_bit_def set_bit_chunk_def Let_def get_set_vector bit_simps)

lemma chunk_bit_clear:
  "chunk_inv c \<Longrightarrow> b < 2048 \<Longrightarrow> d < 2048 \<Longrightarrow>
   chunk_bit (clear_bit_chunk c b) d \<longleftrightarrow> d \<noteq> b \<and> chunk_bit c d"
  using div_mod_eq64 [of d b]
  by (auto simp: chunk_bit_def clear_bit_chunk_def Let_def get_set_vector bit_simps)

lemma chunk_inv_bits:
  "chunk_inv c \<Longrightarrow> b < 2048 \<Longrightarrow> chunk_inv (set_bit_chunk c b)"
  "chunk_inv c \<Longrightarrow> b < 2048 \<Longrightarrow> chunk_inv (clear_bit_chunk c b)"
  by (simp_all add: set_bit_chunk_def clear_bit_chunk_def Let_def chunk_inv_set_vector)

text \<open>A pass over all vectors.\<close>

lemma vector_pass:
  assumes "chunk_inv c" and "n \<le> 32"
  shows "chunk_inv (foldl (\<lambda>c i. set_vector c i (h (get_vector c i) i)) c [0..<n])
    \<and> (\<forall>j<32. get_vector (foldl (\<lambda>c i. set_vector c i (h (get_vector c i) i)) c [0..<n]) j
        = (if j < n then h (get_vector c j) j else get_vector c j))"
  using assms(2)
proof (induction n)
  case (Suc n)
  then show ?case
    by (auto simp: chunk_inv_set_vector get_set_vector less_Suc_eq)
qed (use assms(1) in simp)

lemma chunk_union:
  assumes "chunk_inv c"
  shows "chunk_inv (union_chunk d c)"
    and "b < 2048 \<Longrightarrow> chunk_bit (union_chunk d c) b \<longleftrightarrow> chunk_bit c b \<or> chunk_bit d b"
  using vector_pass [OF assms, of 32 "\<lambda>v i. v OR get_vector d i"]
  by (auto simp: union_chunk_def chunk_bit_def bit_simps)

lemma chunk_intersect:
  assumes "chunk_inv c"
  shows "chunk_inv (intersect_chunk d c)"
    and "b < 2048 \<Longrightarrow> chunk_bit (intersect_chunk d c) b \<longleftrightarrow> chunk_bit c b \<and> chunk_bit d b"
  using vector_pass [OF assms, of 32 "\<lambda>v i. v AND get_vector d i"]
  by (auto simp: intersect_chunk_def chunk_bit_def bit_simps)

lemma chunk_bit_new: "b < 2048 \<Longrightarrow> \<not> chunk_bit chunk_new b"
  by (simp add: chunk_bit_def get_vector_new)

subsection \<open>Maps as sets of indices\<close>

definition sm_inv :: "sparsemap \<Rightarrow> bool" where
  "sm_inv m \<longleftrightarrow> length m \<le> 2097152 \<and> list_all (\<lambda>c. case c of None \<Rightarrow> True | Some c \<Rightarrow> chunk_inv c) m"

definition sm_bit :: "sparsemap \<Rightarrow> nat \<Rightarrow> bool" where
  "sm_bit m b \<longleftrightarrow> b div BITS_PER_CHUNK < length m
     \<and> (case m ! (b div BITS_PER_CHUNK) of None \<Rightarrow> False | Some c \<Rightarrow> chunk_bit c (b mod BITS_PER_CHUNK))"

definition map_bits :: "sparsemap \<Rightarrow> u32 set" where
  "map_bits m = {i. sm_bit m (unat i)}"

lemma sm_is_set_bits: "sm_is_set m i \<longleftrightarrow> i \<in> map_bits m"
  by (auto simp: sm_is_set_def map_bits_def sm_bit_def Let_def is_set_chunk_bit split: option.split)

lemma sm_inv_nth: "sm_inv m \<Longrightarrow> k < length m \<Longrightarrow> m ! k = Some c \<Longrightarrow> chunk_inv c"
  by (auto simp: sm_inv_def list_all_length)

text \<open>Growing and allocating adds no bits; after it the chunk is there.\<close>

definition ensure :: "sparsemap \<Rightarrow> nat \<Rightarrow> sparsemap" where
  "ensure m k = allocate (grow m k) k"

lemma length_ensure: "length (ensure m k) = max (length m) (Suc k)"
  by (auto simp: ensure_def allocate_def grow_def)

lemma ensure_nth:
  "j < max (length m) (Suc k) \<Longrightarrow> ensure m k ! j =
     (if j < length m \<and> m ! j \<noteq> None then m ! j else if j = k then Some chunk_new else None)"
  by (auto simp: ensure_def allocate_def grow_def nth_append nth_list_update)

lemma sm_inv_ensure: "sm_inv m \<Longrightarrow> k < 2097152 \<Longrightarrow> sm_inv (ensure m k)"
  using chunk_inv_new
  by (auto simp: sm_inv_def list_all_length length_ensure ensure_nth split: option.splits)

lemma sm_bit_ensure: "sm_bit (ensure m k) b = sm_bit m b"
  using chunk_bit_new [of "b mod 2048"]
  by (cases "b div 2048 < length m"; cases "b div 2048 < Suc k"; cases "m ! (b div 2048)")
    (auto simp: sm_bit_def length_ensure ensure_nth)

lemma ensure_some: obtains c where "ensure m k ! k = Some c"
proof -
  have "ensure m k ! k \<noteq> None" by (simp add: ensure_nth)
  with that show thesis by blast
qed

lemma sm_update:
  assumes "sm_inv m" "k < length m"
    and f: "\<And>c. chunk_inv c \<Longrightarrow> chunk_inv (f c)"
  shows "sm_inv (update_chunk f m k)"
    and "sm_bit (update_chunk f m k) b \<longleftrightarrow>
      (case m ! k of Some c \<Rightarrow> if b div 2048 = k then chunk_bit (f c) (b mod 2048) else sm_bit m b
       | None \<Rightarrow> sm_bit m b)"
  using assms sm_inv_nth [OF assms(1,2)]
  by (auto simp: update_chunk_def sm_inv_def sm_bit_def list_all_length nth_list_update
      split: option.splits if_splits)

lemma sm_set_ensure:
  "sm_set m i = update_chunk (\<lambda>c. set_bit_chunk c (unat i mod 2048)) (ensure m (unat i div 2048)) (unat i div 2048)"
  by (simp add: sm_set_def ensure_def Let_def)

lemma unat_div: "unat (i :: u32) div 2048 < 2097152"
  using unsigned_less [of i, where ?'a = nat] by (simp add: div_less_mono less_mult_imp_div_less)

lemma div_mod_eq2048: "(b :: nat) = d \<longleftrightarrow> b div 2048 = d div 2048 \<and> b mod 2048 = d mod 2048"
  by (metis div_mult_mod_eq)

lemma unat_eq_unat: "unat (x :: u32) = unat i \<longleftrightarrow> x = i"
  by (metis word_eq_iff_unsigned)

lemma sm_set_correct:
  assumes "sm_inv m"
  shows "sm_inv (sm_set m i)" and "map_bits (sm_set m i) = insert i (map_bits m)"
proof -
  let ?k = "unat i div 2048" and ?f = "\<lambda>c. set_bit_chunk c (unat i mod 2048)"
  have e: "sm_inv (ensure m ?k)" "?k < length (ensure m ?k)"
    using assms unat_div by (simp_all add: sm_inv_ensure length_ensure)
  obtain c where c: "ensure m ?k ! ?k = Some c" by (rule ensure_some)
  have f: "chunk_inv c \<Longrightarrow> chunk_inv (?f c)" for c by (simp add: chunk_inv_bits)
  show "sm_inv (sm_set m i)" unfolding sm_set_ensure by (rule sm_update(1) [OF e]) (rule f)
  have "sm_bit (sm_set m i) b \<longleftrightarrow> b = unat i \<or> sm_bit m b" for b
  proof -
    have "sm_bit (ensure m ?k) b = chunk_bit c (b mod 2048)" if "b div 2048 = ?k"
      using that c e(2) by (simp add: sm_bit_def)
    then show ?thesis
      using div_mod_eq2048 [of b "unat i"] sm_inv_nth [OF e c]
      by (auto simp: sm_set_ensure sm_update(2) [OF e f] c chunk_bit_set sm_bit_ensure)
  qed
  then show "map_bits (sm_set m i) = insert i (map_bits m)"
    by (simp add: map_bits_def set_eq_iff unat_eq_unat)
qed

lemma sm_clear_correct:
  assumes "sm_inv m"
  shows "sm_inv (sm_clear m i)" and "map_bits (sm_clear m i) = map_bits m - {i}"
proof -
  let ?k = "unat i div 2048" and ?f = "\<lambda>c. clear_bit_chunk c (unat i mod 2048)"
  have f: "chunk_inv c \<Longrightarrow> chunk_inv (?f c)" for c by (simp add: chunk_inv_bits)
  show "sm_inv (sm_clear m i)"
    using assms sm_update(1) [OF assms _ f, of ?k] by (simp add: sm_clear_def Let_def)
  have "sm_bit (sm_clear m i) b \<longleftrightarrow> b \<noteq> unat i \<and> sm_bit m b" for b
  proof (cases "?k < length m \<and> m ! ?k \<noteq> None")
    case True
    then obtain c where k: "?k < length m" and c: "m ! ?k = Some c" by blast
    have "sm_bit m b = chunk_bit c (b mod 2048)" if "b div 2048 = ?k"
      using that c k by (simp add: sm_bit_def)
    then show ?thesis
      using k div_mod_eq2048 [of b "unat i"] sm_inv_nth [OF assms k c]
      by (auto simp: sm_clear_def Let_def sm_update(2) [OF assms k f] c chunk_bit_clear)
  next
    case False
    then have n: "\<not> sm_bit m (unat i)" by (cases "m ! ?k") (simp_all add: sm_bit_def)
    from False have "sm_clear m i = m"
      by (cases "m ! ?k") (simp_all add: sm_clear_def update_chunk_def Let_def)
    with n show ?thesis by (cases "b = unat i") simp_all
  qed
  then show "map_bits (sm_clear m i) = map_bits m - {i}"
    by (simp add: map_bits_def set_eq_iff unat_eq_unat conj_commute)
qed

lemma sm_union_step:
  assumes "sm_inv m" "k < 2097152"
  shows "sm_inv (update_chunk (union_chunk d) (ensure m k) k)"
    and "sm_bit (update_chunk (union_chunk d) (ensure m k) k) b \<longleftrightarrow>
      sm_bit m b \<or> b div 2048 = k \<and> chunk_bit d (b mod 2048)"
proof -
  have e: "sm_inv (ensure m k)" "k < length (ensure m k)"
    using assms by (simp_all add: sm_inv_ensure length_ensure)
  obtain c where c: "ensure m k ! k = Some c" by (rule ensure_some)
  show "sm_inv (update_chunk (union_chunk d) (ensure m k) k)"
    by (rule sm_update(1) [OF e]) (rule chunk_union)
  have "sm_bit (ensure m k) b = chunk_bit c (b mod 2048)" if "b div 2048 = k"
    using that c e(2) by (simp add: sm_bit_def)
  then show "sm_bit (update_chunk (union_chunk d) (ensure m k) k) b \<longleftrightarrow>
      sm_bit m b \<or> b div 2048 = k \<and> chunk_bit d (b mod 2048)"
    using sm_inv_nth [OF e c]
    by (auto simp: sm_update(2) [OF e chunk_union(1)] c chunk_union(2) sm_bit_ensure)
qed

definition union_pass :: "sparsemap \<Rightarrow> nat \<times> chunk option \<Rightarrow> sparsemap" where
  "union_pass m = (\<lambda>(i, oc). case oc of
       None \<Rightarrow> m
     | Some d \<Rightarrow> update_chunk (union_chunk d) (allocate (grow m i) i) i)"

definition opt_bit :: "chunk option \<Rightarrow> nat \<Rightarrow> bool" where
  "opt_bit oc b = (case oc of None \<Rightarrow> False | Some c \<Rightarrow> chunk_bit c b)"

lemma sm_union_loop:
  assumes "sm_inv m" "k + length other \<le> 2097152"
  shows "sm_inv (foldl union_pass m (List.enumerate k other))
    \<and> (\<forall>b. sm_bit (foldl union_pass m (List.enumerate k other)) b \<longleftrightarrow>
        sm_bit m b \<or> k \<le> b div 2048 \<and> b div 2048 - k < length other
          \<and> opt_bit (other ! (b div 2048 - k)) (b mod 2048))"
  using assms
proof (induction other arbitrary: m k)
  case (Cons oc other)
  have step: "sm_inv (union_pass m (k, oc))" "sm_bit (union_pass m (k, oc)) b \<longleftrightarrow>
      sm_bit m b \<or> b div 2048 = k \<and> opt_bit oc (b mod 2048)" for b
    using Cons.prems sm_union_step [of m k]
    by (auto simp: union_pass_def ensure_def opt_bit_def split: option.split)
  have IH: "sm_inv (foldl union_pass (union_pass m (k, oc)) (List.enumerate (Suc k) other))"
    "sm_bit (foldl union_pass (union_pass m (k, oc)) (List.enumerate (Suc k) other)) b \<longleftrightarrow>
       (sm_bit m b \<or> b div 2048 = k \<and> opt_bit oc (b mod 2048))
       \<or> Suc k \<le> b div 2048 \<and> b div 2048 - Suc k < length other
         \<and> opt_bit (other ! (b div 2048 - Suc k)) (b mod 2048)" for b
    using Cons.IH [OF step(1), of "Suc k"] Cons.prems(2) by (auto simp: step(2))
  have "k \<le> q \<and> q - k < length (oc # other) \<and> opt_bit ((oc # other) ! (q - k)) r \<longleftrightarrow>
      (q = k \<and> opt_bit oc r) \<or> Suc k \<le> q \<and> q - Suc k < length other \<and> opt_bit (other ! (q - Suc k)) r"
    for q r
    by (cases "q = k"; cases "q < k") (auto simp: nth_Cons')
  with IH show ?case by simp
qed simp

lemma sm_union_correct:
  assumes "sm_inv m" "sm_inv n"
  shows "sm_inv (sm_union m n)" and "map_bits (sm_union m n) = map_bits m \<union> map_bits n"
proof -
  have e: "sm_union m n = foldl union_pass m (List.enumerate 0 n)"
    by (simp add: sm_union_def union_pass_def [abs_def])
  have "length n \<le> 2097152" using assms(2) by (simp add: sm_inv_def)
  with sm_union_loop [OF assms(1), of 0 n]
  show "sm_inv (sm_union m n)" "map_bits (sm_union m n) = map_bits m \<union> map_bits n"
    by (auto simp: e map_bits_def sm_bit_def opt_bit_def)
qed

lemma sm_intersect_correct:
  assumes "sm_inv m"
  shows "sm_inv (sm_intersect m n)" and "map_bits (sm_intersect m n) = map_bits m \<inter> map_bits n"
proof -
  have len: "length (sm_intersect m n) = length m" by (simp add: sm_intersect_def)
  have nth: "sm_intersect m n ! k = (case m ! k of None \<Rightarrow> None
     | Some c \<Rightarrow> Some (if k < length n
         then (case n ! k of Some d \<Rightarrow> intersect_chunk d c | None \<Rightarrow> chunk_new)
         else chunk_new))" if "k < length m" for k
    using that by (simp add: sm_intersect_def nth_enumerate_eq)
  show "sm_inv (sm_intersect m n)"
    using assms chunk_intersect(1) chunk_inv_new
    by (auto simp: sm_inv_def list_all_length len nth split: option.split)
  have "sm_bit (sm_intersect m n) b \<longleftrightarrow> sm_bit m b \<and> sm_bit n b" for b
  proof (cases "b div 2048 < length m")
    case True
    then show ?thesis
      using sm_inv_nth [OF assms True] chunk_bit_new [of "b mod 2048"]
      by (cases "m ! (b div 2048)"; cases "n ! (b div 2048)")
        (auto simp: sm_bit_def len nth chunk_intersect(2))
  qed (simp add: sm_bit_def len)
  then show "map_bits (sm_intersect m n) = map_bits m \<inter> map_bits n"
    by (auto simp: map_bits_def)
qed

subsection \<open>Iteration and counting\<close>

text \<open>Nested loops over equal blocks enumerate the whole range in order.\<close>

lemma concat_blocks:
  "0 < n \<Longrightarrow> concat (map (\<lambda>i. map (\<lambda>off. i * n + off) (filter (P i) [0..<n])) [0..<k])
    = filter (\<lambda>b. P (b div n) (b mod n)) [0..<k * n]"
proof (induction k)
  case (Suc k)
  have "[k * n..<k * n + n] = map (\<lambda>off. k * n + off) [0..<n]"
    using map_add_upt [of "k * n" n] by (simp add: add.commute)
  then have "filter (\<lambda>b. P (b div n) (b mod n)) [k * n..<k * n + n]
      = map (\<lambda>off. k * n + off) (filter (P k) [0..<n])"
    using Suc.prems by (auto simp: filter_map comp_def intro!: filter_cong)
  moreover have "[0..<Suc k * n] = [0..<k * n] @ [k * n..<k * n + n]"
    using upt_add_eq_append [of 0 "k * n" n] by (simp add: add.commute)
  ultimately show ?case using Suc by simp
qed simp

lemma chunk_iter_eq: "chunk_iter k c = map (\<lambda>b. of_nat (k * 2048 + b)) (filter (chunk_bit c) [0..<2048])"
proof -
  have "filter (chunk_bit c) [0..<32 * 64] = concat (map (\<lambda>i. map (\<lambda>off. i * 64 + off)
      (filter (\<lambda>off. bit (get_vector c i) off) [0..<64])) [0..<32])"
    unfolding chunk_bit_def [abs_def]
    by (rule concat_blocks [of 64 "\<lambda>i. bit (get_vector c i)" 32, symmetric]) simp
  moreover have "(filter (\<lambda>off. get_vector c i AND push_bit off 1 \<noteq> 0) [0..<64])
      = filter (bit (get_vector c i)) [0..<64]" for i
    by (rule filter_cong) (simp_all add: and_exp_eq_0_iff_not_bit)
  ultimately show ?thesis
    by (simp add: chunk_iter_def Let_def map_concat comp_def add.assoc del: upt_Suc upt_rec_numeral)
qed

lemma enumerate_map_nth: "List.enumerate 0 xs = map (\<lambda>k. (k, xs ! k)) [0..<length xs]"
  by (rule nth_equalityI) (simp_all add: nth_enumerate_eq)

lemma sm_iter_eq: "sm_iter m = map of_nat (filter (sm_bit m) [0..<length m * 2048])"
proof -
  have "filter (sm_bit m) [0..<length m * 2048]
      = filter (\<lambda>b. opt_bit (m ! (b div 2048)) (b mod 2048)) [0..<length m * 2048]"
    by (rule filter_cong) (auto simp: sm_bit_def opt_bit_def less_mult_imp_div_less)
  also have "\<dots> = concat (map (\<lambda>k. map (\<lambda>b. k * 2048 + b) (filter (opt_bit (m ! k)) [0..<2048])) [0..<length m])"
    by (rule concat_blocks [of 2048 "\<lambda>k. opt_bit (m ! k)", symmetric]) simp
  finally have "(map of_nat (filter (sm_bit m) [0..<length m * 2048]) :: u32 list)
      = concat (map (\<lambda>k. map (\<lambda>b. of_nat (k * 2048 + b)) (filter (opt_bit (m ! k)) [0..<2048])) [0..<length m])"
    by (simp only: map_concat map_map comp_def)
  moreover have "(case m ! k of None \<Rightarrow> [] | Some c \<Rightarrow> chunk_iter k c)
      = map (\<lambda>b. of_nat (k * 2048 + b)) (filter (opt_bit (m ! k)) [0..<2048])" for k
    by (simp add: chunk_iter_eq opt_bit_def [abs_def] del: upt_Suc upt_rec_numeral split: option.split)
  ultimately show ?thesis
    by (simp only: sm_iter_def enumerate_map_nth map_map comp_def prod.case)
qed

lemma sm_iter_unat:
  assumes "sm_inv m"
  shows "map unat (sm_iter m) = filter (sm_bit m) [0..<length m * 2048]"
proof -
  have "b < 2 ^ 32" if "b < length m * 2048" for b
    using that assms by (auto simp: sm_inv_def)
  then have "unat (of_nat b :: u32) = b" if "b < length m * 2048" for b
    using that by (simp add: unsigned_of_nat take_bit_nat_eq_self)
  then show ?thesis
    by (auto simp: sm_iter_eq comp_def intro!: map_idI)
qed

lemma sm_iter_set: "sm_inv m \<Longrightarrow> set (sm_iter m) = map_bits m"
proof -
  assume inv: "sm_inv m"
  have "unat i \<in> set (map unat (sm_iter m)) \<longleftrightarrow> i \<in> set (sm_iter m)" for i :: u32
    by (auto simp: unat_eq_unat)
  moreover have "unat i \<in> set (filter (sm_bit m) [0..<length m * 2048]) \<longleftrightarrow> sm_bit m (unat i)" for i :: u32
    by (auto simp: sm_bit_def div_less_iff_less_mult)
  ultimately show ?thesis
    unfolding sm_iter_unat [OF inv] map_bits_def by blast
qed

lemma sm_iter_sorted:
  assumes "sm_inv m"
  shows "sorted_wrt (<) (sm_iter m)"
proof -
  have "sorted_wrt (<) (map unat (sm_iter m))"
    unfolding sm_iter_unat [OF assms] by (intro sorted_wrt_filter) simp
  then show ?thesis
    unfolding sorted_wrt_map by (rule sorted_wrt_mono_rel [rotated]) (simp add: word_less_nat_alt)
qed

lemma of_nat_sum_list: "of_nat (sum_list xs) = sum_list (map of_nat xs)"
  by (induction xs) auto

lemma foldl_add_sum_list: "foldl (\<lambda>n i. n + f i) a xs = a + sum_list (map f xs)"
  for a :: "'a :: comm_monoid_add"
  by (induction xs arbitrary: a) (auto simp: add.assoc)

lemma count_chunk_eq: "count_chunk c = of_nat (length (filter (chunk_bit c) [0..<2048]))"
proof -
  have "(case get_flag c i of Zeros \<Rightarrow> n | Unused \<Rightarrow> n | Ones \<Rightarrow> n + of_nat 64
      | Mixed \<Rightarrow> n + count_ones (get_vector c i)) = n + count_ones (get_vector c i)" for n i
    by (cases "get_flag c i") (auto simp: get_vector_flags count_ones_def bit_simps)
  then have "count_chunk c = foldl (\<lambda>n i. n + count_ones (get_vector c i)) 0 [0..<32]"
    by (simp add: count_chunk_def)
  also have "\<dots> = sum_list (map (\<lambda>i. count_ones (get_vector c i)) [0..<32])"
    by (simp add: foldl_add_sum_list del: upt_Suc upt_rec_numeral)
  also have "\<dots> = of_nat (sum_list (map (\<lambda>i. length (filter (bit (get_vector c i)) [0..<64])) [0..<32]))"
    by (simp only: count_ones_def of_nat_sum_list map_map comp_def)
  also have "filter (chunk_bit c) [0..<32 * 64] = concat (map (\<lambda>i. map (\<lambda>off. i * 64 + off)
      (filter (bit (get_vector c i)) [0..<64])) [0..<32])"
    unfolding chunk_bit_def [abs_def]
    by (rule concat_blocks [of 64 "\<lambda>i. bit (get_vector c i)" 32, symmetric]) simp
  then have "sum_list (map (\<lambda>i. length (filter (bit (get_vector c i)) [0..<64])) [0..<32])
      = length (filter (chunk_bit c) [0..<2048])"
    by (simp add: length_concat comp_def del: upt_Suc upt_rec_numeral)
  finally show ?thesis .
qed

text \<open>No condition is needed here: both sides are taken at the width of \<^verbatim>\<open>u32\<close>.\<close>

lemma sm_count_iter: "sm_count m = of_nat (length (sm_iter m))"
proof -
  have "length (sm_iter m) = sum_list (map (\<lambda>c. case c of None \<Rightarrow> 0
      | Some c \<Rightarrow> length (filter (chunk_bit c) [0..<2048])) m)"
  proof -
    have "length (sm_iter m) = sum_list (map (\<lambda>k. case m ! k of None \<Rightarrow> 0
      | Some c \<Rightarrow> length (filter (chunk_bit c) [0..<2048])) [0..<length m])"
      unfolding sm_iter_def enumerate_map_nth length_concat map_map comp_def
      by (intro arg_cong [where f = sum_list] map_cong refl)
        (simp add: chunk_iter_eq del: upt_Suc upt_rec_numeral split: option.split)
    also have "map (\<lambda>k. case m ! k of None \<Rightarrow> 0 | Some c \<Rightarrow> length (filter (chunk_bit c) [0..<2048]))
        [0..<length m] = map (\<lambda>c. case c of None \<Rightarrow> 0
          | Some c \<Rightarrow> length (filter (chunk_bit c) [0..<2048])) m"
      by (rule nth_equalityI) auto
    finally show ?thesis .
  qed
  moreover have "sm_count m = of_nat (sum_list (map (\<lambda>c. case c of None \<Rightarrow> 0
      | Some c \<Rightarrow> length (filter (chunk_bit c) [0..<2048])) m))"
    unfolding sm_count_def
    by (induction m)
      (simp_all add: map_filter_simps count_chunk_eq del: upt_Suc upt_rec_numeral split: option.split)
  ultimately show ?thesis by simp
qed

subsection \<open>The set interface\<close>

locale bit_set =
  fixes empty :: 'm
    and add :: "'m \<Rightarrow> 'i \<Rightarrow> 'm"
    and remove :: "'m \<Rightarrow> 'i \<Rightarrow> 'm"
    and has :: "'m \<Rightarrow> 'i \<Rightarrow> bool"
    and join :: "'m \<Rightarrow> 'm \<Rightarrow> 'm"
    and meet :: "'m \<Rightarrow> 'm \<Rightarrow> 'm"
    and elems :: "'m \<Rightarrow> 'i list"
    and inv :: "'m \<Rightarrow> bool"
    and abs :: "'m \<Rightarrow> 'i set"
  assumes empty_ok: "inv empty" "abs empty = {}"
    and add_ok: "inv m \<Longrightarrow> inv (add m i)" "inv m \<Longrightarrow> abs (add m i) = insert i (abs m)"
    and remove_ok: "inv m \<Longrightarrow> inv (remove m i)" "inv m \<Longrightarrow> abs (remove m i) = abs m - {i}"
    and has_ok: "inv m \<Longrightarrow> has m i \<longleftrightarrow> i \<in> abs m"
    and join_ok: "inv m \<Longrightarrow> inv n \<Longrightarrow> inv (join m n)"
      "inv m \<Longrightarrow> inv n \<Longrightarrow> abs (join m n) = abs m \<union> abs n"
    and meet_ok: "inv m \<Longrightarrow> inv n \<Longrightarrow> inv (meet m n)"
      "inv m \<Longrightarrow> inv n \<Longrightarrow> abs (meet m n) = abs m \<inter> abs n"
    and elems_ok: "inv m \<Longrightarrow> set (elems m) = abs m" "inv m \<Longrightarrow> distinct (elems m)"
begin

lemmas laws = empty_ok add_ok remove_ok has_ok join_ok meet_ok elems_ok

definition add_all :: "'i list \<Rightarrow> 'm" where
  "add_all xs = foldl add empty xs"

lemma add_all_from: "inv m \<Longrightarrow> inv (foldl add m xs) \<and> abs (foldl add m xs) = abs m \<union> set xs"
  by (induction xs arbitrary: m) (auto simp: laws)

lemma add_all_ok: "inv (add_all xs)" "abs (add_all xs) = set xs"
  using add_all_from [of empty xs] by (simp_all add: add_all_def laws)

lemma has_add_all: "has (add_all xs) i \<longleftrightarrow> i \<in> set xs"
  by (simp add: laws add_all_ok)

lemma length_elems: "inv m \<Longrightarrow> length (elems m) = card (abs m)"
  by (metis distinct_card elems_ok)

lemma elems_add_all: "set (elems (add_all xs)) = set xs" "length (elems (add_all xs)) = card (set xs)"
  by (simp_all add: elems_ok add_all_ok length_elems)

end

lemma sm_new_ok [simp]: "sm_inv sm_new" "map_bits sm_new = {}"
  by (simp_all add: sm_new_def sm_inv_def map_bits_def sm_bit_def)

interpretation sm: bit_set sm_new sm_set sm_clear sm_is_set sm_union sm_intersect sm_iter sm_inv map_bits
proof (unfold_locales, goal_cases)
  case (13 m)
  then show ?case using sm_iter_sorted strict_sorted_iff by blast
qed (simp_all add: sm_new_ok sm_set_correct sm_clear_correct sm_is_set_bits
    sm_union_correct sm_intersect_correct sm_iter_set)

subsection \<open>Properties\<close>

text \<open>Claim C22. Setting and clearing a bit keep the invariant of the compression (the vectors
  stored are exactly those flagged as mixed, and no flag is out of date) and change the set of
  indices as they should: \<^verbatim>\<open>set\<close> adds the index, \<^verbatim>\<open>clear\<close> removes it, and
  \<^verbatim>\<open>is_set\<close> afterwards answers for every index of the \<^verbatim>\<open>u32\<close> range.\<close>

theorem sparsemap_update:
  assumes "sm_inv m"
  shows "sm_inv (sm_set m i) \<and> sm_inv (sm_clear m i)
    \<and> (sm_is_set (sm_set m i) j \<longleftrightarrow> j = i \<or> sm_is_set m j)
    \<and> (sm_is_set (sm_clear m i) j \<longleftrightarrow> j \<noteq> i \<and> sm_is_set m j)"
  using assms by (auto simp: sm.laws)

theorem sparsemap_update_witness:
  "sm_is_set (sm_clear (sm_set (sm_set sm_new 5) 4000) 5) 4000
   \<and> \<not> sm_is_set (sm_clear (sm_set (sm_set sm_new 5) 4000) 5) 5"
proof -
  have i: "sm_inv (sm_set sm_new 5)" "sm_inv (sm_set (sm_set sm_new 5) 4000)"
    by (simp_all add: sm_set_correct sm_new_ok)
  show ?thesis
    using sparsemap_update [OF i(1), of 4000 4000] sparsemap_update [OF i(2), of 5 4000]
      sparsemap_update [OF i(2), of 5 5] by simp
qed

text \<open>Claim C32. \<^verbatim>\<open>union\<close> and \<^verbatim>\<open>intersect\<close>, which work vector by vector on the
  compressed form and allocate or reset whole chunks, are union and intersection of the sets of
  indices, whatever the sizes of the two maps.\<close>

theorem sparsemap_combine:
  assumes "sm_inv m" and "sm_inv n"
  shows "sm_inv (sm_union m n) \<and> sm_inv (sm_intersect m n)
    \<and> map_bits (sm_union m n) = map_bits m \<union> map_bits n
    \<and> map_bits (sm_intersect m n) = map_bits m \<inter> map_bits n"
  using assms by (simp add: sm.laws)

theorem sparsemap_combine_witness:
  "map_bits (sm_union (sm_set sm_new 1) (sm_set sm_new 5000)) = {1, 5000}
   \<and> map_bits (sm_intersect (sm_set sm_new 1) (sm_set sm_new 5000)) = {}"
proof -
  have i: "sm_inv (sm_set sm_new 1)" "sm_inv (sm_set sm_new 5000)"
    by (simp_all add: sm_set_correct sm_new_ok)
  show ?thesis using sparsemap_combine [OF i] by (auto simp: sm_set_correct sm_new_ok)
qed

text \<open>Iterating a map lists exactly its indices, each once and in increasing order,
  and \<^verbatim>\<open>count\<close>, which adds up the counts of the compressed vectors, is the number of
  indices, taken modulo 2^32: a full map counts as 0.\<close>

lemma sparsemap_iter:
  assumes "sm_inv m"
  shows "set (sm_iter m) = {i. sm_is_set m i} \<and> sorted_wrt (<) (sm_iter m)
    \<and> sm_count m = of_nat (card {i. sm_is_set m i})"
proof -
  have "{i. sm_is_set m i} = map_bits m" by (simp add: sm_is_set_bits)
  then show ?thesis
    using assms sm.length_elems [OF assms] by (simp add: sm.laws sm_iter_sorted sm_count_iter)
qed

lemma sparsemap_iter_witness:
  "sm_iter (sm_set (sm_set sm_new 70) 3) = [3, 70] \<and> sm_count (sm_set (sm_set sm_new 70) 3) = 2"
proof -
  have i: "sm_inv (sm_set (sm_set sm_new 70) 3)" by (simp add: sm_set_correct sm_new_ok)
  have s: "{i. sm_is_set (sm_set (sm_set sm_new 70) 3) i} = {3, 70}"
    by (auto simp: sm.laws)
  have "sm_iter (sm_set (sm_set sm_new 70) 3) = [3, 70]"
    using sparsemap_iter [OF i] unfolding s
    by (intro strict_sorted_equal) auto
  with sparsemap_iter [OF i] show ?thesis unfolding s by simp
qed

end
