(* ===== verification/Rule_Registry.thy ===== *)
theory Rule_Registry
  imports Sparsemap
begin

text \<open>
  The registry of rewrite rules and the sets of applied rules
  (\<^verbatim>\<open>crates/ra-engine/src/rule_registry.rs\<close>). A \<^verbatim>\<open>RuleSet\<close> is the client of the
  compressed bitmap: its lemmas rest on the facts of the interpretation \<open>sm\<close> of the set
  interface. Rule identifiers are 16-bit words, the indices of the bitmap 32-bit words.
\<close>

type_synonym rule_id = "16 word"

subsection \<open>The registry\<close>

record rule_info =
  ri_id :: rule_id
  ri_name :: string
  ri_category :: string

type_synonym rule_registry = "rule_info list"

definition register :: "rule_id \<Rightarrow> string \<Rightarrow> string \<Rightarrow> rule_registry \<Rightarrow> rule_registry" where
  "register i n c rules = rules @ [\<lparr>ri_id = i, ri_name = n, ri_category = c\<rparr>]"

text \<open>\<^verbatim>\<open>self.register(id, n, c); id += 1;\<close> and a bare \<^verbatim>\<open>id += 1;\<close>, on the pair of
  the local \<^verbatim>\<open>id\<close> and the registry.\<close>

definition next_rule :: "string \<Rightarrow> string \<Rightarrow> rule_id \<times> rule_registry \<Rightarrow> rule_id \<times> rule_registry" where
  "next_rule n c = (\<lambda>(i, rules). (i + 1, register i n c rules))"

definition skip_id :: "rule_id \<times> rule_registry \<Rightarrow> rule_id \<times> rule_registry" where
  "skip_id = (\<lambda>(i, rules). (i + 1, rules))"

definition init_registry :: "rule_registry \<Rightarrow> rule_registry" where
  "init_registry rules =
    (case foldl (\<lambda>s step. step s) (0, rules)
    [next_rule ''and-null-left'' ''null'',
     next_rule ''and-null-right'' ''null'',
     next_rule ''or-null-true-right'' ''null'',
     next_rule ''or-null-true-left'' ''null'',
     next_rule ''or-null-false-right'' ''null'',
     next_rule ''or-null-false-left'' ''null'',
     next_rule ''null-eq'' ''null'',
     next_rule ''null-ne'' ''null'',
     next_rule ''null-lt'' ''null'',
     next_rule ''null-le'' ''null'',
     next_rule ''null-gt'' ''null'',
     next_rule ''null-ge'' ''null'',
     next_rule ''is-null-of-null'' ''null'',
     next_rule ''is-not-null-of-null'' ''null'',
     next_rule ''filter-null-elimination'' ''null'',
     next_rule ''null-add-left'' ''null'',
     next_rule ''null-add-right'' ''null'',
     next_rule ''null-sub-left'' ''null'',
     next_rule ''null-sub-right'' ''null'',
     next_rule ''null-mul-left'' ''null'',
     next_rule ''null-mul-right'' ''null'',
     next_rule ''and-true-left'' ''boolean'',
     next_rule ''and-true-right'' ''boolean'',
     next_rule ''and-false-left'' ''boolean'',
     next_rule ''and-false-right'' ''boolean'',
     next_rule ''or-false-left'' ''boolean'',
     next_rule ''or-false-right'' ''boolean'',
     next_rule ''or-true-left'' ''boolean'',
     next_rule ''or-true-right'' ''boolean'',
     next_rule ''double-negation'' ''boolean'',
     skip_id,
     skip_id,
     next_rule ''eq-null'' ''boolean'',
     next_rule ''ne-null'' ''boolean'',
     next_rule ''not-is-null'' ''boolean'',
     next_rule ''not-is-not-null'' ''boolean'',
     next_rule ''and-idempotent'' ''boolean'',
     next_rule ''or-idempotent'' ''boolean'',
     next_rule ''filter-true'' ''boolean'',
     next_rule ''filter-through-join-left'' ''pushdown'',
     next_rule ''filter-through-join-right'' ''pushdown'',
     next_rule ''filter-into-join-condition'' ''pushdown'',
     next_rule ''filter-merge'' ''pushdown'',
     next_rule ''filter-split-and'' ''pushdown'',
     next_rule ''filter-through-project'' ''pushdown'',
     next_rule ''filter-below-aggregate'' ''pushdown'',
     next_rule ''join-commutativity'' ''join'',
     next_rule ''cross-join-commutativity'' ''join'',
     next_rule ''join-associativity-left'' ''join'',
     next_rule ''join-associativity-right'' ''join'',
     next_rule ''cartesian-to-join'' ''join'',
     next_rule ''project-merge'' ''projection'',
     next_rule ''aggregate-over-aggregate'' ''aggregate'',
     next_rule ''limit-through-project'' ''limit'',
     next_rule ''limit-merge'' ''limit'']
     of (i, rules) \<Rightarrow> register i ''sort-below-sort'' ''sort'' rules)"

definition initialized :: rule_registry where
  "initialized = init_registry []"

definition id_to_name :: "rule_registry \<Rightarrow> rule_id \<Rightarrow> string option" where
  "id_to_name reg i = map_option ri_name (List.find (\<lambda>r. ri_id r = i) reg)"

definition name_to_id :: "rule_registry \<Rightarrow> string \<Rightarrow> rule_id option" where
  "name_to_id reg n = map_option ri_id (List.find (\<lambda>r. ri_name r = n) reg)"

lemma find_unique:
  "distinct (map f xs) \<Longrightarrow> x \<in> set xs \<Longrightarrow> List.find (\<lambda>y. f y = f x) xs = Some x"
  by (induction xs) auto

lemma find_keyed:
  "distinct (map f xs) \<Longrightarrow> List.find (\<lambda>y. f y = k) xs = Some x \<longleftrightarrow> x \<in> set xs \<and> f x = k"
  using find_unique [of f xs x] by (auto simp: find_Some_iff)

lemma lookup_inverse:
  assumes "distinct (map ri_id reg)" "distinct (map ri_name reg)"
  shows "name_to_id reg n = Some i \<longleftrightarrow> id_to_name reg i = Some n"
  by (auto simp: name_to_id_def id_to_name_def find_keyed [OF assms(1)] find_keyed [OF assms(2)])

text \<open>In the initialized registry the two lookups are inverse to each other: a name
  resolves to an identifier exactly when the identifier resolves to the name; no identifier and
  no name is registered twice, in spite of the gap the initialization leaves in the numbering.\<close>

lemma registry_lookup_inverse:
  "(name_to_id initialized n = Some i \<longleftrightarrow> id_to_name initialized i = Some n)
   \<and> distinct (map ri_id initialized) \<and> distinct (map ri_name initialized)"
proof -
  have "distinct (map ri_id initialized)" "distinct (map ri_name initialized)" by code_simp+
  then show ?thesis by (simp add: lookup_inverse)
qed

subsection \<open>Sets of applied rules\<close>

type_synonym rule_set = sparsemap

definition rs_new :: rule_set where
  "rs_new = sm_new"

definition mark_applied :: "rule_set \<Rightarrow> rule_id \<Rightarrow> rule_set" where
  "mark_applied s i = sm_set s (ucast i)"

definition was_applied :: "rule_set \<Rightarrow> rule_id \<Rightarrow> bool" where
  "was_applied s i = sm_is_set s (ucast i)"

definition rs_count :: "rule_set \<Rightarrow> u32" where
  "rs_count s = sm_count s"

definition rs_union :: "rule_set \<Rightarrow> rule_set \<Rightarrow> rule_set" where
  "rs_union s t = sm_union s t"

definition rs_intersect :: "rule_set \<Rightarrow> rule_set \<Rightarrow> rule_set" where
  "rs_intersect s t = sm_intersect s t"

definition rs_iter :: "rule_set \<Rightarrow> rule_id list" where
  "rs_iter s = map ucast (sm_iter s)"

definition to_names :: "rule_set \<Rightarrow> rule_registry \<Rightarrow> string list" where
  "to_names s reg = List.map_filter (id_to_name reg) (rs_iter s)"

text \<open>The sets the operations build hold 16-bit indices only.\<close>

definition rs_inv :: "rule_set \<Rightarrow> bool" where
  "rs_inv s \<longleftrightarrow> sm_inv s \<and> map_bits s \<subseteq> range (ucast :: rule_id \<Rightarrow> u32)"

definition rs_abs :: "rule_set \<Rightarrow> rule_id set" where
  "rs_abs s = {i. ucast i \<in> map_bits s}"

lemma unat_ucast_id: "unat (ucast (i :: rule_id) :: u32) = unat i"
  by (simp add: unsigned_ucast_eq take_bit_nat_eq_self unsigned_less [THEN order.strict_trans2])

lemma ucast_id [simp]: "(ucast (ucast (i :: rule_id) :: u32) :: rule_id) = i"
  by (simp add: word_eq_iff_unsigned unsigned_ucast_eq take_bit_word_eq_self)

lemma ucast_id_inj [simp]: "(ucast (i :: rule_id) :: u32) = ucast j \<longleftrightarrow> i = j"
  by (metis ucast_id)

lemma rs_iter_set: "rs_inv s \<Longrightarrow> set (rs_iter s) = rs_abs s"
  by (auto simp: rs_inv_def rs_iter_def rs_abs_def sm.laws image_iff) (metis rangeE subsetD ucast_id)

lemma rs_iter_sorted:
  assumes "rs_inv s"
  shows "sorted_wrt (<) (rs_iter s)"
proof -
  have "ucast x < (ucast y :: rule_id)"
    if xy: "x \<in> set (sm_iter s)" "y \<in> set (sm_iter s)" "x < y" for x y
  proof -
    obtain i j :: rule_id where "x = ucast i" "y = ucast j"
      using xy(1,2) assms unfolding rs_inv_def by (metis rangeE sm.elems_ok(1) subsetD)
    with xy(3) show ?thesis by (simp add: word_less_nat_alt unat_ucast_id)
  qed
  with assms show ?thesis
    using sm_iter_sorted [of s] unfolding rs_iter_def sorted_wrt_map
    by (auto simp: rs_inv_def intro: sorted_wrt_mono_rel)
qed

interpretation rs: bit_set rs_new mark_applied "\<lambda>s i. sm_clear s (ucast i)" was_applied rs_union
  rs_intersect rs_iter rs_inv rs_abs
proof (unfold_locales, goal_cases)
  case (13 s)
  then show ?case using rs_iter_sorted strict_sorted_iff by blast
qed (auto simp: rs_new_def mark_applied_def was_applied_def rs_union_def rs_intersect_def rs_abs_def
    rs_inv_def sm.laws rs_iter_set [unfolded rs_inv_def rs_abs_def])

lemma rs_count_card:
  assumes "rs_inv s"
  shows "unat (rs_count s) = card (rs_abs s)"
proof -
  have "card (rs_abs s) \<le> card (UNIV :: rule_id set)" by (rule card_mono) auto
  then have "card (rs_abs s) < 2 ^ 32" by (simp add: card_word)
  moreover have "length (sm_iter s) = card (rs_abs s)"
    using rs.length_elems [OF assms] by (simp add: rs_iter_def)
  ultimately show ?thesis
    by (simp add: rs_count_def sm_count_iter unsigned_of_nat take_bit_nat_eq_self)
qed

text \<open>After marking any sequence of rules in an empty set, with repetitions and in any
  order, \<^verbatim>\<open>was_applied\<close> holds for exactly the marked ones, iteration lists each of them
  once in increasing order, and the count is their exact number: at 16-bit identifiers the
  32-bit count cannot wrap.\<close>

lemma rule_set_marks:
  "(was_applied (foldl mark_applied rs_new is) i \<longleftrightarrow> i \<in> set is)
   \<and> set (rs_iter (foldl mark_applied rs_new is)) = set is
   \<and> sorted_wrt (<) (rs_iter (foldl mark_applied rs_new is))
   \<and> unat (rs_count (foldl mark_applied rs_new is)) = card (set is)"
  using rs.add_all_ok [of "is"] rs.has_add_all [of "is" i] rs.elems_add_all [of "is"]
    rs_iter_sorted [OF rs.add_all_ok(1)] rs_count_card [OF rs.add_all_ok(1)]
  unfolding rs.add_all_def by simp

text \<open>The names listed for a set of applied rules are exactly the names under which the
  marked rules are registered; marked rules the registry does not know are left out.\<close>

lemma to_names_marks:
  "set (to_names (foldl mark_applied rs_new is) reg)
     = {n. \<exists>i \<in> set is. id_to_name reg i = Some n}"
  using rs.elems_add_all(1) [of "is"] unfolding rs.add_all_def
  by (force simp: to_names_def map_filter_def)

end
