(* ===== verification/Algebra.thy ===== *)
theory Algebra
  imports Prelude
begin

text \<open>
  The relational algebra of the optimizer (\<^verbatim>\<open>crates/ra-core/src/expr.rs\<close>,
  \<^verbatim>\<open>crates/ra-core/src/algebra.rs\<close>, the types of
  \<^verbatim>\<open>crates/ra-core/src/row_pattern.rs\<close>): scalar expressions and relational operators are
  one mutually recursive datatype, because a subquery expression holds a plan. A constructor's
  arguments are the fields of the source's variant, in the source's order. The structs that
  carry expressions are polymorphic in them, so that the recursion passes through their
  functorial maps. A 64-bit float is kept as its bit pattern; no operation here computes with it.
  Names that another part of the development uses get a suffix (\<open>UnionOp\<close>, \<open>IndexScanRel\<close>).
\<close>

subsection \<open>Expressions: the parts without recursion\<close>

datatype sub_query_type = ScalarSub | ExistsSub | InSub | AnySub | AllSub

record column_ref =
  cr_table :: "string option"
  cr_column :: string

definition column_new :: "string \<Rightarrow> column_ref" where
  "column_new c = \<lparr>cr_table = None, cr_column = c\<rparr>"

definition column_qualified :: "string \<Rightarrow> string \<Rightarrow> column_ref" where
  "column_qualified t c = \<lparr>cr_table = Some t, cr_column = c\<rparr>"

datatype const_value = NullC | BoolC bool | IntC i64 | FloatC "64 word" | StringC string

datatype bin_op = Add | Sub | Mul | Div | Eq | Ne | Lt | Le | Gt | Ge | And | Or | Mod | Concat
  | JsonAccess | IsDistinctFrom | IsNotDistinctFrom

datatype unary_op = Not | IsNull | IsNotNull | Neg

definition show_column_ref :: "column_ref \<Rightarrow> string" where
  "show_column_ref c = (case cr_table c of Some t \<Rightarrow> t @ ''.'' @ cr_column c | None \<Rightarrow> cr_column c)"

definition show_bin_op :: "bin_op \<Rightarrow> string" where
  "show_bin_op b = (case b of
     Add \<Rightarrow> ''+'' | Sub \<Rightarrow> ''-'' | Mul \<Rightarrow> ''*'' | Div \<Rightarrow> ''/'' | Eq \<Rightarrow> ''='' | Ne \<Rightarrow> ''!=''
   | Lt \<Rightarrow> ''<'' | Le \<Rightarrow> ''<='' | Gt \<Rightarrow> ''>'' | Ge \<Rightarrow> ''>='' | And \<Rightarrow> ''AND'' | Or \<Rightarrow> ''OR''
   | Mod \<Rightarrow> ''%'' | Concat \<Rightarrow> ''||'' | JsonAccess \<Rightarrow> ''->>''
   | IsDistinctFrom \<Rightarrow> ''IS DISTINCT FROM'' | IsNotDistinctFrom \<Rightarrow> ''IS NOT DISTINCT FROM'')"

definition show_unary_op :: "unary_op \<Rightarrow> string" where
  "show_unary_op u = (case u of Not \<Rightarrow> ''NOT'' | IsNull \<Rightarrow> ''IS NULL''
     | IsNotNull \<Rightarrow> ''IS NOT NULL'' | Neg \<Rightarrow> ''-'')"

subsection \<open>Operators: the parts without recursion\<close>

datatype 'e on_conflict = DoNothingConflict
  | DoUpdate "string list" "(string \<times> 'e) list"
  | DoSelect "string list"

datatype merge_match_kind = Matched | NotMatched | NotMatchedBySource

datatype 'e merge_action = MergeUpdate "(string \<times> 'e) list" | MergeDelete
  | MergeInsert "string list" "'e list" | MergeNothing

datatype 'e merge_when = MergeWhen
  (mw_kind: merge_match_kind) (mw_condition: "'e option") (mw_action: "'e merge_action")

datatype edge_direction = EdgeRight | EdgeLeft | EdgeUndirected

datatype graph_pattern_element = Vertex "string option" "string option"
  | Edge "string option" "string option" edge_direction

record cycle_detection =
  track_columns :: "string list"
  max_depth :: "u32 option"
  cycle_mark_column :: "string option"
  path_column :: "string option"

datatype 'e projection_column = ProjectionColumn (pc_expr: 'e) (pc_alias: "string option")

datatype join_type = Inner | LeftOuter | RightOuter | FullOuter | Cross | Semi | Anti

datatype aggregate_function = Count | Sum | Avg | Min | Max | StdDev | Variance | StringAgg | ArrayAgg

datatype 'e aggregate_expr = AggregateExpr (ag_function: aggregate_function)
  (ag_arg: "'e option") (ag_distinct: bool) (ag_alias: "string option")

datatype window_function = WAvg | WSum | WCount | WMin | WMax | RowNumber | Rank | DenseRank
  | PercentRank | Ntile | Lag | Lead | FirstValue | LastValue | NthValue

datatype window_frame_mode = Rows | Range | Groups

datatype window_frame_bound = UnboundedPreceding | Preceding u64 | CurrentRow | Following u64
  | UnboundedFollowing

record window_frame =
  wf_mode :: window_frame_mode
  wf_start :: window_frame_bound
  wf_end :: window_frame_bound

datatype sort_direction = Asc | Desc

datatype null_ordering = NullsFirst | NullsLast

datatype 'e sort_key = SortKey (sk_expr: 'e) (sk_direction: sort_direction) (sk_nulls: null_ordering)

datatype 'e window_expr = WindowExpr (we_function: window_function) (we_arg: "'e option")
  (we_partition_by: "'e list") (we_order_by: "'e sort_key list")
  (we_frame: "window_frame option") (we_alias: "string option")

datatype distance_metric = L2 | InnerProduct | Cosine | L1 | Hamming

subsection \<open>Row patterns\<close>

datatype quantifier = ZeroOrOne | ZeroOrMore | OneOrMore | Exactly nat | QRange nat "nat option"

datatype pattern_expr = PVar string | PSequence "pattern_expr list" | PAlternation "pattern_expr list"
  | PQuantified pattern_expr quantifier | PGroup pattern_expr

datatype 'e pattern_define = PatternDefine (pd_variable: string) (pd_condition: 'e)

datatype 'e pattern_measure = PatternMeasure (pm_expr: 'e) (pm_alias: string)

datatype match_mode = OneRowPerMatch | AllRowsPerMatch | AllRowsPerMatchWithUnmatched

datatype skip_mode = PastLastRow | ToNextRow | ToFirst nat | ToLast nat

subsection \<open>Expressions and operators\<close>

datatype (plugins only: size code) expr =
    Column column_ref
  | Const const_value
  | BinOp bin_op expr expr
  | UnaryOp unary_op expr
  | Function string "expr list"
  | Case "expr option" "(expr \<times> expr) list" "expr option"
  | Cast expr string
  | Array "expr list"
  | ArrayIndex expr expr
  | PatternPrev expr nat
  | PatternNext expr nat
  | PatternFirst expr string
  | PatternLast expr string
  | PatternClassifier
  | PatternMatchNumber
  | ArraySlice expr "expr option" "expr option"
  | FieldAccess expr string
  | SubQuery sub_query_type rel_expr "expr option"
  | FullTextMatch string "string list" string "string option"
  | VectorDistance string expr expr
and rel_expr =
    Scan string "string option" bool
  | Filter expr rel_expr
  | Project "expr projection_column list" rel_expr
  | Join join_type expr rel_expr rel_expr
  | Aggregate "expr list" "expr aggregate_expr list" rel_expr
  | Sort "expr sort_key list" rel_expr
  | Limit u64 u64 rel_expr
  | UnionOp bool rel_expr rel_expr
  | IntersectOp bool rel_expr rel_expr
  | ExceptOp bool rel_expr rel_expr
  | CTE string rel_expr rel_expr
  | Window "expr window_expr list" rel_expr
  | Distinct rel_expr
  | SubqueryAlias string rel_expr
  | DistinctOn "expr list" rel_expr
  | Values "expr list list"
  | RecursiveCTE string rel_expr rel_expr rel_expr "cycle_detection option"
  | Unnest expr "string option" "rel_expr option" bool
  | MultiUnnest "expr list" "string option list" bool
  | TableFunction string "expr list" "(string \<times> string) list" "rel_expr option"
  | RowPattern rel_expr "expr list" "expr sort_key list" pattern_expr "expr pattern_define list"
      "expr pattern_measure list" match_mode skip_mode
  | IncrementalSort "expr sort_key list" "expr sort_key list" rel_expr
  | IndexScanRel string string
  | BitmapIndexScan string string expr
  | BitmapAnd "rel_expr list"
  | BitmapOr "rel_expr list"
  | BitmapHeapScanRel string rel_expr "expr option"
  | IndexOnlyScanRel string string "expr projection_column list" expr
  | ParallelScan string nat
  | ParallelHashJoin join_type expr rel_expr rel_expr nat
  | ParallelAggregate "expr list" "expr aggregate_expr list" rel_expr nat
  | GatherRel rel_expr nat
  | MvScan string "string option"
  | TopK expr expr distance_metric u64 rel_expr
  | VectorFilter expr expr distance_metric "64 word" rel_expr
  | Insert string "string list" rel_expr "expr on_conflict option"
      "expr projection_column list option"
  | Update string "(string \<times> expr) list" "expr option" "rel_expr option"
      "expr projection_column list option" bool
  | Delete string "expr option" "rel_expr option" "expr projection_column list option" bool
  | Merge string rel_expr expr "expr merge_when list" "expr projection_column list option"
  | GraphTable string "graph_pattern_element list" "expr projection_column list" "string option"

text \<open>The source's \<^verbatim>\<open>RelExpr\<close> is the second of the two types.\<close>

type_synonym plan = rel_expr

text \<open>The constructor functions of \<^verbatim>\<open>RelExpr\<close>.\<close>

definition rel_scan :: "string \<Rightarrow> rel_expr" where
  "rel_scan t = Scan t None False"

definition rel_filter_by :: "rel_expr \<Rightarrow> expr \<Rightarrow> rel_expr" where
  "rel_filter_by r p = Filter p r"

definition rel_project :: "rel_expr \<Rightarrow> expr projection_column list \<Rightarrow> rel_expr" where
  "rel_project r cs = Project cs r"

definition rel_limit :: "rel_expr \<Rightarrow> u64 \<Rightarrow> u64 \<Rightarrow> rel_expr" where
  "rel_limit r count offset = Limit count offset r"

definition rel_distinct :: "rel_expr \<Rightarrow> rel_expr" where
  "rel_distinct r = Distinct r"

definition rel_subquery_alias :: "rel_expr \<Rightarrow> string \<Rightarrow> rel_expr" where
  "rel_subquery_alias r a = SubqueryAlias a r"

definition rel_unnest :: "expr \<Rightarrow> string option \<Rightarrow> rel_expr" where
  "rel_unnest e a = Unnest e a None False"

definition rel_unnest_lateral :: "expr \<Rightarrow> rel_expr \<Rightarrow> string option \<Rightarrow> rel_expr" where
  "rel_unnest_lateral e r a = Unnest e a (Some r) False"

definition rel_table_function :: "string \<Rightarrow> expr list \<Rightarrow> (string \<times> string) list \<Rightarrow> rel_expr" where
  "rel_table_function n args cols = TableFunction n args cols None"

subsection \<open>Children\<close>

definition opt_list :: "'a option \<Rightarrow> 'a list" where
  "opt_list x = (case x of None \<Rightarrow> [] | Some y \<Rightarrow> [y])"

primrec children :: "rel_expr \<Rightarrow> rel_expr list" where
  "children (Scan _ _ _) = []"
| "children (Values _) = []"
| "children (MultiUnnest _ _ _) = []"
| "children (IndexScanRel _ _) = []"
| "children (BitmapIndexScan _ _ _) = []"
| "children (ParallelScan _ _) = []"
| "children (IndexOnlyScanRel _ _ _ _) = []"
| "children (MvScan _ _) = []"
| "children (GraphTable _ _ _ _) = []"
| "children (Filter _ r) = [r]"
| "children (Project _ r) = [r]"
| "children (Aggregate _ _ r) = [r]"
| "children (Sort _ r) = [r]"
| "children (IncrementalSort _ _ r) = [r]"
| "children (Limit _ _ r) = [r]"
| "children (Window _ r) = [r]"
| "children (Distinct r) = [r]"
| "children (SubqueryAlias _ r) = [r]"
| "children (DistinctOn _ r) = [r]"
| "children (RowPattern r _ _ _ _ _ _ _) = [r]"
| "children (ParallelAggregate _ _ r _) = [r]"
| "children (GatherRel r _) = [r]"
| "children (TopK _ _ _ _ r) = [r]"
| "children (VectorFilter _ _ _ _ r) = [r]"
| "children (Join _ _ a b) = [a, b]"
| "children (UnionOp _ a b) = [a, b]"
| "children (IntersectOp _ a b) = [a, b]"
| "children (ExceptOp _ a b) = [a, b]"
| "children (ParallelHashJoin _ _ a b _) = [a, b]"
| "children (CTE _ d b) = [d, b]"
| "children (RecursiveCTE _ b r y _) = [b, r, y]"
| "children (Unnest _ _ i _) = opt_list i"
| "children (TableFunction _ _ _ i) = opt_list i"
| "children (BitmapAnd rs) = rs"
| "children (BitmapOr rs) = rs"
| "children (BitmapHeapScanRel _ b _) = [b]"
| "children (Insert _ _ s _ _) = [s]"
| "children (Merge _ s _ _ _) = [s]"
| "children (Update _ _ _ f _ _) = opt_list f"
| "children (Delete _ _ u _ _) = opt_list u"

subsection \<open>Columns\<close>

text \<open>\<^verbatim>\<open>collect_columns\<close> and \<^verbatim>\<open>collect_expr_columns\<close> push to the vector they are
  given; here they return what they push.\<close>

primrec collect_expr_columns :: "expr \<Rightarrow> column_ref list" where
  "collect_expr_columns (Column c) = [c]"
| "collect_expr_columns (Const _) = []"
| "collect_expr_columns PatternClassifier = []"
| "collect_expr_columns PatternMatchNumber = []"
| "collect_expr_columns (BinOp _ l r) = collect_expr_columns l @ collect_expr_columns r"
| "collect_expr_columns (UnaryOp _ e) = collect_expr_columns e"
| "collect_expr_columns (Function _ args) = concat (map collect_expr_columns args)"
| "collect_expr_columns (Case operand whens els) =
     concat (opt_list (map_option collect_expr_columns operand))
     @ concat (map (\<lambda>(c, r). c @ r) (map (map_prod collect_expr_columns collect_expr_columns) whens))
     @ concat (opt_list (map_option collect_expr_columns els))"
| "collect_expr_columns (Cast e _) = collect_expr_columns e"
| "collect_expr_columns (FieldAccess e _) = collect_expr_columns e"
| "collect_expr_columns (Array es) = concat (map collect_expr_columns es)"
| "collect_expr_columns (ArrayIndex a i) = collect_expr_columns a @ collect_expr_columns i"
| "collect_expr_columns (PatternPrev e _) = collect_expr_columns e"
| "collect_expr_columns (PatternNext e _) = collect_expr_columns e"
| "collect_expr_columns (PatternFirst e _) = collect_expr_columns e"
| "collect_expr_columns (PatternLast e _) = collect_expr_columns e"
| "collect_expr_columns (ArraySlice a s e) = collect_expr_columns a
     @ concat (opt_list (map_option collect_expr_columns s))
     @ concat (opt_list (map_option collect_expr_columns e))"
| "collect_expr_columns (SubQuery _ _ test) = concat (opt_list (map_option collect_expr_columns test))"
| "collect_expr_columns (FullTextMatch _ cols _ _) = map column_new cols"
| "collect_expr_columns (VectorDistance _ c t) = collect_expr_columns c @ collect_expr_columns t"

end
