(* ===== verification/Algebra_Ops.thy ===== *)
theory Algebra_Ops
  imports Algebra
begin

text \<open>
  The traversals of \<^verbatim>\<open>RelExpr\<close> (\<^verbatim>\<open>crates/ra-core/src/algebra.rs\<close>):
  \<^verbatim>\<open>referenced_columns\<close> with its recursion \<^verbatim>\<open>collect_columns\<close>, and
  \<^verbatim>\<open>references_cte\<close>. Both are recursions of their own over all forty operators; the
  lemmas say what they compute in terms of \<^verbatim>\<open>children\<close>: the nodes of a plan are its
  transitive children (\<open>plan_nodes\<close>), and each traversal collects over the nodes what the node
  itself holds.
\<close>

subsection \<open>The traversals\<close>

definition pc_columns :: "expr projection_column list \<Rightarrow> column_ref list" where
  "pc_columns cs = concat (map (\<lambda>c. collect_expr_columns (pc_expr c)) cs)"

definition key_columns :: "expr sort_key list \<Rightarrow> column_ref list" where
  "key_columns ks = concat (map (\<lambda>k. collect_expr_columns (sk_expr k)) ks)"

definition exprs_columns :: "expr list \<Rightarrow> column_ref list" where
  "exprs_columns es = concat (map collect_expr_columns es)"

definition opt_expr_columns :: "expr option \<Rightarrow> column_ref list" where
  "opt_expr_columns e = (case e of None \<Rightarrow> [] | Some x \<Rightarrow> collect_expr_columns x)"

definition returning_columns :: "expr projection_column list option \<Rightarrow> column_ref list" where
  "returning_columns r = (case r of None \<Rightarrow> [] | Some cs \<Rightarrow> pc_columns cs)"

definition aggregate_columns :: "expr aggregate_expr list \<Rightarrow> column_ref list" where
  "aggregate_columns ags = concat (map (\<lambda>a. opt_expr_columns (ag_arg a)) ags)"

definition window_columns :: "expr window_expr list \<Rightarrow> column_ref list" where
  "window_columns ws = concat (map (\<lambda>w. opt_expr_columns (we_arg w)
     @ exprs_columns (we_partition_by w) @ key_columns (we_order_by w)) ws)"

definition merge_when_columns :: "expr merge_when \<Rightarrow> column_ref list" where
  "merge_when_columns w = opt_expr_columns (mw_condition w) @
     (case mw_action w of
        MergeUpdate asg \<Rightarrow> exprs_columns (map snd asg)
      | MergeInsert _ vs \<Rightarrow> exprs_columns vs
      | MergeDelete \<Rightarrow> []
      | MergeNothing \<Rightarrow> [])"

primrec collect_columns :: "rel_expr \<Rightarrow> column_ref list" where
  "collect_columns (Scan _ _ _) = []"
| "collect_columns (IndexScanRel _ _) = []"
| "collect_columns (ParallelScan _ _) = []"
| "collect_columns (MvScan _ _) = []"
| "collect_columns (IndexOnlyScanRel _ _ _ p) = collect_expr_columns p"
| "collect_columns (BitmapIndexScan _ _ p) = collect_expr_columns p"
| "collect_columns (Values rows) = concat (map exprs_columns rows)"
| "collect_columns (Filter p i) = collect_expr_columns p @ collect_columns i"
| "collect_columns (Project cs i) = pc_columns cs @ collect_columns i"
| "collect_columns (Join _ c l r) = collect_expr_columns c @ collect_columns l @ collect_columns r"
| "collect_columns (ParallelHashJoin _ c l r _) =
     collect_expr_columns c @ collect_columns l @ collect_columns r"
| "collect_columns (Aggregate g ags i) = exprs_columns g @ aggregate_columns ags @ collect_columns i"
| "collect_columns (ParallelAggregate g ags i _) =
     exprs_columns g @ aggregate_columns ags @ collect_columns i"
| "collect_columns (Sort ks i) = key_columns ks @ collect_columns i"
| "collect_columns (IncrementalSort ps ss i) = key_columns ps @ key_columns ss @ collect_columns i"
| "collect_columns (Limit _ _ i) = collect_columns i"
| "collect_columns (Distinct i) = collect_columns i"
| "collect_columns (SubqueryAlias _ i) = collect_columns i"
| "collect_columns (DistinctOn _ i) = collect_columns i"
| "collect_columns (GatherRel i _) = collect_columns i"
| "collect_columns (Window fs i) = window_columns fs @ collect_columns i"
| "collect_columns (CTE _ d b) = collect_columns d @ collect_columns b"
| "collect_columns (RecursiveCTE _ b r y _) = collect_columns b @ collect_columns r @ collect_columns y"
| "collect_columns (UnionOp _ l r) = collect_columns l @ collect_columns r"
| "collect_columns (IntersectOp _ l r) = collect_columns l @ collect_columns r"
| "collect_columns (ExceptOp _ l r) = collect_columns l @ collect_columns r"
| "collect_columns (Unnest e _ i _) = collect_expr_columns e @ concat (opt_list (map_option collect_columns i))"
| "collect_columns (MultiUnnest es _ _) = exprs_columns es"
| "collect_columns (TableFunction _ args _ i) =
     exprs_columns args @ concat (opt_list (map_option collect_columns i))"
| "collect_columns (RowPattern i ps ks _ ds ms _ _) = exprs_columns ps @ key_columns ks
     @ exprs_columns (map pd_condition ds) @ exprs_columns (map pm_expr ms) @ collect_columns i"
| "collect_columns (BitmapAnd is) = concat (map collect_columns is)"
| "collect_columns (BitmapOr is) = concat (map collect_columns is)"
| "collect_columns (BitmapHeapScanRel _ b c) = collect_columns b @ opt_expr_columns c"
| "collect_columns (TopK v q _ _ i) = collect_expr_columns v @ collect_expr_columns q @ collect_columns i"
| "collect_columns (VectorFilter v q _ _ i) =
     collect_expr_columns v @ collect_expr_columns q @ collect_columns i"
| "collect_columns (Insert _ _ s _ ret) = collect_columns s @ returning_columns ret"
| "collect_columns (Update _ asg f frm ret _) = exprs_columns (map snd asg) @ opt_expr_columns f
     @ concat (opt_list (map_option collect_columns frm)) @ returning_columns ret"
| "collect_columns (Delete _ f u ret _) = opt_expr_columns f
     @ concat (opt_list (map_option collect_columns u)) @ returning_columns ret"
| "collect_columns (Merge _ s on ws ret) = collect_columns s @ collect_expr_columns on
     @ concat (map merge_when_columns ws) @ returning_columns ret"
| "collect_columns (GraphTable _ _ cs _) = pc_columns cs"

definition referenced_columns :: "rel_expr \<Rightarrow> column_ref list" where
  "referenced_columns r = collect_columns r"

primrec references_cte :: "rel_expr \<Rightarrow> string \<Rightarrow> bool" where
  "references_cte (Scan t _ _) n = (t = n)"
| "references_cte (IndexScanRel t _) n = (t = n)"
| "references_cte (IndexOnlyScanRel t _ _ _) n = (t = n)"
| "references_cte (BitmapIndexScan t _ _) n = (t = n)"
| "references_cte (ParallelScan t _) n = (t = n)"
| "references_cte (MvScan v _) n = (v = n)"
| "references_cte (Filter _ i) n = references_cte i n"
| "references_cte (Project _ i) n = references_cte i n"
| "references_cte (Aggregate _ _ i) n = references_cte i n"
| "references_cte (Sort _ i) n = references_cte i n"
| "references_cte (Limit _ _ i) n = references_cte i n"
| "references_cte (Window _ i) n = references_cte i n"
| "references_cte (Distinct i) n = references_cte i n"
| "references_cte (SubqueryAlias _ i) n = references_cte i n"
| "references_cte (DistinctOn _ i) n = references_cte i n"
| "references_cte (IncrementalSort _ _ i) n = references_cte i n"
| "references_cte (RowPattern i _ _ _ _ _ _ _) n = references_cte i n"
| "references_cte (ParallelAggregate _ _ i _) n = references_cte i n"
| "references_cte (GatherRel i _) n = references_cte i n"
| "references_cte (TopK _ _ _ _ i) n = references_cte i n"
| "references_cte (VectorFilter _ _ _ _ i) n = references_cte i n"
| "references_cte (Join _ _ l r) n = (references_cte l n \<or> references_cte r n)"
| "references_cte (UnionOp _ l r) n = (references_cte l n \<or> references_cte r n)"
| "references_cte (IntersectOp _ l r) n = (references_cte l n \<or> references_cte r n)"
| "references_cte (ExceptOp _ l r) n = (references_cte l n \<or> references_cte r n)"
| "references_cte (ParallelHashJoin _ _ l r _) n = (references_cte l n \<or> references_cte r n)"
| "references_cte (CTE _ d b) n = (references_cte d n \<or> references_cte b n)"
| "references_cte (RecursiveCTE _ b r y _) n =
     (references_cte b n \<or> references_cte r n \<or> references_cte y n)"
| "references_cte (Values _) n = False"
| "references_cte (MultiUnnest _ _ _) n = False"
| "references_cte (GraphTable _ _ _ _) n = False"
| "references_cte (Unnest _ _ i _) n = list_ex (\<lambda>f. f n) (opt_list (map_option references_cte i))"
| "references_cte (TableFunction _ _ _ i) n = list_ex (\<lambda>f. f n) (opt_list (map_option references_cte i))"
| "references_cte (BitmapAnd is) n = list_ex (\<lambda>f. f n) (map references_cte is)"
| "references_cte (BitmapOr is) n = list_ex (\<lambda>f. f n) (map references_cte is)"
| "references_cte (BitmapHeapScanRel t b _) n = (t = n \<or> references_cte b n)"
| "references_cte (Insert _ _ s _ _) n = references_cte s n"
| "references_cte (Merge _ s _ _ _) n = references_cte s n"
| "references_cte (Update _ _ _ f _ _) n = list_ex (\<lambda>f. f n) (opt_list (map_option references_cte f))"
| "references_cte (Delete _ _ u _ _) n = list_ex (\<lambda>f. f n) (opt_list (map_option references_cte u))"

subsection \<open>The nodes of a plan\<close>

lemma set_opt_list [simp]: "set (opt_list x) = set_option x"
  by (cases x) (auto simp: opt_list_def)

lemma children_smaller: "c \<in> set (children r) \<Longrightarrow> size c < size r"
  by (cases r) (auto dest: size_list_estimation' [where f = size, OF _ order_refl] simp: opt_list_def split: option.splits)

function plan_nodes :: "rel_expr \<Rightarrow> rel_expr list" where
  "plan_nodes r = r # concat (map plan_nodes (children r))"
  by pat_completeness auto
termination by (relation "measure size") (auto intro: children_smaller)

declare plan_nodes.simps [simp del]

lemma children_induct [case_names node]:
  assumes "\<And>r. (\<And>c. c \<in> set (children r) \<Longrightarrow> P c) \<Longrightarrow> P r"
  shows "P r"
  by (induction r rule: measure_induct_rule [where f = size]) (blast intro: assms children_smaller)

text \<open>What a node itself reads, apart from its children.\<close>

definition node_tables :: "rel_expr \<Rightarrow> string list" where
  "node_tables r = (case r of
     Scan t _ _ \<Rightarrow> [t] | IndexScanRel t _ \<Rightarrow> [t] | IndexOnlyScanRel t _ _ _ \<Rightarrow> [t]
   | BitmapIndexScan t _ _ \<Rightarrow> [t] | ParallelScan t _ \<Rightarrow> [t] | MvScan v _ \<Rightarrow> [v]
   | BitmapHeapScanRel t _ _ \<Rightarrow> [t] | _ \<Rightarrow> [])"

lemma references_cte_step:
  "references_cte r n \<longleftrightarrow> n \<in> set (node_tables r) \<or> (\<exists>c \<in> set (children r). references_cte c n)"
  by (cases r) (auto simp: node_tables_def opt_list_def list_ex_iff split: option.splits)

text \<open>\<^verbatim>\<open>references_cte\<close> finds a name exactly when some node of the plan, at any
  depth below any operator, reads a table or view of that name: its own recursion over the
  forty operators and the one of \<^verbatim>\<open>children\<close> visit the same nodes.\<close>

lemma references_cte_nodes:
  "references_cte r n \<longleftrightarrow> (\<exists>s \<in> set (plan_nodes r). n \<in> set (node_tables s))"
proof (induction r rule: children_induct)
  case (node r)
  then show ?case by (subst references_cte_step, subst plan_nodes.simps) auto
qed

subsection \<open>Which columns are found\<close>

text \<open>All expressions a node holds, field by field.\<close>

definition action_exprs :: "expr merge_action \<Rightarrow> expr list" where
  "action_exprs a = (case a of MergeUpdate asg \<Rightarrow> map snd asg | MergeInsert _ vs \<Rightarrow> vs | _ \<Rightarrow> [])"

definition window_exprs :: "expr window_expr \<Rightarrow> expr list" where
  "window_exprs w = opt_list (we_arg w) @ we_partition_by w @ map sk_expr (we_order_by w)"

definition conflict_exprs :: "expr on_conflict option \<Rightarrow> expr list" where
  "conflict_exprs c = (case c of Some (DoUpdate _ asg) \<Rightarrow> map snd asg | _ \<Rightarrow> [])"

definition ret_exprs :: "expr projection_column list option \<Rightarrow> expr list" where
  "ret_exprs r = concat (opt_list (map_option (map pc_expr) r))"

definition node_exprs :: "rel_expr \<Rightarrow> expr list" where
  "node_exprs r = (case r of
     IndexOnlyScanRel _ _ cs p \<Rightarrow> map pc_expr cs @ [p]
   | BitmapIndexScan _ _ p \<Rightarrow> [p]
   | Values rows \<Rightarrow> concat rows
   | Filter p _ \<Rightarrow> [p]
   | Project cs _ \<Rightarrow> map pc_expr cs
   | Join _ c _ _ \<Rightarrow> [c]
   | ParallelHashJoin _ c _ _ _ \<Rightarrow> [c]
   | Aggregate g ags _ \<Rightarrow> g @ concat (map (\<lambda>a. opt_list (ag_arg a)) ags)
   | ParallelAggregate g ags _ _ \<Rightarrow> g @ concat (map (\<lambda>a. opt_list (ag_arg a)) ags)
   | Sort ks _ \<Rightarrow> map sk_expr ks
   | IncrementalSort ps ss _ \<Rightarrow> map sk_expr (ps @ ss)
   | DistinctOn es _ \<Rightarrow> es
   | Window fs _ \<Rightarrow> concat (map window_exprs fs)
   | Unnest e _ _ _ \<Rightarrow> [e]
   | MultiUnnest es _ _ \<Rightarrow> es
   | TableFunction _ args _ _ \<Rightarrow> args
   | RowPattern _ ps ks _ ds ms _ _ \<Rightarrow> ps @ map sk_expr ks @ map pd_condition ds @ map pm_expr ms
   | BitmapHeapScanRel _ _ c \<Rightarrow> opt_list c
   | TopK v q _ _ _ \<Rightarrow> [v, q]
   | VectorFilter v q _ _ _ \<Rightarrow> [v, q]
   | Insert _ _ _ c ret \<Rightarrow> conflict_exprs c @ ret_exprs ret
   | Update _ asg f _ ret _ \<Rightarrow> map snd asg @ opt_list f @ ret_exprs ret
   | Delete _ f _ ret _ \<Rightarrow> opt_list f @ ret_exprs ret
   | Merge _ _ on ws ret \<Rightarrow>
       on # concat (map (\<lambda>w. opt_list (mw_condition w) @ action_exprs (mw_action w)) ws) @ ret_exprs ret
   | GraphTable _ _ cs _ \<Rightarrow> map pc_expr cs
   | _ \<Rightarrow> [])"

text \<open>The three operators with expressions the traversal does not visit.\<close>

definition all_visited :: "rel_expr \<Rightarrow> bool" where
  "all_visited r = (case r of
     DistinctOn es _ \<Rightarrow> es = []
   | IndexOnlyScanRel _ _ cs _ \<Rightarrow> cs = []
   | Insert _ _ _ c _ \<Rightarrow> conflict_exprs c = []
   | _ \<Rightarrow> True)"

lemma set_opt_expr_columns [simp]:
  "set (opt_expr_columns e) = (\<Union>x \<in> set_option e. set (collect_expr_columns x))"
  by (cases e) (auto simp: opt_expr_columns_def)

lemma set_returning_columns [simp]:
  "set (returning_columns r) = (\<Union>x \<in> set (ret_exprs r). set (collect_expr_columns x))"
  by (cases r) (auto simp: returning_columns_def pc_columns_def ret_exprs_def opt_list_def)

lemma set_merge_when_columns:
  "set (merge_when_columns w)
     = (\<Union>x \<in> set (opt_list (mw_condition w) @ action_exprs (mw_action w)). set (collect_expr_columns x))"
  by (cases "mw_action w") (auto simp: merge_when_columns_def action_exprs_def exprs_columns_def)

lemmas column_defs = pc_columns_def key_columns_def exprs_columns_def aggregate_columns_def
  window_columns_def window_exprs_def

lemma set_opt_collect [simp]:
  "set (concat (opt_list (map_option collect_columns i))) = (\<Union>x \<in> set_option i. set (collect_columns x))"
  by (cases i) (auto simp: opt_list_def)

lemma collect_columns_step:
  "set (collect_columns r) \<subseteq> (\<Union>e \<in> set (node_exprs r). set (collect_expr_columns e))
     \<union> (\<Union>c \<in> set (children r). set (collect_columns c))"
  by (cases r) (auto simp: node_exprs_def column_defs set_merge_when_columns split: option.splits)

lemma collect_columns_visited:
  assumes "all_visited r"
  shows "(\<Union>e \<in> set (node_exprs r). set (collect_expr_columns e)) \<subseteq> set (collect_columns r)"
  using assms
  by (cases r) (auto simp: node_exprs_def column_defs set_merge_when_columns all_visited_def)

lemma collect_columns_children:
  "c \<in> set (children r) \<Longrightarrow> set (collect_columns c) \<subseteq> set (collect_columns r)"
  by (cases r) (auto simp: opt_list_def split: option.splits)

text \<open>\<^verbatim>\<open>referenced_columns\<close> reports nothing but columns that occur in an expression
  of some node of the plan; and if no node is one of the three forms whose expressions the
  traversal leaves out (the keys of \<^verbatim>\<open>DISTINCT ON\<close>, the columns of an index-only scan, the
  assignments of \<^verbatim>\<open>ON CONFLICT DO UPDATE\<close>), it reports every column of every expression,
  as it is documented.\<close>

lemma referenced_columns_nodes:
  "set (referenced_columns r) \<subseteq>
     (\<Union>s \<in> set (plan_nodes r). \<Union>e \<in> set (node_exprs s). set (collect_expr_columns e))
   \<and> (list_all all_visited (plan_nodes r) \<longrightarrow> set (referenced_columns r) =
     (\<Union>s \<in> set (plan_nodes r). \<Union>e \<in> set (node_exprs s). set (collect_expr_columns e)))"
proof (induction r rule: children_induct)
  case (node r)
  let ?N = "\<lambda>r. \<Union>s \<in> set (plan_nodes r). \<Union>e \<in> set (node_exprs s). set (collect_expr_columns e)"
  have N: "?N r = (\<Union>e \<in> set (node_exprs r). set (collect_expr_columns e)) \<union> (\<Union>c \<in> set (children r). ?N c)"
    by (subst plan_nodes.simps) auto
  have IH: "set (collect_columns c) \<subseteq> ?N c"
    "list_all all_visited (plan_nodes c) \<Longrightarrow> ?N c = set (collect_columns c)" if "c \<in> set (children r)" for c
    using node [OF that] by (simp_all add: referenced_columns_def)
  have "(\<Union>c \<in> set (children r). set (collect_columns c)) \<subseteq> (\<Union>c \<in> set (children r). ?N c)"
    by (rule UN_mono [OF subset_refl IH(1)])
  with collect_columns_step [of r] have "set (collect_columns r) \<subseteq> ?N r"
    unfolding N by (meson Un_mono order_refl order_trans)
  moreover have "?N r \<subseteq> set (collect_columns r)" if "list_all all_visited (plan_nodes r)"
  proof -
    from that have v: "all_visited r" and c: "\<And>c. c \<in> set (children r) \<Longrightarrow> list_all all_visited (plan_nodes c)"
      by (auto simp: list_all_iff plan_nodes.simps [of r])
    have "?N c \<subseteq> set (collect_columns r)" if "c \<in> set (children r)" for c
      using IH(2) [OF that c [OF that]] collect_columns_children [OF that] by simp
    then have "(\<Union>c \<in> set (children r). ?N c) \<subseteq> set (collect_columns r)" by (rule UN_least)
    with collect_columns_visited [OF v] show ?thesis unfolding N by (rule Un_least)
  qed
  ultimately show ?case unfolding referenced_columns_def by (meson subset_antisym)
qed

lemma referenced_columns_nodes_witness:
  "set (referenced_columns (rel_filter_by (rel_scan ''t'') (Column (column_new ''x'')))) = {column_new ''x''}"
proof -
  let ?r = "rel_filter_by (rel_scan ''t'') (Column (column_new ''x''))"
  have n: "plan_nodes ?r = [?r, rel_scan ''t'']" by code_simp
  have "list_all all_visited (plan_nodes ?r)" by code_simp
  with referenced_columns_nodes [of ?r] show ?thesis
    unfolding n by (simp add: rel_filter_by_def rel_scan_def node_exprs_def)
qed

text \<open>The keys of \<^verbatim>\<open>DISTINCT ON\<close> are not reported, although they are column references of
  the tree.\<close>

theorem distinct_on_columns_missed:
  "referenced_columns (DistinctOn [Column (column_new ''x'')] (rel_scan ''t'')) = []"
  by (simp add: referenced_columns_def rel_scan_def)

text \<open>The children of a node are strictly smaller plans, for every operator with any
  number of inputs, so that every traversal of the optimizer that descends through
  \<^verbatim>\<open>children()\<close> ends, and no node of a plan is bigger than the plan.\<close>

lemma plan_nodes_bounded:
  "(\<forall>c. c \<in> set (children r) \<longrightarrow> size c < size r) \<and> (\<forall>s. s \<in> set (plan_nodes r) \<longrightarrow> size s \<le> size r)"
proof (induction r rule: children_induct)
  case (node r)
  have "size s \<le> size r" if s: "s \<in> set (plan_nodes r)" for s
  proof (cases "s = r")
    case False
    with s obtain c where "c \<in> set (children r)" "s \<in> set (plan_nodes c)"
      by (auto simp: plan_nodes.simps [of r])
    with node children_smaller [of c r] show ?thesis by fastforce
  qed simp
  then show ?case using children_smaller by blast
qed

lemma plan_nodes_bounded_witness:
  "size (rel_scan ''t'') < size (rel_distinct (rel_scan ''t''))"
  using plan_nodes_bounded [of "rel_distinct (rel_scan ''t'')"] unfolding rel_distinct_def
  by (metis children.simps(17) list.set_intros(1))

end
