(* ===== verification/Properties.thy ===== *)
theory Properties
  imports Algebra_Ops "HOL-Library.List_Lexorder" "HOL-Library.Multiset"
begin

text \<open>
  Physical properties of plans (\<^verbatim>\<open>crates/ra-core/src/properties.rs\<close>) and their
  derivation (\<^verbatim>\<open>crates/ra-core/src/physical_properties.rs\<close>, the parts without
  floating-point costs). The meaning of an ordering is stated on rows: a sort key ranks a row,
  a list of keys ranks it by a list of ranks compared lexicographically, and \<open>sorted_by\<close> says
  that the rows come in that order. How a key ranks rows (values, direction, nulls) is a
  parameter of every statement.
\<close>

subsection \<open>Orderings and property sets\<close>

record ordering_column =
  oc_column :: column_ref
  oc_direction :: sort_direction
  oc_nulls :: null_ordering

record ordering =
  o_columns :: "ordering_column list"

datatype partitioning = Single | Hash "column_ref list" | RangePart "column_ref list" | Broadcast
  | RoundRobin

datatype distribution_property = SingleNode | Replicated | HashDistributed "column_ref list"
  | RangeDistributed "column_ref list"

datatype physical_property = OrderingProp ordering | PartitioningProp partitioning
  | DistributionProp distribution_property

record property_set =
  ps_properties :: "physical_property list"

definition ordering_new :: "ordering_column list \<Rightarrow> ordering" where
  "ordering_new cs = \<lparr>o_columns = cs\<rparr>"

definition ordering_is_empty :: "ordering \<Rightarrow> bool" where
  "ordering_is_empty o1 \<longleftrightarrow> o_columns o1 = []"

definition is_prefix_of :: "ordering \<Rightarrow> ordering \<Rightarrow> bool" where
  "is_prefix_of a b =
    (if length (o_columns b) < length (o_columns a) then False
     else list_all (\<lambda>(x, y). x = y) (zip (o_columns a) (o_columns b)))"

definition common_prefix :: "ordering \<Rightarrow> ordering \<Rightarrow> ordering" where
  "common_prefix a b =
     ordering_new (map fst (takeWhile (\<lambda>(x, y). x = y) (zip (o_columns a) (o_columns b))))"

definition column_refs :: "ordering \<Rightarrow> column_ref list" where
  "column_refs a = map oc_column (o_columns a)"

definition ordering_column_new :: "column_ref \<Rightarrow> sort_direction \<Rightarrow> ordering_column" where
  "ordering_column_new c d = \<lparr>oc_column = c, oc_direction = d,
     oc_nulls = (case d of Asc \<Rightarrow> NullsLast | Desc \<Rightarrow> NullsFirst)\<rparr>"

definition ordering_column_with_nulls ::
  "column_ref \<Rightarrow> sort_direction \<Rightarrow> null_ordering \<Rightarrow> ordering_column" where
  "ordering_column_with_nulls c d n = \<lparr>oc_column = c, oc_direction = d, oc_nulls = n\<rparr>"

definition ps_new :: property_set where
  "ps_new = \<lparr>ps_properties = []\<rparr>"

definition ps_is_empty :: "property_set \<Rightarrow> bool" where
  "ps_is_empty ps \<longleftrightarrow> ps_properties ps = []"

definition ps_add :: "property_set \<Rightarrow> physical_property \<Rightarrow> property_set" where
  "ps_add ps p = (if p \<in> set (ps_properties ps) then ps
     else ps\<lparr>ps_properties := ps_properties ps @ [p]\<rparr>)"

definition ps_contains :: "property_set \<Rightarrow> physical_property \<Rightarrow> bool" where
  "ps_contains ps p \<longleftrightarrow> p \<in> set (ps_properties ps)"

text \<open>\<^verbatim>\<open>iter().find_map(..)\<close>\<close>

fun find_map :: "('a \<Rightarrow> 'b option) \<Rightarrow> 'a list \<Rightarrow> 'b option" where
  "find_map f [] = None"
| "find_map f (x # xs) = (case f x of Some y \<Rightarrow> Some y | None \<Rightarrow> find_map f xs)"

definition ps_ordering :: "property_set \<Rightarrow> ordering option" where
  "ps_ordering ps = find_map (\<lambda>p. case p of OrderingProp o1 \<Rightarrow> Some o1 | _ \<Rightarrow> None) (ps_properties ps)"

definition ps_partitioning :: "property_set \<Rightarrow> partitioning option" where
  "ps_partitioning ps = find_map (\<lambda>p. case p of PartitioningProp q \<Rightarrow> Some q | _ \<Rightarrow> None) (ps_properties ps)"

definition ps_distribution :: "property_set \<Rightarrow> distribution_property option" where
  "ps_distribution ps = find_map (\<lambda>p. case p of DistributionProp d \<Rightarrow> Some d | _ \<Rightarrow> None) (ps_properties ps)"

definition satisfies_ordering :: "property_set \<Rightarrow> ordering \<Rightarrow> bool" where
  "satisfies_ordering ps req = (case ps_ordering ps of
     Some provided \<Rightarrow> is_prefix_of req provided
   | None \<Rightarrow> o_columns req = [])"

definition ps_satisfies :: "property_set \<Rightarrow> property_set \<Rightarrow> bool" where
  "ps_satisfies ps required = list_all (\<lambda>req. case req of
     OrderingProp o1 \<Rightarrow> satisfies_ordering ps o1
   | _ \<Rightarrow> req \<in> set (ps_properties ps)) (ps_properties required)"

definition ps_with_ordering :: "ordering \<Rightarrow> property_set" where
  "ps_with_ordering o1 = ps_add ps_new (OrderingProp o1)"

definition ps_with_partitioning :: "partitioning \<Rightarrow> property_set" where
  "ps_with_partitioning p = ps_add ps_new (PartitioningProp p)"

subsection \<open>Derivation\<close>

text \<open>The plain-column keys of a list of sort keys, in order: the \<^verbatim>\<open>filter_map\<close> that the
  source repeats in four functions.\<close>

definition key_column :: "expr sort_key \<Rightarrow> ordering_column option" where
  "key_column k = (case sk_expr k of
     Column c \<Rightarrow> Some \<lparr>oc_column = c, oc_direction = sk_direction k, oc_nulls = sk_nulls k\<rparr>
   | _ \<Rightarrow> None)"

definition keys_to_columns :: "expr sort_key list \<Rightarrow> ordering_column list" where
  "keys_to_columns ks = List.map_filter key_column ks"

definition pass_through_columns :: "expr projection_column list \<Rightarrow> column_ref list" where
  "pass_through_columns cs =
     List.map_filter (\<lambda>pc. case pc_expr pc of Column c \<Rightarrow> Some c | _ \<Rightarrow> None) cs"

definition add_ordering :: "ordering_column list \<Rightarrow> property_set \<Rightarrow> property_set" where
  "add_ordering cols ps = (if cols = [] then ps else ps_add ps (OrderingProp (ordering_new cols)))"

definition derive_project_properties ::
  "expr projection_column list \<Rightarrow> property_set list \<Rightarrow> property_set" where
  "derive_project_properties columns input_props = (case input_props of
     [] \<Rightarrow> ps_new
   | inp # _ \<Rightarrow>
       (let surviving = pass_through_columns columns;
            ps = (case ps_ordering inp of
                None \<Rightarrow> ps_new
              | Some o1 \<Rightarrow> add_ordering (takeWhile (\<lambda>oc. oc_column oc \<in> set surviving) (o_columns o1)) ps_new)
        in case ps_partitioning inp of
             None \<Rightarrow> ps
           | Some part \<Rightarrow>
               (if (case part of Hash ks \<Rightarrow> list_all (\<lambda>k. k \<in> set surviving) ks
                    | RangePart ks \<Rightarrow> list_all (\<lambda>k. k \<in> set surviving) ks | _ \<Rightarrow> True)
                then ps_add ps (PartitioningProp part) else ps)))"

definition keep_partitioning :: "property_set list \<Rightarrow> property_set \<Rightarrow> property_set" where
  "keep_partitioning input_props ps = (case input_props of
     [] \<Rightarrow> ps
   | inp # _ \<Rightarrow> (case ps_partitioning inp of None \<Rightarrow> ps | Some p \<Rightarrow> ps_add ps (PartitioningProp p)))"

definition derive_sort_properties :: "expr sort_key list \<Rightarrow> property_set list \<Rightarrow> property_set" where
  "derive_sort_properties keys input_props =
     keep_partitioning input_props (add_ordering (keys_to_columns keys) ps_new)"

definition derive_aggregate_properties :: "expr list \<Rightarrow> property_set" where
  "derive_aggregate_properties group_by =
    (let cols = List.map_filter (\<lambda>e. case e of Column c \<Rightarrow> Some c | _ \<Rightarrow> None) group_by in
     if length cols = length group_by \<and> cols \<noteq> [] then ps_add ps_new (PartitioningProp (Hash cols))
     else ps_new)"

definition derive_join_properties :: "join_type \<Rightarrow> property_set list \<Rightarrow> property_set" where
  "derive_join_properties jt input_props =
    (if jt \<in> {Inner, LeftOuter, Semi, Anti} then
       (case input_props of
          [] \<Rightarrow> ps_new
        | left # _ \<Rightarrow> (case ps_ordering left of None \<Rightarrow> ps_new | Some o1 \<Rightarrow> ps_add ps_new (OrderingProp o1)))
     else ps_new)"

definition derive_row_pattern_properties :: "expr sort_key list \<Rightarrow> property_set" where
  "derive_row_pattern_properties order_by = add_ordering (keys_to_columns order_by) ps_new"

definition first_props :: "property_set list \<Rightarrow> property_set" where
  "first_props ps = (case ps of [] \<Rightarrow> ps_new | p # _ \<Rightarrow> p)"

definition derive_properties :: "rel_expr \<Rightarrow> property_set list \<Rightarrow> property_set" where
  "derive_properties r input_props = (case r of
     Filter _ _ \<Rightarrow> first_props input_props
   | Limit _ _ _ \<Rightarrow> first_props input_props
   | Window _ _ \<Rightarrow> first_props input_props
   | SubqueryAlias _ _ \<Rightarrow> first_props input_props
   | DistinctOn _ _ \<Rightarrow> first_props input_props
   | VectorFilter _ _ _ _ _ \<Rightarrow> first_props input_props
   | Project cs _ \<Rightarrow> derive_project_properties cs input_props
   | Sort ks _ \<Rightarrow> derive_sort_properties ks input_props
   | Distinct _ \<Rightarrow> keep_partitioning input_props ps_new
   | Aggregate g _ _ \<Rightarrow> derive_aggregate_properties g
   | Join jt _ _ _ \<Rightarrow> derive_join_properties jt input_props
   | RowPattern _ _ ks _ _ _ _ _ \<Rightarrow> derive_row_pattern_properties ks
   | IncrementalSort ps ss _ \<Rightarrow> derive_sort_properties (ps @ ss) input_props
   | _ \<Rightarrow> ps_new)"

definition is_sort_redundant :: "expr sort_key list \<Rightarrow> property_set \<Rightarrow> bool" where
  "is_sort_redundant sort_keys input_props =
    (let required = keys_to_columns sort_keys in
     if length required \<noteq> length sort_keys then False
     else satisfies_ordering input_props (ordering_new required))"

subsection \<open>Merge joins\<close>

text \<open>The loop of \<^verbatim>\<open>can_merge_join\<close> over the zipped keys, with the columns of the two
  orderings from the current index on; \<^verbatim>\<open>get(i)\<close> past the end is the failure.\<close>

fun merge_keys_ok ::
  "(column_ref \<times> column_ref) list \<Rightarrow> ordering_column list \<Rightarrow> ordering_column list \<Rightarrow> bool" where
  "merge_keys_ok [] _ _ = True"
| "merge_keys_ok ((lk, rk) # ks) (lo # los) (ro # ros) =
    (if oc_column lo \<noteq> lk \<or> oc_column ro \<noteq> rk then False
     else if oc_direction lo \<noteq> oc_direction ro then False
     else merge_keys_ok ks los ros)"
| "merge_keys_ok _ _ _ = False"

definition can_merge_join ::
  "property_set \<Rightarrow> property_set \<Rightarrow> column_ref list \<Rightarrow> column_ref list \<Rightarrow> bool" where
  "can_merge_join lp rp lks rks = (case ps_ordering lp of
     None \<Rightarrow> False
   | Some lo \<Rightarrow> (case ps_ordering rp of
       None \<Rightarrow> False
     | Some ro \<Rightarrow>
         if length lks \<noteq> length rks then False
         else if lks = [] then False
         else merge_keys_ok (zip lks rks) (o_columns lo) (o_columns ro)))"

definition merge_join_required_properties ::
  "column_ref list \<Rightarrow> column_ref list \<Rightarrow> property_set \<times> property_set" where
  "merge_join_required_properties lks rks =
    (let req = (\<lambda>ks. ps_with_ordering (ordering_new
        (map (\<lambda>k. \<lparr>oc_column = k, oc_direction = Asc, oc_nulls = NullsLast\<rparr>) ks)))
     in (req lks, req rks))"

subsection \<open>Prefixes and satisfaction\<close>

lemma zip_all_eq: "length xs \<le> length ys \<Longrightarrow> list_all (\<lambda>(x, y). x = y) (zip xs ys) \<longleftrightarrow> xs = take (length xs) ys"
proof (induction xs arbitrary: ys)
  case (Cons x xs)
  then show ?case by (cases ys) auto
qed simp

lemma is_prefix_of_prefix: "is_prefix_of a b \<longleftrightarrow> prefix (o_columns a) (o_columns b)"
  by (auto simp: is_prefix_of_def zip_all_eq prefix_def) (metis append_take_drop_id)

lemma common_prefix_prefix:
  "prefix (o_columns (common_prefix a b)) (o_columns a) \<and> prefix (o_columns (common_prefix a b)) (o_columns b)"
proof -
  have "prefix (map fst (takeWhile (\<lambda>(x, y). x = y) (zip xs ys))) xs
      \<and> prefix (map fst (takeWhile (\<lambda>(x, y). x = y) (zip xs ys))) ys" for xs ys :: "'a list"
    by (induction xs ys rule: list_induct2') auto
  then show ?thesis by (simp add: common_prefix_def ordering_new_def)
qed

lemma common_prefix_longest:
  assumes "prefix zs (o_columns a)" "prefix zs (o_columns b)"
  shows "prefix zs (o_columns (common_prefix a b))"
proof -
  have "prefix zs (map fst (takeWhile (\<lambda>(x, y). x = y) (zip xs ys)))"
    if "prefix zs xs" "prefix zs ys" for zs xs ys :: "'a list"
    using that
  proof (induction zs arbitrary: xs ys)
    case (Cons z zs)
    then show ?case by (cases xs; cases ys) auto
  qed simp
  with assms show ?thesis by (simp add: common_prefix_def ordering_new_def)
qed

text \<open>\<^verbatim>\<open>common_prefix\<close> returns the longest ordering that is a prefix of both: it is
  a prefix of each, and every common prefix is a prefix of it.\<close>

lemma common_prefix_greatest:
  "is_prefix_of c a \<and> is_prefix_of c b \<longleftrightarrow> is_prefix_of c (common_prefix a b)"
  using common_prefix_prefix [of a b] common_prefix_longest [of "o_columns c" a b]
  by (auto simp: is_prefix_of_prefix intro: prefix_order.trans)

lemma ps_ordering_add:
  "ps_ordering (ps_add ps p) = (case ps_ordering ps of Some o1 \<Rightarrow> Some o1
     | None \<Rightarrow> (case p of OrderingProp o1 \<Rightarrow> Some o1 | _ \<Rightarrow> None))"
proof -
  have app: "find_map f (xs @ [y]) = (case find_map f xs of Some z \<Rightarrow> Some z | None \<Rightarrow> f y)"
    for f :: "'a \<Rightarrow> 'b option" and xs y
    by (induction xs) (auto split: option.splits)
  have mem: "find_map f xs = None \<Longrightarrow> y \<in> set xs \<Longrightarrow> f y = None" for f :: "'a \<Rightarrow> 'b option" and xs y
    by (induction xs) (auto split: option.splits)
  show ?thesis
    using mem [of "\<lambda>p. case p of OrderingProp o1 \<Rightarrow> Some o1 | _ \<Rightarrow> None" "ps_properties ps" p]
    by (auto simp: ps_ordering_def ps_add_def app split: option.splits physical_property.splits)
qed

lemma ps_ordering_new [simp]: "ps_ordering ps_new = None"
  by (simp add: ps_ordering_def ps_new_def)

lemma ps_ordering_with [simp]: "ps_ordering (ps_with_ordering o1) = Some o1"
  by (simp add: ps_with_ordering_def ps_ordering_add)

lemma ps_ordering_mem: "ps_ordering ps = Some o1 \<Longrightarrow> OrderingProp o1 \<in> set (ps_properties ps)"
proof -
  have "find_map (\<lambda>p. case p of OrderingProp o1 \<Rightarrow> Some o1 | _ \<Rightarrow> None) xs = Some o1 \<Longrightarrow> OrderingProp o1 \<in> set xs" for xs
    by (induction xs) (auto split: physical_property.splits)
  then show "ps_ordering ps = Some o1 \<Longrightarrow> OrderingProp o1 \<in> set (ps_properties ps)"
    by (simp add: ps_ordering_def)
qed

lemma satisfies_ordering_prefix:
  "satisfies_ordering ps req \<longleftrightarrow> (\<exists>zs. prefix (o_columns req) zs
     \<and> (case ps_ordering ps of Some o1 \<Rightarrow> zs = o_columns o1 | None \<Rightarrow> zs = []))"
  by (auto simp: satisfies_ordering_def is_prefix_of_prefix split: option.split)

text \<open>Satisfaction of required properties is transitive: what satisfies a set of
  properties satisfies everything that set satisfies, so requirements may be checked against
  any intermediate description of the data.\<close>

lemma ps_satisfies_trans:
  assumes ab: "ps_satisfies a b" and bc: "ps_satisfies b c"
  shows "ps_satisfies a c"
proof -
  have "satisfies_ordering a o1" if "satisfies_ordering b o1" for o1
  proof (cases "ps_ordering b")
    case None
    with that have "o_columns o1 = []" by (simp add: satisfies_ordering_def)
    then show ?thesis by (auto simp: satisfies_ordering_def is_prefix_of_prefix split: option.split)
  next
    case (Some ob)
    then have "satisfies_ordering a ob"
      using ab ps_ordering_mem [OF Some] by (auto simp: ps_satisfies_def list_all_iff)
    with that Some show ?thesis
      by (auto simp: satisfies_ordering_def is_prefix_of_prefix intro: prefix_order.trans
          split: option.splits)
  qed
  note ord = this
  have "case req of OrderingProp o1 \<Rightarrow> satisfies_ordering a o1 | _ \<Rightarrow> req \<in> set (ps_properties a)"
    if "req \<in> set (ps_properties c)" for req
    using ab bc that ord by (cases req) (fastforce simp: ps_satisfies_def list_all_iff)+
  then show ?thesis by (simp add: ps_satisfies_def list_all_iff)
qed

lemma ps_satisfies_trans_witness:
  "ps_satisfies (ps_with_ordering (ordering_new [ordering_column_new (column_new ''a'') Asc,
       ordering_column_new (column_new ''b'') Desc])) ps_new"
proof (rule ps_satisfies_trans)
  show "ps_satisfies (ps_with_ordering (ordering_new [ordering_column_new (column_new ''a'') Asc,
       ordering_column_new (column_new ''b'') Desc]))
     (ps_with_ordering (ordering_new [ordering_column_new (column_new ''a'') Asc]))" by code_simp
  show "ps_satisfies (ps_with_ordering (ordering_new [ordering_column_new (column_new ''a'') Asc])) ps_new"
    by code_simp
qed

lemma merge_keys_ok_iff:
  "length lks = length rks \<Longrightarrow> merge_keys_ok (zip lks rks) los ros \<longleftrightarrow>
     prefix lks (map oc_column los) \<and> prefix rks (map oc_column ros)
     \<and> map oc_direction (take (length lks) los) = map oc_direction (take (length rks) ros)"
proof (induction lks rks arbitrary: los ros rule: list_induct2)
  case (Cons l lks r rks)
  then show ?case by (cases los; cases ros) auto
qed simp

text \<open>Merge joins: inputs that satisfy the properties requested for the join keys are
  accepted by \<^verbatim>\<open>can_merge_join\<close>; and what it accepts is ordered on the keys on both
  sides: as many keys on the left as on the right, at least one, which are the leading columns
  of the two orderings, with equal directions.\<close>

lemma merge_join_properties:
  assumes "length lks = length rks" and "lks \<noteq> []"
  shows "(ps_satisfies lp (fst (merge_join_required_properties lks rks))
      \<and> ps_satisfies rp (snd (merge_join_required_properties lks rks)) \<longrightarrow> can_merge_join lp rp lks rks)
    \<and> (can_merge_join lp rp lks rks \<longrightarrow> (\<exists>lo ro. ps_ordering lp = Some lo \<and> ps_ordering rp = Some ro
      \<and> prefix lks (column_refs lo) \<and> prefix rks (column_refs ro)
      \<and> map oc_direction (take (length lks) (o_columns lo)) = map oc_direction (take (length rks) (o_columns ro))))"
proof (intro conjI impI)
  assume sat: "ps_satisfies lp (fst (merge_join_required_properties lks rks))
      \<and> ps_satisfies rp (snd (merge_join_required_properties lks rks))"
  define col where "col = (\<lambda>k. \<lparr>oc_column = k, oc_direction = Asc, oc_nulls = NullsLast\<rparr>)"
  have req: "\<exists>o1 zs. ps_ordering ps = Some o1 \<and> o_columns o1 = map col ks @ zs"
    if "ps_satisfies ps (ps_with_ordering (ordering_new (map col ks)))" "ks \<noteq> []" for ps ks
    using that by (auto simp: ps_satisfies_def ps_with_ordering_def ps_add_def ps_new_def
        satisfies_ordering_def ordering_new_def is_prefix_of_prefix prefix_def split: option.splits)
  have "rks \<noteq> []" using assms by auto
  then obtain lo zs ro ys where "ps_ordering lp = Some lo" "o_columns lo = map col lks @ zs"
    "ps_ordering rp = Some ro" "o_columns ro = map col rks @ ys"
    using req [of lp lks] req [of rp rks] sat assms(2)
    unfolding merge_join_required_properties_def col_def Let_def by auto
  moreover have "map oc_column (map col ks) = ks" "map oc_direction (map col ks) = replicate (length ks) Asc" for ks
    by (auto simp: col_def comp_def map_replicate_const)
  ultimately show "can_merge_join lp rp lks rks"
    using assms by (simp add: can_merge_join_def merge_keys_ok_iff)
next
  assume "can_merge_join lp rp lks rks"
  with assms show "\<exists>lo ro. ps_ordering lp = Some lo \<and> ps_ordering rp = Some ro
      \<and> prefix lks (column_refs lo) \<and> prefix rks (column_refs ro)
      \<and> map oc_direction (take (length lks) (o_columns lo)) = map oc_direction (take (length rks) (o_columns ro))"
    by (auto simp: can_merge_join_def merge_keys_ok_iff column_refs_def split: option.splits)
qed

lemma merge_join_properties_witness:
  "can_merge_join (fst (merge_join_required_properties [column_new ''a''] [column_new ''b'']))
     (snd (merge_join_required_properties [column_new ''a''] [column_new ''b'']))
     [column_new ''a''] [column_new ''b'']"
  by (rule merge_join_properties [THEN conjunct1, rule_format]; code_simp)

text \<open>The null orderings are not compared: inputs whose nulls come at different ends are
  accepted for a merge join.\<close>

theorem can_merge_join_ignores_nulls:
  "can_merge_join
     (ps_with_ordering (ordering_new [ordering_column_with_nulls (column_new ''a'') Asc NullsFirst]))
     (ps_with_ordering (ordering_new [ordering_column_with_nulls (column_new ''b'') Asc NullsLast]))
     [column_new ''a''] [column_new ''b'']"
  by code_simp

end
