(* ===== verification/Incremental_Sort.thy ===== *)
theory Incremental_Sort
  imports Properties
begin

text \<open>
  Incremental sorting (\<^verbatim>\<open>crates/ra-engine/src/incremental_sort.rs\<close>): the detection of a
  usable prefix and the rewrite, and what an incremental sort computes. The cost comparison in
  floating point is a parameter of the rewrite (\<open>beneficial\<close>).

  The executor's two sort operators are specified on lists of rows: a full sort is the stable
  sort by the ranks of all keys, an incremental sort runs over the groups of adjacent rows with
  equal prefix ranks and sorts each by the suffix keys.
\<close>

subsection \<open>The rewrite\<close>

record prefix_match =
  pm_prefix :: "expr sort_key list"
  pm_suffix :: "expr sort_key list"

definition sort_keys_match :: "expr sort_key \<Rightarrow> expr sort_key \<Rightarrow> bool" where
  "sort_keys_match a b \<longleftrightarrow> sk_expr a = sk_expr b \<and> sk_direction a = sk_direction b \<and> sk_nulls a = sk_nulls b"

definition detect_prefix_match ::
  "expr sort_key list \<Rightarrow> expr sort_key list \<Rightarrow> prefix_match option" where
  "detect_prefix_match required input =
    (if required = [] \<or> input = [] then None
     else (let n = length (takeWhile (\<lambda>(req, inp). sort_keys_match req inp) (zip required input)) in
       if n = 0 \<or> length required \<le> n then None
       else Some \<lparr>pm_prefix = take n required, pm_suffix = drop n required\<rparr>))"

definition try_incremental_sort ::
  "bool \<Rightarrow> expr sort_key list \<Rightarrow> expr sort_key list \<Rightarrow> rel_expr \<Rightarrow> rel_expr option" where
  "try_incremental_sort beneficial sort_keys input_keys input =
    (case detect_prefix_match sort_keys input_keys of
       None \<Rightarrow> None
     | Some m \<Rightarrow> if \<not> beneficial then None else Some (IncrementalSort (pm_prefix m) (pm_suffix m) input))"

lemma sort_keys_match_eq [simp]: "sort_keys_match a b \<longleftrightarrow> a = b"
  by (cases a; cases b) (auto simp: sort_keys_match_def)

lemma sort_keys_match_fun: "(\<lambda>(x, y). sort_keys_match x y) = (\<lambda>(x, y). x = y)"
  by (simp add: fun_eq_iff)

lemma takeWhile_zip_eq:
  "n = length (takeWhile (\<lambda>(x, y). x = y) (zip xs ys)) \<Longrightarrow> take n xs = take n ys \<and> n \<le> length xs
   \<and> n \<le> length ys"
  by (induction xs ys arbitrary: n rule: list_induct2') auto

lemma takeWhile_zip_max:
  "length (takeWhile (\<lambda>(x, y). x = y) (zip xs ys)) = n \<Longrightarrow> m \<le> length xs \<Longrightarrow> m \<le> length ys \<Longrightarrow>
   take m xs = take m ys \<Longrightarrow> m \<le> n"
proof (induction xs ys arbitrary: n m rule: list_induct2')
  case (4 x xs y ys)
  then show ?case by (cases m) auto
qed auto

lemma detect_prefix_match_Some:
  assumes "detect_prefix_match required input = Some m"
  shows "required = pm_prefix m @ pm_suffix m" "pm_prefix m \<noteq> []" "pm_suffix m \<noteq> []"
    "prefix (pm_prefix m) input"
proof -
  define n where "n = length (takeWhile (\<lambda>(x, y). x = y) (zip required input))"
  have "\<not> (n = 0 \<or> length required \<le> n)" "m = \<lparr>pm_prefix = take n required, pm_suffix = drop n required\<rparr>"
    using assms by (auto simp: detect_prefix_match_def sort_keys_match_fun n_def Let_def split: if_splits)
  with takeWhile_zip_eq [OF n_def]
  show "required = pm_prefix m @ pm_suffix m" "pm_prefix m \<noteq> []" "pm_suffix m \<noteq> []"
    "prefix (pm_prefix m) input"
    by (auto simp: take_is_prefix) (metis append_take_drop_id)
qed

text \<open>\<^verbatim>\<open>detect_prefix_match\<close> splits the required keys exactly: prefix and
  suffix put together are the required keys, neither is empty, the prefix is the longest list of
  leading keys both sides agree on, in expression, direction and null order; and it finds a
  split whenever the first keys agree and the input order does not already cover all of them.\<close>

lemma detect_prefix_match_spec:
  "(detect_prefix_match req inp = Some m \<longleftrightarrow>
     req = pm_prefix m @ pm_suffix m \<and> pm_prefix m \<noteq> [] \<and> pm_suffix m \<noteq> []
     \<and> prefix (pm_prefix m) inp \<and> \<not> prefix (pm_prefix m @ [hd (pm_suffix m)]) inp)"
proof -
  define n where "n = length (takeWhile (\<lambda>(x, y). x = y) (zip req inp))"
  have n: "take n req = take n inp" "n \<le> length req" "n \<le> length inp"
    using takeWhile_zip_eq [OF n_def] by auto
  have max: "k \<le> n" if "k \<le> length req" "k \<le> length inp" "take k req = take k inp" for k
    using takeWhile_zip_max [OF n_def [symmetric]] that by blast
  have d: "detect_prefix_match req inp = (if n = 0 \<or> length req \<le> n then None
      else Some \<lparr>pm_prefix = take n req, pm_suffix = drop n req\<rparr>)"
    by (auto simp: detect_prefix_match_def sort_keys_match_fun n_def Let_def)
  show ?thesis
  proof
    assume a: "detect_prefix_match req inp = Some m"
    then have m: "n \<noteq> 0" "n < length req" "pm_prefix m = take n req" "pm_suffix m = drop n req"
      by (auto simp: d split: if_splits)
    have "\<not> prefix (take (Suc n) req) inp"
    proof
      assume p: "prefix (take (Suc n) req) inp"
      then have "Suc n \<le> length inp" using m(2) prefix_length_le [of "take (Suc n) req" inp] by simp
      moreover from p m(2) have "take (Suc n) req = take (Suc n) inp"
        by (auto simp: prefix_def)
      ultimately show False using max [of "Suc n"] m(2) by simp
    qed
    moreover have "pm_prefix m @ [hd (pm_suffix m)] = take (Suc n) req"
      using m by (simp add: take_Suc_conv_app_nth hd_drop_conv_nth)
    ultimately show "req = pm_prefix m @ pm_suffix m \<and> pm_prefix m \<noteq> [] \<and> pm_suffix m \<noteq> []
     \<and> prefix (pm_prefix m) inp \<and> \<not> prefix (pm_prefix m @ [hd (pm_suffix m)]) inp"
      using detect_prefix_match_Some [OF a] by metis
  next
    assume a: "req = pm_prefix m @ pm_suffix m \<and> pm_prefix m \<noteq> [] \<and> pm_suffix m \<noteq> []
     \<and> prefix (pm_prefix m) inp \<and> \<not> prefix (pm_prefix m @ [hd (pm_suffix m)]) inp"
    define k where "k = length (pm_prefix m)"
    have k: "0 < k" "k < length req" "take k req = pm_prefix m" "drop k req = pm_suffix m"
      using a [THEN conjunct1] a [THEN conjunct2] by (simp_all add: k_def)
    have ki: "k \<le> length inp" "take k inp = pm_prefix m"
      using a by (auto simp: k_def prefix_def)
    have "k \<le> n" using max [of k] k ki by simp
    moreover have "\<not> k < n"
    proof
      assume "k < n"
      then have "take (Suc k) req = take (Suc k) inp"
        using arg_cong [OF n(1), of "take (Suc k)"] by (simp add: min_def split: if_splits)
      moreover have "take (Suc k) req = pm_prefix m @ [hd (pm_suffix m)]"
        using k by (metis hd_drop_conv_nth take_Suc_conv_app_nth)
      ultimately show False using a take_is_prefix by metis
    qed
    ultimately show "detect_prefix_match req inp = Some m"
      using k by (cases m) (simp add: d)
  qed
qed

subsection \<open>Rows in order\<close>

text \<open>\<open>rank k r\<close>: where key \<open>k\<close> puts row \<open>r\<close>.\<close>

type_synonym ('r, 'k) ranking = "expr sort_key \<Rightarrow> 'r \<Rightarrow> 'k"

definition ranks :: "('r, 'k) ranking \<Rightarrow> expr sort_key list \<Rightarrow> 'r \<Rightarrow> 'k list" where
  "ranks rank ks r = map (\<lambda>k. rank k r) ks"

definition sorted_by :: "('r, 'k :: linorder) ranking \<Rightarrow> expr sort_key list \<Rightarrow> 'r list \<Rightarrow> bool" where
  "sorted_by rank ks rows \<longleftrightarrow> sorted (map (ranks rank ks) rows)"

definition full_sort :: "('r, 'k :: linorder) ranking \<Rightarrow> expr sort_key list \<Rightarrow> 'r list \<Rightarrow> 'r list" where
  "full_sort rank ks rows = List.sort_key (ranks rank ks) rows"

function groups :: "('r \<Rightarrow> 'k) \<Rightarrow> 'r list \<Rightarrow> 'r list list" where
  "groups f [] = []"
| "groups f (x # xs) =
     (x # takeWhile (\<lambda>y. f y = f x) xs) # groups f (dropWhile (\<lambda>y. f y = f x) xs)"
  by pat_completeness auto
termination
  by (relation "measure (\<lambda>(f, xs). length xs)") (auto simp: less_Suc_eq_le length_dropWhile_le)

definition incremental_sort ::
  "('r, 'k :: linorder) ranking \<Rightarrow> expr sort_key list \<Rightarrow> expr sort_key list \<Rightarrow> 'r list \<Rightarrow> 'r list" where
  "incremental_sort rank ps ss rows =
     concat (map (full_sort rank ss) (groups (ranks rank ps) rows))"

lemma ranks_append: "ranks rank (ps @ ss) r = ranks rank ps r @ ranks rank ss r"
  by (simp add: ranks_def)

lemma list_less_append:
  "length xs = length xs' \<Longrightarrow> (xs @ ys :: 'a :: linorder list) \<le> xs' @ ys' \<longleftrightarrow> xs < xs' \<or> xs = xs' \<and> ys \<le> ys'"
  by (induction xs xs' rule: list_induct2) auto

lemma ranks_append_le:
  fixes rank :: "('r, 'k :: linorder) ranking"
  shows "ranks rank (ps @ ss) r \<le> ranks rank (ps @ ss) r' \<longleftrightarrow>
     ranks rank ps r < ranks rank ps r' \<or> ranks rank ps r = ranks rank ps r' \<and> ranks rank ss r \<le> ranks rank ss r'"
proof -
  have "length (ranks rank ps r) = length (ranks rank ps r')" by (simp add: ranks_def)
  then show ?thesis unfolding ranks_append by (rule list_less_append)
qed

lemma ranks_append_less:
  fixes rank :: "('r, 'k :: linorder) ranking"
  assumes "ranks rank ps r < ranks rank ps r'"
  shows "ranks rank (ps @ ss) r < ranks rank (ps @ ss) r'"
  unfolding less_le_not_le [of "ranks rank (ps @ ss) r"] ranks_append_le using assms by auto

lemma sorted_by_prefix:
  assumes "prefix ps ks" and "sorted_by rank ks rows"
  shows "sorted_by rank ps rows"
proof -
  obtain ss where ks: "ks = ps @ ss" using assms(1) by (auto simp: prefix_def)
  have "sorted_wrt (\<lambda>r r'. ranks rank ks r \<le> ranks rank ks r') rows"
    using assms(2) by (simp add: sorted_by_def sorted_map)
  then have "sorted_wrt (\<lambda>r r'. ranks rank ps r \<le> ranks rank ps r') rows"
    by (rule sorted_wrt_mono_rel [rotated]) (auto simp: ks ranks_append_le)
  then show ?thesis by (simp add: sorted_by_def sorted_map)
qed

lemma full_sort_sorted: "sorted_by rank ks (full_sort rank ks rows)"
  by (simp add: sorted_by_def full_sort_def)

lemma full_sort_id: "sorted_by rank ks rows \<Longrightarrow> full_sort rank ks rows = rows"
  by (simp add: sorted_by_def full_sort_def sort_key_id_if_sorted)

lemma filter_sort_key_stable:
  "filter (\<lambda>x. f k = f x) (List.sort_key f xs) = filter (\<lambda>x. f k = f x) xs"
  using sort_key_stable [of f "f k" xs] by (simp add: eq_commute)

lemma in_set_Cons: "x \<in> set xs \<Longrightarrow> \<exists>y ys. xs = y # ys"
  by (cases xs) auto

lemma sort_key_append_less:
  fixes f :: "'a \<Rightarrow> 'k :: linorder"
  assumes "\<And>a b. a \<in> set as \<Longrightarrow> b \<in> set bs \<Longrightarrow> f a < f b"
  shows "List.sort_key f (as @ bs) = List.sort_key f as @ List.sort_key f bs"
proof (rule properties_for_sort_key)
  show "sorted (map f (List.sort_key f as @ List.sort_key f bs))"
    using assms by (auto simp: sorted_append less_imp_le)
  show "filter (\<lambda>x. f k = f x) (List.sort_key f as @ List.sort_key f bs) = filter (\<lambda>x. f k = f x) (as @ bs)"
    for k by (simp add: filter_sort_key_stable)
qed simp

lemma sort_key_same_order:
  fixes f :: "'a \<Rightarrow> 'k :: linorder" and g :: "'a \<Rightarrow> 'l :: linorder"
  assumes "\<And>x y. x \<in> set as \<Longrightarrow> y \<in> set as \<Longrightarrow> f x \<le> f y \<longleftrightarrow> g x \<le> g y"
  shows "List.sort_key f as = List.sort_key g as"
proof (rule properties_for_sort_key)
  have "sorted_wrt (\<lambda>x y. g x \<le> g y) (List.sort_key g as)"
    using sorted_sort_key [of g as] by (simp add: sorted_map)
  then have "sorted_wrt (\<lambda>x y. f x \<le> f y) (List.sort_key g as)"
    by (rule sorted_wrt_mono_rel [rotated]) (use assms in auto)
  then show "sorted (map f (List.sort_key g as))" by (simp add: sorted_map)
  show "filter (\<lambda>x. f k = f x) (List.sort_key g as) = filter (\<lambda>x. f k = f x) as"
    if "k \<in> set (List.sort_key g as)" for k
  proof -
    have "f k = f x \<longleftrightarrow> g k = g x" if "x \<in> set as" for x
      using assms \<open>k \<in> set (List.sort_key g as)\<close> that by (metis antisym order_refl set_sort)
    then have "filter (\<lambda>x. f k = f x) xs = filter (\<lambda>x. g k = g x) xs" if "set xs = set as" for xs
      using that by (intro filter_cong) auto
    from this [of as] this [of "List.sort_key g as"] show ?thesis by (simp add: filter_sort_key_stable)
  qed
qed simp

lemma incremental_sort_full_lemma:
  assumes "sorted_by rank ps rows"
  shows "incremental_sort rank ps ss rows = full_sort rank (ps @ ss) rows"
  using assms
proof (induction "ranks rank ps" rows rule: groups.induct)
  case (2 x xs)
  let ?f = "ranks rank ps" and ?g = "ranks rank (ps @ ss)"
  let ?A = "x # takeWhile (\<lambda>y. ?f y = ?f x) xs" and ?B = "dropWhile (\<lambda>y. ?f y = ?f x) xs"
  have AB: "x # xs = ?A @ ?B" by simp
  have srt: "sorted_wrt (\<lambda>a b. ?f a \<le> ?f b) (?A @ ?B)"
    using "2.prems" unfolding AB sorted_by_def sorted_map .
  have A: "?f a = ?f x" if "a \<in> set ?A" for a using that by (auto dest: set_takeWhileD)
  have B: "?f x < ?f b" if b: "b \<in> set ?B" for b
  proof -
    obtain c cs where c: "?B = c # cs" using in_set_Cons [OF b] by blast
    have "?f c \<noteq> ?f x" using hd_dropWhile [of "\<lambda>y. ?f y = ?f x" xs] c by (metis list.discI list.sel(1))
    moreover have "sorted_wrt (\<lambda>a b. ?f a \<le> ?f b) (?A @ c # cs)" using srt unfolding c .
    then have "?f x \<le> ?f c" "\<forall>b \<in> set cs. ?f c \<le> ?f b" by (simp_all add: sorted_wrt_append)
    moreover have "b \<in> set (c # cs)" using b unfolding c .
    then have "b = c \<or> b \<in> set cs" by simp
    ultimately show ?thesis by (metis order_le_less order_less_le_trans)
  qed
  have "full_sort rank (ps @ ss) (?A @ ?B) = List.sort_key ?g ?A @ List.sort_key ?g ?B"
    unfolding full_sort_def
  proof (rule sort_key_append_less)
    fix a b assume "a \<in> set ?A" and "b \<in> set ?B"
    with A [of a] B [of b] show "?g a < ?g b" by (intro ranks_append_less) simp
  qed
  also have "List.sort_key ?g ?A = List.sort_key (ranks rank ss) ?A"
  proof (rule sort_key_same_order)
    fix a b assume "a \<in> set ?A" and "b \<in> set ?A"
    then have "?f a = ?f b" using A [of a] A [of b] by metis
    then show "?g a \<le> ?g b \<longleftrightarrow> ranks rank ss a \<le> ranks rank ss b"
      unfolding ranks_append_le by simp
  qed
  also have "List.sort_key ?g ?B = incremental_sort rank ps ss ?B"
    using "2.hyps" srt by (simp add: sorted_by_def sorted_map sorted_wrt_append full_sort_def)
  finally show ?case unfolding AB [symmetric] by (simp add: incremental_sort_def full_sort_def)
qed (simp add: incremental_sort_def full_sort_def)

text \<open>Claim C33. An incremental sort is a full sort: when rows come in the order of the keys
  \<open>inp\<close>, and \<^verbatim>\<open>detect_prefix_match\<close> splits the required keys against them, sorting each
  group of equal prefix by the suffix keys gives exactly the rows, in exactly the order, of the
  stable sort by all required keys.\<close>

theorem incremental_sort_full:
  assumes m: "detect_prefix_match req inp = Some m" and rows: "sorted_by rank inp rows"
  shows "incremental_sort rank (pm_prefix m) (pm_suffix m) rows = full_sort rank req rows"
proof -
  have "sorted_by rank (pm_prefix m) rows"
    using sorted_by_prefix [OF detect_prefix_match_Some(4) [OF m] rows] .
  from incremental_sort_full_lemma [OF this] show ?thesis
    using detect_prefix_match_Some(1) [OF m] by simp
qed

theorem incremental_sort_full_witness:
  "incremental_sort (\<lambda>k r. if sk_expr k = Column (column_new ''a'') then fst r else snd r)
     [SortKey (Column (column_new ''a'')) Asc NullsLast] [SortKey (Column (column_new ''b'')) Asc NullsLast]
     [(1 :: nat, 3 :: nat), (1, 2), (2, 9), (2, 1)]
   = [(1, 2), (1, 3), (2, 1), (2, 9)]"
proof -
  let ?rank = "\<lambda>k (r :: nat \<times> nat). if sk_expr k = Column (column_new ''a'') then fst r else snd r"
  let ?a = "SortKey (Column (column_new ''a'')) Asc NullsLast"
  let ?b = "SortKey (Column (column_new ''b'')) Asc NullsLast"
  let ?m = "\<lparr>pm_prefix = [?a], pm_suffix = [?b]\<rparr>"
  have "detect_prefix_match [?a, ?b] [?a] = Some ?m" by code_simp
  moreover have "sorted_by ?rank [?a] [(1, 3), (1, 2), (2, 9), (2, 1)]" by code_simp
  moreover have "full_sort ?rank [?a, ?b] [(1, 3), (1, 2), (2, 9), (2, 1)]
      = [(1, 2), (1, 3), (2, 1), (2, 9)]" by code_simp
  ultimately show ?thesis using incremental_sort_full [of "[?a, ?b]" "[?a]" ?m ?rank] by simp
qed

end
