(* ===== verification/Ordering_Pass.thy ===== *)
theory Ordering_Pass
  imports Incremental_Sort
begin

text \<open>
  The ordering pass (\<^verbatim>\<open>crates/ra-engine/src/ordering_pass.rs\<close>): one bottom-up rewrite
  that computes the physical properties of every node, drops a \<^verbatim>\<open>Sort\<close> whose input is
  already in order, and turns a \<^verbatim>\<open>Sort\<close> over a partially ordered input into an
  \<^verbatim>\<open>IncrementalSort\<close>. The catalog lookup of the \<^verbatim>\<open>FactsProvider\<close> and the
  floating-point cost decision are the parameter \<open>facts\<close>.
\<close>

subsection \<open>The pass\<close>

record index_info =
  ii_name :: string
  ii_columns :: "string list"

record facts =
  schema_indexes :: "string \<Rightarrow> index_info list option"
  sort_beneficial :: "expr sort_key list \<Rightarrow> rel_expr \<Rightarrow> bool"

definition asc_ordering :: "string list \<Rightarrow> ordering" where
  "asc_ordering cs = ordering_new (map (\<lambda>c. ordering_column_new (column_new c) Asc) cs)"

definition derive_index_scan_properties :: "string \<Rightarrow> string \<Rightarrow> facts \<Rightarrow> property_set" where
  "derive_index_scan_properties t c f = (case schema_indexes f t of
     Some idxs \<Rightarrow>
       (if list_ex (\<lambda>i. ii_columns i \<noteq> [] \<and> hd (ii_columns i) = c) idxs
        then ps_with_ordering (asc_ordering [c])
        else ps_with_ordering (asc_ordering [c]))
   | None \<Rightarrow> ps_with_ordering (asc_ordering [c]))"

definition derive_index_only_scan_properties :: "string \<Rightarrow> string \<Rightarrow> facts \<Rightarrow> property_set" where
  "derive_index_only_scan_properties t n f = (case schema_indexes f t of
     Some idxs \<Rightarrow> (case List.find (\<lambda>i. ii_name i = n \<and> ii_columns i \<noteq> []) idxs of
         Some i \<Rightarrow> ps_with_ordering (asc_ordering (ii_columns i))
       | None \<Rightarrow> ps_new)
   | None \<Rightarrow> ps_new)"

definition ordering_to_sort_keys :: "ordering \<Rightarrow> expr sort_key list" where
  "ordering_to_sort_keys o1 =
     map (\<lambda>oc. SortKey (Column (oc_column oc)) (oc_direction oc) (oc_nulls oc)) (o_columns o1)"

definition sort_keys_to_property_set :: "expr sort_key list \<Rightarrow> property_set" where
  "sort_keys_to_property_set keys =
    (let cols = keys_to_columns keys in
     if cols = [] then ps_new else ps_with_ordering (ordering_new cols))"

text \<open>\<^verbatim>\<open>handle_sort\<close> after its recursive call: on the properties and the plan of the
  rewritten child.\<close>

definition handle_sort ::
  "facts \<Rightarrow> expr sort_key list \<Rightarrow> property_set \<times> rel_expr \<Rightarrow> property_set \<times> rel_expr" where
  "handle_sort f keys c = (case c of (child_props, child) \<Rightarrow>
    (if is_sort_redundant keys child_props then (child_props, child)
     else
       (let keep = (sort_keys_to_property_set keys, Sort keys child) in
        case ps_ordering child_props of
          None \<Rightarrow> keep
        | Some o1 \<Rightarrow>
            (case detect_prefix_match keys (ordering_to_sort_keys o1) of
               None \<Rightarrow> keep
             | Some m \<Rightarrow>
                 if sort_beneficial f (pm_prefix m) child
                 then (sort_keys_to_property_set keys, IncrementalSort (pm_prefix m) (pm_suffix m) child)
                 else keep))))"

primrec propagate_inner :: "rel_expr \<Rightarrow> facts \<Rightarrow> property_set \<times> rel_expr" where
  "propagate_inner (Sort keys i) f = handle_sort f keys (propagate_inner i f)"
| "propagate_inner (Filter p i) f = (let (ps, c) = propagate_inner i f in (ps, Filter p c))"
| "propagate_inner (Limit n k i) f = (let (ps, c) = propagate_inner i f in (ps, Limit n k c))"
| "propagate_inner (Window fs i) f = (let (ps, c) = propagate_inner i f in (ps, Window fs c))"
| "propagate_inner (VectorFilter v q m t i) f =
     (let (ps, c) = propagate_inner i f in (ps, VectorFilter v q m t c))"
| "propagate_inner (SubqueryAlias a i) f =
     (let (ps, c) = propagate_inner i f in (ps, SubqueryAlias a c))"
| "propagate_inner (Project cs i) f =
     (let (ps, c) = propagate_inner i f; node = Project cs c in (derive_properties node [ps], node))"
| "propagate_inner (Distinct i) f =
     (let (ps, c) = propagate_inner i f; node = Distinct c in (derive_properties node [], node))"
| "propagate_inner (DistinctOn es i) f =
     (let (ps, c) = propagate_inner i f; node = DistinctOn es c in (derive_properties node [], node))"
| "propagate_inner (Aggregate g ags i) f =
     (let (ps, c) = propagate_inner i f; node = Aggregate g ags c in (derive_properties node [], node))"
| "propagate_inner (Join jt cond l r) f =
     (let (lp, lc) = propagate_inner l f; (rp, rc) = propagate_inner r f; node = Join jt cond lc rc
      in (derive_properties node [lp, rp], node))"
| "propagate_inner (IncrementalSort pks sks i) f =
     (let (ps, c) = propagate_inner i f; node = IncrementalSort pks sks c
      in (derive_properties node [], node))"
| "propagate_inner (IndexScanRel t col) f = (derive_index_scan_properties t col f, IndexScanRel t col)"
| "propagate_inner (IndexOnlyScanRel t n cs p) f =
     (derive_index_only_scan_properties t n f, IndexOnlyScanRel t n cs p)"
| "propagate_inner (UnionOp a l r) f =
     (let (lp, lc) = propagate_inner l f; (rp, rc) = propagate_inner r f in (ps_new, UnionOp a lc rc))"
| "propagate_inner (IntersectOp a l r) f =
     (let (lp, lc) = propagate_inner l f; (rp, rc) = propagate_inner r f in (ps_new, IntersectOp a lc rc))"
| "propagate_inner (ExceptOp a l r) f =
     (let (lp, lc) = propagate_inner l f; (rp, rc) = propagate_inner r f in (ps_new, ExceptOp a lc rc))"
| "propagate_inner (CTE n d b) f =
     (let (dp, dc) = propagate_inner d f; (bp, bc) = propagate_inner b f in (bp, CTE n dc bc))"
| "propagate_inner (RecursiveCTE n b r y cd) f =
     (let (bp, bc) = propagate_inner b f; (rp, rc) = propagate_inner r f; (yp, yc) = propagate_inner y f
      in (yp, RecursiveCTE n bc rc yc cd))"
| "propagate_inner (BitmapHeapScanRel t b rc) f =
     (let (bp, bc) = propagate_inner b f in (ps_new, BitmapHeapScanRel t bc rc))"
| "propagate_inner (BitmapAnd is) f = (ps_new, BitmapAnd (map (\<lambda>g. snd (g f)) (map propagate_inner is)))"
| "propagate_inner (BitmapOr is) f = (ps_new, BitmapOr (map (\<lambda>g. snd (g f)) (map propagate_inner is)))"
| "propagate_inner (Unnest e a i o1) f =
     (ps_new, Unnest e a (map_option (\<lambda>g. snd (g f)) (map_option propagate_inner i)) o1)"
| "propagate_inner (TableFunction n args cols i) f =
     (ps_new, TableFunction n args cols (map_option (\<lambda>g. snd (g f)) (map_option propagate_inner i)))"
| "propagate_inner (RowPattern i pb ob pat ds ms mm sm) f =
     (let (ps, c) = propagate_inner i f; node = RowPattern c pb ob pat ds ms mm sm
      in (derive_properties node [], node))"
| "propagate_inner (ParallelAggregate g ags i w) f =
     (let (ps, c) = propagate_inner i f in (ps_new, ParallelAggregate g ags c w))"
| "propagate_inner (GatherRel i w) f = (let (ps, c) = propagate_inner i f in (ps_new, GatherRel c w))"
| "propagate_inner (TopK v q m k i) f = (let (ps, c) = propagate_inner i f in (ps_new, TopK v q m k c))"
| "propagate_inner (ParallelHashJoin jt cond l r w) f =
     (let (lp, lc) = propagate_inner l f; (rp, rc) = propagate_inner r f
      in (ps_new, ParallelHashJoin jt cond lc rc w))"
| "propagate_inner (Insert t cols s oc ret) f =
     (let (sp, sc) = propagate_inner s f in (ps_new, Insert t cols sc oc ret))"
| "propagate_inner (Update t asg fl frm ret only) f =
     (let frm' = map_option (\<lambda>g. snd (g f)) (map_option propagate_inner frm)
      in (ps_new, Update t asg fl frm' ret only))"
| "propagate_inner (Delete t fl us ret only) f =
     (let us' = map_option (\<lambda>g. snd (g f)) (map_option propagate_inner us)
      in (ps_new, Delete t fl us' ret only))"
| "propagate_inner (Merge t s on ws ret) f =
     (let (sp, sc) = propagate_inner s f in (ps_new, Merge t sc on ws ret))"
| "propagate_inner (GraphTable g pat cs a) f = (ps_new, GraphTable g pat cs a)"
| "propagate_inner (Scan t a only) f = (ps_new, Scan t a only)"
| "propagate_inner (Values rows) f = (ps_new, Values rows)"
| "propagate_inner (MultiUnnest es as o1) f = (ps_new, MultiUnnest es as o1)"
| "propagate_inner (BitmapIndexScan t i p) f = (ps_new, BitmapIndexScan t i p)"
| "propagate_inner (ParallelScan t w) f = (ps_new, ParallelScan t w)"
| "propagate_inner (MvScan v a) f = (ps_new, MvScan v a)"

definition propagate_ordering :: "rel_expr \<Rightarrow> facts \<Rightarrow> rel_expr" where
  "propagate_ordering r f = (let (ps, rewritten) = propagate_inner r f in rewritten)"

subsection \<open>Only sorts change\<close>

text \<open>A plan without its sorts, full and incremental.\<close>

primrec strip_sorts :: "rel_expr \<Rightarrow> rel_expr" where
  "strip_sorts (Sort ks i) = strip_sorts i"
| "strip_sorts (IncrementalSort ps ss i) = strip_sorts i"
| "strip_sorts (Filter p i) = Filter p (strip_sorts i)"
| "strip_sorts (Limit n k i) = Limit n k (strip_sorts i)"
| "strip_sorts (Window fs i) = Window fs (strip_sorts i)"
| "strip_sorts (VectorFilter v q m t i) = VectorFilter v q m t (strip_sorts i)"
| "strip_sorts (SubqueryAlias a i) = SubqueryAlias a (strip_sorts i)"
| "strip_sorts (Project cs i) = Project cs (strip_sorts i)"
| "strip_sorts (Distinct i) = Distinct (strip_sorts i)"
| "strip_sorts (DistinctOn es i) = DistinctOn es (strip_sorts i)"
| "strip_sorts (Aggregate g ags i) = Aggregate g ags (strip_sorts i)"
| "strip_sorts (Join jt c l r) = Join jt c (strip_sorts l) (strip_sorts r)"
| "strip_sorts (IndexScanRel t c) = IndexScanRel t c"
| "strip_sorts (IndexOnlyScanRel t n cs p) = IndexOnlyScanRel t n cs p"
| "strip_sorts (UnionOp a l r) = UnionOp a (strip_sorts l) (strip_sorts r)"
| "strip_sorts (IntersectOp a l r) = IntersectOp a (strip_sorts l) (strip_sorts r)"
| "strip_sorts (ExceptOp a l r) = ExceptOp a (strip_sorts l) (strip_sorts r)"
| "strip_sorts (CTE n d b) = CTE n (strip_sorts d) (strip_sorts b)"
| "strip_sorts (RecursiveCTE n b r y cd) = RecursiveCTE n (strip_sorts b) (strip_sorts r) (strip_sorts y) cd"
| "strip_sorts (BitmapHeapScanRel t b rc) = (let b' = strip_sorts b in BitmapHeapScanRel t b' rc)"
| "strip_sorts (BitmapAnd is) = BitmapAnd (map strip_sorts is)"
| "strip_sorts (BitmapOr is) = BitmapOr (map strip_sorts is)"
| "strip_sorts (Unnest e a i w) = Unnest e a (map_option strip_sorts i) w"
| "strip_sorts (TableFunction n args cols i) = TableFunction n args cols (map_option strip_sorts i)"
| "strip_sorts (RowPattern i pb ob pat ds ms mm sm) =
     (let i' = strip_sorts i in RowPattern i' pb ob pat ds ms mm sm)"
| "strip_sorts (ParallelAggregate g ags i w) = ParallelAggregate g ags (strip_sorts i) w"
| "strip_sorts (GatherRel i w) = GatherRel (strip_sorts i) w"
| "strip_sorts (TopK v q m k i) = TopK v q m k (strip_sorts i)"
| "strip_sorts (ParallelHashJoin jt c l r w) = ParallelHashJoin jt c (strip_sorts l) (strip_sorts r) w"
| "strip_sorts (Insert t cols s oc ret) = (let s' = strip_sorts s in Insert t cols s' oc ret)"
| "strip_sorts (Update t asg fl frm ret only) =
     (let frm' = map_option strip_sorts frm in Update t asg fl frm' ret only)"
| "strip_sorts (Delete t fl us ret only) =
     (let us' = map_option strip_sorts us in Delete t fl us' ret only)"
| "strip_sorts (Merge t s on ws ret) = (let s' = strip_sorts s in Merge t s' on ws ret)"
| "strip_sorts (GraphTable g pat cs a) = GraphTable g pat cs a"
| "strip_sorts (Scan t a only) = Scan t a only"
| "strip_sorts (Values rows) = Values rows"
| "strip_sorts (MultiUnnest es as w) = MultiUnnest es as w"
| "strip_sorts (BitmapIndexScan t i p) = BitmapIndexScan t i p"
| "strip_sorts (ParallelScan t w) = ParallelScan t w"
| "strip_sorts (MvScan v a) = MvScan v a"

lemma strip_handle_sort: "strip_sorts (snd (handle_sort f keys c)) = strip_sorts (snd c)"
  by (cases c) (auto simp: handle_sort_def Let_def split: option.split)

lemma strip_propagate: "strip_sorts (snd (propagate_inner r f)) = strip_sorts r"
proof (induction r rule: children_induct)
  case (node r)
  then show ?case
    by (cases r) (auto simp: strip_handle_sort split_beta Let_def comp_def opt_list_def option.map_comp
        intro: option.map_cong split: option.splits)
qed

text \<open>The ordering pass touches nothing but sorts: after removing all full and
  incremental sorts, the rewritten plan and the original are the same plan, for every plan over
  the forty operators and whatever the catalog and the cost model answer. No operator, predicate
  or column is lost, duplicated or reordered.\<close>

lemma propagate_ordering_strip: "strip_sorts (propagate_ordering r f) = strip_sorts r"
  using strip_propagate [of r f] by (simp add: propagate_ordering_def split_beta Let_def)

definition is_sort :: "rel_expr \<Rightarrow> bool" where
  "is_sort r = (case r of Sort _ _ \<Rightarrow> True | _ \<Rightarrow> False)"

lemma map_option_propagate_id:
  "(\<And>c. Some c = x \<Longrightarrow> snd (propagate_inner c f) = c) \<Longrightarrow>
   map_option (\<lambda>g. snd (g f)) (map_option propagate_inner x) = x"
  by (cases x) auto

lemma propagate_no_sort:
  "list_all (\<lambda>s. \<not> is_sort s) (plan_nodes r) \<Longrightarrow> snd (propagate_inner r f) = r"
proof (induction r rule: children_induct)
  case (node r)
  have c: "snd (propagate_inner c f) = c" if "c \<in> set (children r)" for c
    using node.IH [OF that] node.prems that by (auto simp: plan_nodes.simps [of r] list_all_iff)
  have "\<not> is_sort r" using node.prems by (simp add: plan_nodes.simps [of r])
  then show ?case
    using c
    by (cases r) (auto simp: is_sort_def split_beta Let_def comp_def opt_list_def
        intro!: map_idI map_option_propagate_id split: option.splits)
qed

text \<open>A plan without \<^verbatim>\<open>Sort\<close> nodes comes back unchanged.\<close>

lemma propagate_ordering_no_sort:
  assumes "list_all (\<lambda>s. \<not> is_sort s) (plan_nodes r)"
  shows "propagate_ordering r f = r"
  using propagate_no_sort [OF assms] by (simp add: propagate_ordering_def split_beta Let_def)

lemma propagate_ordering_no_sort_witness:
  "propagate_ordering (rel_distinct (rel_scan ''t'')) \<lparr>schema_indexes = \<lambda>_. None, sort_beneficial = \<lambda>_ _. True\<rparr>
     = rel_distinct (rel_scan ''t'')"
  by (rule propagate_ordering_no_sort) code_simp

subsection \<open>Sorts that change\<close>

text \<open>The rows of a node are in the order its properties claim.\<close>

definition delivers :: "('r, 'k :: linorder) ranking \<Rightarrow> property_set \<Rightarrow> 'r list \<Rightarrow> bool" where
  "delivers rank ps rows = (case ps_ordering ps of
     None \<Rightarrow> True
   | Some o1 \<Rightarrow> sorted_by rank (ordering_to_sort_keys o1) rows)"

text \<open>What the plan returned by \<open>handle_sort\<close> computes from the rows of the child: the child
  itself, or one of the two sorts on top of it.\<close>

definition run_over ::
  "('r, 'k :: linorder) ranking \<Rightarrow> rel_expr \<Rightarrow> 'r list \<Rightarrow> rel_expr \<Rightarrow> 'r list option" where
  "run_over rank child rows plan =
    (if plan = child then Some rows
     else (case plan of
         Sort ks c \<Rightarrow> if c = child then Some (full_sort rank ks rows) else None
       | IncrementalSort ps ss c \<Rightarrow> if c = child then Some (incremental_sort rank ps ss rows) else None
       | _ \<Rightarrow> None))"

definition plain_key :: "expr sort_key \<Rightarrow> bool" where
  "plain_key k \<longleftrightarrow> key_column k \<noteq> None"

lemma keys_to_columns_Cons:
  "keys_to_columns (k # ks) = (case key_column k of None \<Rightarrow> keys_to_columns ks | Some c \<Rightarrow> c # keys_to_columns ks)"
  by (simp add: keys_to_columns_def map_filter_simps split: option.split)

lemma sorted_by_no_keys: "sorted_by rank [] rows"
  by (induction rows) (auto simp: sorted_by_def ranks_def)

lemma keys_to_columns_length: "length (keys_to_columns ks) \<le> length ks"
  by (induction ks) (auto simp: keys_to_columns_Cons keys_to_columns_def map_filter_simps split: option.split)

lemma keys_to_columns_plain:
  "length (keys_to_columns ks) = length ks \<longleftrightarrow> list_all plain_key ks"
proof (induction ks)
  case (Cons k ks)
  then show ?case
    using keys_to_columns_length [of ks] by (auto simp: keys_to_columns_Cons plain_key_def split: option.split)
qed (simp add: keys_to_columns_def map_filter_simps)

lemma plain_keys_back:
  "list_all plain_key ks \<Longrightarrow> ordering_to_sort_keys (ordering_new (keys_to_columns ks)) = ks"
proof (induction ks)
  case (Cons k ks)
  then obtain c where "sk_expr k = Column c"
    by (auto simp: plain_key_def key_column_def split: expr.splits)
  with Cons show ?case
    by (cases k) (simp add: keys_to_columns_Cons key_column_def ordering_to_sort_keys_def ordering_new_def)
qed (simp add: keys_to_columns_def map_filter_simps ordering_to_sort_keys_def ordering_new_def)

lemma redundant_sort_keys:
  assumes "is_sort_redundant keys ps"
  shows "list_all plain_key keys"
    and "case ps_ordering ps of None \<Rightarrow> keys = [] | Some o1 \<Rightarrow> prefix keys (ordering_to_sort_keys o1)"
proof -
  show plain: "list_all plain_key keys"
    using assms keys_to_columns_plain [of keys] by (auto simp: is_sort_redundant_def Let_def split: if_splits)
  have sat: "satisfies_ordering ps (ordering_new (keys_to_columns keys))"
    using assms by (auto simp: is_sort_redundant_def Let_def split: if_splits)
  have mono: "prefix a b \<Longrightarrow> prefix (ordering_to_sort_keys (ordering_new a)) (ordering_to_sort_keys (ordering_new b))"
    for a b by (auto simp: prefix_def ordering_to_sort_keys_def ordering_new_def)
  show "case ps_ordering ps of None \<Rightarrow> keys = [] | Some o1 \<Rightarrow> prefix keys (ordering_to_sort_keys o1)"
  proof (cases "ps_ordering ps")
    case None
    with sat plain keys_to_columns_plain [of keys] show ?thesis
      by (simp add: satisfies_ordering_def ordering_new_def)
  next
    case (Some o1)
    have "ordering_new (o_columns o1) = o1" by (simp add: ordering_new_def)
    with sat Some mono [of "keys_to_columns keys" "o_columns o1"] plain_keys_back [OF plain] show ?thesis
      by (simp add: satisfies_ordering_def is_prefix_of_prefix) (simp add: ordering_new_def)
  qed
qed

text \<open>Claim C5. Replacing a sort is sound: if the child delivers its rows in the order its
  properties claim, then the plan \<^verbatim>\<open>handle_sort\<close> puts in place of the sort (the bare child
  when the sort is redundant, an incremental sort, or the sort itself) computes exactly the rows
  of the full sort by the requested keys, in the same order; and when the keys are plain columns
  the properties it reports for its output hold of it.\<close>

theorem handle_sort_correct:
  assumes "delivers rank ps rows"
  shows "run_over rank child rows (snd (handle_sort f keys (ps, child))) = Some (full_sort rank keys rows)
    \<and> (list_all plain_key keys \<longrightarrow>
        delivers rank (fst (handle_sort f keys (ps, child))) (full_sort rank keys rows))"
proof (cases "is_sort_redundant keys ps")
  case True
  have "sorted_by rank keys rows"
  proof (cases "ps_ordering ps")
    case None
    with redundant_sort_keys(2) [OF True] show ?thesis by (simp add: sorted_by_no_keys)
  next
    case (Some o1)
    with redundant_sort_keys(2) [OF True] assms show ?thesis
      by (auto simp: delivers_def intro: sorted_by_prefix)
  qed
  with True assms show ?thesis by (simp add: handle_sort_def run_over_def full_sort_id)
next
  case nr: False
  have ne: "Sort keys child \<noteq> child" "IncrementalSort a b child \<noteq> child" for a b
    by (metis children.simps(13) children_smaller less_irrefl list.set_intros(1),
        metis children.simps(14) children_smaller less_irrefl list.set_intros(1))
  have out: "delivers rank (sort_keys_to_property_set keys) (full_sort rank keys rows)"
    if "list_all plain_key keys"
    using full_sort_sorted [of rank keys rows] plain_keys_back [OF that]
    by (simp add: delivers_def sort_keys_to_property_set_def Let_def)
  show ?thesis
  proof (cases "snd (handle_sort f keys (ps, child)) = Sort keys child")
    case True
    moreover from nr True ne have "fst (handle_sort f keys (ps, child)) = sort_keys_to_property_set keys"
      by (auto simp: handle_sort_def Let_def split: option.splits if_splits)
    ultimately show ?thesis using out ne by (simp add: run_over_def)
  next
    case False
    with nr obtain o1 m where o: "ps_ordering ps = Some o1"
      and m: "detect_prefix_match keys (ordering_to_sort_keys o1) = Some m"
      and h: "handle_sort f keys (ps, child)
        = (sort_keys_to_property_set keys, IncrementalSort (pm_prefix m) (pm_suffix m) child)"
      by (auto simp: handle_sort_def Let_def split: option.splits if_splits)
    have "sorted_by rank (pm_prefix m) rows"
      using assms o detect_prefix_match_Some(4) [OF m] by (auto simp: delivers_def intro: sorted_by_prefix)
    then have "incremental_sort rank (pm_prefix m) (pm_suffix m) rows = full_sort rank keys rows"
      using incremental_sort_full_lemma detect_prefix_match_Some(1) [OF m] by metis
    then show ?thesis using out ne by (simp add: h run_over_def)
  qed
qed

theorem handle_sort_correct_witness:
  "run_over (\<lambda>k (r :: nat \<times> nat). if sk_expr k = Column (column_new ''a'') then fst r else snd r)
     (rel_scan ''t'') [(1, 3), (1, 2), (2, 1)]
     (IncrementalSort [SortKey (Column (column_new ''a'')) Asc NullsLast]
        [SortKey (Column (column_new ''b'')) Asc NullsLast] (rel_scan ''t''))
   = Some [(1, 2), (1, 3), (2, 1)]"
proof -
  let ?rank = "\<lambda>k (r :: nat \<times> nat). if sk_expr k = Column (column_new ''a'') then fst r else snd r"
  let ?a = "SortKey (Column (column_new ''a'')) Asc NullsLast"
  let ?b = "SortKey (Column (column_new ''b'')) Asc NullsLast"
  let ?f = "\<lparr>schema_indexes = \<lambda>_. None, sort_beneficial = \<lambda>_ _. True\<rparr>"
  let ?ps = "ps_with_ordering (asc_ordering [''a''])"
  have "delivers ?rank ?ps [(1, 3), (1, 2), (2, 1)]" by code_simp
  moreover have "full_sort ?rank [?a, ?b] [(1, 3), (1, 2), (2, 1)] = [(1, 2), (1, 3), (2, 1)]" by code_simp
  moreover have "snd (handle_sort ?f [?a, ?b] (?ps, rel_scan ''t''))
      = IncrementalSort [?a] [?b] (rel_scan ''t'')" by code_simp
  ultimately show ?thesis using handle_sort_correct [of ?rank ?ps _ "rel_scan ''t''" ?f "[?a, ?b]"] by simp
qed

subsection \<open>Orderings that are claimed and do not hold\<close>

text \<open>Sort keys that are no plain columns are left out of the reported ordering, wherever they
  stand. A sort by \<open>b\<close> over a sort by \<open>f(a), b\<close> is therefore dropped, although rows in the
  second order need not be in the first.\<close>

theorem expression_key_unsound:
  "propagate_ordering
     (Sort [SortKey (Column (column_new ''b'')) Asc NullsLast]
       (Sort [SortKey (Function ''f'' [Column (column_new ''a'')]) Asc NullsLast,
              SortKey (Column (column_new ''b'')) Asc NullsLast] (rel_scan ''t'')))
     \<lparr>schema_indexes = \<lambda>_. None, sort_beneficial = \<lambda>_ _. False\<rparr>
   = Sort [SortKey (Function ''f'' [Column (column_new ''a'')]) Asc NullsLast,
           SortKey (Column (column_new ''b'')) Asc NullsLast] (rel_scan ''t'')"
  "full_sort (\<lambda>k (r :: nat \<times> nat). if sk_expr k = Column (column_new ''b'') then snd r else fst r)
     [SortKey (Column (column_new ''b'')) Asc NullsLast] [(1, 2), (2, 1)] = [(2, 1), (1, 2)]"
  "full_sort (\<lambda>k (r :: nat \<times> nat). if sk_expr k = Column (column_new ''b'') then snd r else fst r)
     [SortKey (Function ''f'' [Column (column_new ''a'')]) Asc NullsLast,
      SortKey (Column (column_new ''b'')) Asc NullsLast] [(1, 2), (2, 1)] = [(1, 2), (2, 1)]"
  by code_simp+

text \<open>The ordering that passes through a projection is compared with the columns the projection
  reads, not with the names it gives them. A projection that exchanges two names keeps the
  claim, and the sort above it is dropped.\<close>

theorem projection_alias_unsound:
  "propagate_ordering
     (Sort [SortKey (Column (column_new ''a'')) Asc NullsLast]
       (Project [ProjectionColumn (Column (column_new ''b'')) (Some ''a''),
                 ProjectionColumn (Column (column_new ''a'')) (Some ''b'')] (IndexScanRel ''t'' ''a'')))
     \<lparr>schema_indexes = \<lambda>_. None, sort_beneficial = \<lambda>_ _. False\<rparr>
   = Project [ProjectionColumn (Column (column_new ''b'')) (Some ''a''),
              ProjectionColumn (Column (column_new ''a'')) (Some ''b'')] (IndexScanRel ''t'' ''a'')"
  by code_simp

end
