(* ===== verification/Grouping_Sets.thy ===== *)
theory Grouping_Sets
  imports Algebra_Ops "HOL-Library.Multiset"
begin

text \<open>
  The normalization of grouping sets (\<^verbatim>\<open>crates/ra-engine/src/grouping_sets.rs\<close>):
  \<^verbatim>\<open>ROLLUP\<close>, \<^verbatim>\<open>CUBE\<close> and \<^verbatim>\<open>GROUPING SETS\<close> markers become a \<^verbatim>\<open>UNION ALL\<close> of
  ordinary aggregates, one for each grouping set, with \<^verbatim>\<open>NULL\<close> in place of the grouping
  columns the set leaves out. A grouping set is a list of positions in the list of the grouping
  columns, as in the source.
\<close>

subsection \<open>Markers\<close>

definition ROLLUP :: string where "ROLLUP = ''__rollup''"
definition CUBE :: string where "CUBE = ''__cube''"
definition GROUPING_SETS :: string where "GROUPING_SETS = ''__grouping_sets''"
definition GS_ITEM :: string where "GS_ITEM = ''__gs_item''"
definition MAX_GROUPING_COLS :: nat where "MAX_GROUPING_COLS = 12"

definition is_grouping_set_marker :: "expr list \<Rightarrow> bool" where
  "is_grouping_set_marker group_by = (case group_by of
     [Function name args] \<Rightarrow> name = ROLLUP \<or> name = CUBE \<or> name = GROUPING_SETS
   | _ \<Rightarrow> False)"

function tree_contains_grouping_sets :: "rel_expr \<Rightarrow> bool" where
  "tree_contains_grouping_sets r =
    ((case r of Aggregate group_by _ _ \<Rightarrow> is_grouping_set_marker group_by | _ \<Rightarrow> False)
     \<or> list_ex tree_contains_grouping_sets (children r))"
  by pat_completeness auto
termination by (relation "measure size") (auto intro: children_smaller)

declare tree_contains_grouping_sets.simps [simp del]

subsection \<open>The grouping sets of a marker\<close>

text \<open>\<^verbatim>\<open>iter().position(p)\<close>.\<close>

fun position :: "('a \<Rightarrow> bool) \<Rightarrow> 'a list \<Rightarrow> nat option" where
  "position P [] = None"
| "position P (x # xs) = (if P x then Some 0 else map_option Suc (position P xs))"

definition same_column :: "column_ref \<Rightarrow> column_ref \<Rightarrow> bool" where
  "same_column c g \<longleftrightarrow> eq_ignore_ascii_case (cr_column g) (cr_column c) \<and> cr_table g = cr_table c"

fun plain_columns :: "expr list \<Rightarrow> column_ref list option" where
  "plain_columns [] = Some []"
| "plain_columns (a # as) = (case a of
     Column c \<Rightarrow> map_option ((#) c) (plain_columns as)
   | _ \<Rightarrow> None)"

definition cube_sets :: "nat \<Rightarrow> nat list list" where
  "cube_sets n = map (\<lambda>mask. filter (\<lambda>i. bit mask i) [0..<n]) [0..<2 ^ n]"

definition rollup_sets :: "nat \<Rightarrow> nat list list" where
  "rollup_sets n = map (\<lambda>k. [0..<k]) (rev [0..<n + 1])"

text \<open>The two nested loops over \<^verbatim>\<open>GROUPING SETS\<close>: \<open>gs_item\<close> reads the columns of one set,
  adding the ones not seen before to the list of grouping columns.\<close>

fun gs_item :: "column_ref list \<Rightarrow> expr list \<Rightarrow> (column_ref list \<times> nat list) option" where
  "gs_item gcols [] = Some (gcols, [])"
| "gs_item gcols (a # as) = (case a of
     Column c \<Rightarrow>
       (let (idx, gcols') = (case position (same_column c) gcols of
            Some i \<Rightarrow> (i, gcols)
          | None \<Rightarrow> (length gcols, gcols @ [c]))
        in map_option (\<lambda>(gs, s). (gs, idx # s)) (gs_item gcols' as))
   | _ \<Rightarrow> None)"

fun gs_items :: "column_ref list \<Rightarrow> expr list \<Rightarrow> (column_ref list \<times> nat list list) option" where
  "gs_items gcols [] = Some (gcols, [])"
| "gs_items gcols (item # items) = (case item of
     Function inm iargs \<Rightarrow>
       (if inm \<noteq> GS_ITEM then None
        else (case gs_item gcols iargs of
            None \<Rightarrow> None
          | Some (gcols', s) \<Rightarrow> map_option (\<lambda>(gs, sets). (gs, s # sets)) (gs_items gcols' items)))
   | _ \<Rightarrow> None)"

definition grouping_sets_for :: "string \<Rightarrow> expr list \<Rightarrow> (column_ref list \<times> nat list list) option" where
  "grouping_sets_for name args =
    (if name = ROLLUP \<or> name = CUBE then
       (case plain_columns args of
          None \<Rightarrow> None
        | Some gcols \<Rightarrow>
            (let n = length gcols in
             if n = 0 \<or> MAX_GROUPING_COLS < n then None
             else Some (gcols, if name = CUBE then cube_sets n else rollup_sets n)))
     else if name = GROUPING_SETS then
       (case gs_items [] args of
          None \<Rightarrow> None
        | Some (gcols, sets) \<Rightarrow>
            (if gcols = [] \<or> MAX_GROUPING_COLS < length gcols then None else Some (gcols, sets)))
     else None)"

subsection \<open>The expansion\<close>

text \<open>One output column in the branch of a grouping set.\<close>

definition pad_column ::
  "column_ref list \<Rightarrow> nat list \<Rightarrow> expr projection_column \<Rightarrow> expr projection_column" where
  "pad_column gcols s pc = (case pc_expr pc of
     Column pcol \<Rightarrow>
       (case position (same_column pcol) gcols of
          Some j \<Rightarrow> (if j \<in> set s then pc else ProjectionColumn (Const NullC) (pc_alias pc))
        | None \<Rightarrow> pc)
   | _ \<Rightarrow> pc)"

definition branch ::
  "expr projection_column list \<Rightarrow> expr aggregate_expr list \<Rightarrow> rel_expr \<Rightarrow> column_ref list \<Rightarrow> nat list \<Rightarrow> rel_expr" where
  "branch columns aggregates expanded_input gcols s =
     Project (map (pad_column gcols s) columns)
       (Aggregate (map (\<lambda>i. Column (gcols ! i)) s) aggregates expanded_input)"

text \<open>\<^verbatim>\<open>expand_marker\<close>, with the expanded input of the aggregate as an argument. The sort
  by \<^verbatim>\<open>Reverse(len)\<close> is stable.\<close>

definition expand_marker ::
  "expr projection_column list \<Rightarrow> expr list \<Rightarrow> expr aggregate_expr list \<Rightarrow> rel_expr \<Rightarrow> rel_expr option" where
  "expand_marker columns group_by aggregates expanded_input = (case group_by of
     [Function name args] \<Rightarrow>
       (case grouping_sets_for name args of
          None \<Rightarrow> None
        | Some (gcols, sets) \<Rightarrow>
            (case map (branch columns aggregates expanded_input gcols)
                    (List.sort_key (\<lambda>s. - int (length s)) sets) of
               [] \<Rightarrow> None
             | b # bs \<Rightarrow> Some (foldl (UnionOp True) b bs)))
   | _ \<Rightarrow> None)"

function expand :: "rel_expr \<Rightarrow> rel_expr" where
  "expand r = (case r of
     Project columns input \<Rightarrow>
       (case (case input of
            Aggregate group_by aggregates agg_input \<Rightarrow>
              expand_marker columns group_by aggregates (expand agg_input)
          | _ \<Rightarrow> None) of
          Some rewritten \<Rightarrow> rewritten
        | None \<Rightarrow> Project columns (expand input))
   | Filter predicate input \<Rightarrow> Filter predicate (expand input)
   | Aggregate group_by aggregates input \<Rightarrow> Aggregate group_by aggregates (expand input)
   | Join join_type condition left right \<Rightarrow> Join join_type condition (expand left) (expand right)
   | Sort keys input \<Rightarrow> Sort keys (expand input)
   | Limit n k input \<Rightarrow> Limit n k (expand input)
   | Distinct input \<Rightarrow> Distinct (expand input)
   | UnionOp a left right \<Rightarrow> UnionOp a (expand left) (expand right)
   | IntersectOp a left right \<Rightarrow> IntersectOp a (expand left) (expand right)
   | ExceptOp a left right \<Rightarrow> ExceptOp a (expand left) (expand right)
   | CTE name defn body \<Rightarrow> CTE name (expand defn) (expand body)
   | Window functions input \<Rightarrow> Window functions (expand input)
   | _ \<Rightarrow> r)"
  by pat_completeness auto
termination by (relation "measure size") auto

declare expand.simps [simp del]

subsection \<open>Positions and columns\<close>

lemma position_Some:
  "position P xs = Some i \<Longrightarrow> i < length xs \<and> P (xs ! i) \<and> (\<forall>j < i. \<not> P (xs ! j))"
proof (induction xs arbitrary: i)
  case (Cons x xs)
  then show ?case by (cases i) (auto simp: nth_Cons split: if_splits nat.splits)
qed simp

lemma position_None: "position P xs = None \<longleftrightarrow> (\<forall>x \<in> set xs. \<not> P x)"
  by (induction xs) auto

lemma same_column_refl [simp]: "same_column c c"
  by (simp add: same_column_def eq_ignore_ascii_case_def)

lemma plain_columns_Some: "plain_columns as = Some cs \<longleftrightarrow> as = map Column cs"
  by (induction as arbitrary: cs) (auto split: expr.splits)

text \<open>What the two loops over \<^verbatim>\<open>GROUPING SETS\<close> give: the list of columns only grows, and
  each position points to a column that is the same as the one written there.\<close>

definition points_to :: "column_ref list \<Rightarrow> expr \<Rightarrow> nat \<Rightarrow> bool" where
  "points_to gcols a i \<longleftrightarrow> i < length gcols \<and> (\<exists>c. a = Column c \<and> same_column c (gcols ! i))"

lemma points_to_mono: "points_to g a i \<Longrightarrow> prefix g g' \<Longrightarrow> points_to g' a i"
  by (auto simp: points_to_def prefix_def nth_append)

lemma list_all2_points_to_mono:
  "list_all2 (points_to g) as s \<Longrightarrow> prefix g g' \<Longrightarrow> list_all2 (points_to g') as s"
  by (auto elim!: list_all2_mono intro: points_to_mono)

lemma gs_item_points_to:
  "gs_item g as = Some (g', s) \<Longrightarrow> prefix g g' \<and> list_all2 (points_to g') as s"
proof (induction as arbitrary: g s)
  case (Cons a as)
  then obtain c where a: "a = Column c" by (auto split: expr.splits)
  define h where "h = (case position (same_column c) g of Some i \<Rightarrow> (i, g) | None \<Rightarrow> (length g, g @ [c]))"
  obtain idx g1 where h1: "h = (idx, g1)" by fastforce
  with Cons.prems a obtain s' where rest: "gs_item g1 as = Some (g', s')" and s: "s = idx # s'"
    unfolding h_def by (auto split: prod.splits)
  have "prefix g g1" "points_to g1 a idx"
    using h1 a unfolding h_def
    by (auto simp: points_to_def dest: position_Some split: option.splits)
  with Cons.IH [OF rest] s show ?case by (auto intro: points_to_mono prefix_order.trans)
qed auto

lemma gs_items_points_to:
  "gs_items g items = Some (g', sets) \<Longrightarrow> prefix g g'
     \<and> list_all2 (\<lambda>item s. \<exists>as. item = Function GS_ITEM as \<and> list_all2 (points_to g') as s) items sets"
proof (induction items arbitrary: g sets)
  case (Cons item items)
  then obtain as g1 s ss where item: "item = Function GS_ITEM as" "gs_item g as = Some (g1, s)"
    and rest: "gs_items g1 items = Some (g', ss)" and sets: "sets = s # ss"
    by (auto split: expr.splits option.splits if_splits prod.splits)
  from gs_item_points_to [OF item(2)] Cons.IH [OF rest] item(1) sets show ?case
    by (auto intro: list_all2_points_to_mono prefix_order.trans)
qed auto

lemma list_all2_in_setD2: "list_all2 P xs ys \<Longrightarrow> y \<in> set ys \<Longrightarrow> \<exists>x \<in> set xs. P x y"
  by (induction rule: list_all2_induct) auto

lemma points_to_bound: "list_all2 (points_to g) as s \<Longrightarrow> i \<in> set s \<Longrightarrow> i < length g"
  by (auto dest!: list_all2_in_setD2 simp: points_to_def)

subsection \<open>The families of sets\<close>

lemma cube_set_inj:
  fixes m k :: nat
  assumes "m < 2 ^ n" "k < 2 ^ n" "{i. i < n \<and> bit m i} = {i. i < n \<and> bit k i}"
  shows "m = k"
proof -
  have "bit (take_bit n m) i = bit (take_bit n k) i" for i
    using assms(3) by (auto simp: bit_take_bit_iff)
  then have "take_bit n m = take_bit n k" by (simp add: bit_eq_iff)
  with assms(1,2) show ?thesis by (simp add: take_bit_nat_eq_self)
qed

lemma cube_sets_subsets:
  "distinct (map set (cube_sets n))" "set (map set (cube_sets n)) = Pow {..<n}"
proof -
  let ?f = "\<lambda>mask :: nat. {i. i < n \<and> bit mask i}"
  have eq: "map set (cube_sets n) = map ?f [0..<2 ^ n]" by (auto simp: cube_sets_def)
  have inj: "inj_on ?f {0..<2 ^ n}" by (rule inj_onI) (metis atLeastLessThan_iff cube_set_inj)
  then show "distinct (map set (cube_sets n))" by (simp add: eq distinct_map)
  have "?f ` {0..<2 ^ n} \<subseteq> Pow {..<n}" by auto
  moreover have "card (?f ` {0..<2 ^ n}) = card (Pow {..<n})" by (simp add: card_image [OF inj] card_Pow)
  ultimately have "?f ` {0..<2 ^ n} = Pow {..<n}" by (intro card_subset_eq) auto
  then show "set (map set (cube_sets n)) = Pow {..<n}" by (simp add: eq)
qed

lemma marker_names [simp]:
  "CUBE \<noteq> ROLLUP" "ROLLUP \<noteq> CUBE" "GROUPING_SETS \<noteq> CUBE" "GROUPING_SETS \<noteq> ROLLUP"
  by (simp_all add: CUBE_def ROLLUP_def GROUPING_SETS_def)

lemma grouping_sets_for_names: "grouping_sets_for name args \<noteq> None \<Longrightarrow> name \<in> {ROLLUP, CUBE, GROUPING_SETS}"
  by (auto simp: grouping_sets_for_def split: if_splits)

text \<open>Claim C34. \<^verbatim>\<open>CUBE\<close> over n columns gives every subset of the columns exactly once (so
  2^n sets, each in column order), and \<^verbatim>\<open>ROLLUP\<close> gives the n + 1 prefixes, the longest
  first, down to the empty one.\<close>

theorem cube_rollup_sets:
  assumes "gcols \<noteq> []" and "length gcols \<le> MAX_GROUPING_COLS"
  shows "(\<exists>sets. grouping_sets_for CUBE (map Column gcols) = Some (gcols, sets)
      \<and> distinct (map set sets) \<and> set (map set sets) = Pow {..<length gcols} \<and> list_all sorted sets)
    \<and> grouping_sets_for ROLLUP (map Column gcols)
      = Some (gcols, map (\<lambda>k. [0..<k]) (rev [0..<length gcols + 1]))"
proof -
  have "list_all sorted (cube_sets n)" for n
    by (auto simp: cube_sets_def list_all_iff intro: sorted_wrt_filter sorted_filter)
  moreover have "plain_columns (map Column gcols) = Some gcols" by (simp add: plain_columns_Some)
  ultimately show ?thesis
    using assms cube_sets_subsets [of "length gcols"]
    by (auto simp: grouping_sets_for_def rollup_sets_def Let_def)
qed

theorem cube_rollup_sets_witness:
  "\<exists>sets. grouping_sets_for CUBE [Column (column_new ''a''), Column (column_new ''b'')]
       = Some ([column_new ''a'', column_new ''b''], sets) \<and> set (map set sets) = Pow {..<2}"
  using cube_rollup_sets [of "[column_new ''a'', column_new ''b'']"]
  by (auto simp: MAX_GROUPING_COLS_def numeral_2_eq_2)

text \<open>The positions are in range: whatever the marker and its arguments, every
  position in every grouping set points into the list of grouping columns, which is not empty
  and has at most 12 entries; there is at least one set and a cube has at most 4096. So the
  indexing in \<^verbatim>\<open>expand_marker\<close> cannot panic and its \<^verbatim>\<open>UNION ALL\<close> has a first branch.\<close>

lemma grouping_sets_bounds:
  assumes "grouping_sets_for name args = Some (gcols, sets)"
  shows "gcols \<noteq> [] \<and> length gcols \<le> 12 \<and> (\<forall>s i. s \<in> set sets \<and> i \<in> set s \<longrightarrow> i < length gcols)
    \<and> sets \<noteq> [] \<and> length sets \<le> max 4096 (length args)"
proof (cases "name = ROLLUP \<or> name = CUBE")
  case True
  with assms have n: "gcols \<noteq> []" "length gcols \<le> 12"
    and sets: "sets = (if name = CUBE then cube_sets (length gcols) else rollup_sets (length gcols))"
    by (auto simp: grouping_sets_for_def Let_def MAX_GROUPING_COLS_def split: option.splits if_splits)
  have "(2 :: nat) ^ length gcols \<le> 2 ^ 12" using n(2) by (intro power_increasing) auto
  with n sets show ?thesis by (auto simp: cube_sets_def rollup_sets_def)
next
  case False
  with assms have n: "gcols \<noteq> []" "length gcols \<le> 12" and items: "gs_items [] args = Some (gcols, sets)"
    by (auto simp: grouping_sets_for_def MAX_GROUPING_COLS_def split: option.splits if_splits prod.splits)
  from gs_items_points_to [OF items] have all: "list_all2 (\<lambda>item s. \<exists>as. item = Function GS_ITEM as
      \<and> list_all2 (points_to gcols) as s) args sets" by simp
  then have "sets \<noteq> []" using n items by (cases args) auto
  with n all show ?thesis by (auto dest: list_all2_in_setD2 points_to_bound list_all2_lengthD)
qed

lemma grouping_sets_bounds_witness:
  "grouping_sets_for GROUPING_SETS [Function GS_ITEM [Column (column_new ''a'')], Function GS_ITEM []]
     = Some ([column_new ''a''], [[0], []]) \<and> length [column_new ''a''] \<le> 12"
proof -
  have "grouping_sets_for GROUPING_SETS [Function GS_ITEM [Column (column_new ''a'')], Function GS_ITEM []]
    = Some ([column_new ''a''], [[0], []])" by code_simp
  moreover from grouping_sets_bounds [OF this] have "length [column_new ''a''] \<le> 12" by (elim conjE)
  ultimately show ?thesis by (rule conjI)
qed

subsection \<open>The union of the branches\<close>

text \<open>The branches of a plan of \<^verbatim>\<open>UNION ALL\<close>s, in order.\<close>

function union_branches :: "rel_expr \<Rightarrow> rel_expr list" where
  "union_branches r = (case r of
     UnionOp a left right \<Rightarrow> if a then union_branches left @ union_branches right else [r]
   | _ \<Rightarrow> [r])"
  by pat_completeness auto
termination by (relation "measure size") auto

declare union_branches.simps [simp del]

lemma union_branches_union [simp]: "union_branches (UnionOp True l r) = union_branches l @ union_branches r"
  by (simp add: union_branches.simps [of "UnionOp True l r"])

lemma union_branches_Project [simp]: "union_branches (Project cs i) = [Project cs i]"
  by (simp add: union_branches.simps [of "Project cs i"])

lemma eval_union_all:
  fixes eval :: "rel_expr \<Rightarrow> 'r multiset"
  assumes "\<And>l r. eval (UnionOp True l r) = eval l + eval r"
  shows "eval (foldl (UnionOp True) b bs) = eval b + sum_list (map eval bs)"
  by (induction bs arbitrary: b) (simp_all add: assms add.assoc)

lemma sum_list_map_sort_key:
  fixes f :: "'a \<Rightarrow> 'r multiset"
  shows "sum_list (map f (List.sort_key k xs)) = sum_list (map f xs)"
proof -
  have "mset (map f (List.sort_key k xs)) = mset (map f xs)" by simp
  then show ?thesis by (metis sum_mset_sum_list)
qed

text \<open>Under any evaluation of plans that reads \<^verbatim>\<open>UNION ALL\<close> as the sum of two multisets of rows,
  the expanded marker gives the sum of its branches, and it exists whenever the marker resolves.
  What a branch computes is the subject of \<^verbatim>\<open>Grouping_Meaning\<close>.\<close>

lemma expand_marker_union:
  fixes eval :: "rel_expr \<Rightarrow> 'r multiset"
  assumes "grouping_sets_for name args = Some (gcols, sets)"
    and "\<And>l r. eval (UnionOp True l r) = eval l + eval r"
  shows "\<exists>r. expand_marker columns [Function name args] aggregates input = Some r
    \<and> eval r = (\<Sum>s \<leftarrow> sets. eval (branch columns aggregates input gcols s))"
proof -
  let ?k = "\<lambda>s :: nat list. - int (length s)" and ?branch = "branch columns aggregates input gcols"
  have "List.sort_key ?k sets \<noteq> []" using grouping_sets_bounds [OF assms(1)] by (metis set_empty set_sort)
  then obtain b bs where bs: "map ?branch (List.sort_key ?k sets) = b # bs"
    by (cases "List.sort_key ?k sets") auto
  then have "expand_marker columns [Function name args] aggregates input = Some (foldl (UnionOp True) b bs)"
    by (simp add: expand_marker_def assms(1))
  moreover have "eval (foldl (UnionOp True) b bs) = sum_list (map eval (map ?branch (List.sort_key ?k sets)))"
    unfolding bs using eval_union_all [of eval b bs] assms(2) by simp
  then have "eval (foldl (UnionOp True) b bs) = (\<Sum>s \<leftarrow> sets. eval (?branch s))"
    by (simp add: sum_list_map_sort_key comp_def)
  ultimately show ?thesis by blast
qed

text \<open>No branch reads a grouping column it does not group by: in the branch of a set,
  every output column that is a plain column and is one of the marker's grouping columns is the
  same column as one of the branch's keys; every other output expression is copied unchanged.\<close>

lemma branch_well_grouped:
  assumes "grouping_sets_for name args = Some (gcols, sets)" and "s \<in> set sets"
    and "pc' \<in> set (map (pad_column gcols s) columns)"
  shows "(\<forall>c g. pc_expr pc' = Column c \<and> g \<in> set gcols \<and> same_column c g \<longrightarrow>
      (\<exists>k. Column k \<in> set (map (\<lambda>i. Column (gcols ! i)) s) \<and> same_column c k))
    \<and> (pc' \<notin> set columns \<longrightarrow> pc_expr pc' = Const NullC)"
proof -
  obtain pc where pc: "pc \<in> set columns" "pc' = pad_column gcols s pc" using assms(3) by auto
  have "\<exists>k. Column k \<in> set (map (\<lambda>i. Column (gcols ! i)) s) \<and> same_column c k"
    if c: "pc_expr pc' = Column c" and g: "g \<in> set gcols" "same_column c g" for c g
  proof -
    have "pc_expr pc = Column c" using c pc(2)
      by (cases "pc_expr pc") (auto simp: pad_column_def split: option.splits if_splits)
    moreover from g obtain j where j: "position (same_column c) gcols = Some j"
      by (metis not_None_eq position_None)
    ultimately have "j \<in> set s" using c pc(2) by (auto simp: pad_column_def split: if_splits)
    with position_Some [OF j] show ?thesis by auto
  qed
  moreover have "pc_expr pc' = Const NullC" if "pc' \<notin> set columns"
    using that pc by (auto simp: pad_column_def split: expr.splits option.splits if_splits)
  ultimately show ?thesis by blast
qed

lemma branch_well_grouped_witness:
  "pc_expr (pad_column [column_new ''a''] [] (ProjectionColumn (Column (column_new ''A'')) None)) = Const NullC"
proof -
  let ?pc = "ProjectionColumn (Column (column_new ''A'')) None"
  have g: "grouping_sets_for ROLLUP [Column (column_new ''a'')] = Some ([column_new ''a''], [[0], []])"
    by code_simp
  have "pad_column [column_new ''a''] [] ?pc \<notin> set [?pc]" by code_simp
  with branch_well_grouped [OF g, of "[]" "pad_column [column_new ''a''] [] ?pc" "[?pc]"]
  show ?thesis by auto
qed

subsection \<open>Plans without markers\<close>

lemma expand_marker_None: "\<not> is_grouping_set_marker gs \<Longrightarrow> expand_marker cols gs ags i = None"
  using grouping_sets_for_names
  by (fastforce simp: expand_marker_def is_grouping_set_marker_def split: list.splits expr.splits option.splits)

text \<open>The normalization leaves plans without a marker alone, for every operator: it
  rebuilds exactly the plan it was given.\<close>

lemma expand_without_markers:
  assumes "\<not> tree_contains_grouping_sets r"
  shows "expand r = r"
  using assms
proof (induction r rule: children_induct)
  case (node r)
  from node.prems have no: "(case r of Aggregate gs _ _ \<Rightarrow> \<not> is_grouping_set_marker gs | _ \<Rightarrow> True)"
    and kids: "\<And>c. c \<in> set (children r) \<Longrightarrow> \<not> tree_contains_grouping_sets c"
    by (auto simp: tree_contains_grouping_sets.simps [of r] list_ex_iff split: rel_expr.splits)
  have IH: "expand c = c" if "c \<in> set (children r)" for c using node.IH kids that by blast
  show ?case
  proof (cases r)
    case (Project columns i)
    have "expand_marker columns gs ags e = None" if "i = Aggregate gs ags a" for gs ags a e
    proof -
      have "\<not> tree_contains_grouping_sets (Aggregate gs ags a)" using kids [of i] Project that by simp
      then show ?thesis
        by (simp add: tree_contains_grouping_sets.simps [of "Aggregate gs ags a"] expand_marker_None)
    qed
    with IH [of i] show ?thesis
      unfolding Project by (subst expand.simps) (auto split: rel_expr.splits)
  qed (use IH in \<open>simp_all add: expand.simps\<close>)
qed

lemma expand_without_markers_witness:
  "expand (Project [] (Aggregate [Column (column_new ''a'')] [] (rel_scan ''t'')))
     = Project [] (Aggregate [Column (column_new ''a'')] [] (rel_scan ''t''))"
  by (rule expand_without_markers)
    (simp add: tree_contains_grouping_sets.simps is_grouping_set_marker_def rel_scan_def)

end
