(* ===== verification/Join_Transform.thy ===== *)
theory Join_Transform
  imports Algebra_Ops
begin

text \<open>
  Self-join elimination and the conversion of outer joins
  (\<^verbatim>\<open>crates/ra-engine/src/join_transformations.rs\<close>). The second half gives the meaning of
  predicates in three-valued logic and of joins over lists of rows, states when the two
  rewrites keep the result, and shows by example where the code rewrites without keeping it.
  A \<^verbatim>\<open>HashSet<String>\<close> is a set of strings, computed from a list.
\<close>

subsection \<open>Schema information\<close>

record unique_constraint =
  uc_table :: string
  uc_columns :: "string list"

record schema_info =
  unique_constraints :: "unique_constraint list"

definition schema_new :: schema_info where
  "schema_new = \<lparr>unique_constraints = []\<rparr>"

definition add_unique :: "schema_info \<Rightarrow> string \<Rightarrow> string list \<Rightarrow> schema_info" where
  "add_unique s t cols =
    s\<lparr>unique_constraints := unique_constraints s @ [\<lparr>uc_table = t, uc_columns = cols\<rparr>]\<rparr>"

definition is_unique_key :: "schema_info \<Rightarrow> string \<Rightarrow> string list \<Rightarrow> bool" where
  "is_unique_key s t cols \<longleftrightarrow> list_ex (\<lambda>uc. uc_table uc = t
     \<and> length (uc_columns uc) \<le> length cols
     \<and> list_all (\<lambda>c. c \<in> set cols) (uc_columns uc)) (unique_constraints s)"

subsection \<open>Self joins\<close>

record self_join_match =
  sj_table :: string
  sj_columns :: "(string \<times> string) list"

definition scan_table_name :: "rel_expr \<Rightarrow> string option" where
  "scan_table_name r = (case r of Scan t a only \<Rightarrow> Some t | _ \<Rightarrow> None)"

function extract_equi_join_columns :: "expr \<Rightarrow> (string \<times> string) list" where
  "extract_equi_join_columns e = (case e of
     BinOp op l r \<Rightarrow>
       (if op = Eq then
          (case (l, r) of (Column lc, Column rc) \<Rightarrow> [(cr_column lc, cr_column rc)] | _ \<Rightarrow> [])
        else if op = And then extract_equi_join_columns l @ extract_equi_join_columns r
        else [])
   | _ \<Rightarrow> [])"
  by pat_completeness auto
termination by (relation "measure size") auto

declare extract_equi_join_columns.simps [simp del]

definition detect_self_join :: "rel_expr \<Rightarrow> self_join_match option" where
  "detect_self_join r = (case r of
     Join jt cond left right \<Rightarrow>
       (if jt \<noteq> Inner then None
        else (case scan_table_name left of
            None \<Rightarrow> None
          | Some lt \<Rightarrow> (case scan_table_name right of
              None \<Rightarrow> None
            | Some rt \<Rightarrow>
                (if lt \<noteq> rt then None
                 else (let cols = extract_equi_join_columns cond in
                   if cols = [] then None else Some \<lparr>sj_table = lt, sj_columns = cols\<rparr>)))))
   | _ \<Rightarrow> None)"

definition can_eliminate_self_join :: "self_join_match \<Rightarrow> schema_info \<Rightarrow> bool" where
  "can_eliminate_self_join m s \<longleftrightarrow>
     is_unique_key s (sj_table m) (map fst (sj_columns m))
     \<or> is_unique_key s (sj_table m) (map snd (sj_columns m))"

definition try_eliminate_self_join :: "rel_expr \<Rightarrow> schema_info \<Rightarrow> rel_expr option" where
  "try_eliminate_self_join r s = (case detect_self_join r of
     None \<Rightarrow> None
   | Some m \<Rightarrow>
       (if \<not> can_eliminate_self_join m s then None
        else (case r of Join jt cond left right \<Rightarrow> Some left | _ \<Rightarrow> None)))"

subsection \<open>Null-rejecting predicates\<close>

primrec has_column_ref :: "expr \<Rightarrow> bool" where
  "has_column_ref (Column _) = True"
| "has_column_ref (BinOp _ l r) = (has_column_ref l \<or> has_column_ref r)"
| "has_column_ref (UnaryOp _ e) = has_column_ref e"
| "has_column_ref (Function _ args) = list_ex id (map has_column_ref args)"
| "has_column_ref (Cast e _) = has_column_ref e"
| "has_column_ref (Case operand whens els) =
     (list_ex id (opt_list (map_option has_column_ref operand))
      \<or> list_ex (\<lambda>(c, r). c \<or> r) (map (map_prod has_column_ref has_column_ref) whens)
      \<or> list_ex id (opt_list (map_option has_column_ref els)))"
| "has_column_ref (Const _) = False"
| "has_column_ref (Array _) = False"
| "has_column_ref (ArrayIndex _ _) = False"
| "has_column_ref (PatternPrev _ _) = False"
| "has_column_ref (PatternNext _ _) = False"
| "has_column_ref (PatternFirst _ _) = False"
| "has_column_ref (PatternLast _ _) = False"
| "has_column_ref PatternClassifier = False"
| "has_column_ref PatternMatchNumber = False"
| "has_column_ref (ArraySlice _ _ _) = False"
| "has_column_ref (FieldAccess _ _) = False"
| "has_column_ref (SubQuery _ _ _) = False"
| "has_column_ref (FullTextMatch _ _ _ _) = False"
| "has_column_ref (VectorDistance _ _ _) = False"

function is_null_rejecting :: "expr \<Rightarrow> bool" where
  "is_null_rejecting e = (case e of
     BinOp op l r \<Rightarrow>
       (case op of
          Eq \<Rightarrow> has_column_ref l \<or> has_column_ref r
        | Ne \<Rightarrow> has_column_ref l \<or> has_column_ref r
        | Lt \<Rightarrow> has_column_ref l \<or> has_column_ref r
        | Le \<Rightarrow> has_column_ref l \<or> has_column_ref r
        | Gt \<Rightarrow> has_column_ref l \<or> has_column_ref r
        | Ge \<Rightarrow> has_column_ref l \<or> has_column_ref r
        | And \<Rightarrow> is_null_rejecting l \<or> is_null_rejecting r
        | Or \<Rightarrow> is_null_rejecting l \<and> is_null_rejecting r
        | _ \<Rightarrow> False)
   | UnaryOp op operand \<Rightarrow>
       (case op of IsNotNull \<Rightarrow> True | Not \<Rightarrow> has_column_ref operand | _ \<Rightarrow> False)
   | Function f args \<Rightarrow> list_ex has_column_ref args
   | _ \<Rightarrow> False)"
  by pat_completeness auto
termination by (relation "measure size") auto

declare is_null_rejecting.simps [simp del]

text \<open>The qualifiers \<^verbatim>\<open>collect_table_refs\<close> inserts into the set.\<close>

primrec collect_table_refs :: "expr \<Rightarrow> string list" where
  "collect_table_refs (Column c) = opt_list (cr_table c)"
| "collect_table_refs (BinOp _ l r) = collect_table_refs l @ collect_table_refs r"
| "collect_table_refs (UnaryOp _ e) = collect_table_refs e"
| "collect_table_refs (Function _ args) = concat (map collect_table_refs args)"
| "collect_table_refs (Cast e _) = collect_table_refs e"
| "collect_table_refs (Case operand whens els) =
     concat (opt_list (map_option collect_table_refs operand))
     @ concat (map (\<lambda>(c, r). c @ r) (map (map_prod collect_table_refs collect_table_refs) whens))
     @ concat (opt_list (map_option collect_table_refs els))"
| "collect_table_refs (Const _) = []"
| "collect_table_refs (Array _) = []"
| "collect_table_refs (ArrayIndex _ _) = []"
| "collect_table_refs (PatternPrev _ _) = []"
| "collect_table_refs (PatternNext _ _) = []"
| "collect_table_refs (PatternFirst _ _) = []"
| "collect_table_refs (PatternLast _ _) = []"
| "collect_table_refs PatternClassifier = []"
| "collect_table_refs PatternMatchNumber = []"
| "collect_table_refs (ArraySlice _ _ _) = []"
| "collect_table_refs (FieldAccess _ _) = []"
| "collect_table_refs (SubQuery _ _ _) = []"
| "collect_table_refs (FullTextMatch _ _ _ _) = []"
| "collect_table_refs (VectorDistance _ _ _) = []"

definition referenced_tables :: "expr \<Rightarrow> string set" where
  "referenced_tables e = set (collect_table_refs e)"

definition references_table :: "expr \<Rightarrow> string \<Rightarrow> bool" where
  "references_table e t \<longleftrightarrow> t \<in> referenced_tables e"

function scan_tables_list :: "rel_expr \<Rightarrow> string list" where
  "scan_tables_list r = (case r of
     Scan t a only \<Rightarrow> opt_list a @ [t]
   | _ \<Rightarrow> concat (map scan_tables_list (children r)))"
  by pat_completeness auto
termination
  by (relation "measure size")
    (auto intro: children_smaller simp: less_Suc_eq_le size_list_estimation' [where f = size, OF _ order_refl])

declare scan_tables_list.simps [simp del]

definition collect_scan_tables :: "rel_expr \<Rightarrow> string set" where
  "collect_scan_tables r = set (scan_tables_list r)"

subsection \<open>Outer joins\<close>

definition outer_to_inner_conversion ::
  "join_type \<Rightarrow> expr \<Rightarrow> string set \<Rightarrow> string set \<Rightarrow> join_type option" where
  "outer_to_inner_conversion jt p left_tables right_tables =
    (if \<not> is_null_rejecting p then None
     else (let refs_left = (\<exists>t \<in> referenced_tables p. t \<in> left_tables);
               refs_right = (\<exists>t \<in> referenced_tables p. t \<in> right_tables)
       in case jt of
          LeftOuter \<Rightarrow> if refs_right then Some Inner else None
        | RightOuter \<Rightarrow> if refs_left then Some Inner else None
        | FullOuter \<Rightarrow> if refs_left \<and> refs_right then Some Inner
            else if refs_right then Some LeftOuter
            else if refs_left then Some RightOuter else None
        | _ \<Rightarrow> None))"

definition try_convert_outer_to_inner :: "rel_expr \<Rightarrow> rel_expr option" where
  "try_convert_outer_to_inner e = (case e of
     Filter p input \<Rightarrow>
       (case input of
          Join jt cond left right \<Rightarrow>
            (if jt \<noteq> LeftOuter \<and> jt \<noteq> RightOuter \<and> jt \<noteq> FullOuter then None
             else (case outer_to_inner_conversion jt p (collect_scan_tables left) (collect_scan_tables right) of
                 None \<Rightarrow> None
               | Some jt' \<Rightarrow> Some (Filter p (Join jt' cond left right))))
        | _ \<Rightarrow> None)
   | _ \<Rightarrow> None)"

function transform_children :: "rel_expr \<Rightarrow> schema_info \<Rightarrow> rel_expr"
  and apply_join_transformations :: "rel_expr \<Rightarrow> schema_info \<Rightarrow> rel_expr" where
  "transform_children r s = (case r of
     Filter p i \<Rightarrow> Filter p (apply_join_transformations i s)
   | Project cs i \<Rightarrow> Project cs (apply_join_transformations i s)
   | Join jt cond left right \<Rightarrow>
       Join jt cond (apply_join_transformations left s) (apply_join_transformations right s)
   | Sort keys i \<Rightarrow> Sort keys (apply_join_transformations i s)
   | Limit n k i \<Rightarrow> Limit n k (apply_join_transformations i s)
   | Distinct i \<Rightarrow> Distinct (apply_join_transformations i s)
   | Aggregate gs ags i \<Rightarrow> Aggregate gs ags (apply_join_transformations i s)
   | Window fs i \<Rightarrow> Window fs (apply_join_transformations i s)
   | UnionOp a left right \<Rightarrow>
       UnionOp a (apply_join_transformations left s) (apply_join_transformations right s)
   | IntersectOp a left right \<Rightarrow>
       IntersectOp a (apply_join_transformations left s) (apply_join_transformations right s)
   | ExceptOp a left right \<Rightarrow>
       ExceptOp a (apply_join_transformations left s) (apply_join_transformations right s)
   | _ \<Rightarrow> r)"
| "apply_join_transformations r s =
    (let transformed = transform_children r s in
     case try_eliminate_self_join transformed s of
       Some simplified \<Rightarrow> simplified
     | None \<Rightarrow>
         (case try_convert_outer_to_inner transformed of
            Some converted \<Rightarrow> converted
          | None \<Rightarrow> transformed))"
  by pat_completeness auto
termination
  by (relation "measure (\<lambda>x. case x of Inl (r, s) \<Rightarrow> 2 * size r | Inr (r, s) \<Rightarrow> 2 * size r + 1)") auto

declare transform_children.simps [simp del] apply_join_transformations.simps [simp del]

subsection \<open>The meaning of predicates\<close>

text \<open>A row gives every column a value. \<open>ar\<close> is the meaning of comparison and arithmetic on
  values that are not \<^verbatim>\<open>NULL\<close>; \<open>other\<close> is the meaning of the expressions that are no
  operators.\<close>

type_synonym env = "column_ref \<Rightarrow> const_value"

definition and3 :: "const_value \<Rightarrow> const_value \<Rightarrow> const_value" where
  "and3 x y = (if x = BoolC False \<or> y = BoolC False then BoolC False
     else if x = BoolC True \<and> y = BoolC True then BoolC True else NullC)"

definition not3 :: "const_value \<Rightarrow> const_value" where
  "not3 x = (case x of BoolC b \<Rightarrow> BoolC (\<not> b) | _ \<Rightarrow> NullC)"

definition or3 :: "const_value \<Rightarrow> const_value \<Rightarrow> const_value" where
  "or3 x y = (if x = BoolC True \<or> y = BoolC True then BoolC True
     else if x = BoolC False \<and> y = BoolC False then BoolC False else NullC)"

definition eval_binop ::
  "(bin_op \<Rightarrow> const_value \<Rightarrow> const_value \<Rightarrow> const_value) \<Rightarrow> bin_op \<Rightarrow> const_value \<Rightarrow> const_value \<Rightarrow> const_value" where
  "eval_binop ar op x y =
    (if op = And then and3 x y else if op = Or then or3 x y
     else if op = IsDistinctFrom then BoolC (x \<noteq> y) else if op = IsNotDistinctFrom then BoolC (x = y)
     else if x = NullC \<or> y = NullC then NullC else ar op x y)"

definition eval_unop ::
  "(bin_op \<Rightarrow> const_value \<Rightarrow> const_value \<Rightarrow> const_value) \<Rightarrow> unary_op \<Rightarrow> const_value \<Rightarrow> const_value" where
  "eval_unop ar op x = (case op of
     Not \<Rightarrow> not3 x
   | IsNull \<Rightarrow> BoolC (x = NullC)
   | IsNotNull \<Rightarrow> BoolC (x \<noteq> NullC)
   | Neg \<Rightarrow> if x = NullC then NullC else ar Sub (IntC 0) x)"

function eval_expr ::
  "(bin_op \<Rightarrow> const_value \<Rightarrow> const_value \<Rightarrow> const_value) \<Rightarrow> (expr \<Rightarrow> env \<Rightarrow> const_value) \<Rightarrow> env \<Rightarrow> expr \<Rightarrow> const_value" where
  "eval_expr ar other env e = (case e of
     Column c \<Rightarrow> env c
   | Const k \<Rightarrow> k
   | BinOp op l r \<Rightarrow> eval_binop ar op (eval_expr ar other env l) (eval_expr ar other env r)
   | UnaryOp op x \<Rightarrow> eval_unop ar op (eval_expr ar other env x)
   | _ \<Rightarrow> other e env)"
  by pat_completeness auto
termination by (relation "measure (\<lambda>(ar, other, env, e). size e)") auto

declare eval_expr.simps [simp del]

lemma eval_expr_simps [simp]:
  "eval_expr ar other env (Column c) = env c"
  "eval_expr ar other env (Const k) = k"
  "eval_expr ar other env (BinOp op l r) = eval_binop ar op (eval_expr ar other env l) (eval_expr ar other env r)"
  "eval_expr ar other env (UnaryOp u x) = eval_unop ar u (eval_expr ar other env x)"
  by (simp_all add: eval_expr.simps)

subsection \<open>The meaning of joins\<close>

text \<open>\<open>T\<close> are the tables of the right input: a joined row takes their columns from the right
  row.\<close>

definition combine :: "string set \<Rightarrow> env \<Rightarrow> env \<Rightarrow> env" where
  "combine T l r = (\<lambda>c. if (\<exists>t \<in> T. cr_table c = Some t) then r c else l c)"

definition null_row :: env where
  "null_row = (\<lambda>c. NullC)"

definition matches :: "string set \<Rightarrow> (env \<Rightarrow> bool) \<Rightarrow> env \<Rightarrow> env list \<Rightarrow> env list" where
  "matches T cond l rs = filter cond (map (combine T l) rs)"

definition inner_rows :: "string set \<Rightarrow> (env \<Rightarrow> bool) \<Rightarrow> env list \<Rightarrow> env list \<Rightarrow> env list" where
  "inner_rows T cond ls rs = concat (map (\<lambda>l. matches T cond l rs) ls)"

definition left_rows :: "string set \<Rightarrow> (env \<Rightarrow> bool) \<Rightarrow> env list \<Rightarrow> env list \<Rightarrow> env list" where
  "left_rows T cond ls rs = concat (map (\<lambda>l. case matches T cond l rs of
       [] \<Rightarrow> [combine T l null_row] | ms \<Rightarrow> ms) ls)"

definition unmatched_right :: "string set \<Rightarrow> (env \<Rightarrow> bool) \<Rightarrow> env list \<Rightarrow> env list \<Rightarrow> env list" where
  "unmatched_right T cond ls rs =
     map (combine T null_row) (filter (\<lambda>r. list_all (\<lambda>l. \<not> cond (combine T l r)) ls) rs)"

definition join_rows :: "join_type \<Rightarrow> string set \<Rightarrow> (env \<Rightarrow> bool) \<Rightarrow> env list \<Rightarrow> env list \<Rightarrow> env list" where
  "join_rows jt T cond ls rs = (case jt of
     LeftOuter \<Rightarrow> left_rows T cond ls rs
   | RightOuter \<Rightarrow> inner_rows T cond ls rs @ unmatched_right T cond ls rs
   | FullOuter \<Rightarrow> left_rows T cond ls rs @ unmatched_right T cond ls rs
   | _ \<Rightarrow> inner_rows T cond ls rs)"

text \<open>A predicate rejects the rows in which the columns of the tables \<open>N\<close> are null.\<close>

definition rejects :: "(env \<Rightarrow> bool) \<Rightarrow> string set \<Rightarrow> bool" where
  "rejects p N \<longleftrightarrow> (\<forall>env. (\<forall>c. (\<exists>t \<in> N. cr_table c = Some t) \<longrightarrow> env c = NullC) \<longrightarrow> \<not> p env)"

lemma rejectsD:
  "rejects p N \<Longrightarrow> (\<And>c t. t \<in> N \<Longrightarrow> cr_table c = Some t \<Longrightarrow> env c = NullC) \<Longrightarrow> \<not> p env"
  by (auto simp: rejects_def)

lemma filter_left_rows:
  assumes "rejects p T"
  shows "filter p (left_rows T cond ls rs) = filter p (inner_rows T cond ls rs)"
proof -
  have "\<not> p (combine T l null_row)" for l
    by (rule rejectsD [OF assms]) (auto simp: combine_def null_row_def)
  then have "filter p (case matches T cond l rs of [] \<Rightarrow> [combine T l null_row] | ms \<Rightarrow> ms)
      = filter p (matches T cond l rs)" for l by (auto split: list.split)
  then show ?thesis by (simp add: left_rows_def inner_rows_def filter_concat comp_def)
qed

lemma filter_unmatched_right:
  assumes "rejects p N" and "N \<inter> T = {}"
  shows "filter p (unmatched_right T cond ls rs) = []"
proof -
  have "\<not> p (combine T null_row r)" for r
    by (rule rejectsD [OF assms(1)]) (use assms(2) in \<open>auto simp: combine_def null_row_def\<close>)
  then show ?thesis by (auto simp: unmatched_right_def filter_empty_conv)
qed

subsection \<open>When the conversion keeps the result\<close>

text \<open>Predicates over the columns of the tables \<open>N\<close> alone: comparisons of arithmetic
  expressions, \<^verbatim>\<open>IS NOT NULL\<close> of a column, and their conjunctions and disjunctions.\<close>

function plain_operand :: "string set \<Rightarrow> expr \<Rightarrow> bool" where
  "plain_operand N e = (case e of
     Column c \<Rightarrow> (case cr_table c of Some t \<Rightarrow> t \<in> N | None \<Rightarrow> False)
   | Const k \<Rightarrow> True
   | BinOp op l r \<Rightarrow> op \<in> {Add, Sub, Mul, Div, Mod, Concat} \<and> plain_operand N l \<and> plain_operand N r
   | UnaryOp u x \<Rightarrow> u = Neg \<and> plain_operand N x
   | _ \<Rightarrow> False)"
  by pat_completeness auto
termination by (relation "measure (\<lambda>(N, e). size e)") auto

function simple_pred :: "string set \<Rightarrow> expr \<Rightarrow> bool" where
  "simple_pred N e = (case e of
     BinOp op l r \<Rightarrow>
       (if op \<in> {And, Or} then simple_pred N l \<and> simple_pred N r
        else op \<in> {Eq, Ne, Lt, Le, Gt, Ge} \<and> plain_operand N l \<and> plain_operand N r)
   | UnaryOp u x \<Rightarrow> u = IsNotNull \<and> plain_operand N x \<and> has_column_ref x
   | _ \<Rightarrow> False)"
  by pat_completeness auto
termination by (relation "measure (\<lambda>(N, e). size e)") auto

declare plain_operand.simps [simp del] simple_pred.simps [simp del]

lemma plain_operand_simps [simp]:
  "plain_operand N (Column c) = (case cr_table c of Some t \<Rightarrow> t \<in> N | None \<Rightarrow> False)"
  "plain_operand N (Const k) = True"
  "plain_operand N (BinOp op l r)
     = (op \<in> {Add, Sub, Mul, Div, Mod, Concat} \<and> plain_operand N l \<and> plain_operand N r)"
  "plain_operand N (UnaryOp u x) = (u = Neg \<and> plain_operand N x)"
  by (simp_all add: plain_operand.simps)

lemma simple_pred_simps [simp]:
  "simple_pred N (BinOp op l r) =
     (if op \<in> {And, Or} then simple_pred N l \<and> simple_pred N r
      else op \<in> {Eq, Ne, Lt, Le, Gt, Ge} \<and> plain_operand N l \<and> plain_operand N r)"
  "simple_pred N (UnaryOp u x) = (u = IsNotNull \<and> plain_operand N x \<and> has_column_ref x)"
  by (simp_all add: simple_pred.simps)

lemma is_null_rejecting_simps [simp]:
  "is_null_rejecting (BinOp And l r) = (is_null_rejecting l \<or> is_null_rejecting r)"
  "is_null_rejecting (BinOp Or l r) = (is_null_rejecting l \<and> is_null_rejecting r)"
  "op \<in> {Eq, Ne, Lt, Le, Gt, Ge} \<Longrightarrow>
     is_null_rejecting (BinOp op l r) = (has_column_ref l \<or> has_column_ref r)"
  by (auto simp: is_null_rejecting.simps)

text \<open>The rows that pass a filter.\<close>

definition passes ::
  "(bin_op \<Rightarrow> const_value \<Rightarrow> const_value \<Rightarrow> const_value) \<Rightarrow> (expr \<Rightarrow> env \<Rightarrow> const_value) \<Rightarrow> expr \<Rightarrow> env \<Rightarrow> bool" where
  "passes ar other p env \<longleftrightarrow> eval_expr ar other env p = BoolC True"

lemma plain_operand_null:
  assumes null: "\<And>c t. t \<in> N \<Longrightarrow> cr_table c = Some t \<Longrightarrow> env c = NullC"
    and e: "plain_operand N e" "has_column_ref e"
  shows "eval_expr ar other env e = NullC"
  using e
proof (induction "size e" arbitrary: e rule: less_induct)
  case less
  show ?case
  proof (cases e)
    case (Column c)
    with less.prems(1) null show ?thesis by (auto split: option.splits)
  next
    case (BinOp op l r)
    with less.prems have "op \<in> {Add, Sub, Mul, Div, Mod, Concat}" "plain_operand N l" "plain_operand N r"
      "has_column_ref l \<or> has_column_ref r" by auto
    with less.hyps [of l] less.hyps [of r] BinOp show ?thesis by (auto simp: eval_binop_def)
  next
    case (UnaryOp u x)
    with less.prems have "u = Neg" "plain_operand N x" "has_column_ref x" by auto
    with less.hyps [of x] UnaryOp show ?thesis by (auto simp: eval_unop_def)
  qed (use less.prems in \<open>simp_all add: plain_operand.simps simple_pred.simps\<close>)
qed

lemma simple_pred_rejects:
  assumes "simple_pred N p" and "is_null_rejecting p"
  shows "rejects (passes ar other p) N"
  using assms
proof (induction "size p" arbitrary: p rule: less_induct)
  case less
  have null: "eval_expr ar other env e = NullC"
    if "plain_operand N e" "has_column_ref e" "\<forall>c. (\<exists>t \<in> N. cr_table c = Some t) \<longrightarrow> env c = NullC" for e env
    using that by (intro plain_operand_null) auto
  show ?case
  proof (cases p)
    case (BinOp op l r)
    consider (conj) "op = And" | (disj) "op = Or" | (cmp) "op \<in> {Eq, Ne, Lt, Le, Gt, Ge}"
      using less.prems(1) BinOp by (auto split: if_splits)
    then show ?thesis
    proof cases
      case conj
      with less.prems BinOp have "simple_pred N l" "simple_pred N r" "is_null_rejecting l \<or> is_null_rejecting r"
        by auto
      with less.hyps [of l] less.hyps [of r] BinOp conj show ?thesis
        by (auto simp: rejects_def passes_def eval_binop_def and3_def)
    next
      case disj
      with less.prems BinOp have "simple_pred N l" "simple_pred N r" "is_null_rejecting l" "is_null_rejecting r"
        by auto
      with less.hyps [of l] less.hyps [of r] BinOp disj show ?thesis
        by (auto simp: rejects_def passes_def eval_binop_def or3_def)
    next
      case cmp
      with less.prems BinOp have "plain_operand N l" "plain_operand N r" "has_column_ref l \<or> has_column_ref r"
        by auto
      with null [of l] null [of r] BinOp cmp show ?thesis
        by (auto simp: rejects_def passes_def eval_binop_def)
    qed
  next
    case (UnaryOp u x)
    with less.prems null [of x] show ?thesis
      by (auto simp: rejects_def passes_def eval_unop_def)
  qed (use less.prems in \<open>simp_all add: plain_operand.simps simple_pred.simps\<close>)
qed

lemma join_rows_simps [simp]:
  "join_rows LeftOuter T cond ls rs = left_rows T cond ls rs"
  "join_rows RightOuter T cond ls rs = inner_rows T cond ls rs @ unmatched_right T cond ls rs"
  "join_rows FullOuter T cond ls rs = left_rows T cond ls rs @ unmatched_right T cond ls rs"
  "join_rows Inner T cond ls rs = inner_rows T cond ls rs"
  by (simp_all add: join_rows_def)

text \<open>Claim C15. Outer joins become inner joins soundly when the filter speaks only of the
  side that may be null: if the code converts a filtered \<^verbatim>\<open>LEFT\<close> (\<^verbatim>\<open>RIGHT\<close>) join whose
  predicate is built from comparisons, \<^verbatim>\<open>IS NOT NULL\<close>, \<^verbatim>\<open>AND\<close> and \<^verbatim>\<open>OR\<close> over columns
  of the right (left) tables, and for a \<^verbatim>\<open>RIGHT\<close> join the inputs are of different tables, the
  result is the same filter over the inner join, and it returns
  the same rows in the same order, for all contents of the two inputs, every join condition and
  every meaning of the comparison operators.\<close>

theorem outer_to_inner_sound:
  assumes conv: "try_convert_outer_to_inner (Filter p (Join jt cond l r)) = Some e"
    and side: "jt = LeftOuter \<and> simple_pred (collect_scan_tables r) p
      \<or> jt = RightOuter \<and> simple_pred (collect_scan_tables l) p
        \<and> collect_scan_tables l \<inter> collect_scan_tables r = {}"
  shows "e = Filter p (Join Inner cond l r)
    \<and> filter (passes ar other p) (join_rows jt (collect_scan_tables r) on ls rs)
      = filter (passes ar other p) (join_rows Inner (collect_scan_tables r) on ls rs)"
proof -
  from conv side have "is_null_rejecting p" "e = Filter p (Join Inner cond l r)"
    by (auto simp: try_convert_outer_to_inner_def outer_to_inner_conversion_def Let_def
        split: option.splits if_splits)
  with side show ?thesis
    by (auto simp: filter_left_rows [OF simple_pred_rejects] filter_unmatched_right [OF simple_pred_rejects])
qed

theorem outer_to_inner_sound_witness:
  "filter (passes (\<lambda>_ x y. BoolC (x = y)) (\<lambda>_ _. NullC) (BinOp Eq (Column (column_qualified ''b'' ''y'')) (Const (IntC 1))))
      (join_rows LeftOuter {''b''} (\<lambda>_. True) [\<lambda>_. IntC 2] [null_row])
   = filter (passes (\<lambda>_ x y. BoolC (x = y)) (\<lambda>_ _. NullC) (BinOp Eq (Column (column_qualified ''b'' ''y'')) (Const (IntC 1))))
      (join_rows Inner {''b''} (\<lambda>_. True) [\<lambda>_. IntC 2] [null_row])"
proof -
  let ?p = "BinOp Eq (Column (column_qualified ''b'' ''y'')) (Const (IntC 1))"
  let ?j = "\<lambda>jt. Filter ?p (Join jt (Const (BoolC True)) (rel_scan ''a'') (rel_scan ''b''))"
  have T: "collect_scan_tables (rel_scan ''b'') = {''b''}" by code_simp
  have "try_convert_outer_to_inner (?j LeftOuter) = Some (?j Inner)" by code_simp
  from outer_to_inner_sound [OF this, of "\<lambda>_ x y. BoolC (x = y)" "\<lambda>_ _. NullC" "\<lambda>_. True" "[\<lambda>_. IntC 2]" "[null_row]"] T
  show ?thesis by (simp add: column_qualified_def)
qed

subsection \<open>Where it does not\<close>

text \<open>A filter on the right side of a \<^verbatim>\<open>FULL\<close> join rules out the rows without a right
  partner, so the join could become a right join; the code makes it a left join, and the right
  rows without a left partner are lost.\<close>

theorem full_join_wrong_side:
  "try_convert_outer_to_inner (Filter (BinOp Eq (Column (column_qualified ''b'' ''y'')) (Const (IntC 1)))
       (Join FullOuter (Const (BoolC True)) (rel_scan ''a'') (rel_scan ''b'')))
   = Some (Filter (BinOp Eq (Column (column_qualified ''b'' ''y'')) (Const (IntC 1)))
       (Join LeftOuter (Const (BoolC True)) (rel_scan ''a'') (rel_scan ''b'')))"
  "map (\<lambda>jt. length (filter (passes (\<lambda>_ x y. BoolC (x = y)) (\<lambda>_ _. NullC)
        (BinOp Eq (Column (column_qualified ''b'' ''y'')) (Const (IntC 1))))
      (join_rows jt (set [''b'']) (\<lambda>_. True) [] [\<lambda>_. IntC 1]))) [FullOuter, LeftOuter] = [1, 0]"
  by code_simp+

text \<open>The test for null rejection does not ask which side a conjunct is about: with a condition
  on the left table beside it, the anti-join idiom \<^verbatim>\<open>b.y IS NULL\<close> over a left join is
  converted too, and finds nothing any more.\<close>

theorem anti_join_lost:
  "try_convert_outer_to_inner (Filter (BinOp And (BinOp Eq (Column (column_qualified ''a'' ''x'')) (Const (IntC 1)))
         (UnaryOp IsNull (Column (column_qualified ''b'' ''y''))))
       (Join LeftOuter (Const (BoolC True)) (rel_scan ''a'') (rel_scan ''b'')))
   = Some (Filter (BinOp And (BinOp Eq (Column (column_qualified ''a'' ''x'')) (Const (IntC 1)))
         (UnaryOp IsNull (Column (column_qualified ''b'' ''y''))))
       (Join Inner (Const (BoolC True)) (rel_scan ''a'') (rel_scan ''b'')))"
  "map (\<lambda>jt. length (filter (passes (\<lambda>_ x y. BoolC (x = y)) (\<lambda>_ _. NullC)
        (BinOp And (BinOp Eq (Column (column_qualified ''a'' ''x'')) (Const (IntC 1)))
         (UnaryOp IsNull (Column (column_qualified ''b'' ''y'')))))
      (join_rows jt (set [''b'']) (\<lambda>_. True) [\<lambda>_. IntC 1] []))) [LeftOuter, Inner] = [1, 0]"
  by code_simp+

text \<open>\<^verbatim>\<open>NOT\<close> over any column counts as null rejecting, but \<^verbatim>\<open>NOT (b.y IS NOT NULL)\<close> is
  true for a null column.\<close>

theorem not_is_not_null_rejecting:
  "is_null_rejecting (UnaryOp Not (UnaryOp IsNotNull (Column c)))"
  "passes ar other (UnaryOp Not (UnaryOp IsNotNull (Column c))) null_row"
  by (simp_all add: is_null_rejecting.simps passes_def eval_unop_def not3_def null_row_def)

subsection \<open>Self joins that may go\<close>

text \<open>A table's row, and what the columns with qualifier \<open>a\<close> are when it is scanned as \<open>a\<close>.\<close>

definition bind :: "string \<Rightarrow> (string \<Rightarrow> const_value) \<Rightarrow> env" where
  "bind a row = (\<lambda>c. if cr_table c = Some a then row (cr_column c) else NullC)"

text \<open>A conjunction of equalities of the same column on both sides.\<close>

function same_key :: "string \<Rightarrow> string \<Rightarrow> expr \<Rightarrow> bool" where
  "same_key a b e = (case e of
     BinOp op l r \<Rightarrow>
       (if op = And then same_key a b l \<and> same_key a b r
        else op = Eq \<and> (case (l, r) of
            (Column lc, Column rc) \<Rightarrow> cr_table lc = Some a \<and> cr_table rc = Some b \<and> cr_column lc = cr_column rc
          | _ \<Rightarrow> False))
   | _ \<Rightarrow> False)"
  by pat_completeness auto
termination by (relation "measure (\<lambda>(a, b, e). size e)") auto

declare same_key.simps [simp del]

lemma same_key_And: "same_key a b (BinOp And l r) \<longleftrightarrow> same_key a b l \<and> same_key a b r"
  by (simp add: same_key.simps)

lemma same_key_cases:
  assumes "same_key a b e"
  obtains (conj) l r where "e = BinOp And l r"
    | (key) k where "e = BinOp Eq (Column \<lparr>cr_table = Some a, cr_column = k\<rparr>) (Column \<lparr>cr_table = Some b, cr_column = k\<rparr>)"
proof (cases e)
  case (BinOp op l r)
  show ?thesis
  proof (cases "op = And")
    case False
    with assms BinOp obtain lc rc where "op = Eq" "l = Column lc" "r = Column rc"
      "cr_table lc = Some a" "cr_table rc = Some b" "cr_column lc = cr_column rc"
      by (auto simp: same_key.simps [of a b "BinOp op l r"] split: expr.splits if_splits)
    with BinOp key show ?thesis by (metis (full_types) column_ref.surjective old.unit.exhaust)
  qed (use BinOp conj in simp)
qed (use assms in \<open>simp_all add: same_key.simps\<close>)

lemma extract_And: "extract_equi_join_columns (BinOp And l r) = extract_equi_join_columns l @ extract_equi_join_columns r"
  by (simp add: extract_equi_join_columns.simps [of "BinOp And l r"])

lemma extract_Eq: "extract_equi_join_columns (BinOp Eq (Column c) (Column d)) = [(cr_column c, cr_column d)]"
  by (simp add: extract_equi_join_columns.simps)

lemma passes_And: "passes ar other (BinOp And l r) env \<longleftrightarrow> passes ar other l env \<and> passes ar other r env"
  by (auto simp: passes_def eval_binop_def and3_def)

lemma same_key_passes:
  assumes eq: "\<forall>x y. ar Eq x y = BoolC (x = y)" and ab: "a \<noteq> b"
  shows "same_key a b cond \<Longrightarrow>
    passes ar other cond (combine {b} (bind a x) (bind b y))
      = (\<forall>k \<in> fst ` set (extract_equi_join_columns cond). x k = y k \<and> x k \<noteq> NullC)
    \<and> map snd (extract_equi_join_columns cond) = map fst (extract_equi_join_columns cond)"
proof (induction "size cond" arbitrary: cond rule: less_induct)
  case less
  from less.prems show ?case
  proof (cases rule: same_key_cases)
    case (conj l r)
    with less.prems less.hyps [of l] less.hyps [of r] show ?thesis
      by (simp add: same_key_And extract_And passes_And image_Un ball_Un)
  next
    case (key k)
    with eq ab show ?thesis
      by (auto simp: extract_Eq passes_def eval_binop_def combine_def bind_def)
  qed
qed

lemma is_unique_key_constraint:
  "is_unique_key s t cols \<Longrightarrow> \<exists>uc \<in> set (unique_constraints s). uc_table uc = t \<and> set (uc_columns uc) \<subseteq> set cols"
  by (auto simp: is_unique_key_def list_ex_iff list_all_iff)

lemma filter_eq_distinct: "distinct xs \<Longrightarrow> x \<in> set xs \<Longrightarrow> filter (\<lambda>y. x = y) xs = [x]"
proof (induction xs)
  case (Cons y ys)
  then show ?case by (cases "x = y") (auto simp: filter_empty_conv)
qed simp

text \<open>Claim C17. Eliminating a self join is sound when the condition equates the same columns on
  both sides and these are never null: if the data satisfy the declared unique constraints, then
  every row of the table meets itself and no other row, so the columns of the left side of the
  join, read row by row, are exactly the rows of the table, in order, which is what the plan
  that replaces the join scans.\<close>

theorem self_join_elimination_sound:
  assumes elim: "try_eliminate_self_join (Join Inner cond (Scan t (Some a) o1) (Scan t (Some b) o2)) s = Some e"
    and cond: "same_key a b cond" "a \<noteq> b"
    and eq: "\<forall>x y. ar Eq x y = BoolC (x = y)"
    and unique: "\<And>uc. uc \<in> set (unique_constraints s) \<Longrightarrow> uc_table uc = t \<Longrightarrow>
        distinct (map (\<lambda>r. map r (uc_columns uc)) rows)"
    and nonnull: "\<And>r k. r \<in> set rows \<Longrightarrow> k \<in> fst ` set (extract_equi_join_columns cond) \<Longrightarrow> r k \<noteq> NullC"
  shows "e = Scan t (Some a) o1
    \<and> map (\<lambda>env c. env (column_qualified a c))
        (inner_rows {b} (passes ar other cond) (map (bind a) rows) (map (bind b) rows)) = rows"
proof -
  let ?keys = "extract_equi_join_columns cond" and ?meet = "\<lambda>x y. combine {b} (bind a x) (bind b y)"
  note pass = same_key_passes [where ar = ar and other = other, OF eq cond(2,1)]
  have e: "e = Scan t (Some a) o1"
    and "can_eliminate_self_join \<lparr>sj_table = t, sj_columns = ?keys\<rparr> s"
    using elim by (auto simp: try_eliminate_self_join_def detect_self_join_def scan_table_name_def Let_def
        split: if_splits)
  moreover have "map snd ?keys = map fst ?keys" using pass by blast
  ultimately have "is_unique_key s t (map fst ?keys)"
    unfolding can_eliminate_self_join_def by (simp only: self_join_match.select_convs disj_absorb)
  then obtain uc where uc: "uc \<in> set (unique_constraints s)" "uc_table uc = t"
    "set (uc_columns uc) \<subseteq> fst ` set ?keys" using is_unique_key_constraint by fastforce
  from unique [OF uc(1,2)] have dist: "distinct rows" and inj: "inj_on (\<lambda>r. map r (uc_columns uc)) (set rows)"
    by (auto simp: distinct_map)
  have iff: "passes ar other cond (?meet x y) \<longleftrightarrow> x = y" if "x \<in> set rows" "y \<in> set rows" for x y
  proof
    assume "passes ar other cond (?meet x y)"
    with pass uc(3) have "map x (uc_columns uc) = map y (uc_columns uc)" by auto
    with inj that show "x = y" by (auto dest: inj_onD)
  qed (use pass that nonnull in auto)
  have "matches {b} (passes ar other cond) (bind a x) (map (bind b) rows) = [?meet x x]" if x: "x \<in> set rows" for x
  proof -
    have "filter (\<lambda>y. passes ar other cond (?meet x y)) rows = filter (\<lambda>y. x = y) rows"
      using iff x by (intro filter_cong) auto
    then show ?thesis
      using filter_eq_distinct [OF dist x] by (simp add: matches_def filter_map comp_def)
  qed
  then have "inner_rows {b} (passes ar other cond) (map (bind a) rows) (map (bind b) rows)
      = map (\<lambda>x. ?meet x x) rows"
    by (simp add: inner_rows_def comp_def cong: map_cong)
  then have "map (\<lambda>env c. env (column_qualified a c))
      (inner_rows {b} (passes ar other cond) (map (bind a) rows) (map (bind b) rows)) = rows"
    using cond(2) by (simp add: comp_def combine_def bind_def column_qualified_def)
  with e show ?thesis by simp
qed

theorem self_join_elimination_sound_witness:
  "map (\<lambda>env c. env (column_qualified ''a'' c))
     (inner_rows {''b''} (passes (\<lambda>_ x y. BoolC (x = y)) (\<lambda>_ _. NullC)
         (BinOp Eq (Column (column_qualified ''a'' ''id'')) (Column (column_qualified ''b'' ''id''))))
       (map (bind ''a'') [\<lambda>_. IntC 1, \<lambda>_. IntC 2]) (map (bind ''b'') [\<lambda>_. IntC 1, \<lambda>_. IntC 2]))
   = [\<lambda>_. IntC 1, \<lambda>_. IntC 2]"
proof -
  let ?cond = "BinOp Eq (Column (column_qualified ''a'' ''id'')) (Column (column_qualified ''b'' ''id''))"
  let ?s = "add_unique schema_new ''t'' [''id'']"
  have "try_eliminate_self_join (Join Inner ?cond (Scan ''t'' (Some ''a'') False) (Scan ''t'' (Some ''b'') False)) ?s
    = Some (Scan ''t'' (Some ''a'') False)" by code_simp
  moreover have "same_key ''a'' ''b'' ?cond" by code_simp
  ultimately show ?thesis
    by (intro self_join_elimination_sound [THEN conjunct2])
      (auto simp: add_unique_def schema_new_def)
qed

text \<open>A condition that equates different columns passes the test as well, as soon as one side
  is a key: the employees with a manager become all the employees, by dropping the join.\<close>

theorem manager_join_eliminated:
  "try_eliminate_self_join
     (Join Inner (BinOp Eq (Column (column_qualified ''e'' ''manager_id'')) (Column (column_qualified ''m'' ''id'')))
        (Scan ''emp'' (Some ''e'') False) (Scan ''emp'' (Some ''m'') False))
     (add_unique schema_new ''emp'' [''id''])
   = Some (Scan ''emp'' (Some ''e'') False)"
  "length (inner_rows (set [''m'']) (passes (\<lambda>_ x y. BoolC (x = y)) (\<lambda>_ _. NullC)
       (BinOp Eq (Column (column_qualified ''e'' ''manager_id'')) (Column (column_qualified ''m'' ''id''))))
     (map (bind ''e'') [\<lambda>c. IntC (if c = ''id'' then 1 else 2)])
     (map (bind ''m'') [\<lambda>c. IntC (if c = ''id'' then 1 else 2)])) = 0"
  by code_simp+

text \<open>And so does one with a further restriction, which is dropped with the join.\<close>

theorem self_join_filter_dropped:
  "try_eliminate_self_join
     (Join Inner (BinOp And (BinOp Eq (Column (column_qualified ''a'' ''id'')) (Column (column_qualified ''b'' ''id'')))
          (BinOp Gt (Column (column_qualified ''b'' ''x'')) (Const (IntC 5))))
        (Scan ''t'' (Some ''a'') False) (Scan ''t'' (Some ''b'') False))
     (add_unique schema_new ''t'' [''id''])
   = Some (Scan ''t'' (Some ''a'') False)"
  by code_simp

subsection \<open>The whole rewrite\<close>

definition is_join :: "rel_expr \<Rightarrow> bool" where
  "is_join r = (case r of Join jt cond left right \<Rightarrow> True | _ \<Rightarrow> False)"

lemma try_eliminate_size: "try_eliminate_self_join r s = Some e \<Longrightarrow> size e \<le> size r \<and> is_join r"
  by (auto simp: try_eliminate_self_join_def is_join_def detect_self_join_def
      split: rel_expr.splits option.splits if_splits)

lemma try_convert_size:
  assumes "try_convert_outer_to_inner r = Some e"
  shows "size e \<le> size r \<and> (\<exists>c \<in> set (children r). is_join c)"
proof -
  from assms obtain p jt cond left right where "r = Filter p (Join jt cond left right)"
    by (auto simp: try_convert_outer_to_inner_def split: rel_expr.splits)
  with assms show ?thesis
    by (auto simp: try_convert_outer_to_inner_def is_join_def split: if_splits option.splits)
qed

lemma transform_children_step:
  assumes "\<And>c. c \<in> set (children r) \<Longrightarrow> size (apply_join_transformations c s) \<le> size c"
  shows "size (transform_children r s) \<le> size r"
  using assms by (cases r) (auto simp: transform_children.simps intro!: add_mono)

lemma transform_children_id:
  assumes "\<And>c. c \<in> set (children r) \<Longrightarrow> apply_join_transformations c s = c"
  shows "transform_children r s = r"
  using assms by (cases r) (auto simp: transform_children.simps)

text \<open>The rewrite never makes a plan bigger, and a plan without joins comes back
  unchanged, for every operator and every schema.\<close>

lemma apply_join_transformations_bounded:
  "size (apply_join_transformations r s) \<le> size r
   \<and> (list_all (\<lambda>n. \<not> is_join n) (plan_nodes r) \<longrightarrow> apply_join_transformations r s = r)"
proof (induction r rule: children_induct)
  case (node r)
  let ?t = "transform_children r s"
  have size: "size ?t \<le> size r" using node by (intro transform_children_step) auto
  have "size (apply_join_transformations r s) \<le> size ?t"
    by (auto simp: apply_join_transformations.simps [of r] Let_def dest: try_eliminate_size try_convert_size
        split: option.splits)
  moreover have "apply_join_transformations r s = r" if "list_all (\<lambda>n. \<not> is_join n) (plan_nodes r)"
  proof -
    have no: "\<not> is_join r" "\<And>c. c \<in> set (children r) \<Longrightarrow> list_all (\<lambda>n. \<not> is_join n) (plan_nodes c)"
      using that by (auto simp: plan_nodes.simps [of r] list_all_iff)
    then have "?t = r" using node by (intro transform_children_id) auto
    moreover have "\<not> is_join c" if "c \<in> set (children r)" for c
      using no(2) [OF that] by (simp add: plan_nodes.simps [of c])
    ultimately show ?thesis using no(1)
      by (auto simp: apply_join_transformations.simps [of r] Let_def dest: try_eliminate_size try_convert_size
          split: option.splits)
  qed
  ultimately show ?case using size by auto
qed

lemma apply_join_transformations_bounded_witness:
  "apply_join_transformations (Distinct (rel_scan ''t'')) schema_new = Distinct (rel_scan ''t'')"
  by (rule apply_join_transformations_bounded [THEN conjunct2, rule_format])
    (simp add: plan_nodes.simps is_join_def rel_scan_def)

end
