(* ===== verification/Grouping_Meaning.thy ===== *)
theory Grouping_Meaning
  imports Grouping_Sets Join_Transform
begin

text \<open>
  What \<^verbatim>\<open>ROLLUP\<close>, \<^verbatim>\<open>CUBE\<close> and \<^verbatim>\<open>GROUPING SETS\<close> mean on rows, stated without the branches and
  positions of the code, and the proof that the expanded plan computes it.
\<close>

subsection \<open>Evaluation of grouped plans\<close>

text \<open>The rows of a plan, the value of a grouping key that is not a column, the value of an output
  expression on a group of rows, and plans of another shape are parameters.\<close>

type_synonym out_row = "(string option \<times> const_value) list"

record grouping_ops =
  go_rows :: "rel_expr \<Rightarrow> env list"
  go_key :: "expr \<Rightarrow> env \<Rightarrow> const_value"
  go_value :: "expr aggregate_expr list \<Rightarrow> expr \<Rightarrow> env list \<Rightarrow> const_value"
  go_other :: "rel_expr \<Rightarrow> out_row multiset"

definition key_value :: "grouping_ops \<Rightarrow> expr \<Rightarrow> env \<Rightarrow> const_value" where
  "key_value M k e = (case k of Column c \<Rightarrow> e c | _ \<Rightarrow> go_key M k e)"

text \<open>One group for each combination of key values; without keys all rows are one group, even when
  there are none.\<close>

definition group_rows :: "(env \<Rightarrow> const_value list) \<Rightarrow> env list \<Rightarrow> env list list" where
  "group_rows key rows = map (\<lambda>v. filter (\<lambda>e. key e = v) rows) (remdups (map key rows))"

definition groups_by :: "grouping_ops \<Rightarrow> expr list \<Rightarrow> env list \<Rightarrow> env list list" where
  "groups_by M keys rows =
    (if keys = [] then [rows] else group_rows (\<lambda>e. map (\<lambda>k. key_value M k e) keys) rows)"

definition output_value :: "grouping_ops \<Rightarrow> expr aggregate_expr list \<Rightarrow> expr \<Rightarrow> env list \<Rightarrow> const_value" where
  "output_value M aggs x grp = (case x of Const v \<Rightarrow> v | _ \<Rightarrow> go_value M aggs x grp)"

function grouped_eval :: "grouping_ops \<Rightarrow> rel_expr \<Rightarrow> out_row multiset" where
  "grouped_eval M r = (case r of
     UnionOp a left right \<Rightarrow> if a then grouped_eval M left + grouped_eval M right else go_other M r
   | Project columns input \<Rightarrow>
       (case input of
          Aggregate keys aggs i \<Rightarrow>
            image_mset (\<lambda>grp. map (\<lambda>pc. (pc_alias pc, output_value M aggs (pc_expr pc) grp)) columns)
              (mset (groups_by M keys (go_rows M i)))
        | _ \<Rightarrow> go_other M r)
   | _ \<Rightarrow> go_other M r)"
  by pat_completeness auto
termination by (relation "measure (\<lambda>(M, r). size r)") auto

declare grouped_eval.simps [simp del]

lemma grouped_eval_union: "grouped_eval M (UnionOp True l r) = grouped_eval M l + grouped_eval M r"
  by (subst grouped_eval.simps) simp

lemma grouped_eval_aggregate:
  "grouped_eval M (Project columns (Aggregate keys aggs i)) =
    image_mset (\<lambda>grp. map (\<lambda>pc. (pc_alias pc, output_value M aggs (pc_expr pc) grp)) columns)
      (mset (groups_by M keys (go_rows M i)))"
  by (subst grouped_eval.simps) simp

subsection \<open>The meaning of a marker\<close>

text \<open>Columns are the same when they have the same qualifier and, up to case, the same name.\<close>

definition column_key :: "column_ref \<Rightarrow> string option \<times> string" where
  "column_key c = (cr_table c, map to_ascii_lowercase (cr_column c))"

text \<open>The grouping sets a marker writes down.\<close>

inductive marker_sets :: "string \<Rightarrow> expr list \<Rightarrow> column_ref list list \<Rightarrow> bool" where
  rollup: "distinct (map column_key cols) \<Longrightarrow>
    marker_sets ROLLUP (map Column cols) (map (\<lambda>k. take k cols) (rev [0..<length cols + 1]))"
| cube: "distinct (map column_key cols) \<Longrightarrow> marker_sets CUBE (map Column cols) (subseqs cols)"
| listed: "marker_sets GROUPING_SETS (map (\<lambda>s. Function GS_ITEM (map Column s)) sets) sets"

text \<open>A column of some grouping set that is not in the set \<open>s\<close>.\<close>

definition left_out :: "column_ref list list \<Rightarrow> column_ref list \<Rightarrow> column_ref \<Rightarrow> bool" where
  "left_out sets s c \<longleftrightarrow> column_key c \<in> column_key ` set (concat sets) \<and> column_key c \<notin> column_key ` set s"

definition meant_value ::
  "grouping_ops \<Rightarrow> expr aggregate_expr list \<Rightarrow> column_ref list list \<Rightarrow> column_ref list \<Rightarrow> expr \<Rightarrow> env list \<Rightarrow> const_value" where
  "meant_value M aggs sets s x grp = (case x of
     Column c \<Rightarrow> if left_out sets s c then NullC else output_value M aggs x grp
   | _ \<Rightarrow> output_value M aggs x grp)"

definition grouping_result ::
  "grouping_ops \<Rightarrow> expr projection_column list \<Rightarrow> expr aggregate_expr list \<Rightarrow> rel_expr \<Rightarrow> column_ref list list \<Rightarrow>
    out_row multiset" where
  "grouping_result M columns aggs i sets =
    (\<Sum>s \<leftarrow> sets. image_mset (\<lambda>grp. map (\<lambda>pc. (pc_alias pc, meant_value M aggs sets s (pc_expr pc) grp)) columns)
       (mset (groups_by M (map Column s) (go_rows M i))))"

text \<open>Rows in which columns that are the same have one value.\<close>

definition case_blind :: "env \<Rightarrow> bool" where
  "case_blind e \<longleftrightarrow> (\<forall>c d. column_key c = column_key d \<longrightarrow> e c = e d)"

subsection \<open>Resolving a marker\<close>

lemma same_column_key: "same_column c g \<longleftrightarrow> column_key c = column_key g"
  by (auto simp: same_column_def column_key_def eq_ignore_ascii_case_def)

text \<open>The positions of a grouping set point to its columns.\<close>

definition resolves :: "column_ref list \<Rightarrow> column_ref list \<Rightarrow> nat list \<Rightarrow> bool" where
  "resolves g s js \<longleftrightarrow> list_all2 (\<lambda>c j. j < length g \<and> column_key c = column_key (g ! j)) s js"

lemma mset_upt_double:
  "mset [0..<2 * k] = mset (map (\<lambda>m. 2 * m) [0..<k]) + mset (map (\<lambda>m. 2 * m + 1) [0..<k])"
  by (induction k) simp_all

lemma cube_subseqs: "mset (map (\<lambda>m. nths xs {i. bit m i}) [0..<2 ^ length xs]) = mset (subseqs xs)"
proof (induction xs)
  case (Cons x xs)
  let ?nths = "\<lambda>m. nths (x # xs) {i. bit (m :: nat) i}"
  have step: "?nths (2 * m) = nths xs {i. bit m i}" "?nths (2 * m + 1) = x # nths xs {i. bit m i}" for m
    by (simp_all add: nths_Cons bit_0 bit_Suc)
  have "mset (map ?nths [0..<2 * 2 ^ length xs]) =
      image_mset ?nths (mset (map (\<lambda>m. 2 * m) [0..<2 ^ length xs]) + mset (map (\<lambda>m. 2 * m + 1) [0..<2 ^ length xs]))"
    by (simp only: mset_map mset_upt_double)
  also have "\<dots> = mset (map (\<lambda>m. nths xs {i. bit m i}) [0..<2 ^ length xs])
      + mset (map (\<lambda>m. x # nths xs {i. bit m i}) [0..<2 ^ length xs])"
    by (simp only: image_mset_union mset_map [symmetric] map_map comp_def step)
  also have "mset (map (\<lambda>m. x # nths xs {i. bit m i}) [0..<2 ^ length xs]) =
      image_mset ((#) x) (mset (map (\<lambda>m. nths xs {i. bit m i}) [0..<2 ^ length xs]))"
    by (simp only: mset_map [symmetric] map_map comp_def)
  finally show ?case using Cons.IH by (simp add: Let_def add.commute)
qed simp

lemma nths_positions: "nths g A = map ((!) g) (filter (\<lambda>i. i \<in> A) [0..<length g])"
proof (induction g rule: rev_induct)
  case (snoc x xs)
  have "map ((!) (xs @ [x])) (filter (\<lambda>i. i \<in> A) [0..<length xs]) = map ((!) xs) (filter (\<lambda>i. i \<in> A) [0..<length xs])"
    by (auto simp: nth_append)
  with snoc show ?case by (simp add: nths_append)
qed simp

lemma map_nth_take: "k \<le> length xs \<Longrightarrow> map ((!) xs) [0..<k] = take k xs"
  by (simp add: list_eq_iff_nth_eq)

lemma resolves_positions:
  "(\<forall>j \<in> set js. j < length g) \<Longrightarrow> resolves g (map ((!) g) js) js"
  by (simp add: resolves_def list_all2_map1 list.rel_refl_strong)

lemma gs_item_resolves:
  assumes "distinct (map column_key g)"
  shows "\<exists>g' js. gs_item g (map Column cs) = Some (g', js) \<and> distinct (map column_key g')
    \<and> column_key ` set g' = column_key ` (set g \<union> set cs)"
  using assms
proof (induction cs arbitrary: g)
  case (Cons c cs)
  show ?case
  proof (cases "position (same_column c) g")
    case None
    then have "column_key c \<notin> column_key ` set g" by (auto simp: position_None same_column_key)
    then have "distinct (map column_key (g @ [c]))" using Cons.prems by auto
    with Cons.IH [of "g @ [c]"] None show ?thesis by auto
  next
    case (Some j)
    then have "column_key c \<in> column_key ` set g" by (auto dest!: position_Some simp: same_column_key)
    then show ?thesis using Cons.IH [OF Cons.prems] Some by auto
  qed
qed simp

lemma gs_items_resolves:
  assumes "distinct (map column_key g)"
  shows "\<exists>g' isets. gs_items g (map (\<lambda>s. Function GS_ITEM (map Column s)) sets) = Some (g', isets)
    \<and> distinct (map column_key g') \<and> column_key ` set g' = column_key ` (set g \<union> set (concat sets))"
  using assms
proof (induction sets arbitrary: g)
  case (Cons s sets)
  from gs_item_resolves [OF Cons.prems, of s] obtain g1 js where g1: "gs_item g (map Column s) = Some (g1, js)"
    "distinct (map column_key g1)" "column_key ` set g1 = column_key ` (set g \<union> set s)" by auto
  with Cons.IH [OF g1(2)] show ?case by (auto simp: image_Un)
qed simp

lemma points_to_resolves: "list_all2 (points_to g) (map Column s) js \<Longrightarrow> resolves g s js"
  by (auto simp: resolves_def list_all2_map1 points_to_def same_column_key elim!: list_all2_mono)

text \<open>The code's grouping columns and positions are those of the sets that are written down, up to
  the order of the sets of a cube.\<close>

lemma marker_resolves:
  assumes "marker_sets name args sets" "concat sets \<noteq> []"
    and "card (column_key ` set (concat sets)) \<le> MAX_GROUPING_COLS"
  shows "\<exists>g isets sets'. grouping_sets_for name args = Some (g, isets) \<and> distinct (map column_key g)
    \<and> column_key ` set g = column_key ` set (concat sets)
    \<and> mset sets' = mset sets \<and> list_all2 (resolves g) sets' isets"
  using assms
proof (cases rule: marker_sets.cases)
  case (rollup cols)
  have cols: "set (concat sets) = set cols"
    using rollup(3) by (auto dest: in_set_takeD intro: exI [of _ "length cols"])
  then have "length cols \<le> MAX_GROUPING_COLS" "cols \<noteq> []"
    using assms(2,3) rollup(4) distinct_card [of "map column_key cols"] by auto
  then have g: "grouping_sets_for name args = Some (cols, rollup_sets (length cols))"
    using rollup by (simp add: grouping_sets_for_def plain_columns_Some [THEN iffD2] Let_def)
  have "resolves cols (take k cols) [0..<k]" if "k \<le> length cols" for k
    using resolves_positions [of "[0..<k]" cols] that by (simp add: map_nth_take)
  moreover from this [of "length cols"] have "resolves cols cols [0..<length cols]" by simp
  ultimately have "list_all2 (resolves cols) sets (rollup_sets (length cols))"
    by (auto simp: rollup(3) rollup_sets_def list_all2_map1 list_all2_map2 intro!: list.rel_refl_strong)
  with g rollup(4) cols show ?thesis by blast
next
  case (cube cols)
  have cols: "set (concat sets) = set cols"
    using subseqs_powset [of cols] subseqs_refl [of cols] unfolding cube(3) by auto
  then have n: "length cols \<le> MAX_GROUPING_COLS" "cols \<noteq> []"
    using assms(2,3) cube(4) distinct_card [of "map column_key cols"] by auto
  then have g: "grouping_sets_for name args = Some (cols, cube_sets (length cols))"
    using cube by (simp add: grouping_sets_for_def plain_columns_Some [THEN iffD2] Let_def)
  let ?sets = "map (\<lambda>m. nths cols {i. bit m i}) [0..<2 ^ length cols]"
  have "list_all2 (resolves cols) ?sets (cube_sets (length cols))"
    by (auto simp: cube_sets_def list_all2_map1 list_all2_map2 nths_positions
        intro!: list.rel_refl_strong resolves_positions)
  moreover have "mset ?sets = mset sets" unfolding cube(3) by (rule cube_subseqs)
  ultimately show ?thesis using g cube(4) cols by blast
next
  case listed
  from gs_items_resolves [of "[]" sets] obtain g isets where items: "gs_items [] args = Some (g, isets)"
    and g: "distinct (map column_key g)" "column_key ` set g = column_key ` set (concat sets)"
    unfolding listed(2) by auto
  have "length g \<le> MAX_GROUPING_COLS" "g \<noteq> []"
    using g assms(2,3) distinct_card [of "map column_key g"] by auto
  then have "grouping_sets_for name args = Some (g, isets)"
    using items by (simp add: listed(1) grouping_sets_for_def)
  moreover have "list_all2 (resolves g) sets isets"
    using gs_items_points_to [OF items] unfolding listed(2) list_all2_map1
    by (auto elim!: list_all2_mono intro: points_to_resolves)
  ultimately show ?thesis using g by blast
qed

subsection \<open>A branch computes its grouping set\<close>

lemma resolves_member:
  assumes "resolves g s js" "distinct (map column_key g)" "j < length g" "column_key c = column_key (g ! j)"
  shows "j \<in> set js \<longleftrightarrow> column_key c \<in> column_key ` set s"
proof -
  have all: "length js = length s" "\<And>k. k < length s \<Longrightarrow> js ! k < length g \<and> column_key (s ! k) = column_key (g ! (js ! k))"
    using assms(1) by (auto simp: resolves_def list_all2_conv_all_nth)
  have same: "column_key c = column_key (g ! i) \<longleftrightarrow> i = j" if "i < length g" for i
    using nth_eq_iff_index_eq [OF assms(2), of j i] assms(3,4) that by auto
  show ?thesis
  proof
    assume "j \<in> set js"
    then obtain k where "k < length s" "js ! k = j" using all(1) by (auto simp: in_set_conv_nth)
    then show "column_key c \<in> column_key ` set s" using all(2) [of k] assms(4) by (intro image_eqI [of _ _ "s ! k"]) simp_all
  next
    assume "column_key c \<in> column_key ` set s"
    then obtain k where "k < length s" "column_key c = column_key (s ! k)" by (auto simp: in_set_conv_nth)
    then show "j \<in> set js" using all same [of "js ! k"] by (metis nth_mem)
  qed
qed

lemma pad_column_alias: "pc_alias (pad_column g js pc) = pc_alias pc"
  by (simp add: pad_column_def split: expr.split option.split)

lemma pad_column_meant:
  assumes "resolves g s js" "distinct (map column_key g)" "column_key ` set g = column_key ` set (concat sets)"
  shows "output_value M aggs (pc_expr (pad_column g js pc)) grp = meant_value M aggs sets s (pc_expr pc) grp"
proof (cases "pc_expr pc")
  case (Column c)
  show ?thesis
  proof (cases "position (same_column c) g")
    case None
    then have "column_key c \<notin> column_key ` set g" by (auto simp: position_None same_column_key)
    then show ?thesis using Column None assms(3) by (simp add: pad_column_def meant_value_def left_out_def)
  next
    case (Some j)
    then have j: "j < length g" "column_key c = column_key (g ! j)" by (auto dest!: position_Some simp: same_column_key)
    then have "column_key c \<in> column_key ` set (concat sets)" unfolding assms(3) [symmetric] by simp
    then show ?thesis using Column Some resolves_member [OF assms(1,2) j]
      by (simp add: pad_column_def meant_value_def left_out_def output_value_def)
  qed
qed (simp_all add: pad_column_def meant_value_def)

lemma groups_by_resolved:
  assumes "resolves g s js" "\<forall>e \<in> set rows. case_blind e"
  shows "groups_by M (map (\<lambda>j. Column (g ! j)) js) rows = groups_by M (map Column s) rows"
proof -
  let ?f = "\<lambda>e. map (\<lambda>j. e (g ! j)) js" and ?h = "\<lambda>e. map e s"
  have eq: "?f e = ?h e" if "e \<in> set rows" for e
    using assms that by (auto simp: resolves_def case_blind_def list_all2_conv_all_nth list_eq_iff_nth_eq)
  then have keys: "map ?f rows = map ?h rows" and groups: "filter (\<lambda>e. ?f e = v) rows = filter (\<lambda>e. ?h e = v) rows" for v
    by (simp, auto intro: filter_cong)
  have "group_rows ?f rows = group_rows ?h rows" unfolding group_rows_def keys groups ..
  moreover have "js = [] \<longleftrightarrow> s = []" using assms(1) by (auto simp: resolves_def)
  ultimately show ?thesis by (simp add: groups_by_def key_value_def comp_def)
qed

lemma branch_meant:
  assumes "resolves g s js" "distinct (map column_key g)" "column_key ` set g = column_key ` set (concat sets)"
    and "\<forall>e \<in> set (go_rows M i). case_blind e"
  shows "grouped_eval M (branch columns aggs i g js) =
    image_mset (\<lambda>grp. map (\<lambda>pc. (pc_alias pc, meant_value M aggs sets s (pc_expr pc) grp)) columns)
      (mset (groups_by M (map Column s) (go_rows M i)))"
  unfolding branch_def grouped_eval_aggregate groups_by_resolved [OF assms(1,4)]
  by (simp add: comp_def pad_column_alias pad_column_meant [OF assms(1-3)])

text \<open>The number of grouping keys of a branch.\<close>

definition key_count :: "rel_expr \<Rightarrow> int" where
  "key_count b = (case b of Project columns input \<Rightarrow>
     (case input of Aggregate keys aggs i \<Rightarrow> int (length keys) | _ \<Rightarrow> 0) | _ \<Rightarrow> 0)"

lemma key_count_branch [simp]: "key_count (branch columns aggs i g js) = int (length js)"
  by (simp add: key_count_def branch_def)

lemma union_branches_foldl:
  "union_branches (foldl (UnionOp True) b bs) = union_branches b @ concat (map union_branches bs)"
  by (induction bs arbitrary: b) simp_all

lemma expand_marker_branches:
  assumes "grouping_sets_for name args = Some (g, isets)"
    and "expand_marker columns [Function name args] aggs i = Some r"
  shows "union_branches r = map (branch columns aggs i g) (List.sort_key (\<lambda>s. - int (length s)) isets)"
proof -
  let ?bs = "map (branch columns aggs i g) (List.sort_key (\<lambda>s. - int (length s)) isets)"
  have single: "union_branches (branch columns aggs i g js) = [branch columns aggs i g js]" for js
    by (simp add: branch_def)
  obtain b bs where bs: "?bs = b # bs" "r = foldl (UnionOp True) b bs"
    using assms by (auto simp: expand_marker_def split: list.splits)
  have "concat (map union_branches ?bs) = ?bs" by (simp add: comp_def single concat_map_singleton)
  then show ?thesis unfolding bs(2) union_branches_foldl bs(1) by simp
qed

text \<open>Claim C8. Expanding a query with a \<^verbatim>\<open>ROLLUP\<close>, \<^verbatim>\<open>CUBE\<close> or \<^verbatim>\<open>GROUPING SETS\<close> marker computes
  what the marker means: for every grouping set written down (the prefixes of the columns, all
  their subsets, or the listed sets, each as often as it is written) the rows are grouped by the
  columns of the set, and a group gives one output row, with the aliases of the query, in which a
  plain column of another set is \<^verbatim>\<open>NULL\<close> and every other expression has its value on the
  group. The branches come with the most keys first. The marker has at least one column and at
  most 12 different ones, those of \<^verbatim>\<open>ROLLUP\<close> and \<^verbatim>\<open>CUBE\<close> are pairwise different, and in the
  input's rows the spelling of a column name does not matter.\<close>

theorem expand_grouping_sets:
  assumes "marker_sets name args sets" "concat sets \<noteq> []"
    and "card (column_key ` set (concat sets)) \<le> MAX_GROUPING_COLS"
    and "\<forall>e \<in> set (go_rows M (expand i)). case_blind e"
  shows "grouped_eval M (expand (Project columns (Aggregate [Function name args] aggs i)))
      = grouping_result M columns aggs (expand i) sets
    \<and> sorted (map (\<lambda>b. - key_count b)
        (union_branches (expand (Project columns (Aggregate [Function name args] aggs i)))))"
proof -
  obtain g isets sets' where g: "grouping_sets_for name args = Some (g, isets)" "distinct (map column_key g)"
    "column_key ` set g = column_key ` set (concat sets)"
    and sets': "mset sets' = mset sets" "list_all2 (resolves g) sets' isets"
    using marker_resolves [OF assms(1-3)] by blast
  let ?meant = "\<lambda>s. image_mset (\<lambda>grp. map (\<lambda>pc. (pc_alias pc, meant_value M aggs sets s (pc_expr pc) grp)) columns)
      (mset (groups_by M (map Column s) (go_rows M (expand i))))"
  obtain r where r: "expand_marker columns [Function name args] aggs (expand i) = Some r"
    and sum: "grouped_eval M r = (\<Sum>js \<leftarrow> isets. grouped_eval M (branch columns aggs (expand i) g js))"
    using expand_marker_union [OF g(1), of "grouped_eval M"] grouped_eval_union by blast
  have expanded: "expand (Project columns (Aggregate [Function name args] aggs i)) = r"
    by (subst expand.simps) (simp add: r)
  have "map (\<lambda>js. grouped_eval M (branch columns aggs (expand i) g js)) isets = map ?meant sets'"
  proof (rule nth_equalityI)
    fix k assume "k < length (map (\<lambda>js. grouped_eval M (branch columns aggs (expand i) g js)) isets)"
    then have k: "k < length isets" "k < length sets'" "resolves g (sets' ! k) (isets ! k)"
      using sets'(2) by (simp_all add: list_all2_conv_all_nth)
    show "map (\<lambda>js. grouped_eval M (branch columns aggs (expand i) g js)) isets ! k = map ?meant sets' ! k"
      unfolding nth_map [OF k(1)] nth_map [OF k(2)] by (rule branch_meant [OF k(3) g(2,3) assms(4)])
  qed (use sets'(2) in \<open>simp add: list_all2_lengthD\<close>)
  then have "grouped_eval M r = sum_list (map ?meant sets')" by (simp add: sum)
  also have "\<dots> = sum_list (map ?meant sets)"
    by (simp only: sum_mset_sum_list [symmetric] mset_map sets'(1))
  finally have "grouped_eval M r = grouping_result M columns aggs (expand i) sets" by (simp add: grouping_result_def)
  moreover have "sorted (map (\<lambda>b. - key_count b) (union_branches r))"
    unfolding expand_marker_branches [OF g(1) r] by (simp add: comp_def)
  ultimately show ?thesis by (simp add: expanded)
qed

text \<open>Rows with a column \<open>a\<close>; the output is \<open>a\<close> and the number of rows of the group.\<close>

definition a_row :: "i64 \<Rightarrow> env" where
  "a_row v c = (if column_key c = column_key (column_new ''a'') then IntC v else NullC)"

definition example_ops :: grouping_ops where
  "example_ops = \<lparr>go_rows = (\<lambda>_. [a_row 1, a_row 2, a_row 1]), go_key = (\<lambda>_ _. NullC),
     go_value = (\<lambda>_ x grp. case x of Column c \<Rightarrow> (hd grp) c | _ \<Rightarrow> IntC (of_nat (length grp))),
     go_other = (\<lambda>_. {#})\<rparr>"

theorem expand_grouping_sets_witness:
  "grouped_eval example_ops (expand (Project
      [ProjectionColumn (Column (column_new ''A'')) None, ProjectionColumn (Function ''count'' []) (Some ''n'')]
      (Aggregate [Function ROLLUP [Column (column_new ''a'')]] [] (rel_scan ''t'')))) =
    {#[(None, IntC 1), (Some ''n'', IntC 2)], [(None, IntC 2), (Some ''n'', IntC 1)], [(None, NullC), (Some ''n'', IntC 3)]#}"
proof -
  let ?a = "column_new ''a''"
  have sets: "marker_sets ROLLUP [Column ?a] [[?a], []]" using marker_sets.rollup [of "[?a]"] by simp
  have blind: "\<forall>e \<in> set (go_rows example_ops (expand (rel_scan ''t''))). case_blind e"
    by (auto simp: example_ops_def case_blind_def a_row_def)
  have same: "column_key (column_new ''A'') = column_key ?a" by code_simp
  have diff: "(1 :: i64) \<noteq> 2" by simp
  note result = expand_grouping_sets [OF sets _ _ blind, THEN conjunct1]
  show ?thesis
    by (subst result)
      (simp_all add: MAX_GROUPING_COLS_def grouping_result_def groups_by_def group_rows_def key_value_def
        meant_value_def left_out_def output_value_def example_ops_def a_row_def same)
qed

subsection \<open>Where the expansion falls short\<close>

text \<open>A column that a cube names twice: in the set of the second occurrence alone, the output column
  is replaced by \<^verbatim>\<open>NULL\<close>, because the first occurrence is looked for.\<close>

lemma cube_repeated_column:
  "grouping_sets_for CUBE [Column (column_new ''a''), Column (column_new ''a'')] =
    Some ([column_new ''a'', column_new ''a''], [[], [0], [1], [0, 1]])"
  "pc_expr (pad_column [column_new ''a'', column_new ''a''] [1] (ProjectionColumn (Column (column_new ''a'')) None)) = Const NullC"
  by code_simp+

text \<open>An expression over a column that is left out is copied to a branch that does not group by it.\<close>

lemma expression_not_padded:
  "pad_column [column_new ''a''] [] (ProjectionColumn (Function ''upper'' [Column (column_new ''a'')]) None) =
    ProjectionColumn (Function ''upper'' [Column (column_new ''a'')]) None"
  by code_simp

end
