(* ===== verification/Recursive_Cte.thy ===== *)
theory Recursive_Cte
  imports Algebra_Ops
begin

text \<open>
  The executor of recursive common table expressions
  (\<^verbatim>\<open>crates/ra-engine/src/recursive.rs\<close>): rows, errors, the execution context and the
  fixpoint iteration. The \<^verbatim>\<open>ExprEvaluator\<close> trait is the parameter \<open>eval\<close> of
  \<open>execute_fixpoint\<close>. Rows are compared as the source compares them: a float \<^verbatim>\<open>NaN\<close> is
  not equal to itself. A hash set of rows is the list of the rows inserted; zeros of different
  sign, which are equal but hash differently, are kept apart.
\<close>

subsection \<open>Rows and results\<close>

record row =
  row_values :: "const_value list"

definition row_new :: "const_value list \<Rightarrow> row" where
  "row_new vs = \<lparr>row_values = vs\<rparr>"

definition width :: "row \<Rightarrow> nat" where
  "width r = length (row_values r)"

definition is_nan :: "64 word \<Rightarrow> bool" where
  "is_nan b \<longleftrightarrow> 0x7FF0000000000000 < b AND 0x7FFFFFFFFFFFFFFF"

definition const_eq :: "const_value \<Rightarrow> const_value \<Rightarrow> bool" where
  "const_eq c d \<longleftrightarrow> c = d \<and> (case c of FloatC b \<Rightarrow> \<not> is_nan b | _ \<Rightarrow> True)"

definition row_eq :: "row \<Rightarrow> row \<Rightarrow> bool" where
  "row_eq r s \<longleftrightarrow> list_all2 const_eq (row_values r) (row_values s)"

datatype execution_error = EvalError string | SchemaMismatch nat nat | UnboundCTE string

datatype termination_reason = Fixpoint | MaxIterations | CycleDetected

definition show_termination_reason :: "termination_reason \<Rightarrow> string" where
  "show_termination_reason t = (case t of
     Fixpoint \<Rightarrow> ''fixpoint'' | MaxIterations \<Rightarrow> ''max iterations'' | CycleDetected \<Rightarrow> ''cycle detected'')"

record recursion_result =
  rr_rows :: "row list"
  rr_iterations :: u32
  rr_terminated_by :: termination_reason

subsection \<open>Context and configuration\<close>

type_synonym execution_context = "string \<rightharpoonup> row list"

definition ctx_new :: execution_context where
  "ctx_new = Map.empty"

definition bind_cte :: "execution_context \<Rightarrow> string \<Rightarrow> row list \<Rightarrow> execution_context" where
  "bind_cte ctx name rows = ctx(name \<mapsto> rows)"

definition get_cte :: "execution_context \<Rightarrow> string \<Rightarrow> row list option" where
  "get_cte ctx name = ctx name"

definition has_cte :: "execution_context \<Rightarrow> string \<Rightarrow> bool" where
  "has_cte ctx name \<longleftrightarrow> ctx name \<noteq> None"

type_synonym expr_evaluator = "rel_expr \<Rightarrow> execution_context \<Rightarrow> execution_error + row list"

record recursive_cte_config =
  max_iterations :: u32
  detect_cycles :: bool

definition default_config :: recursive_cte_config where
  "default_config = \<lparr>max_iterations = 100, detect_cycles = True\<rparr>"

record recursive_cte_executor =
  exec_config :: recursive_cte_config

definition executor_new :: recursive_cte_executor where
  "executor_new = \<lparr>exec_config = default_config\<rparr>"

definition with_config :: "recursive_cte_config \<Rightarrow> recursive_cte_executor" where
  "with_config c = \<lparr>exec_config = c\<rparr>"

definition set_max_iterations :: "recursive_cte_executor \<Rightarrow> u32 \<Rightarrow> recursive_cte_executor" where
  "set_max_iterations e m = e\<lparr>exec_config := (exec_config e)\<lparr>max_iterations := m\<rparr>\<rparr>"

definition set_cycle_detection :: "recursive_cte_executor \<Rightarrow> bool \<Rightarrow> recursive_cte_executor" where
  "set_cycle_detection e b = e\<lparr>exec_config := (exec_config e)\<lparr>detect_cycles := b\<rparr>\<rparr>"

subsection \<open>The iteration\<close>

definition seen_contains :: "row list \<Rightarrow> row \<Rightarrow> bool" where
  "seen_contains seen r \<longleftrightarrow> list_ex (\<lambda>s. row_eq s r) seen"

text \<open>\<^verbatim>\<open>filter(|row| set.insert(row.clone()))\<close>: the rows that are new, and the set after.\<close>

fun insert_new :: "row list \<Rightarrow> row list \<Rightarrow> row list \<times> row list" where
  "insert_new seen [] = ([], seen)"
| "insert_new seen (r # rs) =
    (if seen_contains seen r then insert_new seen rs
     else (let (new, seen') = insert_new (r # seen) rs in (r # new, seen')))"

definition new_tuples :: "row list option \<Rightarrow> row list \<Rightarrow> row list \<times> row list option" where
  "new_tuples seen delta = (case seen of
     Some s \<Rightarrow> (let (new, s') = insert_new s delta in (new, Some s'))
   | None \<Rightarrow> (delta, None))"

definition first_width :: "row list \<Rightarrow> nat" where
  "first_width rows = (case rows of [] \<Rightarrow> 0 | r # _ \<Rightarrow> width r)"

definition schema_error :: "nat \<Rightarrow> row list \<Rightarrow> execution_error option" where
  "schema_error base_width delta =
    (if 0 < base_width then
       (case delta of
          [] \<Rightarrow> None
        | first # _ \<Rightarrow> if width first \<noteq> base_width then Some (SchemaMismatch base_width (width first)) else None)
     else None)"

function fixpoint_loop ::
  "u32 \<Rightarrow> expr_evaluator \<Rightarrow> rel_expr \<Rightarrow> string \<Rightarrow> nat \<Rightarrow> nat \<Rightarrow> row list \<Rightarrow> row list \<Rightarrow> row list option
   \<Rightarrow> execution_error + recursion_result" where
  "fixpoint_loop lim eval recursive_case cte_name base_width iteration working result seen =
    (if iteration < unat lim then
       (if working = [] then
          Inr \<lparr>rr_rows = result, rr_iterations = of_nat iteration, rr_terminated_by = Fixpoint\<rparr>
        else
          (case eval recursive_case (bind_cte ctx_new cte_name working) of
             Inl e \<Rightarrow> Inl e
           | Inr delta \<Rightarrow>
               (case schema_error base_width delta of
                  Some e \<Rightarrow> Inl e
                | None \<Rightarrow>
                    (let (new, seen') = new_tuples seen delta in
                     if new = [] then
                       Inr \<lparr>rr_rows = result, rr_iterations = of_nat iteration + 1, rr_terminated_by = Fixpoint\<rparr>
                     else fixpoint_loop lim eval recursive_case cte_name base_width (iteration + 1)
                            new (result @ new) seen'))))
     else Inr \<lparr>rr_rows = result, rr_iterations = lim, rr_terminated_by = MaxIterations\<rparr>)"
  by pat_completeness auto
termination by (relation "measure (\<lambda>(lim, _, _, _, _, iteration, _). unat lim - iteration)") auto

declare fixpoint_loop.simps [simp del]

definition execute_fixpoint ::
  "recursive_cte_executor \<Rightarrow> rel_expr \<Rightarrow> rel_expr \<Rightarrow> string \<Rightarrow> expr_evaluator \<Rightarrow> execution_error + recursion_result" where
  "execute_fixpoint self base_case recursive_case cte_name eval =
    (case eval base_case ctx_new of
       Inl e \<Rightarrow> Inl e
     | Inr working \<Rightarrow>
         fixpoint_loop (max_iterations (exec_config self)) eval recursive_case cte_name
           (first_width working) 0 working working
           (if detect_cycles (exec_config self) then Some (snd (insert_new [] working)) else None))"

subsection \<open>The set of rows seen\<close>

definition plain_row :: "row \<Rightarrow> bool" where
  "plain_row r \<longleftrightarrow> row_eq r r"

lemma row_eq_iff: "row_eq r s \<longleftrightarrow> r = s \<and> plain_row r"
proof -
  have "list_all2 const_eq xs ys \<longleftrightarrow> xs = ys \<and> list_all2 const_eq xs xs" for xs ys
    by (induction xs ys rule: list_induct2') (auto simp: const_eq_def)
  from this [of "row_values r" "row_values s"] show ?thesis
    unfolding row_eq_def plain_row_def by (metis (full_types) row.equality old.unit.exhaust)
qed

lemma seen_contains_iff: "seen_contains seen r \<longleftrightarrow> r \<in> set seen \<and> plain_row r"
  by (auto simp: seen_contains_def list_ex_iff row_eq_iff)

text \<open>New rows are exactly the rows of the step that were not seen, and come without
  repetitions, as far as rows are equal to themselves.\<close>

lemma insert_new_rows:
  "insert_new seen delta = (new, seen') \<Longrightarrow>
     set seen' = set seen \<union> set delta \<and> set new \<subseteq> set delta \<and> set delta \<subseteq> set seen \<union> set new"
proof (induction seen delta arbitrary: new rule: insert_new.induct)
  case (2 seen r rs)
  then show ?case
    by (cases "seen_contains seen r") (fastforce simp: seen_contains_iff split: prod.splits)+
qed simp

lemma insert_new_fresh:
  "insert_new seen delta = (new, seen') \<Longrightarrow>
     (\<forall>r \<in> set new. plain_row r \<longrightarrow> r \<notin> set seen) \<and> distinct (filter plain_row new)"
proof (induction seen delta arbitrary: new rule: insert_new.induct)
  case (2 seen r rs)
  show ?case
  proof (cases "seen_contains seen r")
    case False
    with "2.prems" obtain new' where "insert_new (r # seen) rs = (new', seen')" "new = r # new'"
      by (auto split: prod.splits)
    with "2.IH"(2) [OF False] False show ?thesis by (auto simp: seen_contains_iff)
  qed (use 2 in simp)
qed simp

lemma insert_new_spec:
  assumes "insert_new seen delta = (new, seen')"
  shows "set seen' = set seen \<union> set delta" "set new \<subseteq> set delta"
    "set delta \<subseteq> set seen \<union> set new"
    "r \<in> set new \<Longrightarrow> plain_row r \<Longrightarrow> r \<notin> set seen" "distinct (filter plain_row new)"
  using insert_new_rows [OF assms] insert_new_fresh [OF assms] by auto

lemma new_tuples_Some:
  "new_tuples (Some s) delta = (new, seen') \<Longrightarrow> \<exists>s'. seen' = Some s' \<and> insert_new s delta = (new, s')"
  by (auto simp: new_tuples_def split: prod.splits)

lemma schema_error_Some:
  "schema_error bw delta = Some e \<Longrightarrow>
     \<exists>first. delta \<noteq> [] \<and> first = hd delta \<and> e = SchemaMismatch bw (width first) \<and> 0 < bw \<and> width first \<noteq> bw"
  by (auto simp: schema_error_def split: list.splits if_splits)

subsection \<open>What every run gives\<close>

text \<open>What the loop adds to the rows it starts with.\<close>

definition adds :: "row list option \<Rightarrow> row list \<Rightarrow> bool" where
  "adds seen extra \<longleftrightarrow> (\<forall>s. seen = Some s \<longrightarrow>
     distinct (filter plain_row extra) \<and> set (filter plain_row extra) \<inter> set s = {})"

lemma adds_Nil [simp]: "adds seen []"
  by (simp add: adds_def)

lemma adds_append:
  assumes "new_tuples seen delta = (new, seen')" and "adds seen' extra"
  shows "adds seen (new @ extra)"
proof (cases seen)
  case (Some s)
  from new_tuples_Some [OF assms(1) [unfolded Some]] obtain s' where s': "seen' = Some s'"
    and new: "insert_new s delta = (new, s')" by blast
  from assms(2) insert_new_spec [OF new] show ?thesis by (auto simp: adds_def s' Some)
qed (simp add: adds_def)

lemma iteration_u32: "i \<le> unat (m :: u32) \<Longrightarrow> unat (of_nat i :: u32) = i"
  by (rule le_unat_uoi)

lemma fixpoint_loop_result:
  assumes "fixpoint_loop lim eval rc n bw i working result seen = Inr r" and "i \<le> unat lim"
  shows "unat (rr_iterations r) \<le> unat lim \<and> rr_terminated_by r \<noteq> CycleDetected
    \<and> (rr_terminated_by r = MaxIterations \<longrightarrow> rr_iterations r = lim)
    \<and> (\<exists>extra. rr_rows r = result @ extra \<and> adds seen extra)"
  using assms
proof (induction lim eval rc n bw i working result seen rule: fixpoint_loop.induct)
  case (1 lim eval rc n bw i working result seen)
  note unfold = fixpoint_loop.simps [of lim eval rc n bw i working result seen]
  consider (limit) "unat lim \<le> i" | (empty) "i < unat lim" "working = []"
    | (step) "i < unat lim" "working \<noteq> []" by linarith
  then show ?case
  proof cases
    case limit
    with "1.prems"(1) [unfolded unfold] show ?thesis by auto
  next
    case empty
    with "1.prems"(1) [unfolded unfold] iteration_u32 [of i lim] show ?thesis by auto
  next
    case step
    with "1.prems"(1) obtain delta where d: "eval rc (bind_cte ctx_new n working) = Inr delta"
      "schema_error bw delta = None" by (auto simp: unfold split: sum.splits option.splits)
    obtain new seen' where nt: "new_tuples seen delta = (new, seen')" by fastforce
    show ?thesis
    proof (cases "new = []")
      case True
      with "1.prems"(1) step d nt have "r = \<lparr>rr_rows = result, rr_iterations = of_nat (Suc i),
          rr_terminated_by = Fixpoint\<rparr>" by (simp add: unfold add.commute)
      with step(1) iteration_u32 [of "Suc i" lim] show ?thesis by simp
    next
      case False
      with "1.prems"(1) step d nt
      have "fixpoint_loop lim eval rc n bw (i + 1) new (result @ new) seen' = Inr r" by (simp add: unfold)
      from "1.IH" [OF step d(1) d(2) nt [symmetric] refl False this] step(1) adds_append [OF nt]
      show ?thesis by auto
    qed
  qed
qed

text \<open>Every run that succeeds: the iteration count stays within the configured
  maximum, and equals it when the maximum stopped the run; the result is the rows of the base
  case followed by the rows added; and with cycle detection no added row repeats another one or
  a row of the base case (rows with a \<^verbatim>\<open>NaN\<close> excepted, which are not equal to themselves).
  \<^verbatim>\<open>CycleDetected\<close> is never reported.\<close>

lemma execute_fixpoint_result:
  assumes "execute_fixpoint self base_case recursive_case cte_name eval = Inr r"
  shows "unat (rr_iterations r) \<le> unat (max_iterations (exec_config self))
    \<and> rr_terminated_by r \<noteq> CycleDetected
    \<and> (rr_terminated_by r = MaxIterations \<longrightarrow> rr_iterations r = max_iterations (exec_config self))
    \<and> (\<exists>base extra. eval base_case ctx_new = Inr base \<and> rr_rows r = base @ extra
        \<and> (detect_cycles (exec_config self) \<longrightarrow> distinct (filter plain_row extra)
            \<and> set (filter plain_row extra) \<inter> set base = {}))"
proof -
  from assms obtain base where base: "eval base_case ctx_new = Inr base"
    by (auto simp: execute_fixpoint_def split: sum.splits)
  let ?seen = "if detect_cycles (exec_config self) then Some (snd (insert_new [] base)) else None"
  from assms base
  have "fixpoint_loop (max_iterations (exec_config self)) eval recursive_case cte_name (first_width base) 0
      base base ?seen = Inr r"
    by (simp add: execute_fixpoint_def)
  from fixpoint_loop_result [OF this] obtain extra where
    "unat (rr_iterations r) \<le> unat (max_iterations (exec_config self))" "rr_terminated_by r \<noteq> CycleDetected"
    "rr_terminated_by r = MaxIterations \<longrightarrow> rr_iterations r = max_iterations (exec_config self)"
    "rr_rows r = base @ extra" "adds ?seen extra" by auto
  with base insert_new_spec(1) [OF prod.collapse [symmetric], of "[]" base] show ?thesis
    by (auto simp: adds_def)
qed

lemma execute_fixpoint_result_witness:
  "\<exists>r. execute_fixpoint (set_max_iterations executor_new 3) (rel_scan ''b'') (rel_scan ''t'') ''t''
         (\<lambda>e ctx. if e = rel_scan ''b'' then Inr [row_new [IntC 1]] else Inr [row_new [IntC 1], row_new [IntC 2]])
       = Inr r \<and> unat (rr_iterations r) \<le> 3"
proof -
  let ?x = "set_max_iterations executor_new 3"
  let ?eval = "\<lambda>e ctx. if e = rel_scan ''b'' then Inr [row_new [IntC 1]] else Inr [row_new [IntC 1], row_new [IntC 2]]"
  let ?r = "\<lparr>rr_rows = [row_new [IntC 1], row_new [IntC 2]], rr_iterations = 2, rr_terminated_by = Fixpoint\<rparr>"
  have r: "execute_fixpoint ?x (rel_scan ''b'') (rel_scan ''t'') ''t'' ?eval = Inr ?r" by code_simp
  moreover from execute_fixpoint_result [OF r] have "unat (rr_iterations ?r) \<le> unat (max_iterations (exec_config ?x))"
    by (elim conjE)
  ultimately show ?thesis by (auto simp: set_max_iterations_def)
qed

subsection \<open>The fixpoint\<close>

text \<open>The rows reachable from the base case when one step takes a row to the rows in \<open>succ\<close>.\<close>

definition reach :: "(row \<Rightarrow> row set) \<Rightarrow> row list \<Rightarrow> row set" where
  "reach succ base = {y. \<exists>x \<in> set base. (x, y) \<in> {(x, y). y \<in> succ x}\<^sup>*}"

lemma reach_base: "set base \<subseteq> reach succ base"
  by (auto simp: reach_def)

lemma reach_step: "x \<in> reach succ base \<Longrightarrow> y \<in> succ x \<Longrightarrow> y \<in> reach succ base"
  by (auto simp: reach_def intro: rtrancl_into_rtrancl)

lemma reach_least:
  assumes "set base \<subseteq> R" and "\<And>x y. x \<in> R \<Longrightarrow> y \<in> succ x \<Longrightarrow> y \<in> R"
  shows "reach succ base \<subseteq> R"
proof
  fix y assume "y \<in> reach succ base"
  then obtain x where "x \<in> set base" "(x, y) \<in> {(x, y). y \<in> succ x}\<^sup>*" by (auto simp: reach_def)
  from this(2,1) show "y \<in> R" by (induction rule: rtrancl_induct) (use assms in auto)
qed

text \<open>The loop invariant: the rows seen are the rows of the result, they are reachable, and the
  successors of the rows outside the working table are already there. The rows still missing
  are fewer than the iterations left.\<close>

lemma fixpoint_loop_closure:
  fixes succ :: "row \<Rightarrow> row set"
  assumes step: "\<And>T. \<exists>D. eval rc (bind_cte ctx_new n T) = Inr D \<and> set D = (\<Union>x \<in> set T. succ x)"
    and closed: "\<And>x y. x \<in> R \<Longrightarrow> y \<in> succ x \<Longrightarrow> y \<in> R"
    and R: "finite R" "\<And>x. x \<in> R \<Longrightarrow> plain_row x \<and> (0 < bw \<longrightarrow> width x = bw)"
    and inv: "set s = set result" "set working \<subseteq> set result" "set result \<subseteq> R"
      "\<And>x. x \<in> set result \<Longrightarrow> x \<notin> set working \<Longrightarrow> succ x \<subseteq> set result"
    and left: "card (R - set result) + i < unat lim"
  shows "\<exists>r. fixpoint_loop lim eval rc n bw i working result (Some s) = Inr r
    \<and> rr_terminated_by r = Fixpoint \<and> set result \<subseteq> set (rr_rows r) \<and> set (rr_rows r) \<subseteq> R
    \<and> (\<forall>x \<in> set (rr_rows r). succ x \<subseteq> set (rr_rows r))"
  using inv left
proof (induction "unat lim - i" arbitrary: i working result s rule: less_induct)
  case less
  note unfold = fixpoint_loop.simps [of lim eval rc n bw i working result "Some s"]
  have i: "i < unat lim" using less.prems by simp
  show ?case
  proof (cases "working = []")
    case True
    with i less.prems show ?thesis unfolding unfold by auto
  next
    case False
    obtain D where D: "eval rc (bind_cte ctx_new n working) = Inr D" "set D = (\<Union>x \<in> set working. succ x)"
      using step by blast
    have DR: "set D \<subseteq> R" using D(2) less.prems(2,3) closed by blast
    have ok: "schema_error bw D = None"
    proof (cases D)
      case (Cons d ds)
      with DR R(2) [of d] show ?thesis by (auto simp: schema_error_def)
    qed (simp add: schema_error_def)
    obtain new s' where ins: "insert_new s D = (new, s')" by fastforce
    then have nt: "new_tuples (Some s) D = (new, Some s')" by (simp add: new_tuples_def)
    note sp = insert_new_spec(1-3) [OF ins]
    have fresh: "set new \<inter> set result = {}"
      using insert_new_spec(4) [OF ins] sp(2) DR R(2) less.prems(1) by blast
    have all: "succ x \<subseteq> set result \<union> set new" if "x \<in> set result" for x
      using that less.prems(1,4) D(2) sp(3) by (cases "x \<in> set working") auto
    show ?thesis
    proof (cases "new = []")
      case True
      with i False D ok nt all less.prems show ?thesis by (simp add: unfold)
    next
      case new: False
      have "R - set (result @ new) \<subset> R - set result"
        using new fresh sp(2) DR by (cases new) auto
      then have card: "card (R - set (result @ new)) < card (R - set result)"
        using R(1) by (intro psubset_card_mono) auto
      have "\<exists>r. fixpoint_loop lim eval rc n bw (i + 1) new (result @ new) (Some s') = Inr r
        \<and> rr_terminated_by r = Fixpoint \<and> set (result @ new) \<subseteq> set (rr_rows r) \<and> set (rr_rows r) \<subseteq> R
        \<and> (\<forall>x \<in> set (rr_rows r). succ x \<subseteq> set (rr_rows r))"
      proof (rule less.hyps)
        show "unat lim - (i + 1) < unat lim - i" using i by simp
        show "set s' = set (result @ new)" using sp less.prems(1) by auto
        show "set (result @ new) \<subseteq> R" using sp(2) DR less.prems(3) by auto
        show "succ x \<subseteq> set (result @ new)" if "x \<in> set (result @ new)" "x \<notin> set new" for x
          using that all by auto
        show "card (R - set (result @ new)) + (i + 1) < unat lim" using card less.prems(5) by simp
      qed simp
      with i False D ok nt new show ?thesis by (auto simp: unfold)
    qed
  qed
qed

text \<open>Claim C7. Recursion reaches its fixpoint and computes the transitive closure: when the
  recursive case works row by row (the rows it gives for a working table are the successors of
  the table's rows), all reachable rows have one width and hold no NaN, and no more rows are
  reachable than the maximum of iterations, then with cycle detection switched on the execution succeeds,
  stops at the fixpoint, and its rows are exactly the rows reachable from the base case, cycles
  in the data notwithstanding.\<close>

theorem execute_fixpoint_closure:
  fixes succ :: "row \<Rightarrow> row set"
  assumes base: "eval base_case ctx_new = Inr base"
    and step: "\<And>T. \<exists>D. eval recursive_case (bind_cte ctx_new cte_name T) = Inr D \<and> set D = (\<Union>x \<in> set T. succ x)"
    and rows: "\<And>x. x \<in> reach succ base \<Longrightarrow> plain_row x \<and> width x = w"
    and fin: "finite (reach succ base)" "card (reach succ base) \<le> unat (max_iterations (exec_config self))"
    and cfg: "0 < unat (max_iterations (exec_config self))" "detect_cycles (exec_config self)"
  shows "\<exists>r. execute_fixpoint self base_case recursive_case cte_name eval = Inr r
    \<and> rr_terminated_by r = Fixpoint \<and> set (rr_rows r) = reach succ base"
proof -
  let ?R = "reach succ base" and ?lim = "max_iterations (exec_config self)"
  have room: "card (?R - set base) + 0 < unat ?lim"
  proof (cases base)
    case Nil
    then show ?thesis using cfg(1) by (simp add: reach_def)
  next
    case (Cons b bs)
    have "?R - set base \<subset> ?R" using reach_base [of base succ] Cons by auto
    then have "card (?R - set base) < card ?R" using fin(1) by (rule psubset_card_mono [rotated])
    with fin(2) show ?thesis by simp
  qed
  have widths: "plain_row x \<and> (0 < first_width base \<longrightarrow> width x = first_width base)" if "x \<in> ?R" for x
    using rows that reach_base [of base succ] by (auto simp: first_width_def split: list.splits)
  have seen: "set (snd (insert_new [] base)) = set base"
    using insert_new_spec(1) [OF prod.collapse [symmetric], of "[]" base] by simp
  have "\<exists>r. fixpoint_loop ?lim eval recursive_case cte_name (first_width base) 0 base base
      (Some (snd (insert_new [] base))) = Inr r \<and> rr_terminated_by r = Fixpoint
    \<and> set base \<subseteq> set (rr_rows r) \<and> set (rr_rows r) \<subseteq> ?R
    \<and> (\<forall>x \<in> set (rr_rows r). succ x \<subseteq> set (rr_rows r))"
    by (rule fixpoint_loop_closure [where succ = succ and R = ?R and eval = eval
          and rc = recursive_case and n = cte_name], rule step, erule (1) reach_step, rule fin(1), erule widths)
      (use seen reach_base [of base succ] room in simp_all)
  then obtain r where r: "fixpoint_loop ?lim eval recursive_case cte_name (first_width base) 0 base base
      (Some (snd (insert_new [] base))) = Inr r" "rr_terminated_by r = Fixpoint"
    "set base \<subseteq> set (rr_rows r)" "set (rr_rows r) \<subseteq> ?R" "\<forall>x \<in> set (rr_rows r). succ x \<subseteq> set (rr_rows r)"
    by blast
  from reach_least [of base "set (rr_rows r)" succ] r(3,5) have "?R \<subseteq> set (rr_rows r)" by blast
  with r base cfg(2) show ?thesis by (auto simp: execute_fixpoint_def)
qed

theorem execute_fixpoint_closure_witness:
  "\<exists>r. execute_fixpoint executor_new (rel_scan ''b'') (rel_scan ''t'') ''t''
       (\<lambda>e ctx. if e = rel_scan ''b'' then Inr [row_new [IntC 1]]
          else (case get_cte ctx ''t'' of
              None \<Rightarrow> Inl (UnboundCTE ''t'')
            | Some rows \<Rightarrow> Inr (map (\<lambda>r. if r = row_new [IntC 1] then row_new [IntC 2] else row_new [IntC 1]) rows)))
     = Inr r \<and> rr_terminated_by r = Fixpoint \<and> set (rr_rows r) = {row_new [IntC 1], row_new [IntC 2]}"
proof -
  let ?f = "\<lambda>r. if r = row_new [IntC 1] then row_new [IntC 2] else row_new [IntC 1]"
  let ?succ = "\<lambda>r. {?f r}" and ?b = "[row_new [IntC 1]]"
  have two: "?f (row_new [IntC 2]) = row_new [IntC 1]" by (simp add: row_new_def)
  have sub: "reach ?succ ?b \<subseteq> {row_new [IntC 1], row_new [IntC 2]}"
    by (rule reach_least) (use two in auto)
  have "row_new [IntC 1] \<in> reach ?succ ?b" using reach_base [of ?b ?succ] by simp
  moreover from reach_step [OF this, of "row_new [IntC 2]"] have "row_new [IntC 2] \<in> reach ?succ ?b" by simp
  ultimately have R: "reach ?succ ?b = {row_new [IntC 1], row_new [IntC 2]}" using sub by auto
  have plain: "plain_row x \<and> width x = 1" if "x \<in> {row_new [IntC 1], row_new [IntC 2]}" for x
    using that by (auto simp: plain_row_def row_eq_def const_eq_def width_def row_new_def)
  let ?eval = "\<lambda>e ctx. if e = rel_scan ''b'' then Inr ?b
      else (case get_cte ctx ''t'' of None \<Rightarrow> Inl (UnboundCTE ''t'') | Some rows \<Rightarrow> Inr (map ?f rows))"
  have "\<exists>r. execute_fixpoint executor_new (rel_scan ''b'') (rel_scan ''t'') ''t'' ?eval = Inr r
    \<and> rr_terminated_by r = Fixpoint \<and> set (rr_rows r) = reach ?succ ?b"
  proof (rule execute_fixpoint_closure [where w = 1])
    show "?eval (rel_scan ''b'') ctx_new = Inr ?b" by simp
    show "\<exists>D. ?eval (rel_scan ''t'') (bind_cte ctx_new ''t'' T) = Inr D \<and> set D = (\<Union>x \<in> set T. ?succ x)" for T
      by (auto simp: rel_scan_def get_cte_def bind_cte_def)
    show "plain_row x \<and> width x = 1" if "x \<in> reach ?succ ?b" for x using that unfolding R by (rule plain)
    show "finite (reach ?succ ?b)" unfolding R by simp
    show "card (reach ?succ ?b) \<le> unat (max_iterations (exec_config executor_new))"
      unfolding R by (simp add: executor_new_def default_config_def row_new_def)
  qed (simp_all add: executor_new_def default_config_def)
  with R show ?thesis by simp
qed

text \<open>A row with a \<^verbatim>\<open>NaN\<close> is never found among the rows seen: a step that only repeats it
  makes the executor add it again in every iteration, up to the maximum, with cycle detection
  on.\<close>

theorem nan_row_repeats:
  "execute_fixpoint (set_max_iterations executor_new 3) (rel_scan ''b'') (rel_scan ''t'') ''t''
     (\<lambda>_ _. Inr [row_new [FloatC 0x7FF8000000000000]])
   = Inr \<lparr>rr_rows = replicate 4 (row_new [FloatC 0x7FF8000000000000]), rr_iterations = 3,
         rr_terminated_by = MaxIterations\<rparr>"
  by code_simp

subsection \<open>Errors\<close>

lemma fixpoint_loop_error:
  "fixpoint_loop lim eval rc n bw i working result seen = Inl e \<Longrightarrow>
     (\<exists>T. T \<noteq> [] \<and> eval rc (bind_cte ctx_new n T) = Inl e)
     \<or> (\<exists>k. e = SchemaMismatch bw k \<and> k \<noteq> bw \<and> 0 < bw)"
proof (induction lim eval rc n bw i working result seen rule: fixpoint_loop.induct)
  case (1 lim eval rc n bw i working result seen)
  note unfold = fixpoint_loop.simps [of lim eval rc n bw i working result seen]
  from "1.prems" have w: "i < unat lim" "working \<noteq> []" by (auto simp: unfold split: if_splits)
  show ?case
  proof (cases "eval rc (bind_cte ctx_new n working)")
    case (Inl e')
    with "1.prems" w show ?thesis by (auto simp: unfold)
  next
    case (Inr delta)
    show ?thesis
    proof (cases "schema_error bw delta")
      case None
      obtain new seen' where nt: "new_tuples seen delta = (new, seen')" by fastforce
      from "1.prems" w Inr None nt have new: "new \<noteq> []" by (auto simp: unfold split: if_splits)
      with "1.prems" w Inr None nt
      have "fixpoint_loop lim eval rc n bw (i + 1) new (result @ new) seen' = Inl e" by (simp add: unfold)
      from "1.IH" [OF w Inr None nt [symmetric] refl new this] show ?thesis .
    next
      case (Some e')
      with "1.prems" w Inr have "e' = e" by (simp add: unfold)
      with schema_error_Some [OF Some] show ?thesis by auto
    qed
  qed
qed

text \<open>Claim C35. Errors: a failing run reports an error of the evaluator (in the base case, or
  in the recursive case on some working table) or a schema mismatch, and a mismatch is reported
  only with two different column counts, the first of them positive.\<close>

theorem execute_fixpoint_error:
  assumes "execute_fixpoint self base_case recursive_case cte_name eval = Inl e"
  shows "eval base_case ctx_new = Inl e
    \<or> (\<exists>T. T \<noteq> [] \<and> eval recursive_case (bind_cte ctx_new cte_name T) = Inl e)
    \<or> (\<exists>base k. eval base_case ctx_new = Inr base \<and> e = SchemaMismatch (first_width base) k
        \<and> k \<noteq> first_width base \<and> 0 < first_width base)"
  using assms by (auto simp: execute_fixpoint_def dest!: fixpoint_loop_error split: sum.splits)

theorem execute_fixpoint_error_witness:
  "execute_fixpoint executor_new (rel_scan ''b'') (rel_scan ''t'') ''t''
     (\<lambda>e ctx. if e = rel_scan ''b'' then Inr [row_new [IntC 1]] else Inr [row_new [IntC 1, IntC 2]])
   = Inl (SchemaMismatch 1 2) \<and> (2 :: nat) \<noteq> 1"
proof -
  let ?eval = "\<lambda>e (ctx :: execution_context). if e = rel_scan ''b'' then Inr [row_new [IntC 1]]
      else Inr [row_new [IntC 1, IntC 2]]"
  have e: "execute_fixpoint executor_new (rel_scan ''b'') (rel_scan ''t'') ''t'' ?eval = Inl (SchemaMismatch 1 2)"
    by code_simp
  with execute_fixpoint_error [OF e] show ?thesis by auto
qed

end
