(* ===== verification/Advice_Emit.thy ===== *)
theory Advice_Emit
  imports Advice_Render Algebra_Ops
begin

text \<open>
  The emitter of plan advice (\<^verbatim>\<open>crates/ra-engine/src/plan_advice_emit.rs\<close>): from a plan to
  the advice document that records its join orders and its scans. Here the relational algebra
  meets the advice crate: the document it writes is one that the parser reads back.
\<close>

subsection \<open>Join orders\<close>

definition scan_name :: "string \<Rightarrow> string option \<Rightarrow> string" where
  "scan_name table alias = (case alias of Some a \<Rightarrow> a | None \<Rightarrow> table)"

function render_join :: "rel_expr \<Rightarrow> advice_target option"
  and inline_outer_into :: "rel_expr \<Rightarrow> advice_target list"
  and render_join_member :: "rel_expr \<Rightarrow> advice_target option" where
  "render_join e = (case e of
     Join jt cond left right \<Rightarrow>
       (let children = inline_outer_into left @ opt_list (render_join_member right)
        in if length children < 2 then None else Some (target_ordered children))
   | _ \<Rightarrow> render_join_member e)"
| "inline_outer_into e = (case e of
     Join jt cond left right \<Rightarrow> inline_outer_into left @ opt_list (render_join_member right)
   | _ \<Rightarrow> opt_list (render_join_member e))"
| "render_join_member e = (case e of
     Scan table alias only \<Rightarrow> Some (target_identifier (simple_rid (scan_name table alias)))
   | Join jt cond left right \<Rightarrow> render_join e
   | Filter p input \<Rightarrow> render_join_member input
   | Project cs input \<Rightarrow> render_join_member input
   | Sort keys input \<Rightarrow> render_join_member input
   | Limit n k input \<Rightarrow> render_join_member input
   | Distinct input \<Rightarrow> render_join_member input
   | _ \<Rightarrow> None)"
  by pat_completeness auto
termination
  by (relation "measure (\<lambda>x. case x of
      Inl e \<Rightarrow> (case e of Join jt cond l r \<Rightarrow> 3 * size e | _ \<Rightarrow> 3 * size e + 2)
    | Inr (Inl e) \<Rightarrow> 3 * size e + 2
    | Inr (Inr e) \<Rightarrow> 3 * size e + 1)") auto

declare render_join.simps [simp del] inline_outer_into.simps [simp del] render_join_member.simps [simp del]

function collect_join_orders :: "rel_expr \<Rightarrow> advice_target list" where
  "collect_join_orders e = (case e of
     Join jt cond left right \<Rightarrow> opt_list (render_join e)
   | Filter p input \<Rightarrow> collect_join_orders input
   | Project cs input \<Rightarrow> collect_join_orders input
   | Aggregate gs ags input \<Rightarrow> collect_join_orders input
   | Sort keys input \<Rightarrow> collect_join_orders input
   | Limit n k input \<Rightarrow> collect_join_orders input
   | Window fs input \<Rightarrow> collect_join_orders input
   | Distinct input \<Rightarrow> collect_join_orders input
   | UnionOp a left right \<Rightarrow> collect_join_orders left @ collect_join_orders right
   | IntersectOp a left right \<Rightarrow> collect_join_orders left @ collect_join_orders right
   | ExceptOp a left right \<Rightarrow> collect_join_orders left @ collect_join_orders right
   | CTE name defn body \<Rightarrow> collect_join_orders defn @ collect_join_orders body
   | RecursiveCTE name base rec body cd \<Rightarrow>
       collect_join_orders base @ collect_join_orders rec @ collect_join_orders body
   | Scan table alias only \<Rightarrow> []
   | Values rows \<Rightarrow> []
   | Unnest x a input ord \<Rightarrow> []
   | MultiUnnest xs as ord \<Rightarrow> []
   | TableFunction name args cols input \<Rightarrow> []
   | _ \<Rightarrow> concat (map collect_join_orders (children e)))"
  by pat_completeness auto
termination
  by (relation "measure size")
    (auto intro: children_smaller simp: less_Suc_eq_le size_list_estimation' [where f = size, OF _ order_refl])

declare collect_join_orders.simps [simp del]

subsection \<open>Scans\<close>

text \<open>The inner function \<^verbatim>\<open>walk\<close> of \<^verbatim>\<open>collect_scans\<close>, on the list of identifiers and the
  map of counts.\<close>

type_synonym scan_state = "relation_identifier list \<times> (string \<rightharpoonup> u32)"

definition count_scan :: "string \<Rightarrow> scan_state \<Rightarrow> scan_state" where
  "count_scan name acc = (case acc of (out, counts) \<Rightarrow>
     (let k = (case counts name of Some k \<Rightarrow> k | None \<Rightarrow> 0) + 1
      in (out @ [\<lparr>alias_name = name, occurrence = k, partition_schema = None, partition_name = None,
                 plan_name = None\<rparr>], counts(name \<mapsto> k))))"

function scan_walk :: "rel_expr \<Rightarrow> scan_state \<Rightarrow> scan_state" where
  "scan_walk e acc = (case e of
     Scan table alias only \<Rightarrow> count_scan (scan_name table alias) acc
   | _ \<Rightarrow> foldl (\<lambda>acc c. scan_walk c acc) acc (children e))"
  by pat_completeness auto
termination
  by (relation "measure (\<lambda>(e, acc). size e)")
    (auto intro: children_smaller simp: less_Suc_eq_le size_list_estimation' [where f = size, OF _ order_refl])

declare scan_walk.simps [simp del]

definition collect_scans :: "rel_expr \<Rightarrow> relation_identifier list" where
  "collect_scans e = fst (scan_walk e ([], Map.empty))"

definition emit_advice :: "rel_expr \<Rightarrow> advice" where
  "emit_advice e =
    (let orders = filter (\<lambda>jo. tgt_children jo \<noteq> []) (collect_join_orders e); scans = collect_scans e
     in map (\<lambda>jo. \<lparr>tag = JoinOrder, targets = [jo]\<rparr>) orders
        @ (if scans = [] then [] else [\<lparr>tag = SeqScan, targets = map target_identifier scans\<rparr>]))"

subsection \<open>The scans of a plan\<close>

text \<open>The names of the base scans, left to right.\<close>

function scan_names :: "rel_expr \<Rightarrow> string list" where
  "scan_names e = (case e of
     Scan table alias only \<Rightarrow> [scan_name table alias]
   | _ \<Rightarrow> concat (map scan_names (children e)))"
  by pat_completeness auto
termination
  by (relation "measure size")
    (auto intro: children_smaller simp: less_Suc_eq_le size_list_estimation' [where f = size, OF _ order_refl])

declare scan_names.simps [simp del]

lemma scan_names_Scan [simp]: "scan_names (Scan t a only) = [scan_name t a]"
  by (simp add: scan_names.simps)

definition is_scan :: "rel_expr \<Rightarrow> bool" where
  "is_scan e = (case e of Scan table alias only \<Rightarrow> True | _ \<Rightarrow> False)"

lemma is_scanE: "is_scan e \<Longrightarrow> (\<And>table alias only. e = Scan table alias only \<Longrightarrow> P) \<Longrightarrow> P"
  by (cases e) (simp_all add: is_scan_def)

lemma scan_names_step: "\<not> is_scan e \<Longrightarrow> scan_names e = concat (map scan_names (children e))"
  by (subst scan_names.simps) (cases e; simp add: is_scan_def)

lemma scan_walk_step: "\<not> is_scan e \<Longrightarrow> scan_walk e acc = foldl (\<lambda>acc c. scan_walk c acc) acc (children e)"
  by (subst scan_walk.simps) (cases e; simp add: is_scan_def)

lemma foldl_concat_lists: "foldl f a (concat xss) = foldl (\<lambda>a xs. foldl f a xs) a xss"
  by (induction xss arbitrary: a) simp_all

lemma scan_walk_names: "scan_walk e acc = foldl (\<lambda>acc n. count_scan n acc) acc (scan_names e)"
proof (induction e arbitrary: acc rule: children_induct)
  case (node e)
  show ?case
  proof (cases "is_scan e")
    case True
    then show ?thesis by (auto simp: scan_walk.simps elim: is_scanE)
  next
    case False
    have "foldl (\<lambda>acc c. scan_walk c acc) acc cs
        = foldl (\<lambda>acc n. count_scan n acc) acc (concat (map scan_names cs))"
      if "set cs \<subseteq> set (children e)" for cs acc
      using that by (induction cs arbitrary: acc) (simp_all add: node)
    with False show ?thesis by (simp add: scan_walk_step scan_names_step)
  qed
qed

definition numbered :: "string list \<Rightarrow> nat \<Rightarrow> relation_identifier" where
  "numbered ns i = \<lparr>alias_name = ns ! i, occurrence = of_nat (count_list (take (Suc i) ns) (ns ! i)),
     partition_schema = None, partition_name = None, plan_name = None\<rparr>"

lemma count_scan_names:
  "foldl (\<lambda>acc n. count_scan n acc) ([], Map.empty) ns
     = (map (numbered ns) [0..<length ns],
        \<lambda>n. if n \<in> set ns then Some (of_nat (count_list ns n)) else None)"
proof (induction ns rule: rev_induct)
  case (snoc n ns)
  have "map (numbered ns) [0..<length ns] = map (numbered (ns @ [n])) [0..<length ns]"
    by (auto simp: numbered_def nth_append)
  with snoc show ?case
    by (auto simp: count_scan_def numbered_def Let_def fun_eq_iff count_list_0_iff)
qed simp

lemma collect_scans_numbered: "collect_scans e = map (numbered (scan_names e)) [0..<length (scan_names e)]"
  by (simp add: collect_scans_def scan_walk_names count_scan_names)

lemma count_take_bounds:
  assumes "i < length ns"
  shows "1 \<le> count_list (take (Suc i) ns) (ns ! i)" "count_list (take (Suc i) ns) n \<le> length ns"
proof -
  show "1 \<le> count_list (take (Suc i) ns) (ns ! i)" using assms by (simp add: take_Suc_conv_app_nth)
  show "count_list (take (Suc i) ns) n \<le> length ns"
    using count_le_length [of "take (Suc i) ns" n] by simp
qed

lemma count_take_less:
  assumes "i < j" "j < length ns" "ns ! i = ns ! j"
  shows "count_list (take (Suc i) ns) (ns ! i) < count_list (take (Suc j) ns) (ns ! j)"
proof -
  have "take (Suc j) ns = take (Suc i) ns @ take (j - Suc i) (drop (Suc i) ns) @ [ns ! j]"
    using assms(1,2) by (simp add: take_Suc_conv_app_nth [of j] flip: take_add [of "Suc i" "j - Suc i"])
  with assms(3) show ?thesis by simp
qed

lemma occurrence_numbered:
  assumes "i < length ns" "length ns < 2 ^ 32"
  shows "unat (occurrence (numbered ns i)) = count_list (take (Suc i) ns) (ns ! i)"
  using count_take_bounds(2) [OF assms(1), of "ns ! i"] assms(2) by (simp add: numbered_def unat_of_nat take_bit_nat_eq_self)

text \<open>The scans are named apart: the emitted identifiers are the names of all base
  scans of the plan, at any depth below any operator, in order, and the occurrence numbers make
  them pairwise distinct, for plans with fewer than 2^32 scans.\<close>

lemma collect_scans_distinct:
  assumes "length (scan_names e) < 2 ^ 32"
  shows "map alias_name (collect_scans e) = scan_names e \<and> distinct (collect_scans e)
    \<and> list_all (\<lambda>r. occurrence r \<noteq> 0) (collect_scans e)"
proof -
  let ?ns = "scan_names e"
  have "numbered ?ns i \<noteq> numbered ?ns j" if "i < j" "j < length ?ns" for i j
  proof
    assume eq: "numbered ?ns i = numbered ?ns j"
    then have "?ns ! i = ?ns ! j" by (simp add: numbered_def)
    from count_take_less [OF that this] occurrence_numbered [of i ?ns] occurrence_numbered [of j ?ns] that assms eq
    show False by simp
  qed
  then have "inj_on (numbered ?ns) {0..<length ?ns}"
    by (auto intro!: inj_onI) (metis linorder_neqE_nat)
  moreover have "occurrence (numbered ?ns i) \<noteq> 0" if "i < length ?ns" for i
    using occurrence_numbered [OF that assms] count_take_bounds(1) [OF that] by auto
  moreover have "map alias_name (collect_scans e) = ?ns"
    by (simp add: collect_scans_numbered comp_def numbered_def map_nth)
  ultimately show ?thesis
    by (auto simp: collect_scans_numbered distinct_map list_all_iff)
qed

lemma collect_scans_distinct_witness:
  "distinct (collect_scans (UnionOp True (rel_scan ''a'') (rel_scan ''a'')))"
  by (rule collect_scans_distinct [THEN conjunct2, THEN conjunct1])
    (simp add: scan_names.simps [of "UnionOp x y z" for x y z] rel_scan_def)

subsection \<open>The emitted document is read back\<close>

function join_count :: "rel_expr \<Rightarrow> nat" where
  "join_count e = (case e of Join jt cond l r \<Rightarrow> 1 | _ \<Rightarrow> 0) + sum_list (map join_count (children e))"
  by pat_completeness auto
termination by (relation "measure size") (auto intro: children_smaller)

declare join_count.simps [simp del]

lemma join_count_simps [simp]:
  "join_count (Join jt cond l r) = Suc (join_count l + join_count r)"
  "join_count (Filter p i) = join_count i" "join_count (Project cs i) = join_count i"
  "join_count (Sort keys i) = join_count i" "join_count (Limit n k i) = join_count i"
  "join_count (Distinct i) = join_count i"
  by (subst join_count.simps, simp)+

lemma scan_names_simps [simp]:
  "scan_names (Join jt cond l r) = scan_names l @ scan_names r"
  "scan_names (Filter p i) = scan_names i" "scan_names (Project cs i) = scan_names i"
  "scan_names (Sort keys i) = scan_names i" "scan_names (Limit n k i) = scan_names i"
  "scan_names (Distinct i) = scan_names i"
  by (subst scan_names.simps, simp)+

lemma join_order_wf_mono: "join_order_wf d t \<Longrightarrow> d \<le> d' \<Longrightarrow> join_order_wf d' t"
proof (induction d t arbitrary: d' rule: join_order_wf.induct)
  case (1 d cs)
  then show ?case by (cases d') (auto simp: list_all_iff)
qed (auto elim!: leaf_wf.elims simp: list_all_iff intro: leaf_wf_join_order)

text \<open>A target whose lists nest at most \<open>d\<close> deep and whose names survive.\<close>

definition target_good :: "nat \<Rightarrow> advice_target \<Rightarrow> bool" where
  "target_good d t \<longleftrightarrow> join_order_wf d t \<and> names_ok t"

lemma target_good_mono: "target_good d t \<Longrightarrow> d \<le> d' \<Longrightarrow> target_good d' t"
  by (auto simp: target_good_def intro: join_order_wf_mono)

lemma target_good_ordered:
  "target_good (Suc d) (target_ordered cs) \<longleftrightarrow> (\<forall>c \<in> set cs. target_good d c)"
  by (auto simp: target_good_def target_ordered_def list_all_iff)

lemma target_good_scan: "ident_ok n \<Longrightarrow> target_good d (target_identifier (simple_rid n))"
  by (auto simp: target_good_def target_identifier_def simple_rid_def rid_names_ok_def opt_ok_def rid_wf_def
      opt_nonempty_def ident_ok_def intro!: leaf_wf_join_order)

lemma render_join_simps [simp]:
  "render_join (Join jt cond l r) =
     (let cs = inline_outer_into l @ opt_list (render_join_member r)
      in if length cs < 2 then None else Some (target_ordered cs))"
  "inline_outer_into (Join jt cond l r) = inline_outer_into l @ opt_list (render_join_member r)"
  "render_join_member (Join jt cond l r) = render_join (Join jt cond l r)"
  "render_join_member (Scan tb a only) = Some (target_identifier (simple_rid (scan_name tb a)))"
  "render_join_member (Filter p i) = render_join_member i"
  "render_join_member (Project cs i) = render_join_member i"
  "render_join_member (Sort keys i) = render_join_member i"
  "render_join_member (Limit n k i) = render_join_member i"
  "render_join_member (Distinct i) = render_join_member i"
  by (simp add: render_join.simps, simp add: inline_outer_into.simps,
      simp_all add: render_join_member.simps [of "Join jt cond l r"] render_join_member.simps)

definition is_join_node :: "rel_expr \<Rightarrow> bool" where
  "is_join_node e = (case e of Join jt cond l r \<Rightarrow> True | _ \<Rightarrow> False)"

lemma is_join_nodeE: "is_join_node e \<Longrightarrow> (\<And>jt cond l r. e = Join jt cond l r \<Longrightarrow> P) \<Longrightarrow> P"
  by (cases e) (simp_all add: is_join_node_def)

lemma inline_outer_member: "\<not> is_join_node e \<Longrightarrow> inline_outer_into e = opt_list (render_join_member e)"
  by (subst inline_outer_into.simps) (cases e; simp add: is_join_node_def)

lemma render_join_good:
  assumes "list_all ident_ok (scan_names e)"
  shows "(\<forall>t \<in> set (inline_outer_into e). target_good (join_count e) t)
    \<and> (\<forall>t. render_join_member e = Some t \<longrightarrow> target_good (join_count e) t)"
  using assms
proof (induction "size e" arbitrary: e rule: less_induct)
  case less
  show ?case
  proof (cases "is_join_node e")
    case True
    then obtain jt cond l r where e: "e = Join jt cond l r" by (rule is_join_nodeE)
    let ?cs = "inline_outer_into l @ opt_list (render_join_member r)"
    have cs: "target_good (join_count l + join_count r) c" if "c \<in> set ?cs" for c
      using that less.hyps [of l] less.hyps [of r] less.prems unfolding e
      by (auto intro: target_good_mono [OF _ le_add1] target_good_mono [OF _ le_add2])
    moreover have "target_good (join_count e) c" if "c \<in> set ?cs" for c
      using target_good_mono [OF cs [OF that], of "join_count e"] unfolding e by simp
    ultimately show ?thesis
      unfolding e by (auto simp: Let_def target_good_ordered split: if_splits)
  next
    case False
    have "target_good (join_count e) t" if "render_join_member e = Some t" for t
      using that less.hyps less.prems False
      by (cases e) (auto simp: target_good_scan render_join_member.simps is_join_node_def)
    with False show ?thesis by (auto simp: inline_outer_member)
  qed
qed

lemma collect_join_orders_step:
  assumes "t \<in> set (collect_join_orders e)"
  shows "(\<exists>jt cond l r. e = Join jt cond l r \<and> render_join e = Some t)
    \<or> (\<exists>c \<in> set (children e). t \<in> set (collect_join_orders c))"
  using assms by (cases e) (auto simp: collect_join_orders.simps)

lemma child_bounds:
  assumes "c \<in> set (children e)"
  shows "set (scan_names c) \<subseteq> set (scan_names e)" "join_count c \<le> join_count e"
proof -
  have "\<not> is_scan e" using assms by (auto elim!: is_scanE)
  with assms show "set (scan_names c) \<subseteq> set (scan_names e)" by (auto simp: scan_names_step)
  show "join_count c \<le> join_count e"
    using assms member_le_sum_list [of "join_count c" "map join_count (children e)"]
    by (subst (2) join_count.simps) auto
qed

lemma collect_join_orders_good:
  "list_all ident_ok (scan_names e) \<Longrightarrow> t \<in> set (collect_join_orders e) \<Longrightarrow>
     target_good (join_count e) t \<and> (\<exists>cs. t = target_ordered cs \<and> 2 \<le> length cs)"
proof (induction e rule: children_induct)
  case (node e)
  from collect_join_orders_step [OF node.prems(2)] show ?case
  proof (elim disjE exE conjE bexE)
    fix jt cond l r assume e: "e = Join jt cond l r" "render_join e = Some t"
    then have "render_join_member e = Some t" by simp
    with render_join_good [OF node.prems(1)] e show ?thesis by (auto simp: Let_def split: if_splits)
  next
    fix c assume c: "c \<in> set (children e)" "t \<in> set (collect_join_orders c)"
    moreover have "list_all ident_ok (scan_names c)"
      using node.prems(1) child_bounds(1) [OF c(1)] by (auto simp: list_all_iff)
    ultimately show ?thesis
      using node.IH [of c] child_bounds(2) [OF c(1)] target_good_mono by blast
  qed
qed

lemma item_ok_join_order: "target_good MAX_NESTING_DEPTH t \<Longrightarrow> item_ok \<lparr>tag = JoinOrder, targets = [t]\<rparr>"
  by (simp add: item_ok_def item_wf_def targets_wf_def is_join_order_def target_good_def)

lemma item_ok_seq_scan:
  assumes "\<And>r. r \<in> set rs \<Longrightarrow> rid_wf r \<and> rid_names_ok r"
  shows "item_ok \<lparr>tag = SeqScan, targets = map target_identifier rs\<rparr>"
  using assms by (auto simp: item_ok_def item_wf_def targets_wf_def is_join_order_def
      requires_index_argument_def is_simple_def list_all_iff target_identifier_def)

lemma emit_items_ok:
  assumes names: "list_all ident_ok (scan_names e)" and joins: "join_count e \<le> MAX_NESTING_DEPTH"
    and scans: "length (scan_names e) < 2 ^ 32"
  shows "list_all item_ok (emit_advice e)"
proof -
  have "item_ok \<lparr>tag = JoinOrder, targets = [t]\<rparr>" if "t \<in> set (collect_join_orders e)" for t
    using collect_join_orders_good [OF names that] target_good_mono [OF _ joins] item_ok_join_order by blast
  moreover have "rid_wf r \<and> rid_names_ok r" if "r \<in> set (collect_scans e)" for r
  proof -
    from that obtain i where i: "i < length (scan_names e)" "r = numbered (scan_names e) i"
      by (auto simp: collect_scans_numbered)
    then have "ident_ok (scan_names e ! i)" using names by (simp add: list_all_length)
    moreover have "occurrence r \<noteq> 0"
      using i occurrence_numbered [OF i(1) scans] count_take_bounds(1) [OF i(1)] by auto
    ultimately show ?thesis
      using i by (auto simp: rid_wf_def rid_names_ok_def numbered_def opt_ok_def opt_nonempty_def ident_ok_def)
  qed
  ultimately show ?thesis
    by (auto simp: emit_advice_def Let_def list_all_iff intro: item_ok_seq_scan)
qed

text \<open>Claim C23. What the emitter writes, the parser reads: for a plan with at most 64 joins
  whose scan names survive the scanner, rendering the emitted document and parsing the text
  gives the document back, so the advice of an optimized plan can be fed in again.\<close>

theorem emit_render_parse:
  assumes names: "list_all ident_ok (scan_names e)" and joins: "join_count e \<le> MAX_NESTING_DEPTH"
    and scans: "length (scan_names e) < 2 ^ 32"
  shows "parse_advice (render_advice (emit_advice e)) = Inr (emit_advice e)"
  using assms by (intro render_parse emit_items_ok)

theorem emit_render_parse_witness:
  "parse_advice (render_advice (emit_advice
     (Join Inner (Const (BoolC True)) (rel_scan ''a'') (Filter (Const NullC) (rel_scan ''b c'')))))
   = Inr [\<lparr>tag = JoinOrder, targets = [target_ordered [target_identifier (simple_rid ''a''),
            target_identifier (simple_rid ''b c'')]]\<rparr>,
          \<lparr>tag = SeqScan, targets = [target_identifier (simple_rid ''a''), target_identifier (simple_rid ''b c'')]\<rparr>]"
proof -
  let ?e = "Join Inner (Const (BoolC True)) (rel_scan ''a'') (Filter (Const NullC) (rel_scan ''b c''))"
  have "list_all ident_ok (scan_names ?e)" "join_count ?e \<le> MAX_NESTING_DEPTH" by code_simp+
  moreover have "length (scan_names ?e) < 2 ^ 32" by (simp add: rel_scan_def)
  ultimately have "parse_advice (render_advice (emit_advice ?e)) = Inr (emit_advice ?e)"
    by (rule emit_render_parse)
  moreover have "emit_advice ?e = [\<lparr>tag = JoinOrder, targets = [target_ordered [target_identifier (simple_rid ''a''),
            target_identifier (simple_rid ''b c'')]]\<rparr>,
          \<lparr>tag = SeqScan, targets = [target_identifier (simple_rid ''a''), target_identifier (simple_rid ''b c'')]\<rparr>]"
    by code_simp
  ultimately show ?thesis by (simp only:)
qed

end
