(* ===== verification/Advice_Validate.thy ===== *)
theory Advice_Validate
  imports Advice_Emit Advice_Mask
begin

text \<open>
  The validation of supplied plan advice against the plan that was produced
  (\<^verbatim>\<open>crates/ra-engine/src/plan_advice_validate.rs\<close>): per item, the feedback flags that say
  whether its targets occur in the plan and, for a join order, whether the plan follows it.
\<close>

subsection \<open>The identifiers of an item and the aliases of a plan\<close>

text \<open>The vector of names in order of first occurrence and the set of names seen.\<close>

type_synonym ident_state = "string list \<times> string set"

fun walk_target :: "advice_target \<Rightarrow> ident_state \<Rightarrow> ident_state" where
  "walk_target (AdviceTarget kind rid cs idx) acc = (case kind of
     Identifier \<Rightarrow> (case rid of
         Some i \<Rightarrow> (case acc of (out, seen) \<Rightarrow>
            if alias_name i \<notin> seen then (out @ [alias_name i], insert (alias_name i) seen) else acc)
       | None \<Rightarrow> acc)
   | OrderedList \<Rightarrow> foldl (\<lambda>acc c. walk_target c acc) acc cs
   | UnorderedList \<Rightarrow> foldl (\<lambda>acc c. walk_target c acc) acc cs)"

definition collect_target_identifiers :: "advice_target list \<Rightarrow> string list" where
  "collect_target_identifiers ts = fst (foldl (\<lambda>acc t. walk_target t acc) ([], {}) ts)"

function alias_walk :: "rel_expr \<Rightarrow> string set \<Rightarrow> string set" where
  "alias_walk e out = (case e of
     Scan table alias only \<Rightarrow> insert (case alias of Some a \<Rightarrow> a | None \<Rightarrow> table) out
   | _ \<Rightarrow> foldl (\<lambda>out c. alias_walk c out) out (children e))"
  by pat_completeness auto
termination
  by (relation "measure (\<lambda>(e, out). size e)")
    (auto intro: children_smaller simp: less_Suc_eq_le size_list_estimation' [where f = size, OF _ order_refl])

declare alias_walk.simps [simp del]

definition collect_aliases :: "rel_expr \<Rightarrow> string set" where
  "collect_aliases e = alias_walk e {}"

function collect_outer_deep_order :: "rel_expr \<Rightarrow> string list" where
  "collect_outer_deep_order e = (case e of
     Scan table alias only \<Rightarrow> [case alias of Some a \<Rightarrow> a | None \<Rightarrow> table]
   | Join jt cond left right \<Rightarrow> collect_outer_deep_order left @ collect_outer_deep_order right
   | Filter p input \<Rightarrow> collect_outer_deep_order input
   | Project cs input \<Rightarrow> collect_outer_deep_order input
   | Sort keys input \<Rightarrow> collect_outer_deep_order input
   | Limit n k input \<Rightarrow> collect_outer_deep_order input
   | Aggregate gs ags input \<Rightarrow> collect_outer_deep_order input
   | Window fs input \<Rightarrow> collect_outer_deep_order input
   | Distinct input \<Rightarrow> collect_outer_deep_order input
   | _ \<Rightarrow> concat (map collect_outer_deep_order (children e)))"
  by pat_completeness auto
termination
  by (relation "measure size")
    (auto intro: children_smaller simp: less_Suc_eq_le size_list_estimation' [where f = size, OF _ order_refl])

declare collect_outer_deep_order.simps [simp del]

subsection \<open>Classification\<close>

text \<open>How many of the identifiers occur as base scans (\<^verbatim>\<open>.filter(..).count()\<close>).\<close>

definition count_present :: "string list \<Rightarrow> string set \<Rightarrow> nat" where
  "count_present ids aliases = length (filter (\<lambda>i. i \<in> aliases) ids)"

definition classify_do_not_scan :: "string list \<Rightarrow> string set \<Rightarrow> feedback_flags" where
  "classify_do_not_scan ids aliases =
    (if ids = [] then fb_empty
     else let total = length ids; still_present = count_present ids aliases in
       if still_present = 0 then fb_with (fb_with fb_empty FB_MATCH_PARTIAL) FB_MATCH_FULL
       else if still_present = total then fb_with fb_empty FB_FAILED
       else fb_with (fb_with fb_empty FB_MATCH_PARTIAL) FB_FAILED)"

definition classify_foreign_join :: "string list \<Rightarrow> string set \<Rightarrow> feedback_flags" where
  "classify_foreign_join ids aliases =
    (if ids = [] then fb_with fb_empty FB_FAILED
     else if list_ex (\<lambda>i. i \<in> aliases) ids then fb_with (fb_with fb_empty FB_MATCH_PARTIAL) FB_FAILED
     else fb_with fb_empty FB_FAILED)"

definition classify_item :: "advice_item \<Rightarrow> rel_expr \<Rightarrow> string set \<Rightarrow> feedback_flags" where
  "classify_item item plan aliases =
    (let ids = collect_target_identifiers (targets item) in
     if tag item = DoNotScan then classify_do_not_scan ids aliases
     else if tag item = ForeignJoin then classify_foreign_join ids aliases
     else if ids = [] then fb_empty
     else let total = length ids; matched = count_present ids aliases in
       if matched = 0 then fb_empty
       else
         let flags = fb_with fb_empty FB_MATCH_PARTIAL;
             flags = (if matched = total then fb_with flags FB_MATCH_FULL else flags)
         in if tag item = JoinOrder \<and> take (length ids) (collect_outer_deep_order plan) \<noteq> ids
            then fb_with flags FB_FAILED else flags)"

record advice_item_feedback =
  fb_item :: advice_item
  fb_flags :: feedback_flags

definition validate_advice :: "advice \<Rightarrow> rel_expr \<Rightarrow> advice_item_feedback list" where
  "validate_advice adv plan =
    (let aliases = collect_aliases plan
     in map (\<lambda>item. \<lparr>fb_item = item, fb_flags = classify_item item plan aliases\<rparr>) adv)"

subsection \<open>What the walks collect\<close>

lemma outer_deep_order_names [simp]: "collect_outer_deep_order e = scan_names e"
proof (induction e rule: children_induct)
  case (node e)
  show ?case
  proof (cases "is_scan e")
    case True
    then show ?thesis by (auto simp: collect_outer_deep_order.simps scan_name_def elim: is_scanE)
  next
    case False
    have "map collect_outer_deep_order (children e) = map scan_names (children e)"
      using node by simp
    moreover have "collect_outer_deep_order e = concat (map collect_outer_deep_order (children e))"
      using False by (subst collect_outer_deep_order.simps) (cases e; simp add: is_scan_def)
    ultimately show ?thesis using False by (metis scan_names_step)
  qed
qed

lemma alias_walk_names: "alias_walk e out = set (scan_names e) \<union> out"
proof (induction e arbitrary: out rule: children_induct)
  case (node e)
  show ?case
  proof (cases "is_scan e")
    case True
    then show ?thesis by (auto simp: alias_walk.simps scan_name_def elim!: is_scanE)
  next
    case False
    have "foldl (\<lambda>out c. alias_walk c out) out cs = (\<Union>c \<in> set cs. set (scan_names c)) \<union> out"
      if "set cs \<subseteq> set (children e)" for cs out
      using that by (induction cs arbitrary: out) (auto simp: node)
    moreover have "alias_walk e out = foldl (\<lambda>out c. alias_walk c out) out (children e)"
      using False by (subst alias_walk.simps) (cases e; simp add: is_scan_def)
    ultimately show ?thesis using False by (simp add: scan_names_step)
  qed
qed

lemma collect_aliases_names [simp]: "collect_aliases e = set (scan_names e)"
  by (simp add: collect_aliases_def alias_walk_names)

text \<open>The names of a target in order, with repetitions.\<close>

fun target_names :: "advice_target \<Rightarrow> string list" where
  "target_names (AdviceTarget kind rid cs idx) = (case kind of
     Identifier \<Rightarrow> (case rid of Some i \<Rightarrow> [alias_name i] | None \<Rightarrow> [])
   | _ \<Rightarrow> concat (map target_names cs))"

lemma target_names_simps [simp]:
  "target_names (target_identifier i) = [alias_name i]"
  "target_names (target_ordered cs) = concat (map target_names cs)"
  by (simp_all add: target_identifier_def target_ordered_def)

definition see_name :: "ident_state \<Rightarrow> string \<Rightarrow> ident_state" where
  "see_name acc n = (if n \<in> snd acc then acc else (fst acc @ [n], insert n (snd acc)))"

lemma see_name_pair: "see_name (out, seen) n = (if n \<in> seen then (out, seen) else (out @ [n], insert n seen))"
  by (simp add: see_name_def)

lemma walk_target_names: "walk_target t acc = foldl see_name acc (target_names t)"
proof (induction t arbitrary: acc)
  case (AdviceTarget kind rid cs idx)
  have "foldl (\<lambda>acc c. walk_target c acc) acc ds = foldl see_name acc (concat (map target_names ds))"
    if "set ds \<subseteq> set cs" for ds acc
    using that by (induction ds arbitrary: acc) (simp_all add: AdviceTarget)
  from this [of cs] show ?case
    by (cases kind; cases rid; cases acc) (simp_all add: see_name_pair)
qed

lemma see_names:
  "foldl see_name ([], {}) ns = (rev (remdups (rev ns)), set ns)"
  by (induction ns rule: rev_induct) (auto simp: see_name_def)

text \<open>The collected identifiers are the distinct names of the targets, by first occurrence.\<close>

lemma collect_target_identifiers_names:
  "collect_target_identifiers ts = rev (remdups (rev (concat (map target_names ts))))"
proof -
  have "foldl (\<lambda>acc t. walk_target t acc) acc ts = foldl see_name acc (concat (map target_names ts))" for acc
    by (induction ts arbitrary: acc) (simp_all add: walk_target_names)
  then show ?thesis by (simp add: collect_target_identifiers_def see_names)
qed

lemma collect_target_identifiers_distinct:
  "distinct (concat (map target_names ts)) \<Longrightarrow> collect_target_identifiers ts = concat (map target_names ts)"
  by (simp add: collect_target_identifiers_names distinct_remdups_id)

lemma collect_target_identifiers_set:
  "set (collect_target_identifiers ts) = set (concat (map target_names ts))"
  by (simp add: collect_target_identifiers_names)

subsection \<open>The flags that can come out\<close>

lemma fb_flag_contains:
  "fb_contains fb_empty f = False"
  "fb_contains FB_MATCH_PARTIAL FB_MATCH_PARTIAL" "\<not> fb_contains FB_MATCH_PARTIAL FB_MATCH_FULL"
  "\<not> fb_contains FB_MATCH_PARTIAL FB_FAILED" "\<not> fb_contains FB_MATCH_PARTIAL FB_INAPPLICABLE"
  "\<not> fb_contains FB_MATCH_PARTIAL FB_CONFLICTING"
  "fb_contains FB_MATCH_FULL FB_MATCH_FULL" "\<not> fb_contains FB_MATCH_FULL FB_MATCH_PARTIAL"
  "\<not> fb_contains FB_MATCH_FULL FB_FAILED" "\<not> fb_contains FB_MATCH_FULL FB_INAPPLICABLE"
  "\<not> fb_contains FB_MATCH_FULL FB_CONFLICTING"
  "fb_contains FB_FAILED FB_FAILED" "\<not> fb_contains FB_FAILED FB_MATCH_PARTIAL"
  "\<not> fb_contains FB_FAILED FB_MATCH_FULL" "\<not> fb_contains FB_FAILED FB_INAPPLICABLE"
  "\<not> fb_contains FB_FAILED FB_CONFLICTING"
  by (simp_all add: fb_contains_def fb_empty_def fb_bit_defs)

lemmas classify_defs = classify_item_def classify_do_not_scan_def classify_foreign_join_def

text \<open>Every present identifier counted: all of them exactly when the list is within the
  aliases.\<close>

lemma count_present_simps:
  "count_present ids aliases = 0 \<longleftrightarrow> set ids \<inter> aliases = {}"
  "count_present ids aliases = length ids \<longleftrightarrow> set ids \<subseteq> aliases"
  by (auto simp: count_present_def filter_empty_conv)
    (metis filter_id_conv length_filter_less nat_less_le subsetD)+

lemma disjoint_and_subset: "set ids \<subseteq> A \<Longrightarrow> set ids \<inter> A = {} \<Longrightarrow> ids = []"
  by (cases ids) auto

lemma classify_item_full:
  "fb_contains (classify_item item plan (collect_aliases plan)) FB_MATCH_FULL \<longleftrightarrow>
     (let ids = collect_target_identifiers (targets item) in
      ids \<noteq> [] \<and> tag item \<noteq> ForeignJoin
      \<and> (if tag item = DoNotScan then set ids \<inter> set (scan_names plan) = {}
         else set ids \<subseteq> set (scan_names plan)))"
  by (auto simp: classify_defs Let_def count_present_simps fb.contains_with fb_flag_contains
      dest: disjoint_and_subset)

text \<open>The feedback is consistent: one entry per item in the order of the document; a
  full match is also a partial match; nothing is reported inapplicable or conflicting; and only
  the two negative classifications (DO_NOT_SCAN, FOREIGN_JOIN) fail without a match.\<close>

lemma validate_advice_flags:
  "map fb_item (validate_advice adv plan) = adv
   \<and> list_all (\<lambda>f. let w = fb_flags f in
        (fb_contains w FB_MATCH_FULL \<longrightarrow> fb_contains w FB_MATCH_PARTIAL)
        \<and> \<not> fb_contains w FB_INAPPLICABLE \<and> \<not> fb_contains w FB_CONFLICTING
        \<and> (fb_contains w FB_FAILED \<longrightarrow> fb_contains w FB_MATCH_PARTIAL
             \<or> tag (fb_item f) = DoNotScan \<or> tag (fb_item f) = ForeignJoin))
      (validate_advice adv plan)"
  by (auto simp: validate_advice_def list_all_iff Let_def comp_def classify_defs
      fb.contains_with fb_flag_contains)

lemma validate_advice_flags_witness:
  "fb_contains (fb_flags (hd (validate_advice [\<lparr>tag = SeqScan, targets = [target_identifier (simple_rid ''a'')]\<rparr>]
      (rel_scan ''a'')))) FB_MATCH_PARTIAL"
proof -
  let ?f = "hd (validate_advice [\<lparr>tag = SeqScan, targets = [target_identifier (simple_rid ''a'')]\<rparr>] (rel_scan ''a''))"
  have "fb_contains (fb_flags ?f) FB_MATCH_FULL" by code_simp
  moreover have "?f \<in> set (validate_advice [\<lparr>tag = SeqScan, targets = [target_identifier (simple_rid ''a'')]\<rparr>] (rel_scan ''a''))"
    by (simp add: validate_advice_def)
  ultimately show ?thesis
    using validate_advice_flags [of "[\<lparr>tag = SeqScan, targets = [target_identifier (simple_rid ''a'')]\<rparr>]" "rel_scan ''a''"]
    unfolding list_all_iff Let_def by blast
qed

subsection \<open>Validating what was emitted\<close>

text \<open>A single join tree: base scans under joins and the operators the emitter looks through.\<close>

fun join_tree :: "rel_expr \<Rightarrow> bool" where
  "join_tree (Scan tb a only) = True"
| "join_tree (Join jt cond l r) = (join_tree l \<and> join_tree r)"
| "join_tree (Filter p i) = join_tree i"
| "join_tree (Project cs i) = join_tree i"
| "join_tree (Sort keys i) = join_tree i"
| "join_tree (Limit n k i) = join_tree i"
| "join_tree (Distinct i) = join_tree i"
| "join_tree _ = False"

text \<open>Of a join tree, the emitted join order names every scan, in order.\<close>

lemma join_member_names:
  "join_tree e \<Longrightarrow>
     inline_outer_into e \<noteq> []
     \<and> concat (map target_names (inline_outer_into e)) = scan_names e
     \<and> (\<exists>t. render_join_member e = Some t \<and> target_names t = scan_names e)"
proof (induction e rule: join_tree.induct)
  case (2 jt cond l r)
  then obtain t where t: "render_join_member r = Some t" "target_names t = scan_names r" by auto
  moreover have "inline_outer_into l \<noteq> []" "concat (map target_names (inline_outer_into l)) = scan_names l"
    using 2 by auto
  moreover have "\<not> length (inline_outer_into l) + 1 < 2"
    using \<open>inline_outer_into l \<noteq> []\<close> by (cases "inline_outer_into l") auto
  ultimately show ?case by (simp add: Let_def opt_list_def)
qed (auto simp: inline_outer_member is_join_node_def simple_rid_def opt_list_def)

lemma collect_join_orders_names:
  "join_tree e \<Longrightarrow> t \<in> set (collect_join_orders e) \<Longrightarrow> target_names t = scan_names e"
proof (induction e rule: join_tree.induct)
  case (2 jt cond l r)
  have "render_join (Join jt cond l r) = Some t"
    using 2(4) by (auto simp: collect_join_orders.simps split: option.splits)
  with join_member_names [of "Join jt cond l r"] 2(3) show ?case by auto
qed (simp_all add: collect_join_orders.simps)

lemma scan_target_names:
  "map alias_name (collect_scans e) = scan_names e"
  by (simp add: collect_scans_numbered comp_def numbered_def map_nth)

lemma emitted_identifiers:
  assumes "join_tree e" "distinct (scan_names e)" "item \<in> set (emit_advice e)"
  shows "collect_target_identifiers (targets item) = scan_names e
    \<and> (tag item = JoinOrder \<or> tag item = SeqScan)"
proof -
  have "concat (map target_names (map target_identifier rs)) = map alias_name rs" for rs
    by (induction rs) simp_all
  with assms have "concat (map target_names (targets item)) = scan_names e"
    by (auto simp: emit_advice_def Let_def collect_join_orders_names scan_target_names split: if_splits)
  moreover from assms(3) have "tag item = JoinOrder \<or> tag item = SeqScan"
    by (auto simp: emit_advice_def Let_def split: if_splits)
  ultimately show ?thesis using assms(2) by (simp add: collect_target_identifiers_distinct)
qed

lemma scan_names_nonempty: "join_tree e \<Longrightarrow> scan_names e \<noteq> []"
  by (induction e rule: join_tree.induct) simp_all

text \<open>Claim C6. The three parts of plan advice fit together: for a join tree whose scans have
  distinct names that survive the scanner, the emitted document, printed, parsed again and
  validated against the same plan, is reported as matched item by item.\<close>

theorem emitted_advice_matched:
  assumes "join_tree e" "distinct (scan_names e)" "list_all ident_ok (scan_names e)"
    and "join_count e \<le> MAX_NESTING_DEPTH" "length (scan_names e) < 2 ^ 32"
  shows "\<exists>adv. parse_advice (render_advice (emit_advice e)) = Inr adv \<and> adv = emit_advice e
    \<and> list_all (\<lambda>f. format_feedback (fb_flags f) = ''matched'') (validate_advice adv e)"
proof -
  have "format_feedback (classify_item item e (collect_aliases e)) = ''matched''"
    if "item \<in> set (emit_advice e)" for item
  proof -
    note ids = emitted_identifiers [OF assms(1,2) that]
    have "classify_item item e (collect_aliases e) = fb_with (fb_with fb_empty FB_MATCH_PARTIAL) FB_MATCH_FULL"
      using ids scan_names_nonempty [OF assms(1)]
      by (auto simp: classify_item_def Let_def count_present_simps)
    then show ?thesis by (simp add: format_feedback_def fb.contains_with fb_flag_contains)
  qed
  moreover have "parse_advice (render_advice (emit_advice e)) = Inr (emit_advice e)"
    using assms(3-5) by (intro render_parse emit_items_ok)
  ultimately show ?thesis by (simp add: validate_advice_def list_all_iff Let_def)
qed

theorem emitted_advice_matched_witness:
  "\<exists>adv. parse_advice (''JOIN_ORDER((a \"b c\")) SEQ_SCAN(a \"b c\")'') = Inr adv
    \<and> list_all (\<lambda>f. format_feedback (fb_flags f) = ''matched'')
        (validate_advice adv (Join Inner (Const (BoolC True)) (rel_scan ''a'') (Filter (Const NullC) (rel_scan ''b c''))))"
proof -
  let ?e = "Join Inner (Const (BoolC True)) (rel_scan ''a'') (Filter (Const NullC) (rel_scan ''b c''))"
  have "join_tree ?e" "distinct (scan_names ?e)" "list_all ident_ok (scan_names ?e)"
    "join_count ?e \<le> MAX_NESTING_DEPTH" by code_simp+
  moreover have "length (scan_names ?e) < 2 ^ 32" by (simp add: rel_scan_def)
  ultimately have "\<exists>adv. parse_advice (render_advice (emit_advice ?e)) = Inr adv \<and> adv = emit_advice ?e
    \<and> list_all (\<lambda>f. format_feedback (fb_flags f) = ''matched'') (validate_advice adv ?e)"
    by (rule emitted_advice_matched)
  moreover have "render_advice (emit_advice ?e) = ''JOIN_ORDER((a \"b c\")) SEQ_SCAN(a \"b c\")''"
    by code_simp
  ultimately show ?thesis by auto
qed

text \<open>Outside these conditions emitted advice can be reported as failed on its own plan: two
  join problems under a UNION, of which only the first is a prefix of the plan's order, and a
  relation that is joined with itself, whose second mention is dropped.\<close>

definition own_feedback :: "rel_expr \<Rightarrow> string list" where
  "own_feedback e = map (\<lambda>f. format_feedback (fb_flags f)) (validate_advice (emit_advice e) e)"

lemma union_advice_failed:
  "own_feedback (UnionOp True
      (Join Inner (Const (BoolC True)) (rel_scan ''a'') (rel_scan ''b''))
      (Join Inner (Const (BoolC True)) (rel_scan ''c'') (rel_scan ''d'')))
    = [''matched'', ''matched, failed'', ''matched'']"
  by code_simp

lemma self_join_advice_failed:
  "own_feedback (Join Inner (Const (BoolC True))
      (Join Inner (Const (BoolC True)) (rel_scan ''a'') (rel_scan ''a'')) (rel_scan ''b''))
    = [''matched, failed'', ''matched'']"
  by code_simp

end
