(* ===== verification/Statistics.thy ===== *)
theory Statistics
  imports Prelude
begin

text \<open>
  Statistics of tables (\<^verbatim>\<open>crates/ra-core/src/statistics.rs\<close>) as far as the modelled decisions
  read them, and the arithmetic on 64-bit floats they are computed with. The arithmetic is a
  parameter, the record \<open>f64_ops\<close> over a type variable of floats: every theorem that mentions it
  holds for IEEE 754 arithmetic because it holds for all of them. A hash map that the code
  iterates is the list of its entries in the order of the iteration.
\<close>

text \<open>\<^verbatim>\<open>f64_200\<close>, \<^verbatim>\<open>f64_epsilon\<close> are the literals \<^verbatim>\<open>200.0\<close> and \<^verbatim>\<open>1e-10\<close>.\<close>

record 'f f64_ops =
  f64_lt :: "'f \<Rightarrow> 'f \<Rightarrow> bool"
  f64_le :: "'f \<Rightarrow> 'f \<Rightarrow> bool"
  f64_add :: "'f \<Rightarrow> 'f \<Rightarrow> 'f"
  f64_sub :: "'f \<Rightarrow> 'f \<Rightarrow> 'f"
  f64_mul :: "'f \<Rightarrow> 'f \<Rightarrow> 'f"
  f64_div :: "'f \<Rightarrow> 'f \<Rightarrow> 'f"
  f64_max :: "'f \<Rightarrow> 'f \<Rightarrow> 'f"
  f64_ln :: "'f \<Rightarrow> 'f"
  f64_midpoint :: "'f \<Rightarrow> 'f \<Rightarrow> 'f"
  f64_sum :: "'f list \<Rightarrow> 'f"
  f64_zero :: 'f
  f64_one :: 'f
  f64_200 :: 'f
  f64_epsilon :: 'f
  f64_max_value :: 'f

datatype index_type = BTreeIndex | HashIndex | GistIndex | GinIndex | SpGistIndex | BrinIndex | RumIndex
  | BitmapIndex | IVFFlatIndex | HNSWIndex | UnknownIndex

record index_stats =
  ix_columns :: "string list"
  ix_is_unique :: bool
  ix_is_primary :: bool
  ix_type :: index_type

record 'f histogram_bucket =
  hb_upper_bound :: string
  hb_row_count :: 'f
  hb_distinct_count :: 'f

datatype 'f histogram = EquiWidth "'f histogram_bucket list" | EquiDepth "'f histogram_bucket list" 'f

record 'f column_stats =
  distinct_count :: 'f
  null_fraction :: 'f
  col_histogram :: "'f histogram option"

record 'f statistics =
  row_count :: 'f
  columns :: "(string \<times> 'f column_stats) list"
  indexes :: "(string \<times> index_stats) list"


text \<open>An arithmetic to evaluate examples with: integers in place of floats.\<close>

definition int_ops :: "int f64_ops" where
  "int_ops = \<lparr>f64_lt = (<), f64_le = (\<le>), f64_add = (+), f64_sub = (-), f64_mul = (*), f64_div = (div),
     f64_max = max, f64_ln = id, f64_midpoint = (\<lambda>a b. (a + b) div 2), f64_sum = sum_list, f64_zero = 0,
     f64_one = 1, f64_200 = 200, f64_epsilon = 0, f64_max_value = 1000000\<rparr>"

end
