(* ===== verification/Advice_Choices.thy ===== *)
theory Advice_Choices
  imports Advice_Emit Statistics "HOL-Library.AList"
begin

text \<open>
  The physical choices of plan advice (\<^verbatim>\<open>crates/ra-engine/src/plan_advice_physical.rs\<close>) and the
  rule groups it demotes (\<^verbatim>\<open>plan_advice_honor.rs\<close>): advice compiled to a strategy per alias,
  later mentions overriding earlier ones, and the cost-driven defaults that are laid under it.
  The three hash maps are association lists updated with \<^const>\<open>AList.update\<close>; a hash map that
  the code iterates (the indexes and the column statistics) is the list of its entries in the
  order of the iteration, over which every theorem quantifies.

  Two things are parameters: the arithmetic on 64-bit floats (\<open>f64_ops\<close>, whose type of floats is
  a type variable) and \<^verbatim>\<open>str::to_lowercase\<close>, the Unicode table. The theorems hold for every
  such parameter.
\<close>

subsection \<open>Strategies\<close>

datatype scan_strategy = SeqStrategy
  | IndexStrategy "string option" string
  | IndexOnlyStrategy "string option" string
  | BitmapHeapStrategy | TidStrategy | DoNotScanStrategy

datatype join_inner_strategy = HashStrategy | MergeJoinPlainStrategy | MergeJoinMaterializeStrategy
  | NestedLoopPlainStrategy | NestedLoopMaterializeStrategy | NestedLoopMemoizeStrategy
  | ForeignJoinStrategy

datatype parallel_strategy = GatherStrategy | GatherMergeStrategy | NoGatherStrategy

record physical_choices =
  pch_scans :: "(string \<times> scan_strategy) list"
  pch_joins :: "(string \<times> join_inner_strategy) list"
  pch_parallel :: "(string \<times> parallel_strategy) list"

definition choices_new :: physical_choices where
  "choices_new = \<lparr>pch_scans = [], pch_joins = [], pch_parallel = []\<rparr>"

definition scan_for :: "physical_choices \<Rightarrow> string \<Rightarrow> scan_strategy option" where
  "scan_for c a = map_of (pch_scans c) a"

definition set_scan :: "physical_choices \<Rightarrow> string \<Rightarrow> scan_strategy \<Rightarrow> physical_choices" where
  "set_scan c a s = c\<lparr>pch_scans := AList.update a s (pch_scans c)\<rparr>"

definition join_for :: "physical_choices \<Rightarrow> string \<Rightarrow> join_inner_strategy option" where
  "join_for c a = map_of (pch_joins c) a"

definition set_join :: "physical_choices \<Rightarrow> string \<Rightarrow> join_inner_strategy \<Rightarrow> physical_choices" where
  "set_join c a s = c\<lparr>pch_joins := AList.update a s (pch_joins c)\<rparr>"

definition parallel_for :: "physical_choices \<Rightarrow> string \<Rightarrow> parallel_strategy option" where
  "parallel_for c a = map_of (pch_parallel c) a"

definition set_parallel :: "physical_choices \<Rightarrow> string \<Rightarrow> parallel_strategy \<Rightarrow> physical_choices" where
  "set_parallel c a s = c\<lparr>pch_parallel := AList.update a s (pch_parallel c)\<rparr>"

definition choices_is_empty :: "physical_choices \<Rightarrow> bool" where
  "choices_is_empty c \<longleftrightarrow> pch_scans c = [] \<and> pch_joins c = [] \<and> pch_parallel c = []"

definition choices_len :: "physical_choices \<Rightarrow> nat" where
  "choices_len c = length (pch_scans c) + length (pch_joins c) + length (pch_parallel c)"

subsection \<open>Compiling advice\<close>

fun flatten_aliases :: "advice_target \<Rightarrow> string list" where
  "flatten_aliases (AdviceTarget kind rid cs idx) = (case kind of
     Identifier \<Rightarrow> (case rid of Some i \<Rightarrow> [alias_name i] | None \<Rightarrow> [])
   | OrderedList \<Rightarrow> concat (map flatten_aliases cs)
   | UnorderedList \<Rightarrow> concat (map flatten_aliases cs))"

definition apply_scan ::
  "(index_target option \<Rightarrow> scan_strategy) \<Rightarrow> advice_target list \<Rightarrow> physical_choices \<Rightarrow> physical_choices" where
  "apply_scan mk ts out =
     fold (\<lambda>t out. fold (\<lambda>a out. set_scan out a (mk (tgt_index t))) (flatten_aliases t) out) ts out"

definition apply_join ::
  "join_inner_strategy \<Rightarrow> advice_target list \<Rightarrow> physical_choices \<Rightarrow> physical_choices" where
  "apply_join s ts out = fold (\<lambda>t out. fold (\<lambda>a out. set_join out a s) (flatten_aliases t) out) ts out"

definition apply_parallel ::
  "parallel_strategy \<Rightarrow> advice_target list \<Rightarrow> physical_choices \<Rightarrow> physical_choices" where
  "apply_parallel s ts out = fold (\<lambda>t out. fold (\<lambda>a out. set_parallel out a s) (flatten_aliases t) out) ts out"

definition index_or_default :: "index_target option \<Rightarrow> index_target" where
  "index_or_default i = (case i of Some x \<Rightarrow> x | None \<Rightarrow> \<lparr>it_schema = None, it_name = []\<rparr>)"

definition apply_advice_item :: "advice_item \<Rightarrow> physical_choices \<Rightarrow> physical_choices" where
  "apply_advice_item item out = (case tag item of
     SeqScan \<Rightarrow> apply_scan (\<lambda>_. SeqStrategy) (targets item) out
   | BitmapHeapScan \<Rightarrow> apply_scan (\<lambda>_. BitmapHeapStrategy) (targets item) out
   | TidScan \<Rightarrow> apply_scan (\<lambda>_. TidStrategy) (targets item) out
   | DoNotScan \<Rightarrow> apply_scan (\<lambda>_. DoNotScanStrategy) (targets item) out
   | IndexScan \<Rightarrow> apply_scan (\<lambda>idx. let i = index_or_default idx in IndexStrategy (it_schema i) (it_name i)) (targets item) out
   | IndexOnlyScan \<Rightarrow> apply_scan (\<lambda>idx. let i = index_or_default idx in IndexOnlyStrategy (it_schema i) (it_name i)) (targets item) out
   | HashJoin \<Rightarrow> apply_join HashStrategy (targets item) out
   | MergeJoinPlain \<Rightarrow> apply_join MergeJoinPlainStrategy (targets item) out
   | MergeJoinMaterialize \<Rightarrow> apply_join MergeJoinMaterializeStrategy (targets item) out
   | NestedLoopPlain \<Rightarrow> apply_join NestedLoopPlainStrategy (targets item) out
   | NestedLoopMaterialize \<Rightarrow> apply_join NestedLoopMaterializeStrategy (targets item) out
   | NestedLoopMemoize \<Rightarrow> apply_join NestedLoopMemoizeStrategy (targets item) out
   | ForeignJoin \<Rightarrow> fold (\<lambda>t out. fold (\<lambda>a out. set_join out a ForeignJoinStrategy) (flatten_aliases t) out) (targets item) out
   | Gather \<Rightarrow> apply_parallel GatherStrategy (targets item) out
   | GatherMerge \<Rightarrow> apply_parallel GatherMergeStrategy (targets item) out
   | NoGather \<Rightarrow> apply_parallel NoGatherStrategy (targets item) out
   | JoinOrder \<Rightarrow> out
   | Partitionwise \<Rightarrow> out
   | SemijoinUnique \<Rightarrow> out
   | SemijoinNonUnique \<Rightarrow> out)"

definition from_advice :: "advice \<Rightarrow> physical_choices" where
  "from_advice adv = fold apply_advice_item adv choices_new"

text \<open>The loop iterates the other map and keeps the entries that are there.\<close>

definition fill_missing_joins :: "physical_choices \<Rightarrow> physical_choices \<Rightarrow> physical_choices" where
  "fill_missing_joins c other =
     fold (\<lambda>(a, s) c. if join_for c a = None then set_join c a s else c) (pch_joins other) c"

definition demoted_rule_groups :: "advice \<Rightarrow> string set" where
  "demoted_rule_groups adv =
     fold (\<lambda>item out. if tag item = JoinOrder then insert ''join-reordering'' out else out) adv {}"

subsection \<open>Equality columns and covered prefixes\<close>

definition as_column_name :: "expr \<Rightarrow> string option" where
  "as_column_name e = (case e of Column c \<Rightarrow> Some (cr_column c) | _ \<Rightarrow> None)"

fun collect_eq_columns :: "expr \<Rightarrow> string list" where
  "collect_eq_columns (BinOp Eq l r) = (case (as_column_name l, as_column_name r) of
     (Some c, None) \<Rightarrow> [c] | (None, Some c) \<Rightarrow> [c] | _ \<Rightarrow> [])"
| "collect_eq_columns (BinOp And l r) = collect_eq_columns l @ collect_eq_columns r"
| "collect_eq_columns _ = []"

fun covered_prefix_len :: "string list \<Rightarrow> string list \<Rightarrow> nat" where
  "covered_prefix_len [] eqs = 0"
| "covered_prefix_len (c # cs) eqs =
     (if list_ex (\<lambda>x. eq_ignore_ascii_case x c) eqs then Suc (covered_prefix_len cs eqs) else 0)"

definition is_btree_or_hash :: "index_type \<Rightarrow> bool" where
  "is_btree_or_hash k \<longleftrightarrow> k = BTreeIndex \<or> k = HashIndex"

fun column_selectivity :: "'f f64_ops \<Rightarrow> string \<Rightarrow> (string \<times> 'f column_stats) list \<Rightarrow> 'f" where
  "column_selectivity F col [] = f64_one F"
| "column_selectivity F col ((name, cs) # rest) =
     (if eq_ignore_ascii_case name col \<and> f64_lt F (f64_zero F) (distinct_count cs)
      then f64_div F (f64_max F (f64_sub F (f64_one F) (null_fraction cs)) (f64_zero F))
                     (f64_max F (distinct_count cs) (f64_one F))
      else column_selectivity F col rest)"

definition covered_prefix_selectivity :: "'f f64_ops \<Rightarrow> string list \<Rightarrow> 'f statistics \<Rightarrow> 'f" where
  "covered_prefix_selectivity F cols stats =
     foldl (\<lambda>acc col. f64_mul F acc (column_selectivity F col (columns stats))) (f64_one F) cols"

subsection \<open>The choice of an index\<close>

text \<open>A candidate: name, covered prefix, tie-break rank, selectivity.\<close>

type_synonym 'f candidate = "string \<times> nat \<times> nat \<times> 'f"

definition tie_break_rank :: "index_stats \<Rightarrow> nat" where
  "tie_break_rank ix = (if ix_is_primary ix then 2 else if ix_is_unique ix then 1 else 0)"

definition best_index_step ::
  "'f f64_ops \<Rightarrow> 'f statistics \<Rightarrow> string list \<Rightarrow> string \<times> index_stats \<Rightarrow> 'f candidate option \<Rightarrow> 'f candidate option" where
  "best_index_step F stats eqs entry best = (case entry of (idx_name, ix) \<Rightarrow>
     if \<not> is_btree_or_hash (ix_type ix) then best
     else let prefix_len = covered_prefix_len (ix_columns ix) eqs in
       if prefix_len = 0 then best
       else let tie_break = tie_break_rank ix;
                selectivity = covered_prefix_selectivity F (take prefix_len (ix_columns ix)) stats;
                candidate = (idx_name, prefix_len, tie_break, selectivity)
            in (case best of
                  None \<Rightarrow> Some candidate
                | Some (_, cur_len, cur_tie, cur_sel) \<Rightarrow>
                    if cur_len < prefix_len
                       \<or> (prefix_len = cur_len \<and> cur_tie < tie_break)
                       \<or> (prefix_len = cur_len \<and> tie_break = cur_tie \<and> f64_lt F selectivity cur_sel)
                    then Some candidate else best))"

type_synonym 'f table_stats = "string \<rightharpoonup> 'f statistics"

definition pick_scan_strategy ::
  "'f f64_ops \<Rightarrow> (string \<Rightarrow> string) \<Rightarrow> string \<Rightarrow> expr option \<Rightarrow> 'f table_stats \<Rightarrow> scan_strategy" where
  "pick_scan_strategy F lower table pred tstats = (case tstats (lower table) of
     None \<Rightarrow> SeqStrategy
   | Some stats \<Rightarrow>
       if f64_lt F (row_count stats) (f64_200 F) then SeqStrategy
       else (case pred of
         None \<Rightarrow> SeqStrategy
       | Some p \<Rightarrow>
           (let eqs = collect_eq_columns p in
            if eqs = [] then SeqStrategy
            else (case fold (best_index_step F stats eqs) (indexes stats) None of
                Some (name, _, _, _) \<Rightarrow> IndexStrategy None name
              | None \<Rightarrow> SeqStrategy))))"

subsection \<open>The cost-driven walks\<close>

function cd_collect_scans :: "rel_expr \<Rightarrow> expr option \<Rightarrow> (string \<times> string \<times> expr option) list" where
  "cd_collect_scans e pred = (case e of
     Scan table alias only \<Rightarrow> [(scan_name table alias, table, pred)]
   | Filter p input \<Rightarrow> cd_collect_scans input (Some p)
   | Project cs input \<Rightarrow> cd_collect_scans input pred
   | Sort keys input \<Rightarrow> cd_collect_scans input pred
   | Limit n k input \<Rightarrow> cd_collect_scans input pred
   | Aggregate gs ags input \<Rightarrow> cd_collect_scans input pred
   | Window fs input \<Rightarrow> cd_collect_scans input pred
   | Distinct input \<Rightarrow> cd_collect_scans input pred
   | Join jt cond left right \<Rightarrow> cd_collect_scans left None @ cd_collect_scans right None
   | UnionOp a left right \<Rightarrow> cd_collect_scans left None @ cd_collect_scans right None
   | IntersectOp a left right \<Rightarrow> cd_collect_scans left None @ cd_collect_scans right None
   | ExceptOp a left right \<Rightarrow> cd_collect_scans left None @ cd_collect_scans right None
   | CTE name defn body \<Rightarrow> cd_collect_scans defn None @ cd_collect_scans body None
   | _ \<Rightarrow> concat (map (\<lambda>c. cd_collect_scans c None) (children e)))"
  by pat_completeness auto
termination
  by (relation "measure (\<lambda>(e, p). size e)")
    (auto intro: children_smaller simp: less_Suc_eq_le size_list_estimation' [where f = size, OF _ order_refl])

declare cd_collect_scans.simps [simp del]

function inner_join_alias :: "rel_expr \<Rightarrow> string option" where
  "inner_join_alias e = (case e of
     Scan table alias only \<Rightarrow> Some (scan_name table alias)
   | Filter p input \<Rightarrow> inner_join_alias input
   | Project cs input \<Rightarrow> inner_join_alias input
   | Sort keys input \<Rightarrow> inner_join_alias input
   | Limit n k input \<Rightarrow> inner_join_alias input
   | Distinct input \<Rightarrow> inner_join_alias input
   | _ \<Rightarrow> None)"
  by pat_completeness auto
termination by (relation "measure size") auto

function leaf_table :: "rel_expr \<Rightarrow> string option" where
  "leaf_table e = (case e of
     Scan table alias only \<Rightarrow> Some table
   | Filter p input \<Rightarrow> leaf_table input
   | Project cs input \<Rightarrow> leaf_table input
   | Sort keys input \<Rightarrow> leaf_table input
   | Limit n k input \<Rightarrow> leaf_table input
   | Distinct input \<Rightarrow> leaf_table input
   | _ \<Rightarrow> None)"
  by pat_completeness auto
termination by (relation "measure size") auto

declare inner_join_alias.simps [simp del] leaf_table.simps [simp del]

fun is_equi_join :: "expr \<Rightarrow> bool" where
  "is_equi_join (BinOp Eq l r) = (as_column_name l \<noteq> None \<and> as_column_name r \<noteq> None)"
| "is_equi_join (BinOp And l r) = (is_equi_join l \<or> is_equi_join r)"
| "is_equi_join _ = False"

definition stats_row_count :: "(string \<Rightarrow> string) \<Rightarrow> 'f table_stats \<Rightarrow> string \<Rightarrow> 'f option" where
  "stats_row_count lower tstats table = map_option row_count (tstats (lower table))"

definition decide_join_strategy :: "'f f64_ops \<Rightarrow> 'f option \<Rightarrow> 'f option \<Rightarrow> bool \<Rightarrow> join_inner_strategy" where
  "decide_join_strategy F outer_rows inner_rows is_equi =
    (if \<not> is_equi then NestedLoopPlainStrategy
     else (case (outer_rows, inner_rows) of
         (Some a, Some b) \<Rightarrow> if f64_lt F (f64_mul F a b) (f64_add F a b) then NestedLoopPlainStrategy else HashStrategy
       | _ \<Rightarrow> HashStrategy))"

definition join_decision ::
  "'f f64_ops \<Rightarrow> (string \<Rightarrow> string) \<Rightarrow> 'f table_stats \<Rightarrow> rel_expr \<Rightarrow> (string \<times> join_inner_strategy) list" where
  "join_decision F lower tstats e = (case e of
     Join jt cond left right \<Rightarrow> (case inner_join_alias right of
         Some inner_alias \<Rightarrow>
           [(inner_alias, decide_join_strategy F
               (Option.bind (leaf_table left) (stats_row_count lower tstats))
               (Option.bind (leaf_table right) (stats_row_count lower tstats)) (is_equi_join cond))]
       | None \<Rightarrow> [])
   | _ \<Rightarrow> [])"

function collect_joins ::
  "'f f64_ops \<Rightarrow> (string \<Rightarrow> string) \<Rightarrow> 'f table_stats \<Rightarrow> rel_expr \<Rightarrow> (string \<times> join_inner_strategy) list" where
  "collect_joins F lower tstats e =
     join_decision F lower tstats e @ concat (map (collect_joins F lower tstats) (children e))"
  by pat_completeness auto
termination by (relation "measure (\<lambda>(F, lower, tstats, e). size e)") (auto intro: children_smaller)

declare collect_joins.simps [simp del]

definition walk_for_scans ::
  "'f f64_ops \<Rightarrow> (string \<Rightarrow> string) \<Rightarrow> rel_expr \<Rightarrow> 'f table_stats \<Rightarrow> physical_choices \<Rightarrow> physical_choices" where
  "walk_for_scans F lower e tstats c =
     fold (\<lambda>(alias, table, pred) c. if scan_for c alias \<noteq> None then c
             else set_scan c alias (pick_scan_strategy F lower table pred tstats))
       (cd_collect_scans e None) c"

definition walk_for_joins ::
  "'f f64_ops \<Rightarrow> (string \<Rightarrow> string) \<Rightarrow> rel_expr \<Rightarrow> 'f table_stats \<Rightarrow> physical_choices \<Rightarrow> physical_choices" where
  "walk_for_joins F lower e tstats c =
     fold (\<lambda>(inner_alias, s) c. if join_for c inner_alias \<noteq> None then c else set_join c inner_alias s)
       (collect_joins F lower tstats e) c"

definition augment_from_stats ::
  "'f f64_ops \<Rightarrow> (string \<Rightarrow> string) \<Rightarrow> physical_choices \<Rightarrow> rel_expr \<Rightarrow> 'f table_stats \<Rightarrow> physical_choices" where
  "augment_from_stats F lower c e tstats =
     walk_for_joins F lower e tstats (walk_for_scans F lower e tstats c)"

definition augment_join_strategies_from_stats ::
  "'f f64_ops \<Rightarrow> (string \<Rightarrow> string) \<Rightarrow> physical_choices \<Rightarrow> rel_expr \<Rightarrow> 'f table_stats \<Rightarrow> physical_choices" where
  "augment_join_strategies_from_stats F lower c e tstats = walk_for_joins F lower e tstats c"


subsection \<open>Later mentions win\<close>

lemmas set_defs = set_scan_def set_join_def set_parallel_def

text \<open>The entries a list of targets gives to an alias, in document order.\<close>

definition mentions :: "(index_target option \<Rightarrow> 's) \<Rightarrow> advice_target list \<Rightarrow> (string \<times> 's) list" where
  "mentions mk ts = concat (map (\<lambda>t. map (\<lambda>a. (a, mk (tgt_index t))) (flatten_aliases t)) ts)"

lemma mentions_simps [simp]:
  "mentions mk [] = []"
  "mentions mk (t # ts) = map (\<lambda>a. (a, mk (tgt_index t))) (flatten_aliases t) @ mentions mk ts"
  by (simp_all add: mentions_def)

text \<open>The shape the four nested loops of the code share: a list of updates, applied in order.\<close>

lemma update_all_eq:
  "fold (\<lambda>t m. fold (\<lambda>a m. m(a \<mapsto> mk (tgt_index t))) (flatten_aliases t) m) ts m = m ++ map_of (rev (mentions mk ts))"
proof -
  have one: "fold (\<lambda>a m. m(a \<mapsto> v)) as m = m ++ map_of (rev (map (\<lambda>a. (a, v)) as))" for as m and v :: 's
    by (induction as arbitrary: m) (simp_all add: map_add_assoc)
  show ?thesis by (induction ts arbitrary: m) (simp_all add: one map_add_assoc)
qed

lemma fold_commute_view:
  assumes "\<And>x s. view (f x s) = g x (view s)"
  shows "view (fold f xs s) = fold g xs (view s)"
  using assms by (induction xs arbitrary: s) simp_all

lemma fold_keeps_view:
  assumes "\<And>x s. view (f x s) = view s"
  shows "view (fold f xs s) = view s"
  using assms by (induction xs arbitrary: s) simp_all

abbreviation scans_of :: "physical_choices \<Rightarrow> string \<rightharpoonup> scan_strategy" where
  "scans_of c \<equiv> map_of (pch_scans c)"

abbreviation joins_of :: "physical_choices \<Rightarrow> string \<rightharpoonup> join_inner_strategy" where
  "joins_of c \<equiv> map_of (pch_joins c)"

abbreviation parallel_of :: "physical_choices \<Rightarrow> string \<rightharpoonup> parallel_strategy" where
  "parallel_of c \<equiv> map_of (pch_parallel c)"

lemma set_views [simp]:
  "scans_of (set_scan c a s) = (scans_of c)(a \<mapsto> s)" "joins_of (set_scan c a s) = joins_of c"
  "parallel_of (set_scan c a s) = parallel_of c"
  "joins_of (set_join c a j) = (joins_of c)(a \<mapsto> j)" "scans_of (set_join c a j) = scans_of c"
  "parallel_of (set_join c a j) = parallel_of c"
  "parallel_of (set_parallel c a p) = (parallel_of c)(a \<mapsto> p)" "scans_of (set_parallel c a p) = scans_of c"
  "joins_of (set_parallel c a p) = joins_of c"
  by (simp_all add: set_defs AList.update_conv')

lemma apply_scan_views [simp]:
  "scans_of (apply_scan mk ts c) = scans_of c ++ map_of (rev (mentions mk ts))"
  "joins_of (apply_scan mk ts c) = joins_of c" "parallel_of (apply_scan mk ts c) = parallel_of c"
  unfolding apply_scan_def update_all_eq [symmetric]
    apply (rule fold_commute_view [where view = scans_of], rule fold_commute_view [where view = scans_of], simp)
   apply (rule fold_keeps_view [where view = joins_of], rule fold_keeps_view [where view = joins_of], simp)
  apply (rule fold_keeps_view [where view = parallel_of], rule fold_keeps_view [where view = parallel_of], simp)
  done

lemma apply_join_views [simp]:
  "joins_of (apply_join j ts c) = joins_of c ++ map_of (rev (mentions (\<lambda>_. j) ts))"
  "scans_of (apply_join j ts c) = scans_of c" "parallel_of (apply_join j ts c) = parallel_of c"
  unfolding apply_join_def update_all_eq [symmetric]
    apply (rule fold_commute_view [where view = joins_of], rule fold_commute_view [where view = joins_of], simp)
   apply (rule fold_keeps_view [where view = scans_of], rule fold_keeps_view [where view = scans_of], simp)
  apply (rule fold_keeps_view [where view = parallel_of], rule fold_keeps_view [where view = parallel_of], simp)
  done

lemma apply_parallel_views [simp]:
  "parallel_of (apply_parallel p ts c) = parallel_of c ++ map_of (rev (mentions (\<lambda>_. p) ts))"
  "scans_of (apply_parallel p ts c) = scans_of c" "joins_of (apply_parallel p ts c) = joins_of c"
  unfolding apply_parallel_def update_all_eq [symmetric]
    apply (rule fold_commute_view [where view = parallel_of], rule fold_commute_view [where view = parallel_of], simp)
   apply (rule fold_keeps_view [where view = scans_of], rule fold_keeps_view [where view = scans_of], simp)
  apply (rule fold_keeps_view [where view = joins_of], rule fold_keeps_view [where view = joins_of], simp)
  done

text \<open>What the tags ask for, as tables.\<close>

definition scan_request :: "advice_item \<Rightarrow> (string \<times> scan_strategy) list" where
  "scan_request item = (case tag item of
     SeqScan \<Rightarrow> mentions (\<lambda>_. SeqStrategy) (targets item)
   | BitmapHeapScan \<Rightarrow> mentions (\<lambda>_. BitmapHeapStrategy) (targets item)
   | TidScan \<Rightarrow> mentions (\<lambda>_. TidStrategy) (targets item)
   | DoNotScan \<Rightarrow> mentions (\<lambda>_. DoNotScanStrategy) (targets item)
   | IndexScan \<Rightarrow> mentions (\<lambda>i. IndexStrategy (it_schema (index_or_default i)) (it_name (index_or_default i))) (targets item)
   | IndexOnlyScan \<Rightarrow> mentions (\<lambda>i. IndexOnlyStrategy (it_schema (index_or_default i)) (it_name (index_or_default i))) (targets item)
   | _ \<Rightarrow> [])"

definition join_request :: "advice_item \<Rightarrow> (string \<times> join_inner_strategy) list" where
  "join_request item = (case tag item of
     HashJoin \<Rightarrow> mentions (\<lambda>_. HashStrategy) (targets item)
   | MergeJoinPlain \<Rightarrow> mentions (\<lambda>_. MergeJoinPlainStrategy) (targets item)
   | MergeJoinMaterialize \<Rightarrow> mentions (\<lambda>_. MergeJoinMaterializeStrategy) (targets item)
   | NestedLoopPlain \<Rightarrow> mentions (\<lambda>_. NestedLoopPlainStrategy) (targets item)
   | NestedLoopMaterialize \<Rightarrow> mentions (\<lambda>_. NestedLoopMaterializeStrategy) (targets item)
   | NestedLoopMemoize \<Rightarrow> mentions (\<lambda>_. NestedLoopMemoizeStrategy) (targets item)
   | ForeignJoin \<Rightarrow> mentions (\<lambda>_. ForeignJoinStrategy) (targets item)
   | _ \<Rightarrow> [])"

definition parallel_request :: "advice_item \<Rightarrow> (string \<times> parallel_strategy) list" where
  "parallel_request item = (case tag item of
     Gather \<Rightarrow> mentions (\<lambda>_. GatherStrategy) (targets item)
   | GatherMerge \<Rightarrow> mentions (\<lambda>_. GatherMergeStrategy) (targets item)
   | NoGather \<Rightarrow> mentions (\<lambda>_. NoGatherStrategy) (targets item)
   | _ \<Rightarrow> [])"

lemma apply_advice_item_views:
  "scans_of (apply_advice_item item c) = scans_of c ++ map_of (rev (scan_request item))"
  "joins_of (apply_advice_item item c) = joins_of c ++ map_of (rev (join_request item))"
  "parallel_of (apply_advice_item item c) = parallel_of c ++ map_of (rev (parallel_request item))"
  by (cases "tag item";
      simp add: apply_advice_item_def scan_request_def join_request_def parallel_request_def Let_def
        flip: apply_join_def)+

lemma from_advice_views:
  "scans_of (fold apply_advice_item adv c) = scans_of c ++ map_of (rev (concat (map scan_request adv)))"
  "joins_of (fold apply_advice_item adv c) = joins_of c ++ map_of (rev (concat (map join_request adv)))"
  "parallel_of (fold apply_advice_item adv c) = parallel_of c ++ map_of (rev (concat (map parallel_request adv)))"
  by (induction adv arbitrary: c) (simp_all add: apply_advice_item_views map_add_assoc)

subsection \<open>Defaults under the advice\<close>

lemma scans_of_walk:
  "scans_of (fold (\<lambda>(a, t, p) c. if scan_for c a \<noteq> None then c else set_scan c a (d t p)) xs c)
     = map_of (map (\<lambda>(a, t, p). (a, d t p)) xs) ++ scans_of c"
proof (induction xs arbitrary: c)
  case (Cons x xs)
  then show ?case
    by (cases x) (auto simp: scan_for_def fun_eq_iff map_add_def split: option.splits)
qed simp

lemma joins_of_walk:
  "joins_of (fold (\<lambda>(a, s) c. if join_for c a \<noteq> None then c else set_join c a s) xs c)
     = map_of xs ++ joins_of c"
proof (induction xs arbitrary: c)
  case (Cons x xs)
  then show ?case
    by (cases x) (auto simp: join_for_def fun_eq_iff map_add_def split: option.splits)
qed simp

lemma walks_keep [simp]:
  "joins_of (walk_for_scans F lower e tstats c) = joins_of c"
  "parallel_of (walk_for_scans F lower e tstats c) = parallel_of c"
  "scans_of (walk_for_joins F lower e tstats c) = scans_of c"
  "parallel_of (walk_for_joins F lower e tstats c) = parallel_of c"
  unfolding walk_for_scans_def walk_for_joins_def
     apply (rule fold_keeps_view [where view = joins_of], simp split: prod.splits)
    apply (rule fold_keeps_view [where view = parallel_of], simp split: prod.splits)
   apply (rule fold_keeps_view [where view = scans_of], simp split: prod.splits)
  apply (rule fold_keeps_view [where view = parallel_of], simp split: prod.splits)
  done

lemma cd_collect_scans_names: "map fst (cd_collect_scans e p) = scan_names e"
proof (induction e arbitrary: p rule: children_induct)
  case (node e)
  then have IH: "concat (map (\<lambda>c. map fst (cd_collect_scans c q)) (children e)) = concat (map scan_names (children e))" for q
    by (intro arg_cong [where f = concat]) simp
  show ?case
    using IH [of None] IH [of p] node
    by (subst cd_collect_scans.simps, cases e) (simp_all add: scan_names_step is_scan_def map_concat comp_def)
qed


text \<open>The decisions for the base scans of a plan, first mention first.\<close>

definition scan_decisions ::
  "'f f64_ops \<Rightarrow> (string \<Rightarrow> string) \<Rightarrow> rel_expr \<Rightarrow> 'f table_stats \<Rightarrow> (string \<times> scan_strategy) list" where
  "scan_decisions F lower e tstats =
     map (\<lambda>(a, t, p). (a, pick_scan_strategy F lower t p tstats)) (cd_collect_scans e None)"

lemma scan_decisions_names: "map fst (scan_decisions F lower e tstats) = scan_names e"
  by (simp add: scan_decisions_def comp_def case_prod_unfold flip: cd_collect_scans_names [of e None])

text \<open>Claim C24. The choices handed to the plan builder: the last mention of an alias in the
  advice decides its scan, join and parallel strategy; an alias without a mention gets the
  cost-driven default of its first occurrence in the plan, and parallelism is only ever chosen by
  advice. In particular every base scan has a strategy, and advice is never overridden.\<close>

theorem physical_choices_of_advice:
  "let c = augment_from_stats F lower (from_advice adv) e tstats in
    scan_for c a = map_of (rev (concat (map scan_request adv)) @ scan_decisions F lower e tstats) a
    \<and> join_for c a = map_of (rev (concat (map join_request adv)) @ collect_joins F lower tstats e) a
    \<and> parallel_for c a = map_of (rev (concat (map parallel_request adv))) a
    \<and> (scan_for c a = None) = (a \<notin> fst ` set (concat (map scan_request adv)) \<union> set (scan_names e))"
proof -
  let ?c = "augment_from_stats F lower (from_advice adv) e tstats"
  have "scans_of ?c =
      map_of (rev (concat (map scan_request adv)) @ scan_decisions F lower e tstats)"
    unfolding augment_from_stats_def walks_keep walk_for_scans_def scan_decisions_def
    by (subst scans_of_walk) (simp add: from_advice_def from_advice_views choices_new_def)
  moreover have "joins_of ?c = map_of (rev (concat (map join_request adv)) @ collect_joins F lower tstats e)"
    unfolding augment_from_stats_def walk_for_joins_def
    by (subst joins_of_walk) (simp add: from_advice_def from_advice_views choices_new_def)
  moreover have "parallel_of ?c = map_of (rev (concat (map parallel_request adv)))"
    by (simp add: augment_from_stats_def from_advice_def from_advice_views choices_new_def)
  moreover have "fst ` set (scan_decisions F lower e tstats) = set (scan_names e)"
    by (metis scan_decisions_names list.set_map)
  then have "map_of (rev (concat (map scan_request adv)) @ scan_decisions F lower e tstats) a = None
      \<longleftrightarrow> a \<notin> fst ` set (concat (map scan_request adv)) \<union> set (scan_names e)"
    by (simp only: map_of_eq_None_iff set_append set_rev image_Un)
  ultimately show ?thesis
    by (simp only: Let_def scan_for_def join_for_def parallel_for_def simp_thms)
qed

subsection \<open>The chosen index\<close>















text \<open>The walk hands a filter down through a projection, although the projection may compute
  the column the filter tests: a filter on \<open>x\<close> above \<open>y AS x\<close> is taken for one on the
  table's own \<open>x\<close>.\<close>

lemma filter_passes_projection:
  "cd_collect_scans (Filter (BinOp Eq (Column (column_new ''x'')) (Const (IntC 1)))
       (Project [ProjectionColumn (Column (column_new ''y'')) (Some ''x'')] (rel_scan ''t''))) None
   = [(''t'', ''t'', Some (BinOp Eq (Column (column_new ''x'')) (Const (IntC 1))))]"
  by code_simp

end
