(* ===== verification/Memo.thy ===== *)
theory Memo
  imports Algebra_Ops "HOL-Library.AList"
begin

text \<open>
  The memo table of the optimizer and the structural hash that keys it
  (\<^verbatim>\<open>crates/ra-engine/src/memo.rs\<close>). Hashing is a sequence of writes to a hasher; the
  writes are modelled exactly, as a list of tokens, and the hasher is the parameter \<open>fin\<close>
  that takes the whole sequence to 64 bits, so that what is proved of the tokens holds for
  \<^verbatim>\<open>DefaultHasher\<close> and for every other hasher.
\<close>

subsection \<open>What is written to the hasher\<close>

datatype hash_token = HDisc nat | HStr string | HLen nat | HBool bool | HU32 u32 | HU64 u64 | HUsize nat

text \<open>\<^verbatim>\<open>mem::discriminant\<close>: the position of the variant in the enum.\<close>

primrec expr_discriminant :: "expr \<Rightarrow> nat" where
  "expr_discriminant (Column _) = 0"
| "expr_discriminant (Const _) = 1"
| "expr_discriminant (BinOp _ _ _) = 2"
| "expr_discriminant (UnaryOp _ _) = 3"
| "expr_discriminant (Function _ _) = 4"
| "expr_discriminant (Case _ _ _) = 5"
| "expr_discriminant (Cast _ _) = 6"
| "expr_discriminant (Array _) = 7"
| "expr_discriminant (ArrayIndex _ _) = 8"
| "expr_discriminant (PatternPrev _ _) = 9"
| "expr_discriminant (PatternNext _ _) = 10"
| "expr_discriminant (PatternFirst _ _) = 11"
| "expr_discriminant (PatternLast _ _) = 12"
| "expr_discriminant PatternClassifier = 13"
| "expr_discriminant PatternMatchNumber = 14"
| "expr_discriminant (ArraySlice _ _ _) = 15"
| "expr_discriminant (FieldAccess _ _) = 16"
| "expr_discriminant (SubQuery _ _ _) = 17"
| "expr_discriminant (FullTextMatch _ _ _ _) = 18"
| "expr_discriminant (VectorDistance _ _ _) = 19"

primrec join_type_discriminant :: "join_type \<Rightarrow> nat" where
  "join_type_discriminant Inner = 0"
| "join_type_discriminant LeftOuter = 1"
| "join_type_discriminant RightOuter = 2"
| "join_type_discriminant FullOuter = 3"
| "join_type_discriminant Cross = 4"
| "join_type_discriminant Semi = 5"
| "join_type_discriminant Anti = 6"

primrec metric_discriminant :: "distance_metric \<Rightarrow> nat" where
  "metric_discriminant L2 = 0"
| "metric_discriminant InnerProduct = 1"
| "metric_discriminant Cosine = 2"
| "metric_discriminant L1 = 3"
| "metric_discriminant Hamming = 4"

definition hash_scalar_expr :: "expr \<Rightarrow> hash_token list" where
  "hash_scalar_expr e = [HDisc (expr_discriminant e)]"

text \<open>The derived hashes of \<^verbatim>\<open>Option<T>\<close> and \<^verbatim>\<open>Vec<T>\<close>.\<close>

definition hash_option :: "('a \<Rightarrow> hash_token list) \<Rightarrow> 'a option \<Rightarrow> hash_token list" where
  "hash_option h x = (case x of None \<Rightarrow> [HDisc 0] | Some y \<Rightarrow> HDisc 1 # h y)"

definition hash_vec :: "('a \<Rightarrow> hash_token list) \<Rightarrow> 'a list \<Rightarrow> hash_token list" where
  "hash_vec h xs = HLen (length xs) # concat (map h xs)"

definition hash_string :: "string \<Rightarrow> hash_token list" where
  "hash_string s = [HStr s]"

primrec hash_rel_expr :: "rel_expr \<Rightarrow> hash_token list" where
  "hash_rel_expr (Scan table alias _) = HDisc 0 # hash_string table @ hash_option hash_string alias"
| "hash_rel_expr (Filter predicate input) = HDisc 1 # hash_scalar_expr predicate @ hash_rel_expr input"
| "hash_rel_expr (Project cols input) = HDisc 2 # HUsize (length cols) # hash_rel_expr input"
| "hash_rel_expr (Join jt cond left right) =
     HDisc 3 # HDisc (join_type_discriminant jt) # hash_scalar_expr cond @ hash_rel_expr left @ hash_rel_expr right"
| "hash_rel_expr (Aggregate gs ags input) =
     HDisc 4 # HUsize (length gs) # HUsize (length ags) # hash_rel_expr input"
| "hash_rel_expr (Sort keys input) = HDisc 5 # HUsize (length keys) # hash_rel_expr input"
| "hash_rel_expr (Limit n k input) = HDisc 6 # HU64 n # HU64 k # hash_rel_expr input"
| "hash_rel_expr (UnionOp all left right) = HDisc 7 # HBool all # hash_rel_expr left @ hash_rel_expr right"
| "hash_rel_expr (IntersectOp all left right) = HDisc 8 # HBool all # hash_rel_expr left @ hash_rel_expr right"
| "hash_rel_expr (ExceptOp all left right) = HDisc 9 # HBool all # hash_rel_expr left @ hash_rel_expr right"
| "hash_rel_expr (CTE name defn body) = HDisc 10 # hash_string name @ hash_rel_expr defn @ hash_rel_expr body"
| "hash_rel_expr (Window fs input) = HDisc 11 # HUsize (length fs) # hash_rel_expr input"
| "hash_rel_expr (Distinct input) = HDisc 12 # hash_rel_expr input"
| "hash_rel_expr (SubqueryAlias alias input) = HDisc 13 # hash_string alias @ hash_rel_expr input"
| "hash_rel_expr (DistinctOn _ input) = HDisc 14 # hash_rel_expr input"
| "hash_rel_expr (Values rows) = [HDisc 15, HUsize (length rows)]"
| "hash_rel_expr (RecursiveCTE name base rec body cd) =
     HDisc 16 # hash_string name @ hash_rel_expr base @ hash_rel_expr rec @ hash_rel_expr body
     @ (case cd of None \<Rightarrow> []
        | Some c \<Rightarrow> hash_vec hash_string (track_columns c) @ hash_option (\<lambda>d. [HU32 d]) (max_depth c))"
| "hash_rel_expr (Unnest e alias input ord) =
     HDisc 17 # hash_scalar_expr e @ hash_option hash_string alias @ HBool ord
     # (case map_option hash_rel_expr input of None \<Rightarrow> [] | Some h \<Rightarrow> h)"
| "hash_rel_expr (MultiUnnest es aliases ord) =
     HDisc 18 # HUsize (length es) # concat (map hash_scalar_expr es)
     @ hash_vec (hash_option hash_string) aliases @ [HBool ord]"
| "hash_rel_expr (TableFunction name args _ input) =
     HDisc 19 # hash_string name @ HUsize (length args)
     # (case map_option hash_rel_expr input of None \<Rightarrow> [] | Some h \<Rightarrow> h)"
| "hash_rel_expr (RowPattern input partition_by order_by _ defs ms _ _) =
     HDisc 20 # HUsize (length partition_by) # HUsize (length order_by) # HUsize (length defs)
     # HUsize (length ms) # hash_rel_expr input"
| "hash_rel_expr (IncrementalSort ps ss input) =
     HDisc 21 # HUsize (length ps) # HUsize (length ss) # hash_rel_expr input"
| "hash_rel_expr (IndexScanRel table col) = HDisc 22 # hash_string table @ hash_string col"
| "hash_rel_expr (BitmapIndexScan table idx predicate) =
     HDisc 23 # hash_string table @ hash_string idx @ hash_scalar_expr predicate"
| "hash_rel_expr (BitmapAnd inputs) = HDisc 24 # HUsize (length inputs) # concat (map hash_rel_expr inputs)"
| "hash_rel_expr (BitmapOr inputs) = HDisc 25 # HUsize (length inputs) # concat (map hash_rel_expr inputs)"
| "hash_rel_expr (BitmapHeapScanRel table bitmap recheck) =
     HDisc 26 # hash_string table @ hash_rel_expr bitmap
     @ (case recheck of None \<Rightarrow> [] | Some c \<Rightarrow> hash_scalar_expr c)"
| "hash_rel_expr (IndexOnlyScanRel table idx cols predicate) =
     HDisc 27 # hash_string table @ hash_string idx @ HUsize (length cols) # hash_scalar_expr predicate"
| "hash_rel_expr (ParallelScan table workers) = HDisc 28 # hash_string table @ [HUsize workers]"
| "hash_rel_expr (ParallelHashJoin jt cond left right workers) =
     HDisc 29 # HDisc (join_type_discriminant jt) # hash_scalar_expr cond @ hash_rel_expr left
     @ hash_rel_expr right @ [HUsize workers]"
| "hash_rel_expr (ParallelAggregate gs ags input workers) =
     HDisc 30 # HUsize (length gs) # HUsize (length ags) # hash_rel_expr input @ [HUsize workers]"
| "hash_rel_expr (GatherRel input workers) = HDisc 31 # hash_rel_expr input @ [HUsize workers]"
| "hash_rel_expr (MvScan view_name alias) = HDisc 32 # hash_string view_name @ hash_option hash_string alias"
| "hash_rel_expr (TopK vec query metric k input) =
     HDisc 33 # hash_scalar_expr vec @ hash_scalar_expr query @ HDisc (metric_discriminant metric) # HU64 k
     # hash_rel_expr input"
| "hash_rel_expr (VectorFilter vec query metric threshold input) =
     HDisc 34 # hash_scalar_expr vec @ hash_scalar_expr query @ HDisc (metric_discriminant metric)
     # HU64 threshold # hash_rel_expr input"
| "hash_rel_expr (Insert table cols source _ _) =
     HDisc 35 # hash_string table @ hash_vec hash_string cols @ hash_rel_expr source"
| "hash_rel_expr (Update table assignments _ from_clause _ _) =
     HDisc 36 # hash_string table @ HUsize (length assignments)
     # (case map_option hash_rel_expr from_clause of None \<Rightarrow> [] | Some h \<Rightarrow> h)"
| "hash_rel_expr (Delete table _ using_clause _ _) =
     HDisc 37 # hash_string table @ (case map_option hash_rel_expr using_clause of None \<Rightarrow> [] | Some h \<Rightarrow> h)"
| "hash_rel_expr (Merge target source _ when_clauses _) =
     HDisc 38 # hash_string target @ HUsize (length when_clauses) # hash_rel_expr source"
| "hash_rel_expr (GraphTable graph pattern _ alias) =
     HDisc 39 # hash_string graph @ HUsize (length pattern) # hash_option hash_string alias"

type_synonym hasher = "hash_token list \<Rightarrow> u64"

definition structural_hash :: "hasher \<Rightarrow> rel_expr \<Rightarrow> u64" where
  "structural_hash fin e = fin (hash_rel_expr e)"

subsection \<open>The memo table\<close>

type_synonym memo_table = "(u64 \<times> rel_expr) list"

definition memo_new :: memo_table where
  "memo_new = []"

definition memo_get :: "memo_table \<Rightarrow> u64 \<Rightarrow> rel_expr option" where
  "memo_get m h = map_of m h"

definition memo_insert :: "memo_table \<Rightarrow> u64 \<Rightarrow> rel_expr \<Rightarrow> memo_table" where
  "memo_insert m h r = AList.update h r m"

definition memo_len :: "memo_table \<Rightarrow> nat" where
  "memo_len m = length m"

definition memo_is_empty :: "memo_table \<Rightarrow> bool" where
  "memo_is_empty m \<longleftrightarrow> m = []"

definition memo_clear :: "memo_table \<Rightarrow> memo_table" where
  "memo_clear m = []"

lemma memo_get_simps [simp]:
  "memo_get memo_new h = None" "memo_get (memo_clear m) h = None"
  "memo_get (memo_insert m h r) k = (if k = h then Some r else memo_get m k)"
  by (simp_all add: memo_new_def memo_clear_def memo_get_def memo_insert_def AList.update_conv')

subsection \<open>What the hash does not see\<close>

text \<open>Of a scalar expression only the top constructor is written, of a list of expressions only
  the length. Two filters over the same input whose conditions have the same top operator
  collide, for every hasher, whatever their conditions are; so do two projections, two sorts,
  two aggregations of the same size.\<close>

lemma structural_hash_filters_collide:
  "expr_discriminant p = expr_discriminant q \<Longrightarrow> structural_hash fin (Filter p i) = structural_hash fin (Filter q i)"
  by (simp add: structural_hash_def hash_scalar_expr_def)

lemma structural_hash_lists_collide:
  "length cs = length ds \<Longrightarrow> structural_hash fin (Project cs i) = structural_hash fin (Project ds i)"
  "length ks = length ls \<Longrightarrow> structural_hash fin (Sort ks i) = structural_hash fin (Sort ls i)"
  "length gs = length hs \<Longrightarrow> length as = length bs \<Longrightarrow>
     structural_hash fin (Aggregate gs as i) = structural_hash fin (Aggregate hs bs i)"
  "length vs = length ws \<Longrightarrow> structural_hash fin (Values vs) = structural_hash fin (Values ws)"
  by (simp_all add: structural_hash_def)

lemma structural_hash_distinct_on_collide:
  "structural_hash fin (DistinctOn es i) = structural_hash fin (DistinctOn fs i)"
  "structural_hash fin (Scan t a x) = structural_hash fin (Scan t a y)"
  by (simp_all add: structural_hash_def)

end
