(* ===== verification/Incremental.thy ===== *)
theory Incremental
  imports Memo Statistics "HOL-Library.AList" "HOL-Library.Char_ord" "HOL-Library.List_Lexorder" "HOL-Library.Multiset"
begin

text \<open>
  The incremental optimizer (\<^verbatim>\<open>crates/ra-engine/src/differential.rs\<close>): registered queries
  kept optimized through a memo table as rules change, and the statistics each cached plan
  depends on, by which a change of statistics finds the plans it makes stale. Parameters are the
  batch optimizer (\<open>opt\<close>, \<^verbatim>\<open>Optimizer::optimize\<close> on the e-graph), the hasher of the memo
  table, the float arithmetic, and the one differential dataflow computation (\<open>dataflow\<close>), whose
  documented result is the join of two collections on their keys. A hash map is the list of its
  entries in the order of its iteration.
\<close>

subsection \<open>Resources and changes\<close>

datatype resource_id = RowCountRes string | NDistinctRes string string | IndexRes string string
  | HistogramRes string string | FactRes string

definition resource_key :: "resource_id \<Rightarrow> string" where
  "resource_key r = (case r of
     RowCountRes t \<Rightarrow> t @ ''.row_count''
   | NDistinctRes t c \<Rightarrow> t @ ''.'' @ c @ ''.ndistinct''
   | IndexRes t i \<Rightarrow> t @ ''.'' @ i
   | HistogramRes t c \<Rightarrow> t @ ''.'' @ c @ ''.histogram''
   | FactRes f \<Rightarrow> f)"

record 'f histogram_digest =
  bucket_count :: nat
  frequencies :: "'f list"
  total_rows :: 'f

definition from_histogram :: "'f f64_ops \<Rightarrow> 'f histogram \<Rightarrow> 'f histogram_digest" where
  "from_histogram F hist =
    (let buckets = (case hist of EquiWidth bs \<Rightarrow> bs | EquiDepth bs _ \<Rightarrow> bs);
         total = f64_sum F (map hb_row_count buckets);
         freqs = (if f64_lt F (f64_zero F) total then map (\<lambda>b. f64_div F (hb_row_count b) total) buckets
                  else replicate (length buckets) (f64_zero F))
     in \<lparr>bucket_count = length buckets, frequencies = freqs, total_rows = total\<rparr>)"

definition kl_step :: "'f f64_ops \<Rightarrow> 'f \<times> 'f \<Rightarrow> 'f \<times> 'f \<Rightarrow> 'f \<times> 'f" where
  "kl_step F acc pq = (case (acc, pq) of ((kl_pq, kl_qp), (p, q)) \<Rightarrow>
     let p_safe = f64_max F p (f64_epsilon F); q_safe = f64_max F q (f64_epsilon F)
     in (f64_add F kl_pq (f64_mul F p_safe (f64_ln F (f64_div F p_safe q_safe))),
         f64_add F kl_qp (f64_mul F q_safe (f64_ln F (f64_div F q_safe p_safe)))))"

definition kl_divergence :: "'f f64_ops \<Rightarrow> 'f histogram_digest \<Rightarrow> 'f histogram_digest \<Rightarrow> 'f" where
  "kl_divergence F d e =
    (if bucket_count d \<noteq> bucket_count e then f64_max_value F
     else (case foldl (kl_step F) (f64_zero F, f64_zero F) (zip (frequencies d) (frequencies e)) of
             (kl_pq, kl_qp) \<Rightarrow> f64_midpoint F kl_pq kl_qp))"

record 'f plan_dependencies =
  table_cardinalities :: "(string \<times> 'f) list"
  dep_indexes :: "(string \<times> string) list"
  distinct_counts :: "((string \<times> string) \<times> 'f) list"
  histogram_digests :: "((string \<times> string) \<times> 'f histogram_digest) list"
  dep_facts :: "string list"

record 'f staleness_thresholds =
  cardinality_ratio :: 'f
  ndistinct_ratio :: 'f
  index_changes_trigger :: bool
  histogram_kl_threshold :: 'f
  max_age :: "(u64 \<times> u32) option"

datatype 'f statistics_change =
    RowCountChange string 'f 'f 'f
  | DistinctCountChange string string 'f 'f 'f
  | HistogramDrift string string 'f

datatype index_change = IndexAdded string string "string list" | IndexDropped string string

record fact_change =
  fact_name :: string
  old_value :: "string option"
  new_value :: "string option"

datatype 'f change_source = StatisticsSource "'f statistics_change" | IndexSource index_change
  | FactSource fact_change

definition statistics_resource_id :: "'f statistics_change \<Rightarrow> resource_id" where
  "statistics_resource_id s = (case s of
     RowCountChange t _ _ _ \<Rightarrow> RowCountRes t
   | DistinctCountChange t c _ _ _ \<Rightarrow> NDistinctRes t c
   | HistogramDrift t c _ \<Rightarrow> HistogramRes t c)"

definition index_resource_id :: "index_change \<Rightarrow> resource_id" where
  "index_resource_id i = (case i of IndexAdded t n _ \<Rightarrow> IndexRes t n | IndexDropped t n \<Rightarrow> IndexRes t n)"

definition change_resource_id :: "'f change_source \<Rightarrow> resource_id" where
  "change_resource_id c = (case c of
     StatisticsSource s \<Rightarrow> statistics_resource_id s
   | IndexSource i \<Rightarrow> index_resource_id i
   | FactSource f \<Rightarrow> FactRes (fact_name f))"

function collect_tables_recursive :: "rel_expr \<Rightarrow> string list" where
  "collect_tables_recursive plan =
     (case plan of Scan table _ _ \<Rightarrow> [table] | _ \<Rightarrow> []) @ concat (map collect_tables_recursive (children plan))"
  by pat_completeness auto
termination by (relation "measure size") (auto intro: children_smaller)

declare collect_tables_recursive.simps [simp del]

definition collect_referenced_tables :: "rel_expr \<Rightarrow> string list" where
  "collect_referenced_tables plan = remdups_adj (sort (collect_tables_recursive plan))"

definition change_ratio :: "'f f64_ops \<Rightarrow> 'f \<Rightarrow> 'f \<Rightarrow> 'f" where
  "change_ratio F old new =
    (if f64_le F old (f64_zero F) \<and> f64_le F new (f64_zero F) then f64_one F
     else if f64_le F old (f64_zero F) \<or> f64_le F new (f64_zero F) then f64_max_value F
     else let r = f64_div F new old in if f64_le F (f64_one F) r then r else f64_div F (f64_one F) r)"

subsection \<open>Dependencies of a plan\<close>

definition no_dependencies :: "'f plan_dependencies" where
  "no_dependencies = \<lparr>table_cardinalities = [], dep_indexes = [], distinct_counts = [],
     histogram_digests = [], dep_facts = []\<rparr>"

definition add_column_deps ::
  "'f f64_ops \<Rightarrow> string \<Rightarrow> string \<times> 'f column_stats \<Rightarrow> 'f plan_dependencies \<Rightarrow> 'f plan_dependencies" where
  "add_column_deps F table entry deps = (case entry of (col, cs) \<Rightarrow>
     let deps = deps\<lparr>distinct_counts := AList.update (table, col) (distinct_count cs) (distinct_counts deps)\<rparr>
     in (case col_histogram cs of
           None \<Rightarrow> deps
         | Some hist \<Rightarrow> deps\<lparr>histogram_digests :=
               AList.update (table, col) (from_histogram F hist) (histogram_digests deps)\<rparr>))"

definition add_table_deps ::
  "'f f64_ops \<Rightarrow> (string \<Rightarrow> 'f statistics option) \<Rightarrow> string \<Rightarrow> 'f plan_dependencies \<Rightarrow> 'f plan_dependencies" where
  "add_table_deps F provider table deps = (case provider table of
     None \<Rightarrow> deps
   | Some ts \<Rightarrow>
       let deps = deps\<lparr>table_cardinalities := AList.update table (row_count ts) (table_cardinalities deps)\<rparr>;
           deps = fold (add_column_deps F table) (columns ts) deps
       in fold (\<lambda>(idx, _) d. d\<lparr>dep_indexes := List.insert (table, idx) (dep_indexes d)\<rparr>) (indexes ts) deps)"

definition from_plan_and_stats ::
  "'f f64_ops \<Rightarrow> rel_expr \<Rightarrow> (string \<Rightarrow> 'f statistics option) \<Rightarrow> 'f plan_dependencies" where
  "from_plan_and_stats F plan provider =
     fold (add_table_deps F provider) (collect_referenced_tables plan) no_dependencies"

definition all_resources :: "'f plan_dependencies \<Rightarrow> resource_id list" where
  "all_resources d =
     map (\<lambda>(t, _). RowCountRes t) (table_cardinalities d)
     @ map (\<lambda>((t, c), _). NDistinctRes t c) (distinct_counts d)
     @ map (\<lambda>(t, i). IndexRes t i) (dep_indexes d)
     @ map (\<lambda>((t, c), _). HistogramRes t c) (histogram_digests d)
     @ map FactRes (dep_facts d)"

subsection \<open>Detection of changes\<close>

definition detect_column_changes ::
  "'f f64_ops \<Rightarrow> 'f staleness_thresholds \<Rightarrow> string \<Rightarrow> 'f statistics \<Rightarrow> string \<times> 'f column_stats \<Rightarrow> 'f change_source list" where
  "detect_column_changes F th table new entry = (case entry of (col, old_col) \<Rightarrow>
     (case map_of (columns new) col of
        None \<Rightarrow> []
      | Some new_col \<Rightarrow>
          (let ndv_ratio = change_ratio F (distinct_count old_col) (distinct_count new_col)
           in (if f64_le F (ndistinct_ratio th) ndv_ratio
               then [StatisticsSource (DistinctCountChange table col (distinct_count old_col) (distinct_count new_col) ndv_ratio)]
               else [])
              @ (case (col_histogram old_col, col_histogram new_col) of
                   (Some old_h, Some new_h) \<Rightarrow>
                     (let kl = kl_divergence F (from_histogram F old_h) (from_histogram F new_h)
                      in if f64_lt F (histogram_kl_threshold th) kl
                         then [StatisticsSource (HistogramDrift table col kl)] else [])
                 | _ \<Rightarrow> []))))"

definition detect_changes ::
  "'f f64_ops \<Rightarrow> 'f staleness_thresholds \<Rightarrow> string \<Rightarrow> 'f statistics \<Rightarrow> 'f statistics \<Rightarrow> 'f change_source list" where
  "detect_changes F th table old new =
    (let card_ratio = change_ratio F (row_count old) (row_count new)
     in (if f64_le F (cardinality_ratio th) card_ratio
         then [StatisticsSource (RowCountChange table (row_count old) (row_count new) card_ratio)] else [])
        @ concat (map (detect_column_changes F th table new) (columns old))
        @ (if index_changes_trigger th then
             concat (map (\<lambda>(idx, ix). if map_of (indexes old) idx = None
                          then [IndexSource (IndexAdded table idx (ix_columns ix))] else [])
                      (indexes new))
             @ concat (map (\<lambda>(idx, ix). if map_of (indexes new) idx = None
                            then [IndexSource (IndexDropped table idx)] else []) (indexes old))
           else []))"


subsection \<open>The state of the incremental optimizer\<close>

type_synonym rule_id = string

record registered_query =
  rq_id :: u64
  rq_original :: rel_expr
  rq_optimized :: "rel_expr option"
  rq_optimized_at_generation :: u64

datatype rule_change = RuleAdded rule_id | RuleRemoved rule_id

record computation_stats =
  cs_steps :: u64
  cs_input_records :: u64
  cs_output_records :: u64
  cs_current_time :: u64

record update_result =
  ur_reoptimized_count :: nat
  ur_skipped_count :: nat
  ur_generation :: u64
  ur_stats :: computation_stats

text \<open>The error of the batch optimizer is the type variable \<open>'e\<close>.\<close>

datatype 'e incremental_error = OptimizationError 'e | QueryNotFound u64 | SerializationError string

record query_fingerprint =
  join_graph_hash :: u64
  predicate_hash :: u64
  aggregation_hash :: u64
  table_count :: "16 word"
  qf_join_count :: "16 word"
  has_aggregation :: bool
  has_distinct :: bool
  has_limit :: bool
  has_sort :: bool

record 'f incremental_optimizer =
  io_memo :: memo_table
  io_queries :: "(u64 \<times> registered_query) list"
  io_active_rules :: "rule_id list"
  io_generation :: u64
  io_pending_changes :: "rule_change list"
  io_stats :: computation_stats
  io_next_query_id :: u64
  io_plan_dependencies :: "(query_fingerprint \<times> 'f plan_dependencies) list"
  io_thresholds :: "'f staleness_thresholds"

type_synonym 'e batch_optimizer = "rel_expr \<Rightarrow> 'e + rel_expr"

definition incremental_new :: "'f staleness_thresholds \<Rightarrow> 'f incremental_optimizer" where
  "incremental_new th = \<lparr>io_memo = memo_new, io_queries = [], io_active_rules = [], io_generation = 0,
     io_pending_changes = [], io_stats = \<lparr>cs_steps = 0, cs_input_records = 0, cs_output_records = 0,
     cs_current_time = 0\<rparr>, io_next_query_id = 1, io_plan_dependencies = [], io_thresholds = th\<rparr>"

definition optimize_and_cache ::
  "hasher \<Rightarrow> 'e batch_optimizer \<Rightarrow> rel_expr \<Rightarrow> 'f incremental_optimizer
   \<Rightarrow> ('e incremental_error + rel_expr) \<times> 'f incremental_optimizer" where
  "optimize_and_cache fin opt e io =
    (let h = structural_hash fin e in
     case memo_get (io_memo io) h of
       Some cached \<Rightarrow> (Inr cached, io)
     | None \<Rightarrow> (case opt e of
           Inl err \<Rightarrow> (Inl (OptimizationError err), io)
         | Inr result \<Rightarrow> (Inr result, io\<lparr>io_memo := memo_insert (io_memo io) h result\<rparr>)))"

definition register_query ::
  "hasher \<Rightarrow> 'e batch_optimizer \<Rightarrow> rel_expr \<Rightarrow> 'f incremental_optimizer
   \<Rightarrow> ('e incremental_error + u64) \<times> 'f incremental_optimizer" where
  "register_query fin opt e io =
    (let i = io_next_query_id io; io = io\<lparr>io_next_query_id := i + 1\<rparr> in
     case optimize_and_cache fin opt e io of
       (Inl err, io) \<Rightarrow> (Inl err, io)
     | (Inr optimized, io) \<Rightarrow>
         (Inr i, io\<lparr>io_queries := AList.update i \<lparr>rq_id = i, rq_original = e, rq_optimized = Some optimized,
                       rq_optimized_at_generation = io_generation io\<rparr> (io_queries io),
                    io_stats := (io_stats io)\<lparr>cs_input_records := cs_input_records (io_stats io) + 1\<rparr>\<rparr>))"

definition unregister_query ::
  "u64 \<Rightarrow> 'f incremental_optimizer \<Rightarrow> ('e incremental_error + unit) \<times> 'f incremental_optimizer" where
  "unregister_query i io =
    (if map_of (io_queries io) i \<noteq> None
     then (Inr (), io\<lparr>io_queries := AList.delete i (io_queries io)\<rparr>)
     else (Inl (QueryNotFound i), io))"

definition get_optimized :: "u64 \<Rightarrow> 'f incremental_optimizer \<Rightarrow> 'e incremental_error + rel_expr option" where
  "get_optimized i io = (case map_of (io_queries io) i of
     None \<Rightarrow> Inl (QueryNotFound i) | Some q \<Rightarrow> Inr (rq_optimized q))"

definition add_rule :: "rule_id \<Rightarrow> 'f incremental_optimizer \<Rightarrow> 'f incremental_optimizer" where
  "add_rule r io = (if r \<notin> set (io_active_rules io)
     then io\<lparr>io_pending_changes := io_pending_changes io @ [RuleAdded r]\<rparr> else io)"

definition remove_rule :: "rule_id \<Rightarrow> 'f incremental_optimizer \<Rightarrow> 'f incremental_optimizer" where
  "remove_rule r io = (if r \<in> set (io_active_rules io)
     then io\<lparr>io_pending_changes := io_pending_changes io @ [RuleRemoved r]\<rparr> else io)"

definition apply_rule_change :: "rule_change \<Rightarrow> rule_id list \<Rightarrow> rule_id list" where
  "apply_rule_change diff rules = (case diff of
     RuleAdded r \<Rightarrow> if r \<notin> set rules then rules @ [r] else rules
   | RuleRemoved r \<Rightarrow> filter (\<lambda>x. x \<noteq> r) rules)"

text \<open>The loop over the stale queries: the counters of reoptimized and skipped queries, or the
  error that ends it, with the state it leaves.\<close>

fun reoptimize ::
  "hasher \<Rightarrow> 'e batch_optimizer \<Rightarrow> u64 list \<Rightarrow> nat \<times> nat \<Rightarrow> 'f incremental_optimizer
   \<Rightarrow> ('e incremental_error + nat \<times> nat) \<times> 'f incremental_optimizer" where
  "reoptimize fin opt [] counts io = (Inr counts, io)"
| "reoptimize fin opt (i # is) counts io = (case map_of (io_queries io) i of
     None \<Rightarrow> reoptimize fin opt is counts io
   | Some query \<Rightarrow>
       (case optimize_and_cache fin opt (rq_original query) io of
          (Inl e, io) \<Rightarrow> (Inl e, io)
        | (Inr new_optimized, io) \<Rightarrow>
            (case map_of (io_queries io) i of
               None \<Rightarrow> reoptimize fin opt is counts io
             | Some q \<Rightarrow>
                 (let result_differs = (case rq_optimized q of None \<Rightarrow> True | Some old \<Rightarrow> old \<noteq> new_optimized);
                      q = q\<lparr>rq_optimized := Some new_optimized, rq_optimized_at_generation := io_generation io\<rparr>
                  in reoptimize fin opt is
                       (if result_differs then (fst counts + 1, snd counts) else (fst counts, snd counts + 1))
                       (io\<lparr>io_queries := AList.update i q (io_queries io)\<rparr>)))))"

definition apply_changes ::
  "hasher \<Rightarrow> 'e batch_optimizer \<Rightarrow> 'f incremental_optimizer
   \<Rightarrow> ('e incremental_error + update_result) \<times> 'f incremental_optimizer" where
  "apply_changes fin opt io =
    (let rule_diffs = io_pending_changes io; io = io\<lparr>io_pending_changes := []\<rparr> in
     if rule_diffs = [] then
       (Inr \<lparr>ur_reoptimized_count = 0, ur_skipped_count = length (io_queries io),
             ur_generation = io_generation io, ur_stats = io_stats io\<rparr>, io)
     else
       let io = io\<lparr>io_active_rules := fold apply_rule_change rule_diffs (io_active_rules io)\<rparr>;
           io = io\<lparr>io_generation := io_generation io + 1\<rparr>;
           io = io\<lparr>io_stats := (io_stats io)\<lparr>cs_current_time := io_generation io\<rparr>, io_memo := memo_clear (io_memo io)\<rparr>;
           stale_ids = map rq_id (filter (\<lambda>q. rq_optimized_at_generation q < io_generation io) (map snd (io_queries io)))
       in (case reoptimize fin opt stale_ids (0, 0) io of
             (Inl e, io) \<Rightarrow> (Inl e, io)
           | (Inr (reoptimized, skipped), io) \<Rightarrow>
               (let skipped = skipped + (length (io_queries io) - length stale_ids);
                    io = io\<lparr>io_stats := (io_stats io)\<lparr>cs_steps := cs_steps (io_stats io) + 1,
                             cs_output_records := cs_output_records (io_stats io) + of_nat reoptimized\<rparr>\<rparr>
                in (Inr \<lparr>ur_reoptimized_count = reoptimized, ur_skipped_count = skipped,
                         ur_generation = io_generation io, ur_stats = io_stats io\<rparr>, io))))"

definition set_thresholds :: "'f staleness_thresholds \<Rightarrow> 'f incremental_optimizer \<Rightarrow> 'f incremental_optimizer" where
  "set_thresholds th io = io\<lparr>io_thresholds := th\<rparr>"

definition register_plan_dependencies ::
  "query_fingerprint \<Rightarrow> 'f plan_dependencies \<Rightarrow> 'f incremental_optimizer \<Rightarrow> 'f incremental_optimizer" where
  "register_plan_dependencies fp deps io =
     io\<lparr>io_plan_dependencies := AList.update fp deps (io_plan_dependencies io)\<rparr>"

definition unregister_plan_dependencies ::
  "query_fingerprint \<Rightarrow> 'f incremental_optimizer \<Rightarrow> 'f incremental_optimizer" where
  "unregister_plan_dependencies fp io = io\<lparr>io_plan_dependencies := AList.delete fp (io_plan_dependencies io)\<rparr>"

subsection \<open>Affected queries and plans\<close>

text \<open>The differential dataflow: the keys on one side, the edges on the other, and the buffer of
  joined values, or the error of taking it out of its lock.\<close>

type_synonym ('k, 'v, 'e) dataflow = "'k list \<Rightarrow> ('k \<times> 'v) list \<Rightarrow> 'e incremental_error + 'v list"

definition compute_affected_queries ::
  "(string, u64, 'e) dataflow \<Rightarrow> rule_change list \<Rightarrow> 'f incremental_optimizer \<Rightarrow> 'e incremental_error + u64 list" where
  "compute_affected_queries dataflow rule_diffs io =
    (let diff_rule_names = map (\<lambda>c. case c of RuleAdded r \<Rightarrow> r | RuleRemoved r \<Rightarrow> r) rule_diffs;
         query_ids = map fst (io_queries io);
         deps = concat (map (\<lambda>qid. map (\<lambda>rule. (rule, qid)) (io_active_rules io)) query_ids)
     in (case dataflow diff_rule_names deps of
           Inl e \<Rightarrow> Inl e
         | Inr out \<Rightarrow> Inr (remdups_adj (sort out))))"

definition compute_affected_plans ::
  "(string, nat, 'e) dataflow \<Rightarrow> 'f change_source list \<Rightarrow> 'f incremental_optimizer
   \<Rightarrow> 'e incremental_error + query_fingerprint list" where
  "compute_affected_plans dataflow changes io =
    (if changes = [] \<or> io_plan_dependencies io = [] then Inr []
     else
       let change_keys = map (\<lambda>c. resource_key (change_resource_id c)) changes;
           fp_list = map fst (io_plan_dependencies io);
           dep_edges = concat (map (\<lambda>(idx, fp). map (\<lambda>r. (resource_key r, idx))
                           (case map_of (io_plan_dependencies io) fp of Some d \<Rightarrow> all_resources d | None \<Rightarrow> []))
                         (List.enumerate 0 fp_list))
       in (case dataflow change_keys dep_edges of
             Inl e \<Rightarrow> Inl e
           | Inr out \<Rightarrow> Inr (List.map_filter (\<lambda>idx. if idx < length fp_list then Some (fp_list ! idx) else None)
                              (remdups_adj (sort out)))))"


subsection \<open>Reachable states\<close>

text \<open>The operations as steps, on plans from a set \<open>S\<close>; operations may fail and leave the state
  their failure leaves. The order in which a hash map is iterated may change at any time. The
  generation counter does not overflow.\<close>

inductive io_step :: "hasher \<Rightarrow> 'e batch_optimizer \<Rightarrow> rel_expr set \<Rightarrow> 'f incremental_optimizer \<Rightarrow> 'f incremental_optimizer \<Rightarrow> bool"
  for fin opt S where
  step_register: "e \<in> S \<Longrightarrow> register_query fin opt e io = (res, io') \<Longrightarrow> io_step fin opt S io io'"
| step_unregister: "unregister_query i io = (res :: 'e incremental_error + unit, io') \<Longrightarrow> io_step fin opt S io io'"
| step_add_rule: "io_step fin opt S io (add_rule r io)"
| step_remove_rule: "io_step fin opt S io (remove_rule r io)"
| step_apply: "io_generation io \<noteq> -1 \<Longrightarrow> apply_changes fin opt io = (res, io') \<Longrightarrow> io_step fin opt S io io'"
| step_thresholds: "io_step fin opt S io (set_thresholds th io)"
| step_dependencies: "io_step fin opt S io (register_plan_dependencies fp deps io)"
| step_evict: "io_step fin opt S io (unregister_plan_dependencies fp io)"
| step_reorder: "mset qs = mset (io_queries io) \<Longrightarrow> io_step fin opt S io (io\<lparr>io_queries := qs\<rparr>)"

inductive io_reachable :: "hasher \<Rightarrow> 'e batch_optimizer \<Rightarrow> rel_expr set \<Rightarrow> 'f incremental_optimizer \<Rightarrow> bool"
  for fin opt S where
  reach_new: "io_reachable fin opt S (incremental_new th)"
| reach_step: "io_reachable fin opt S io \<Longrightarrow> io_step fin opt S io io' \<Longrightarrow> io_reachable fin opt S io'"

inductive_cases io_stepE: "io_step fin opt S io io'"

text \<open>\<open>answers\<close>: \<open>r\<close> is the optimizer's answer for some plan of \<open>S\<close> with hash \<open>h\<close>.\<close>

definition answers :: "hasher \<Rightarrow> 'e batch_optimizer \<Rightarrow> rel_expr set \<Rightarrow> u64 \<Rightarrow> rel_expr \<Rightarrow> bool" where
  "answers fin opt S h r \<longleftrightarrow> (\<exists>e \<in> S. structural_hash fin e = h \<and> opt e = Inr r)"

definition memo_ok :: "hasher \<Rightarrow> 'e batch_optimizer \<Rightarrow> rel_expr set \<Rightarrow> memo_table \<Rightarrow> bool" where
  "memo_ok fin opt S m \<longleftrightarrow> (\<forall>h r. memo_get m h = Some r \<longrightarrow> answers fin opt S h r)"

definition query_ok :: "hasher \<Rightarrow> 'e batch_optimizer \<Rightarrow> rel_expr set \<Rightarrow> u64 \<Rightarrow> u64 \<Rightarrow> registered_query \<Rightarrow> bool" where
  "query_ok fin opt S gen i q \<longleftrightarrow> rq_id q = i \<and> rq_original q \<in> S \<and> rq_optimized_at_generation q \<le> gen
     \<and> (\<exists>r. rq_optimized q = Some r \<and> answers fin opt S (structural_hash fin (rq_original q)) r)"

definition io_inv :: "hasher \<Rightarrow> 'e batch_optimizer \<Rightarrow> rel_expr set \<Rightarrow> 'f incremental_optimizer \<Rightarrow> bool" where
  "io_inv fin opt S io \<longleftrightarrow> memo_ok fin opt S (io_memo io) \<and> distinct (map fst (io_queries io))
     \<and> (\<forall>i q. map_of (io_queries io) i = Some q \<longrightarrow> query_ok fin opt S (io_generation io) i q)
     \<and> distinct (io_active_rules io)"

lemma optimize_and_cache_ok:
  assumes "optimize_and_cache fin opt e io = (res, io')" "memo_ok fin opt S (io_memo io)" "e \<in> S"
  shows "\<exists>m. io' = io\<lparr>io_memo := m\<rparr> \<and> memo_ok fin opt S m
    \<and> (\<forall>r. res = Inr r \<longrightarrow> answers fin opt S (structural_hash fin e) r)"
proof (cases "memo_get (io_memo io) (structural_hash fin e)")
  case (Some cached)
  with assms show ?thesis
    by (intro exI [of _ "io_memo io"]) (auto simp: optimize_and_cache_def memo_ok_def)
next
  case None
  show ?thesis
  proof (cases "opt e")
    case (Inl err)
    with None assms show ?thesis
      by (intro exI [of _ "io_memo io"]) (auto simp: optimize_and_cache_def)
  next
    case (Inr result)
    with assms(3) have "answers fin opt S (structural_hash fin e) result" by (auto simp: answers_def)
    with Inr None assms show ?thesis
      by (intro exI [of _ "memo_insert (io_memo io) (structural_hash fin e) result"])
        (auto simp: optimize_and_cache_def memo_ok_def)
  qed
qed

lemma reoptimize_inv:
  assumes "io_inv fin opt S io" "reoptimize fin opt is counts io = (res, io')"
  shows "io_inv fin opt S io' \<and> io_generation io' = io_generation io"
  using assms
proof (induction "is" arbitrary: counts io)
  case (Cons i "is")
  show ?case
  proof (cases "map_of (io_queries io) i")
    case None
    with Cons.prems(2) have "reoptimize fin opt is counts io = (res, io')" by simp
    with Cons.prems(1) show ?thesis by (rule Cons.IH)
  next
    case (Some q)
    obtain res1 io1 where oc: "optimize_and_cache fin opt (rq_original q) io = (res1, io1)"
      by (cases "optimize_and_cache fin opt (rq_original q) io")
    from Cons.prems(1) Some have q: "query_ok fin opt S (io_generation io) i q" by (simp add: io_inv_def)
    from optimize_and_cache_ok [OF oc, of S] Cons.prems(1) q obtain m where
      m: "io1 = io\<lparr>io_memo := m\<rparr>" "memo_ok fin opt S m"
         "\<And>r. res1 = Inr r \<Longrightarrow> answers fin opt S (structural_hash fin (rq_original q)) r"
      by (auto simp: io_inv_def query_ok_def)
    show ?thesis
    proof (cases res1)
      case (Inl err)
      with Cons.prems Some oc m show ?thesis by (auto simp: io_inv_def)
    next
      case (Inr r)
      let ?q = "q\<lparr>rq_optimized := Some r, rq_optimized_at_generation := io_generation io\<rparr>"
      let ?io = "io1\<lparr>io_queries := AList.update i ?q (io_queries io1)\<rparr>"
      have "io_inv fin opt S ?io"
        using Cons.prems(1) m q Inr
        by (auto simp: io_inv_def query_ok_def AList.update_conv' distinct_update)
      moreover obtain counts' where "reoptimize fin opt is counts' ?io = (res, io')"
        using Cons.prems(2) Some oc m(1) Inr by (auto simp: Let_def)
      ultimately have "io_inv fin opt S io' \<and> io_generation io' = io_generation ?io" by (rule Cons.IH)
      with m(1) show ?thesis by simp
    qed
  qed
qed simp

lemma apply_rule_change_distinct: "distinct rules \<Longrightarrow> distinct (fold apply_rule_change ds rules)"
  by (induction ds arbitrary: rules) (auto simp: apply_rule_change_def split: rule_change.splits)

lemma word_inc:
  assumes "(g :: u64) \<noteq> -1"
  shows "k \<le> g \<Longrightarrow> k < g + 1"
proof -
  from assms have "1 + g \<noteq> 0" by (simp add: eq_neg_iff_add_eq_0 add.commute)
  then have "unat (g + 1) = Suc (unat g)" by (simp add: unatSuc add.commute)
  then show "k \<le> g \<Longrightarrow> k < g + 1" by (simp add: word_less_nat_alt word_le_nat_alt)
qed

text \<open>The state in which the loop of \<^verbatim>\<open>apply_changes\<close> starts.\<close>

definition io_next_generation :: "'f incremental_optimizer \<Rightarrow> 'f incremental_optimizer" where
  "io_next_generation io = io\<lparr>io_pending_changes := [],
     io_active_rules := fold apply_rule_change (io_pending_changes io) (io_active_rules io),
     io_generation := io_generation io + 1,
     io_stats := (io_stats io)\<lparr>cs_current_time := io_generation io + 1\<rparr>, io_memo := []\<rparr>"

definition stale_ids :: "'f incremental_optimizer \<Rightarrow> u64 list" where
  "stale_ids io = map rq_id (filter (\<lambda>q. rq_optimized_at_generation q < io_generation io) (map snd (io_queries io)))"

lemma apply_changes_eq:
  "apply_changes fin opt io = (if io_pending_changes io = [] then
      (Inr \<lparr>ur_reoptimized_count = 0, ur_skipped_count = length (io_queries io),
             ur_generation = io_generation io, ur_stats = io_stats io\<rparr>, io)
    else (case reoptimize fin opt (stale_ids (io_next_generation io)) (0, 0) (io_next_generation io) of
        (Inl e, io') \<Rightarrow> (Inl e, io')
      | (Inr (n, k), io') \<Rightarrow>
          (let st = (io_stats io')\<lparr>cs_steps := cs_steps (io_stats io') + 1,
                       cs_output_records := cs_output_records (io_stats io') + of_nat n\<rparr>
           in (Inr \<lparr>ur_reoptimized_count = n,
                 ur_skipped_count = k + (length (io_queries io') - length (stale_ids (io_next_generation io))),
                 ur_generation = io_generation io', ur_stats = st\<rparr>, io'\<lparr>io_stats := st\<rparr>))))"
  by (auto simp: apply_changes_def Let_def io_next_generation_def stale_ids_def memo_clear_def split: sum.splits prod.splits)

lemma io_next_generation_inv:
  assumes "io_inv fin opt S io" "io_generation io \<noteq> -1"
  shows "io_inv fin opt S (io_next_generation io)"
  using assms word_inc [OF assms(2), THEN order_less_imp_le]
  by (auto simp: io_inv_def io_next_generation_def memo_ok_def memo_get_def query_ok_def apply_rule_change_distinct)

lemma io_inv_stats [simp]: "io_inv fin opt S (io\<lparr>io_stats := s\<rparr>) = io_inv fin opt S io"
  by (simp add: io_inv_def)

lemma apply_changes_inv:
  assumes "io_inv fin opt S io" "io_generation io \<noteq> -1" "apply_changes fin opt io = (res, io')"
  shows "io_inv fin opt S io'"
proof (cases "io_pending_changes io = []")
  case True
  with assms show ?thesis by (simp add: apply_changes_eq)
next
  case False
  obtain r io1 where r: "reoptimize fin opt (stale_ids (io_next_generation io)) (0, 0) (io_next_generation io) = (r, io1)"
    by (cases "reoptimize fin opt (stale_ids (io_next_generation io)) (0, 0) (io_next_generation io)")
  from reoptimize_inv [OF io_next_generation_inv [OF assms(1,2)] r] have "io_inv fin opt S io1" by simp
  with False r assms(3) show ?thesis
    by (auto simp: apply_changes_eq Let_def split: sum.splits prod.splits)
qed

lemma register_query_inv:
  assumes "io_inv fin opt S io" "e \<in> S" "register_query fin opt e io = (res, io')"
  shows "io_inv fin opt S io'"
proof -
  let ?io = "io\<lparr>io_next_query_id := io_next_query_id io + 1\<rparr>"
  obtain r io1 where oc: "optimize_and_cache fin opt e ?io = (r, io1)"
    by (cases "optimize_and_cache fin opt e ?io")
  from assms(1) have "memo_ok fin opt S (io_memo ?io)" by (simp add: io_inv_def)
  from optimize_and_cache_ok [OF oc this assms(2)] obtain m where
    m: "io1 = ?io\<lparr>io_memo := m\<rparr>" "memo_ok fin opt S m"
       "\<And>x. r = Inr x \<Longrightarrow> answers fin opt S (structural_hash fin e) x" by auto
  show ?thesis
  proof (cases r)
    case (Inl err)
    with assms oc m show ?thesis by (auto simp: register_query_def io_inv_def Let_def)
  next
    case (Inr x)
    let ?q = "\<lparr>rq_id = io_next_query_id io, rq_original = e, rq_optimized = Some x,
        rq_optimized_at_generation = io_generation io\<rparr>"
    have "query_ok fin opt S (io_generation io) (io_next_query_id io) ?q"
      using assms(2) m(3) [OF Inr] by (simp add: query_ok_def)
    with assms oc m Inr show ?thesis
      by (auto simp: register_query_def io_inv_def Let_def AList.update_conv' distinct_update split: if_splits)
  qed
qed

lemma map_of_mset_eq:
  assumes "mset xs = mset ys" "distinct (map fst ys)"
  shows "distinct (map fst xs) \<and> map_of xs = map_of ys"
proof -
  from assms have "mset (map fst xs) = mset (map fst ys)" by simp
  then have d: "distinct (map fst xs)" using assms(2) mset_eq_imp_distinct_iff by blast
  moreover have "set xs = set ys" using assms(1) mset_eq_setD by blast
  ultimately show ?thesis using assms(2) map_of_inject_set by blast
qed

lemma io_step_inv: "io_step fin opt S io io' \<Longrightarrow> io_inv fin opt S io \<Longrightarrow> io_inv fin opt S io'"
proof (induction rule: io_step.induct)
  case (step_unregister i io res io')
  then show ?case
    by (auto simp: unregister_query_def io_inv_def AList.delete_conv' distinct_delete split: if_splits)
next
  case (step_reorder qs io)
  with map_of_mset_eq [of qs "io_queries io"] show ?case by (simp add: io_inv_def)
next
  case (step_register e io res io')
  then show ?case by (blast intro: register_query_inv)
next
  case (step_apply io res io')
  then show ?case by (blast intro: apply_changes_inv)
qed (auto simp: io_inv_def add_rule_def remove_rule_def set_thresholds_def register_plan_dependencies_def
        unregister_plan_dependencies_def)

lemma io_reachable_inv: "io_reachable fin opt S io \<Longrightarrow> io_inv fin opt S io"
proof (induction rule: io_reachable.induct)
  case (reach_new th)
  show ?case by (simp add: io_inv_def incremental_new_def memo_ok_def)
next
  case (reach_step io io')
  then show ?case by (blast intro: io_step_inv)
qed

text \<open>Claim C9. What the incremental optimizer hands out for a registered query, after any
  sequence of registrations, rule changes, failed and successful updates, is the batch optimizer's
  answer for some plan with the same structural hash; where the hash tells the plans apart, it is
  the answer for the query's own plan.\<close>

theorem incremental_optimized:
  assumes "io_reachable fin opt S io" and "map_of (io_queries io) i = Some q"
  shows "\<exists>r. get_optimized i io = Inr (Some r)
    \<and> (\<exists>e \<in> S. structural_hash fin e = structural_hash fin (rq_original q) \<and> opt e = Inr r)
    \<and> (inj_on (structural_hash fin) S \<longrightarrow> opt (rq_original q) = Inr r)"
proof -
  from io_reachable_inv [OF assms(1)] assms(2) have "query_ok fin opt S (io_generation io) i q"
    by (simp add: io_inv_def)
  then obtain r e where "rq_optimized q = Some r" "rq_original q \<in> S" "e \<in> S"
    "structural_hash fin e = structural_hash fin (rq_original q)" "opt e = Inr r"
    by (auto simp: query_ok_def answers_def)
  with assms(2) show ?thesis by (auto simp: get_optimized_def dest: inj_onD)
qed


text \<open>The premise that the hash tells the plans apart is not met by the memo's hash: of two filters
  over the same input whose conditions differ below their top operator, whatever the hasher, the
  one registered second is given the optimized plan of the first.\<close>

lemma second_filter_gets_first_plan:
  assumes "opt (Filter p i) = Inr r" "expr_discriminant p = expr_discriminant q"
  shows "let (_, io) = register_query fin opt (Filter p i) (incremental_new th);
             (_, io) = register_query fin opt (Filter q i) io
         in get_optimized 2 io = Inr (Some r)"
  using assms structural_hash_filters_collide [OF assms(2), of fin i]
  by (simp add: register_query_def optimize_and_cache_def incremental_new_def get_optimized_def Let_def)

text \<open>Removing a rule whose addition is still pending has no effect: it ends up active.\<close>

lemma remove_of_pending_rule_ignored:
  "io_active_rules (snd (apply_changes fin opt (remove_rule r (add_rule r (incremental_new th))))) = [r]"
  by (simp add: remove_rule_def add_rule_def incremental_new_def apply_changes_eq io_next_generation_def
      stale_ids_def apply_rule_change_def Let_def)

subsection \<open>A round of changes\<close>

definition optimized_changed :: "'f incremental_optimizer \<Rightarrow> 'f incremental_optimizer \<Rightarrow> u64 \<Rightarrow> bool" where
  "optimized_changed io io' i \<longleftrightarrow>
     map_option rq_optimized (map_of (io_queries io') i) \<noteq> map_option rq_optimized (map_of (io_queries io) i)"

lemma optimize_and_cache_memo:
  assumes "optimize_and_cache fin opt e io = (res, io')"
  shows "\<exists>m. io' = io\<lparr>io_memo := m\<rparr>"
proof (cases "io' = io")
  case True
  then have "io' = io\<lparr>io_memo := io_memo io\<rparr>" by simp
  then show ?thesis ..
next
  case False
  with assms show ?thesis
    by (auto simp: optimize_and_cache_def Let_def split: option.splits sum.splits)
qed

lemma reoptimize_effect:
  assumes "reoptimize fin opt is (a, b) io = (Inr (a', b'), io')" "distinct is" "set is \<subseteq> fst ` set (io_queries io)"
  shows "map fst (io_queries io') = map fst (io_queries io) \<and> io_pending_changes io' = io_pending_changes io
    \<and> io_active_rules io' = io_active_rules io \<and> io_generation io' = io_generation io
    \<and> (\<forall>i. i \<notin> set is \<longrightarrow> map_of (io_queries io') i = map_of (io_queries io) i)
    \<and> (\<forall>i \<in> set is. \<exists>q. map_of (io_queries io') i = Some q \<and> rq_optimized_at_generation q = io_generation io)
    \<and> a' + b' = a + b + length is \<and> a' = a + length (filter (optimized_changed io io') is)"
  using assms
proof (induction "is" arbitrary: a b io)
  case (Cons i "is")
  from Cons.prems(3) obtain q where q: "map_of (io_queries io) i = Some q"
    by (metis list.set_intros(1) map_of_eq_None_iff not_None_eq subsetD)
  obtain res io1 where oc: "optimize_and_cache fin opt (rq_original q) io = (res, io1)"
    by (cases "optimize_and_cache fin opt (rq_original q) io")
  then obtain m where m: "io1 = io\<lparr>io_memo := m\<rparr>" by (auto dest: optimize_and_cache_memo)
  from Cons.prems(1) q oc obtain r where r: "res = Inr r" by (cases res) auto
  let ?q = "q\<lparr>rq_optimized := Some r, rq_optimized_at_generation := io_generation io\<rparr>"
  let ?io = "io1\<lparr>io_queries := AList.update i ?q (io_queries io1)\<rparr>"
  let ?d = "case rq_optimized q of None \<Rightarrow> True | Some old \<Rightarrow> old \<noteq> r"
  have run: "reoptimize fin opt is (if ?d then (a + 1, b) else (a, b + 1)) ?io = (Inr (a', b'), io')"
    using Cons.prems(1) q oc m r by (cases ?d) (simp_all add: Let_def)
  have keys: "map fst (io_queries ?io) = map fst (io_queries io)"
    using q m by (simp add: AList.update_keys) (metis weak_map_of_SomeI image_eqI fst_conv map_of_SomeD)
  then have "set is \<subseteq> fst ` set (io_queries ?io)" using Cons.prems(3) by (metis list.set_map set_subset_Cons subset_trans)
  from Cons.IH [where a = "if ?d then a + 1 else a" and b = "if ?d then b else b + 1", OF _ _ this] run Cons.prems(2)
  have IH: "map fst (io_queries io') = map fst (io_queries ?io)" "io_pending_changes io' = io_pending_changes ?io"
    "io_active_rules io' = io_active_rules ?io" "io_generation io' = io_generation ?io"
    "\<forall>j. j \<notin> set is \<longrightarrow> map_of (io_queries io') j = map_of (io_queries ?io) j"
    "\<forall>j \<in> set is. \<exists>q. map_of (io_queries io') j = Some q \<and> rq_optimized_at_generation q = io_generation ?io"
    "a' + b' = (if ?d then a + 1 else a) + (if ?d then b else b + 1) + length is"
    "a' = (if ?d then a + 1 else a) + length (filter (optimized_changed ?io io') is)"
    by (auto split: if_splits)
  have "i \<notin> set is" using Cons.prems(2) by simp
  then have at_i: "map_of (io_queries io') i = Some ?q"
    using IH(5) m by (simp add: AList.update_conv')
  then have "optimized_changed io io' i \<longleftrightarrow> ?d" using q by (auto simp: optimized_changed_def split: option.splits)
  moreover have "filter (optimized_changed ?io io') is = filter (optimized_changed io io') is"
    using \<open>i \<notin> set is\<close> m by (intro filter_cong) (auto simp: optimized_changed_def AList.update_conv')
  ultimately show ?case
    using IH at_i keys m by (auto simp: AList.update_conv')
qed simp

lemma stale_ids_all:
  assumes "io_inv fin opt S io" "io_generation io \<noteq> -1"
  shows "stale_ids (io_next_generation io) = map fst (io_queries io)"
proof -
  have "rq_id q = i \<and> rq_optimized_at_generation q < io_generation io + 1" if "(i, q) \<in> set (io_queries io)" for i q
    using that assms word_inc [OF assms(2)] by (auto simp: io_inv_def query_ok_def)
  then have "filter (\<lambda>q. rq_optimized_at_generation q < io_generation io + 1) (map snd (io_queries io)) = map snd (io_queries io)"
    and "map (\<lambda>x. rq_id (snd x)) (io_queries io) = map fst (io_queries io)"
    by (auto simp: filter_id_conv)
  then show ?thesis by (simp add: stale_ids_def io_next_generation_def comp_def)
qed

text \<open>Claim C12. A round of changes that succeeds leaves no change pending and every query
  optimized under the new generation; no query is lost or added, each is counted once, and the
  reoptimized ones are exactly those whose optimized plan changed. A round without pending
  changes does nothing.\<close>

theorem apply_changes_complete:
  assumes reach: "io_reachable fin opt S io" and gen: "io_generation io \<noteq> -1"
    and run: "apply_changes fin opt io = (Inr res, io')"
  shows "io_pending_changes io' = [] \<and> map fst (io_queries io') = map fst (io_queries io)
    \<and> io_active_rules io' = fold apply_rule_change (io_pending_changes io) (io_active_rules io)
    \<and> ur_reoptimized_count res + ur_skipped_count res = length (io_queries io)
    \<and> ur_reoptimized_count res = length (filter (optimized_changed io io') (map fst (io_queries io)))
    \<and> (if io_pending_changes io = [] then io' = io
       else \<forall>(i, q) \<in> set (io_queries io'). rq_optimized_at_generation q = io_generation io + 1)"
proof (cases "io_pending_changes io = []")
  case True
  with run show ?thesis by (auto simp: apply_changes_eq optimized_changed_def)
next
  case False
  let ?io = "io_next_generation io"
  note inv = io_reachable_inv [OF reach]
  have ids: "stale_ids ?io = map fst (io_queries io)" by (rule stale_ids_all [OF inv gen])
  have q: "io_queries ?io = io_queries io" by (simp add: io_next_generation_def)
  from run False obtain n k io1 where loop: "reoptimize fin opt (map fst (io_queries io)) (0, 0) ?io = (Inr (n, k), io1)"
    and res: "ur_reoptimized_count res = n"
      "ur_skipped_count res = k + (length (io_queries io1) - length (io_queries io))"
      "io_queries io' = io_queries io1" "io_pending_changes io' = io_pending_changes io1"
      "io_active_rules io' = io_active_rules io1"
    by (auto simp: apply_changes_eq ids Let_def split: sum.splits prod.splits)
  from inv have d: "distinct (map fst (io_queries io))" by (simp add: io_inv_def)
  note e = reoptimize_effect [OF loop d, unfolded q]
  have ch: "optimized_changed ?io io1 = optimized_changed io io'"
    by (simp add: optimized_changed_def fun_eq_iff q res(3))
  have len: "length (io_queries io1) = length (io_queries io)" using e by (metis image_set length_map order_refl set_map)
  have "rq_optimized_at_generation q = io_generation io + 1" if "(i, q) \<in> set (io_queries io')" for i q
  proof -
    from e have "map fst (io_queries io') = map fst (io_queries io)" by (simp add: res(3))
    moreover from this that d have "map_of (io_queries io') i = Some q" "i \<in> fst ` set (io_queries io)"
      by (auto simp: map_of_eq_Some_iff) (metis fst_conv image_eqI list.set_map)
    ultimately show ?thesis using e by (auto simp: res(3) io_next_generation_def)
  qed
  with e res ch len False show ?thesis by (auto simp: io_next_generation_def)
qed


text \<open>A hasher and a batch optimizer to evaluate examples with.\<close>

definition length_hasher :: hasher where
  "length_hasher ts = of_nat (length ts)"

definition identity_optimizer :: "rel_expr \<Rightarrow> string + rel_expr" where
  "identity_optimizer e = Inr e"

definition sample_thresholds :: "int staleness_thresholds" where
  "sample_thresholds = \<lparr>cardinality_ratio = 2, ndistinct_ratio = 2, index_changes_trigger = True,
     histogram_kl_threshold = 1, max_age = None\<rparr>"

definition sample_registered :: "int incremental_optimizer" where
  "sample_registered = add_rule ''r'' (snd (register_query length_hasher identity_optimizer (rel_scan ''t'')
     (incremental_new sample_thresholds)))"

lemma sample_registered_reachable:
  "io_reachable length_hasher identity_optimizer {rel_scan ''t''} sample_registered"
  unfolding sample_registered_def
  by (rule reach_step [OF reach_step [OF reach_new step_register [OF _ surjective_pairing]] step_add_rule]) simp

lemma sample_registered_eq:
  "sample_registered = \<lparr>io_memo = memo_insert memo_new (structural_hash length_hasher (rel_scan ''t'')) (rel_scan ''t''),
     io_queries = [(1, \<lparr>rq_id = 1, rq_original = rel_scan ''t'', rq_optimized = Some (rel_scan ''t''),
       rq_optimized_at_generation = 0\<rparr>)],
     io_active_rules = [], io_generation = 0, io_pending_changes = [RuleAdded ''r''],
     io_stats = \<lparr>cs_steps = 0, cs_input_records = 1, cs_output_records = 0, cs_current_time = 0\<rparr>,
     io_next_query_id = 2, io_plan_dependencies = [], io_thresholds = sample_thresholds\<rparr>"
  by (simp add: sample_registered_def register_query_def optimize_and_cache_def incremental_new_def Let_def
      identity_optimizer_def add_rule_def)

theorem incremental_optimized_witness:
  "get_optimized 1 sample_registered = Inr (Some (rel_scan ''t''))"
proof -
  have "map_of (io_queries sample_registered) 1 = Some \<lparr>rq_id = 1, rq_original = rel_scan ''t'',
      rq_optimized = Some (rel_scan ''t''), rq_optimized_at_generation = 0\<rparr>"
    by (simp add: sample_registered_eq)
  from incremental_optimized [OF sample_registered_reachable this] show ?thesis
    by (auto simp: identity_optimizer_def)
qed

theorem apply_changes_complete_witness:
  "\<exists>res io'. apply_changes length_hasher identity_optimizer sample_registered = (Inr res, io')
    \<and> io_pending_changes io' = [] \<and> ur_reoptimized_count res + ur_skipped_count res = 1"
proof -
  have gen: "io_generation sample_registered \<noteq> -1" and len: "length (io_queries sample_registered) = 1"
    by (simp_all add: sample_registered_eq)
  have none: "memo_get [] h = None" for h by (simp add: memo_get_def)
  have "fst (apply_changes length_hasher identity_optimizer sample_registered) \<noteq> Inl x" for x
    by (simp add: sample_registered_eq apply_changes_eq io_next_generation_def stale_ids_def optimize_and_cache_def
        identity_optimizer_def none Let_def)
  then obtain res io' where run: "apply_changes length_hasher identity_optimizer sample_registered = (Inr res, io')"
    by (cases "apply_changes length_hasher identity_optimizer sample_registered"; cases "fst (apply_changes length_hasher identity_optimizer sample_registered)") auto
  with apply_changes_complete [OF sample_registered_reachable gen run] len show ?thesis by auto
qed

subsection \<open>Changes of statistics\<close>

lemma keys_update: "fst ` set (AList.update k v al) = insert k (fst ` set al)"
  by (simp add: AList.dom_update)

lemma resources_set:
  "set (all_resources d) = RowCountRes ` fst ` set (table_cardinalities d)
    \<union> (\<lambda>(t, c). NDistinctRes t c) ` fst ` set (distinct_counts d)
    \<union> (\<lambda>(t, i). IndexRes t i) ` set (dep_indexes d)
    \<union> (\<lambda>(t, c). HistogramRes t c) ` fst ` set (histogram_digests d) \<union> FactRes ` set (dep_facts d)"
  by (auto simp: all_resources_def image_iff Bex_def)

text \<open>The resources of a table, by its statistics.\<close>

definition column_resources :: "string \<Rightarrow> string \<times> 'f column_stats \<Rightarrow> resource_id set" where
  "column_resources t entry = insert (NDistinctRes t (fst entry))
     (if col_histogram (snd entry) = None then {} else {HistogramRes t (fst entry)})"

definition table_resources :: "string \<Rightarrow> 'f statistics \<Rightarrow> resource_id set" where
  "table_resources t ts = insert (RowCountRes t)
     ((\<Union>entry \<in> set (columns ts). column_resources t entry) \<union> IndexRes t ` fst ` set (indexes ts))"

lemma add_column_resources:
  "set (all_resources (add_column_deps F t entry d)) = set (all_resources d) \<union> column_resources t entry"
  by (cases entry; cases "col_histogram (snd entry)")
    (auto simp: add_column_deps_def resources_set keys_update column_resources_def Let_def image_Un)

lemma fold_resources:
  assumes "\<And>x d. set (all_resources (f x d)) = set (all_resources d) \<union> R x"
  shows "set (all_resources (fold f xs d)) = set (all_resources d) \<union> (\<Union>x \<in> set xs. R x)"
  using assms by (induction xs arbitrary: d) auto

lemma add_table_resources:
  "set (all_resources (add_table_deps F provider t d)) = set (all_resources d)
     \<union> (case provider t of None \<Rightarrow> {} | Some ts \<Rightarrow> table_resources t ts)"
proof (cases "provider t")
  case (Some ts)
  let ?d = "d\<lparr>table_cardinalities := AList.update t (row_count ts) (table_cardinalities d)\<rparr>"
  have idx: "set (all_resources (fold (\<lambda>(idx, _) d. d\<lparr>dep_indexes := List.insert (t, idx) (dep_indexes d)\<rparr>) xs d))
      = set (all_resources d) \<union> (\<Union>x \<in> set xs. {IndexRes t (fst x)})" for xs :: "(string \<times> index_stats) list" and d
    by (rule fold_resources) (auto simp: resources_set split: prod.splits)
  have "set (all_resources ?d) = insert (RowCountRes t) (set (all_resources d))"
    by (auto simp: resources_set keys_update)
  with Some show ?thesis
    by (auto simp: add_table_deps_def Let_def idx fold_resources [OF add_column_resources] table_resources_def)
qed (simp add: add_table_deps_def)

lemma referenced_tables_set [simp]: "set (collect_referenced_tables plan) = set (collect_tables_recursive plan)"
  by (simp add: collect_referenced_tables_def)

lemma plan_resources:
  "set (all_resources (from_plan_and_stats F plan provider)) =
     (\<Union>t \<in> set (collect_tables_recursive plan). case provider t of None \<Rightarrow> {} | Some ts \<Rightarrow> table_resources t ts)"
proof -
  have "all_resources (no_dependencies :: 'a plan_dependencies) = []" by (simp add: all_resources_def no_dependencies_def)
  then show ?thesis by (simp add: from_plan_and_stats_def fold_resources [OF add_table_resources])
qed

lemma detect_column_resources:
  assumes "c \<in> set (detect_column_changes F th t new entry)"
  shows "change_resource_id c \<in> column_resources t entry"
  using assms by (cases entry)
    (auto simp: detect_column_changes_def Let_def column_resources_def change_resource_id_def statistics_resource_id_def
      split: option.splits if_splits)

lemma detected_resources:
  assumes "c \<in> set (detect_changes F th t old new)" "\<And>n cols. c \<noteq> IndexSource (IndexAdded t n cols)"
  shows "change_resource_id c \<in> table_resources t old"
  using assms(1) unfolding detect_changes_def Let_def set_append
proof (elim UnE)
  assume "c \<in> set (if f64_le F (cardinality_ratio th) (change_ratio F (row_count old) (row_count new))
         then [StatisticsSource (RowCountChange t (row_count old) (row_count new) (change_ratio F (row_count old) (row_count new)))] else [])"
  then show ?thesis
    by (simp add: table_resources_def change_resource_id_def statistics_resource_id_def split: if_splits)
next
  assume "c \<in> set (concat (map (detect_column_changes F th t new) (columns old)))"
  then obtain entry where "entry \<in> set (columns old)" "c \<in> set (detect_column_changes F th t new entry)" by auto
  with detect_column_resources [OF this(2)] show ?thesis unfolding table_resources_def by blast
next
  assume "c \<in> set (if index_changes_trigger th then
      concat (map (\<lambda>(idx, ix). if map_of (indexes old) idx = None
          then [IndexSource (IndexAdded t idx (ix_columns ix))] else []) (indexes new))
      @ concat (map (\<lambda>(idx, ix). if map_of (indexes new) idx = None
          then [IndexSource (IndexDropped t idx)] else []) (indexes old)) else [])"
  then obtain n ix where "(n, ix) \<in> set (indexes old)" "c = IndexSource (IndexDropped t n)"
    using assms(2) by (auto split: if_splits)
  then have "change_resource_id c = IndexRes t n" "n \<in> fst ` set (indexes old)"
    by (simp_all add: change_resource_id_def index_resource_id_def image_iff Bex_def exI [of _ ix])
  then show ?thesis unfolding table_resources_def by blast
qed

text \<open>The documented result of the dataflow: it succeeds, and gives the values joined with a key.\<close>

definition joins_keys :: "(string, 'v, 'e) dataflow \<Rightarrow> bool" where
  "joins_keys dataflow \<longleftrightarrow>
     (\<forall>ks es. \<exists>out. dataflow ks es = Inr out \<and> set out = {v. \<exists>k \<in> set ks. (k, v) \<in> set es})"

text \<open>A cached plan is reported exactly when it depends on a resource with the key of a changed
  one.\<close>

lemma map_filter_nth:
  "set (List.map_filter (\<lambda>i. if i < length xs then Some (xs ! i) else None) is) = {xs ! i |i. i \<in> set is \<and> i < length xs}"
  by (induction "is") (auto simp: List.map_filter_simps split: if_splits)

lemma nth_members:
  assumes "A = {xs ! i |i. i \<in> is \<and> i < length xs}" "\<And>i. i \<in> is \<longleftrightarrow> (\<exists>k \<in> K. i < length xs \<and> k \<in> G (xs ! i))"
  shows "x \<in> A \<longleftrightarrow> (\<exists>i < length xs. xs ! i = x \<and> (\<exists>k \<in> K. k \<in> G x))"
  unfolding assms(1) by (auto simp: assms(2))

lemma enumerate_edges:
  "(k, i) \<in> set (concat (map (\<lambda>(idx, x). map (\<lambda>r. (g r, idx)) (res x)) (List.enumerate 0 xs)))
     \<longleftrightarrow> i < length xs \<and> k \<in> g ` set (res (xs ! i))"
proof -
  have "(k, i) \<in> set (concat (map (\<lambda>(idx, x). map (\<lambda>r. (g r, idx)) (res x)) (List.enumerate 0 xs)))
      \<longleftrightarrow> (\<exists>(j, x) \<in> set (List.enumerate 0 xs). i = j \<and> k \<in> g ` set (res x))" by fastforce
  then show ?thesis by (auto simp: in_set_enumerate_eq)
qed

lemma compute_affected_plans_iff:
  assumes "joins_keys dataflow"
  shows "\<exists>affected. compute_affected_plans dataflow changes io = Inr affected
    \<and> (\<forall>fp. fp \<in> set affected \<longleftrightarrow> (\<exists>d. map_of (io_plan_dependencies io) fp = Some d
          \<and> (\<exists>c \<in> set changes. \<exists>r \<in> set (all_resources d). resource_key r = resource_key (change_resource_id c))))"
proof (cases "changes = [] \<or> io_plan_dependencies io = []")
  case True
  then show ?thesis by (auto simp: compute_affected_plans_def)
next
  case False
  let ?deps = "io_plan_dependencies io" and ?keys = "map (\<lambda>c. resource_key (change_resource_id c)) changes"
  let ?fps = "map fst ?deps"
  let ?res = "\<lambda>fp. case map_of ?deps fp of Some d \<Rightarrow> all_resources d | None \<Rightarrow> []"
  let ?edges = "concat (map (\<lambda>(idx, fp). map (\<lambda>r. (resource_key r, idx)) (?res fp)) (List.enumerate 0 ?fps))"
  have edges: "(k, i) \<in> set ?edges \<longleftrightarrow> i < length ?fps \<and> k \<in> resource_key ` set (?res (?fps ! i))" for k i
    by (rule enumerate_edges)
  from assms obtain out where out: "dataflow ?keys ?edges = Inr out" "set out = {v. \<exists>k \<in> set ?keys. (k, v) \<in> set ?edges}"
    unfolding joins_keys_def by blast
  let ?affected = "List.map_filter (\<lambda>idx. if idx < length ?fps then Some (?fps ! idx) else None) (remdups_adj (sort out))"
  have "compute_affected_plans dataflow changes io = Inr ?affected"
    using False out(1) by (simp add: compute_affected_plans_def)
  moreover have "fp \<in> set ?affected \<longleftrightarrow> (\<exists>d. map_of ?deps fp = Some d
      \<and> (\<exists>c \<in> set changes. \<exists>r \<in> set (all_resources d). resource_key r = resource_key (change_resource_id c)))" for fp
  proof -
    have "set ?affected = {?fps ! i |i. i \<in> set out \<and> i < length ?fps}"
      by (simp only: map_filter_nth remdups_adj_set set_sort)
    moreover have "i \<in> set out \<longleftrightarrow> (\<exists>k \<in> set ?keys. i < length ?fps \<and> k \<in> resource_key ` set (?res (?fps ! i)))" for i
      unfolding out(2) mem_Collect_eq edges ..
    ultimately have "fp \<in> set ?affected \<longleftrightarrow> (\<exists>i < length ?fps. ?fps ! i = fp \<and> (\<exists>k \<in> set ?keys. k \<in> resource_key ` set (?res fp)))"
      by (rule nth_members [where G = "\<lambda>fp. resource_key ` set (?res fp)"])
    also have "\<dots> \<longleftrightarrow> fp \<in> set ?fps \<and> (\<exists>k \<in> set ?keys. k \<in> resource_key ` set (?res fp))"
      by (auto simp only: in_set_conv_nth)
    also have "\<dots> \<longleftrightarrow> (\<exists>d. map_of ?deps fp = Some d
      \<and> (\<exists>c \<in> set changes. \<exists>r \<in> set (all_resources d). resource_key r = resource_key (change_resource_id c)))"
    proof (cases "map_of ?deps fp")
      case None
      then have "fp \<notin> set ?fps" by (simp add: map_of_eq_None_iff)
      with None show ?thesis by simp
    next
      case (Some d)
      then have "fp \<in> set ?fps" by (metis fst_conv image_eqI list.set_map map_of_SomeD)
      with Some show ?thesis by (simp add: image_iff) metis
    qed
    finally show ?thesis .
  qed
  ultimately show ?thesis by blast
qed

text \<open>Claim C10. No stale plan is missed: when the statistics of a table change so that a change
  is detected, every cached plan that was registered with dependencies on the old statistics and
  scans the table is reported, whatever the arithmetic and the thresholds, except where the only
  change is a new index.\<close>

theorem affected_plans_complete:
  assumes flow: "joins_keys dataflow"
    and registered: "map_of (io_plan_dependencies io) fp = Some (from_plan_and_stats F plan provider)"
    and scans: "t \<in> set (collect_tables_recursive plan)" "provider t = Some old"
    and change: "c \<in> set (detect_changes F (io_thresholds io) t old new)" "\<And>n cols. c \<noteq> IndexSource (IndexAdded t n cols)"
  shows "\<exists>affected. compute_affected_plans dataflow (detect_changes F (io_thresholds io) t old new) io = Inr affected
    \<and> fp \<in> set affected"
proof -
  from scans detected_resources [OF change]
  have "change_resource_id c \<in> set (all_resources (from_plan_and_stats F plan provider))"
    by (auto simp: plan_resources intro!: bexI [of _ t])
  with compute_affected_plans_iff [OF flow, of "detect_changes F (io_thresholds io) t old new" io] registered change(1)
  show ?thesis by blast
qed


text \<open>The dataflow by its documented result, to evaluate examples with.\<close>

definition keyed_join :: "(string, 'v, 'e) dataflow" where
  "keyed_join ks es = Inr (map snd (filter (\<lambda>(k, v). k \<in> set ks) es))"

lemma keyed_join_joins: "joins_keys keyed_join"
  by (force simp: joins_keys_def keyed_join_def)

definition table_stats_of :: "int \<Rightarrow> (string \<times> index_stats) list \<Rightarrow> int statistics" where
  "table_stats_of n ixs = \<lparr>row_count = n, columns = [], indexes = ixs\<rparr>"

definition sample_fingerprint :: query_fingerprint where
  "sample_fingerprint = \<lparr>join_graph_hash = 1, predicate_hash = 2, aggregation_hash = 3, table_count = 1,
     qf_join_count = 0, has_aggregation = False, has_distinct = False, has_limit = False, has_sort = False\<rparr>"

definition sample_cached :: "(string \<times> index_stats) list \<Rightarrow> int incremental_optimizer" where
  "sample_cached ixs = register_plan_dependencies sample_fingerprint
     (from_plan_and_stats int_ops (Distinct (rel_scan ''t'')) [''t'' \<mapsto> table_stats_of 10 ixs])
     (incremental_new sample_thresholds)"

theorem affected_plans_complete_witness:
  "\<exists>affected. compute_affected_plans keyed_join
       (detect_changes int_ops sample_thresholds ''t'' (table_stats_of 10 []) (table_stats_of 30 [])) (sample_cached [])
     = (Inr affected :: string incremental_error + query_fingerprint list) \<and> sample_fingerprint \<in> set affected"
proof -
  have th: "io_thresholds (sample_cached []) = sample_thresholds"
    by (simp add: sample_cached_def register_plan_dependencies_def incremental_new_def)
  have "map_of (io_plan_dependencies (sample_cached [])) sample_fingerprint =
      Some (from_plan_and_stats int_ops (Distinct (rel_scan ''t'')) [''t'' \<mapsto> table_stats_of 10 []])"
    by (simp add: sample_cached_def register_plan_dependencies_def incremental_new_def)
  moreover have "''t'' \<in> set (collect_tables_recursive (Distinct (rel_scan ''t'')))"
    by (simp add: collect_tables_recursive.simps [of "Distinct x" for x] collect_tables_recursive.simps [of "Scan x y z" for x y z]
        rel_scan_def)
  moreover have "StatisticsSource (RowCountChange ''t'' 10 30 3)
      \<in> set (detect_changes int_ops (io_thresholds (sample_cached [])) ''t'' (table_stats_of 10 []) (table_stats_of 30 []))"
    by (simp add: th detect_changes_def change_ratio_def int_ops_def sample_thresholds_def table_stats_of_def Let_def)
  ultimately show ?thesis
    using affected_plans_complete [OF keyed_join_joins, where io = "sample_cached []" and fp = sample_fingerprint
        and F = int_ops and plan = "Distinct (rel_scan ''t'')" and t = "''t''"
        and provider = "[''t'' \<mapsto> table_stats_of 10 []]" and old = "table_stats_of 10 []" and new = "table_stats_of 30 []"
        and c = "StatisticsSource (RowCountChange ''t'' 10 30 3)"]
    by (simp add: th)
qed

text \<open>The exception is real: an index that is added to a scanned table is detected, but the
  plan depends on the indexes that were there when it was made, and is not reported.\<close>

lemma added_index_missed:
  "compute_affected_plans keyed_join
     (detect_changes int_ops sample_thresholds ''t'' (table_stats_of 10 [])
        (table_stats_of 10 [(''i'', \<lparr>ix_columns = [''c''], ix_is_unique = False, ix_is_primary = False, ix_type = BTreeIndex\<rparr>)]))
     (sample_cached []) = (Inr [] :: string incremental_error + query_fingerprint list)"
  by code_simp

text \<open>Only scans are seen: an index scan of the same table is not a dependency.\<close>

lemma index_scan_not_tracked: "collect_tables_recursive (IndexScanRel t c) = []"
  by (simp add: collect_tables_recursive.simps)

text \<open>The queries reported for a change of rules do not depend on the queries: a change that
  mentions an active rule affects all of them, any other change, the addition of a new rule in
  particular, none.\<close>

lemma affected_queries_all_or_none:
  assumes "joins_keys dataflow"
  shows "\<exists>qs. compute_affected_queries dataflow diffs io = Inr qs
    \<and> set qs = (if \<exists>d \<in> set diffs. (case d of RuleAdded r \<Rightarrow> r | RuleRemoved r \<Rightarrow> r) \<in> set (io_active_rules io)
                then fst ` set (io_queries io) else {})"
proof -
  let ?names = "map (\<lambda>c. case c of RuleAdded r \<Rightarrow> r | RuleRemoved r \<Rightarrow> r) diffs"
  let ?deps = "concat (map (\<lambda>qid. map (\<lambda>rule. (rule, qid)) (io_active_rules io)) (map fst (io_queries io)))"
  from assms obtain out where out: "dataflow ?names ?deps = Inr out" "set out = {v. \<exists>k \<in> set ?names. (k, v) \<in> set ?deps}"
    unfolding joins_keys_def by blast
  have edges: "(k, v) \<in> set ?deps \<longleftrightarrow> k \<in> set (io_active_rules io) \<and> v \<in> fst ` set (io_queries io)" for k v by auto
  have "v \<in> set out \<longleftrightarrow> (\<exists>k \<in> set ?names. k \<in> set (io_active_rules io)) \<and> v \<in> fst ` set (io_queries io)" for v
    unfolding out(2) mem_Collect_eq edges by blast
  then have "v \<in> set (remdups_adj (sort out)) \<longleftrightarrow> v \<in> (if \<exists>k \<in> set ?names. k \<in> set (io_active_rules io)
      then fst ` set (io_queries io) else {})" for v by simp
  then have "set (remdups_adj (sort out)) = (if \<exists>k \<in> set ?names. k \<in> set (io_active_rules io)
      then fst ` set (io_queries io) else {})" by (rule set_eqI)
  moreover have "compute_affected_queries dataflow diffs io = Inr (remdups_adj (sort out))"
    unfolding compute_affected_queries_def Let_def out(1) by simp
  ultimately show ?thesis by (simp only: set_map bex_simps) blast
qed

end
