(* ===== verification/Runtime_Stats.thy ===== *)
theory Runtime_Stats
  imports Statistics "HOL-Library.AList"
begin

text \<open>
  What the adaptive executor observes while a query runs, and when it reacts
  (\<^verbatim>\<open>crates/ra-adaptive/src/runtime_stats.rs\<close>, \<^verbatim>\<open>triggers.rs\<close>): the statistics of the
  operators of a plan, the thresholds and the events they trigger. Row counts are 64-bit
  words, estimates are floats of the arithmetic parameter, a \<^verbatim>\<open>Duration\<close> is its number of
  nanoseconds. A hash map is the list of its entries in the order of the iteration.
\<close>

text \<open>The arithmetic with the conversions between floats and integers. \<open>f64_eps\<close> is
  \<^verbatim>\<open>f64::EPSILON\<close>, \<open>f64_of_nanos\<close> is the length in seconds of a \<^verbatim>\<open>Duration\<close>; the others are the literals of the code.\<close>

record 'f runtime_ops = "'f f64_ops" +
  f64_abs :: "'f \<Rightarrow> 'f"
  f64_min :: "'f \<Rightarrow> 'f \<Rightarrow> 'f"
  f64_of_nanos :: "nat \<Rightarrow> 'f"
  f64_of_u64 :: "u64 \<Rightarrow> 'f"
  u64_of_f64 :: "'f \<Rightarrow> u64"
  f64_eps :: 'f
  f64_tenth :: 'f
  f64_half :: 'f
  f64_fifth :: 'f
  f64_2 :: 'f
  f64_3 :: 'f
  f64_4 :: 'f
  f64_8 :: 'f
  f64_10 :: 'f
  f64_100 :: 'f

text \<open>An arithmetic to evaluate examples with.\<close>

definition int_runtime :: "int runtime_ops" where
  "int_runtime = \<lparr>f64_lt = (<), f64_le = (\<le>), f64_add = (+), f64_sub = (-), f64_mul = (*), f64_div = (div),
     f64_max = max, f64_ln = id, f64_midpoint = (\<lambda>a b. (a + b) div 2), f64_sum = sum_list, f64_zero = 0,
     f64_one = 1, f64_200 = 200, f64_epsilon = 0, f64_max_value = 1000000, f64_abs = abs, f64_min = min, f64_of_nanos = int, f64_of_u64 = uint,
     u64_of_f64 = of_int, f64_eps = 1, f64_tenth = 0, f64_half = 0, f64_fifth = 0,
     f64_2 = 2, f64_3 = 3, f64_4 = 4, f64_8 = 8, f64_10 = 10,
     f64_100 = 100\<rparr>"

type_synonym node_id = u64

definition saturating_add :: "'a :: len word \<Rightarrow> 'a word \<Rightarrow> 'a word" where
  "saturating_add a b = (if unat a + unat b < 2 ^ LENGTH('a) then a + b else - 1)"

lemma saturating_add_unat:
  "unat (saturating_add a (b :: 'a :: len word)) = min (unat a + unat b) (2 ^ LENGTH('a) - 1)"
proof (cases "unat a + unat b < 2 ^ LENGTH('a)")
  case True
  then show ?thesis by (simp add: saturating_add_def unat_word_ariths)
next
  case False
  have "unat (- 1 :: 'a word) = 2 ^ LENGTH('a) - 1" by (simp add: unsigned_minus_1_eq_mask mask_eq_exp_minus_1)
  with False show ?thesis by (simp add: saturating_add_def)
qed

lemma unat_bound: "unat (a :: 'a :: len word) < 2 ^ LENGTH('a)"
  by (rule unsigned_less)

lemma saturating_add_0 [simp]: "saturating_add a 0 = a"
  by (simp add: saturating_add_def unat_bound)

lemma saturating_add_mono: "a \<le> saturating_add a b"
proof -
  have "unat a \<le> unat (saturating_add a b)"
    unfolding saturating_add_unat using unat_bound [of a] by linarith
  then show ?thesis by (simp add: word_le_nat_alt)
qed

text \<open>As the machine finds the overflow.\<close>

lemma saturating_add_code [code]: "saturating_add a b = (let s = a + b in if s < a then - 1 else s)"
proof (cases "unat a + unat b < 2 ^ LENGTH('a)")
  case True
  then have "unat (a + b) = unat a + unat b" by (simp add: unat_word_ariths)
  then have "\<not> a + b < a" by (simp add: word_less_nat_alt)
  with True show ?thesis by (simp add: saturating_add_def)
next
  case False
  note a = unat_bound [of a] and b = unat_bound [of b]
  have "unat (a + b) = (unat a + unat b) mod 2 ^ LENGTH('a)" by (rule unat_word_ariths)
  also have "\<dots> = (unat a + unat b - 2 ^ LENGTH('a)) mod 2 ^ LENGTH('a)"
    using False by (intro le_mod_geq) simp
  also have "\<dots> = unat a + unat b - 2 ^ LENGTH('a)" using a b by (intro mod_less) linarith
  finally have "unat (a + b) = unat a + unat b - 2 ^ LENGTH('a)" .
  then have "unat (a + b) < unat a" using False b by linarith
  then have "a + b < a" by (simp add: word_less_nat_alt)
  with False show ?thesis by (simp add: saturating_add_def)
qed

subsection \<open>Sketches of columns\<close>

record column_sketch =
  approx_distinct :: u64
  sk_null_count :: u64
  total_count :: u64
  most_frequent :: "(string \<times> u64) option"

definition sketch_new :: column_sketch where
  "sketch_new = \<lparr>approx_distinct = 0, sk_null_count = 0, total_count = 0, most_frequent = None\<rparr>"

definition sketch_null_fraction :: "('f, 'z) runtime_ops_scheme \<Rightarrow> column_sketch \<Rightarrow> 'f" where
  "sketch_null_fraction F s =
    (if total_count s = 0 then f64_zero F
     else f64_div F (f64_of_u64 F (sk_null_count s)) (f64_of_u64 F (total_count s)))"

definition equality_selectivity :: "('f, 'z) runtime_ops_scheme \<Rightarrow> column_sketch \<Rightarrow> 'f" where
  "equality_selectivity F s =
    (if approx_distinct s > 0 then f64_div F (f64_one F) (f64_of_u64 F (approx_distinct s))
     else f64_tenth F)"

definition is_skewed :: "('f, 'z) runtime_ops_scheme \<Rightarrow> column_sketch \<Rightarrow> 'f \<Rightarrow> bool" where
  "is_skewed F s threshold = (case most_frequent s of
     Some (v, freq_count) \<Rightarrow>
       (if total_count s = 0 then False
        else f64_lt F threshold (f64_div F (f64_of_u64 F freq_count) (f64_of_u64 F (total_count s))))
   | None \<Rightarrow> False)"

subsection \<open>Statistics of operators\<close>

record 'f operator_stats =
  actual_rows :: u64
  estimated_rows :: 'f
  elapsed :: nat
  peak_memory_bytes :: u64
  column_sketches :: "(string \<times> column_sketch) list"

definition with_estimate :: "'f \<Rightarrow> 'f operator_stats" where
  "with_estimate est = \<lparr>actual_rows = 0, estimated_rows = est, elapsed = 0, peak_memory_bytes = 0,
     column_sketches = []\<rparr>"

definition cardinality_ratio :: "('f, 'z) runtime_ops_scheme \<Rightarrow> 'f operator_stats \<Rightarrow> 'f option" where
  "cardinality_ratio F s =
    (if f64_lt F (f64_abs F (estimated_rows s)) (f64_eps F) then None
     else Some (f64_div F (f64_of_u64 F (actual_rows s)) (estimated_rows s)))"

definition op_record_rows :: "'f operator_stats \<Rightarrow> u64 \<Rightarrow> 'f operator_stats" where
  "op_record_rows s n = s\<lparr>actual_rows := saturating_add (actual_rows s) n\<rparr>"

definition op_record_elapsed :: "'f operator_stats \<Rightarrow> nat \<Rightarrow> 'f operator_stats" where
  "op_record_elapsed s d = s\<lparr>elapsed := d\<rparr>"

definition op_record_memory :: "'f operator_stats \<Rightarrow> u64 \<Rightarrow> 'f operator_stats" where
  "op_record_memory s bytes = (if bytes > peak_memory_bytes s then s\<lparr>peak_memory_bytes := bytes\<rparr> else s)"

text \<open>Peak memory is the maximum of the reported values, in whatever order they come.\<close>

lemma record_memory_peak:
  "peak_memory_bytes (foldl op_record_memory s bs) = Max (set (peak_memory_bytes s # bs))"
proof (induction bs arbitrary: s)
  case (Cons b bs)
  have p: "peak_memory_bytes (op_record_memory s b) = max (peak_memory_bytes s) b"
    by (auto simp: op_record_memory_def max_def)
  show ?case
    by (cases "bs = []") (simp_all add: Cons.IH p max.assoc)
qed simp

subsection \<open>Statistics of a plan\<close>

type_synonym 'f plan_stats = "(node_id \<times> 'f operator_stats) list"

definition ps_register :: "'f plan_stats \<Rightarrow> node_id \<Rightarrow> 'f \<Rightarrow> 'f plan_stats" where
  "ps_register ps n est = AList.update n (with_estimate est) ps"

definition ps_get :: "'f plan_stats \<Rightarrow> node_id \<Rightarrow> 'f operator_stats option" where
  "ps_get ps n = map_of ps n"

definition ps_record_rows :: "'f plan_stats \<Rightarrow> node_id \<Rightarrow> u64 \<Rightarrow> 'f plan_stats \<times> bool" where
  "ps_record_rows ps n k = (case ps_get ps n of
     Some s \<Rightarrow> (AList.update n (op_record_rows s k) ps, True)
   | None \<Rightarrow> (ps, False))"

definition ps_record_elapsed :: "'f plan_stats \<Rightarrow> node_id \<Rightarrow> nat \<Rightarrow> 'f plan_stats \<times> bool" where
  "ps_record_elapsed ps n d = (case ps_get ps n of
     Some s \<Rightarrow> (AList.update n (op_record_elapsed s d) ps, True)
   | None \<Rightarrow> (ps, False))"

text \<open>The sum wraps around at \<open>2 ^ 64\<close> as in a release build; a debug build panics there.\<close>

definition ps_total_rows :: "'f plan_stats \<Rightarrow> u64" where
  "ps_total_rows ps = sum_list (map (actual_rows \<circ> snd) ps)"

lemma ps_get_register: "ps_get (ps_register ps n est) m = (if m = n then Some (with_estimate est) else ps_get ps m)"
  by (simp add: ps_get_def ps_register_def update_conv)

lemma ps_get_record_rows:
  "ps_get (fst (ps_record_rows ps n k)) m =
    (if m = n then map_option (\<lambda>s. op_record_rows s k) (ps_get ps n) else ps_get ps m)"
  by (auto simp: ps_get_def ps_record_rows_def update_conv split: option.split)

lemma ps_rows_nonzero: "fst (ps_record_rows ps n 0) = ps"
proof (cases "map_of ps n")
  case (Some s)
  have "op_record_rows s 0 = s" by (simp add: op_record_rows_def)
  moreover have "AList.update n s ps = ps" using Some by (induction ps) auto
  ultimately show ?thesis using Some by (simp add: ps_record_rows_def ps_get_def)
qed (simp add: ps_record_rows_def ps_get_def)

text \<open>Row counts of an operator add up: after reports of \<open>ks\<close> rows the count is their sum,
  capped at the largest 64-bit value.\<close>

lemma record_rows_total:
  "ps_get ps n = Some s \<Longrightarrow>
   map_option (unat \<circ> actual_rows) (ps_get (foldl (\<lambda>p k. fst (ps_record_rows p n k)) ps ks) n)
     = Some (min (unat (actual_rows s) + sum_list (map unat ks)) (2 ^ 64 - 1))"
proof (induction ks arbitrary: ps s)
  case Nil
  then show ?case using unat_bound [of "actual_rows s"] by simp
next
  case (Cons k ks)
  let ?ps = "fst (ps_record_rows ps n k)"
  have "ps_get ?ps n = Some (op_record_rows s k)"
    using Cons.prems by (simp add: ps_get_record_rows)
  note IH = Cons.IH [OF this]
  have "min (unat (actual_rows (op_record_rows s k)) + sum_list (map unat ks)) (2 ^ 64 - 1)
      = min (unat (actual_rows s) + sum_list (map unat (k # ks))) (2 ^ 64 - 1)"
    by (simp add: op_record_rows_def saturating_add_unat)
  with IH show ?case by (simp only: foldl.simps)
qed

subsection \<open>Triggers\<close>

datatype trigger_kind = CardinalityUnderestimate | CardinalityOverestimate | SkewDetected | MemoryPressure

definition trigger_kind_label :: "trigger_kind \<Rightarrow> string" where
  "trigger_kind_label k = (case k of
     CardinalityUnderestimate \<Rightarrow> ''cardinality underestimate''
   | CardinalityOverestimate \<Rightarrow> ''cardinality overestimate''
   | SkewDetected \<Rightarrow> ''skew detected''
   | MemoryPressure \<Rightarrow> ''memory pressure'')"

record 'f trigger_event =
  te_node_id :: node_id
  te_kind :: trigger_kind
  te_deviation :: 'f
  te_threshold :: 'f

record 'f trigger_config =
  cardinality_overcount_ratio :: 'f
  cardinality_undercount_ratio :: 'f
  skew_fraction :: 'f
  memory_ratio :: 'f
  min_rows_for_cardinality :: u64

definition trigger_config_default :: "('f, 'z) runtime_ops_scheme \<Rightarrow> 'f trigger_config" where
  "trigger_config_default F = \<lparr>cardinality_overcount_ratio = f64_10 F, cardinality_undercount_ratio = f64_10 F,
     skew_fraction = f64_half F, memory_ratio = f64_3 F, min_rows_for_cardinality = 1000\<rparr>"

definition check_cardinality ::
  "('f, 'z) runtime_ops_scheme \<Rightarrow> 'f trigger_config \<Rightarrow> node_id \<Rightarrow> 'f operator_stats \<Rightarrow> 'f trigger_event list" where
  "check_cardinality F c n s =
    (if actual_rows s < min_rows_for_cardinality c then []
     else (case cardinality_ratio F s of
       None \<Rightarrow> []
     | Some ratio \<Rightarrow>
         (if f64_lt F (cardinality_overcount_ratio c) ratio
          then [\<lparr>te_node_id = n, te_kind = CardinalityUnderestimate, te_deviation = ratio,
                 te_threshold = cardinality_overcount_ratio c\<rparr>] else [])
         @ (if f64_lt F (f64_zero F) ratio
               \<and> f64_lt F (cardinality_undercount_ratio c) (f64_div F (f64_one F) ratio)
            then [\<lparr>te_node_id = n, te_kind = CardinalityOverestimate,
                   te_deviation = f64_div F (f64_one F) ratio,
                   te_threshold = cardinality_undercount_ratio c\<rparr>] else [])))"

text \<open>The loop stops at the first skewed column.\<close>

fun check_skew_loop ::
  "('f, 'z) runtime_ops_scheme \<Rightarrow> 'f trigger_config \<Rightarrow> node_id \<Rightarrow> column_sketch list \<Rightarrow> 'f trigger_event list" where
  "check_skew_loop F c n [] = []"
| "check_skew_loop F c n (sk # sks) =
    (if is_skewed F sk (skew_fraction c)
     then [\<lparr>te_node_id = n, te_kind = SkewDetected,
            te_deviation = (case most_frequent sk of
               None \<Rightarrow> f64_zero F
             | Some (v, cnt) \<Rightarrow>
                 if total_count sk = 0 then f64_zero F
                 else f64_div F (f64_of_u64 F cnt) (f64_of_u64 F (total_count sk))),
            te_threshold = skew_fraction c\<rparr>]
     else check_skew_loop F c n sks)"

definition check_skew ::
  "('f, 'z) runtime_ops_scheme \<Rightarrow> 'f trigger_config \<Rightarrow> node_id \<Rightarrow> 'f operator_stats \<Rightarrow> 'f trigger_event list" where
  "check_skew F c n s = check_skew_loop F c n (map snd (column_sketches s))"

definition check_memory ::
  "('f, 'z) runtime_ops_scheme \<Rightarrow> 'f trigger_config \<Rightarrow> node_id \<Rightarrow> 'f operator_stats \<Rightarrow> 'f trigger_event list" where
  "check_memory F c n s =
    (if f64_lt F (f64_abs F (estimated_rows s)) (f64_eps F) then []
     else (let budgeted = u64_of_f64 F (f64_mul F (estimated_rows s) (f64_8 F)) in
       if budgeted = 0 then []
       else (let ratio = f64_div F (f64_of_u64 F (peak_memory_bytes s)) (f64_of_u64 F budgeted) in
         if f64_lt F (memory_ratio c) ratio
         then [\<lparr>te_node_id = n, te_kind = MemoryPressure, te_deviation = ratio, te_threshold = memory_ratio c\<rparr>]
         else [])))"

definition check_operator ::
  "('f, 'z) runtime_ops_scheme \<Rightarrow> 'f trigger_config \<Rightarrow> node_id \<Rightarrow> 'f operator_stats \<Rightarrow> 'f trigger_event list" where
  "check_operator F c n s = check_cardinality F c n s @ check_skew F c n s @ check_memory F c n s"

definition triggers_evaluate ::
  "('f, 'z) runtime_ops_scheme \<Rightarrow> 'f trigger_config \<Rightarrow> 'f plan_stats \<Rightarrow> 'f trigger_event list" where
  "triggers_evaluate F c ps = concat (map (\<lambda>(n, s). check_operator F c n s) ps)"

text \<open>Every event exceeds its threshold: what it reports as the deviation is above what it
  reports as the threshold, whatever the arithmetic.\<close>

lemma check_skew_loop_events:
  "ev \<in> set (check_skew_loop F c n sks) \<Longrightarrow>
   te_node_id ev = n \<and> te_kind ev = SkewDetected \<and> te_threshold ev = skew_fraction c
   \<and> f64_lt F (te_threshold ev) (te_deviation ev)"
  by (induction F c n sks rule: check_skew_loop.induct)
    (auto simp: is_skewed_def split: if_splits option.splits prod.splits)

lemma check_operator_node: "ev \<in> set (check_operator F c n s) \<Longrightarrow> te_node_id ev = n"
  by (auto simp: check_operator_def check_cardinality_def check_skew_def check_memory_def Let_def
      dest!: check_skew_loop_events split: if_splits option.splits)

lemma check_operator_exceeds:
  assumes "ev \<in> set (check_operator F c n s)"
  shows "f64_lt F (te_threshold ev) (te_deviation ev)"
  using assms
  by (auto simp: check_operator_def check_cardinality_def check_skew_def check_memory_def Let_def
      dest!: check_skew_loop_events split: if_splits option.splits)

lemma check_skew_loop_length: "length (check_skew_loop F c n sks) \<le> 1"
  by (induction F c n sks rule: check_skew_loop.induct) auto

lemma check_operator_length: "length (check_operator F c n s) \<le> 4"
proof -
  have "length (check_cardinality F c n s) \<le> 2" "length (check_memory F c n s) \<le> 1"
    by (simp_all add: check_cardinality_def check_memory_def Let_def split: option.split)
  with check_skew_loop_length [of F c n "map snd (column_sketches s)"] show ?thesis
    by (simp add: check_operator_def check_skew_def)
qed

lemma check_skew_iff:
  "check_skew F c n s \<noteq> [] \<longleftrightarrow> (\<exists>(col, sk) \<in> set (column_sketches s). is_skewed F sk (skew_fraction c))"
proof -
  have "check_skew_loop F c n sks \<noteq> [] \<longleftrightarrow> (\<exists>sk \<in> set sks. is_skewed F sk (skew_fraction c))" for sks
    by (induction sks) auto
  then show ?thesis by (force simp: check_skew_def)
qed

text \<open>Few rows never trigger a cardinality event.\<close>

lemma check_cardinality_min_rows:
  "actual_rows s < min_rows_for_cardinality c \<Longrightarrow> ev \<in> set (check_operator F c n s) \<Longrightarrow>
   te_kind ev \<in> {SkewDetected, MemoryPressure}"
  by (auto simp: check_operator_def check_cardinality_def check_skew_def check_memory_def Let_def
      dest!: check_skew_loop_events split: if_splits)

end
