(* ===== verification/Plan_Switch.thy ===== *)
theory Plan_Switch
  imports Runtime_Stats Join_Transform "HOL-Library.Multiset"
begin

text \<open>
  What the adaptive executor may change in a running plan
  (\<^verbatim>\<open>crates/ra-adaptive/src/plan_switch.rs\<close>) and the log of checkpoints that says when it may
  (\<^verbatim>\<open>checkpoint.rs\<close>). Exchanging the inputs of a join is compared with the meaning of joins
  of the theory \<^verbatim>\<open>Join_Transform\<close>.
\<close>

subsection \<open>Adaptations\<close>

datatype join_strategy = NestedLoop | HashJoinStrategy | SortMerge

definition join_strategy_label :: "join_strategy \<Rightarrow> string" where
  "join_strategy_label s = (case s of
     NestedLoop \<Rightarrow> ''nested-loop'' | HashJoinStrategy \<Rightarrow> ''hash-join'' | SortMerge \<Rightarrow> ''sort-merge'')"

datatype adaptation =
    SwitchJoinStrategy node_id join_strategy join_strategy
  | SwapJoinInputs node_id
  | ReoptimizePlan rel_expr
  | SpillToDisk node_id

definition hash_join_threshold_default :: u64 where
  "hash_join_threshold_default = 10000"

definition choose_join_strategy :: "u64 \<Rightarrow> u64 \<Rightarrow> join_strategy" where
  "choose_join_strategy threshold build_side_rows =
    (if build_side_rows \<le> threshold then NestedLoop else HashJoinStrategy)"

definition handle_underestimate ::
  "('f, 'z) runtime_ops_scheme \<Rightarrow> 'f trigger_event \<Rightarrow> join_strategy \<Rightarrow> adaptation option" where
  "handle_underestimate F ev cur = (case cur of
     NestedLoop \<Rightarrow> Some (SwitchJoinStrategy (te_node_id ev) NestedLoop HashJoinStrategy)
   | HashJoinStrategy \<Rightarrow>
       (if f64_lt F (f64_100 F) (te_deviation ev) then None else Some (SwapJoinInputs (te_node_id ev)))
   | SortMerge \<Rightarrow> Some (SwitchJoinStrategy (te_node_id ev) SortMerge HashJoinStrategy))"

definition handle_overestimate :: "'f trigger_event \<Rightarrow> join_strategy \<Rightarrow> adaptation option" where
  "handle_overestimate ev cur = (case cur of
     HashJoinStrategy \<Rightarrow> Some (SwitchJoinStrategy (te_node_id ev) HashJoinStrategy NestedLoop)
   | SortMerge \<Rightarrow> Some (SwitchJoinStrategy (te_node_id ev) SortMerge NestedLoop)
   | NestedLoop \<Rightarrow> None)"

definition recommend ::
  "('f, 'z) runtime_ops_scheme \<Rightarrow> 'f trigger_event \<Rightarrow> join_strategy \<Rightarrow> adaptation option" where
  "recommend F ev cur = (case te_kind ev of
     CardinalityUnderestimate \<Rightarrow> handle_underestimate F ev cur
   | CardinalityOverestimate \<Rightarrow> handle_overestimate ev cur
   | SkewDetected \<Rightarrow> Some (SwapJoinInputs (te_node_id ev))
   | MemoryPressure \<Rightarrow> Some (SpillToDisk (te_node_id ev)))"

definition swapped_type :: "join_type \<Rightarrow> join_type" where
  "swapped_type jt = (case jt of LeftOuter \<Rightarrow> RightOuter | RightOuter \<Rightarrow> LeftOuter | other \<Rightarrow> other)"

definition swap_join_inputs :: "rel_expr \<Rightarrow> rel_expr option" where
  "swap_join_inputs plan = (case plan of
     Join jt cond left right \<Rightarrow> Some (Join (swapped_type jt) cond right left)
   | _ \<Rightarrow> None)"

lemma swapped_type_involution [simp]: "swapped_type (swapped_type jt) = jt"
  by (cases jt) (simp_all add: swapped_type_def)

lemma swap_join_inputs_Join [simp]:
  "swap_join_inputs (Join jt cond l r) = Some (Join (swapped_type jt) cond r l)"
  by (simp add: swap_join_inputs_def)

lemma swap_join_inputs_SomeD:
  "swap_join_inputs p = Some q \<Longrightarrow>
   \<exists>jt cond l r. p = Join jt cond l r \<and> q = Join (swapped_type jt) cond r l"
  by (auto simp: swap_join_inputs_def split: rel_expr.splits)

lemma swap_join_inputs_twice: "swap_join_inputs p = Some q \<Longrightarrow> swap_join_inputs q = Some p"
  by (auto dest!: swap_join_inputs_SomeD)

text \<open>The node an adaptation is about. No trigger leads to a new plan: the code never
  recommends \<^verbatim>\<open>ReoptimizePlan\<close>.\<close>

definition adaptation_target :: "adaptation \<Rightarrow> node_id option" where
  "adaptation_target a = (case a of
     SwitchJoinStrategy n f t \<Rightarrow> Some n | SwapJoinInputs n \<Rightarrow> Some n | ReoptimizePlan p \<Rightarrow> None
   | SpillToDisk n \<Rightarrow> Some n)"

lemma recommend_target: "recommend F ev cur = Some a \<Longrightarrow> adaptation_target a = Some (te_node_id ev)"
  by (auto simp: recommend_def handle_underestimate_def handle_overestimate_def adaptation_target_def
      split: trigger_kind.splits join_strategy.splits if_splits)

lemma recommend_not_reoptimize: "recommend F ev cur \<noteq> Some (ReoptimizePlan p)"
  using recommend_target [of F ev cur "ReoptimizePlan p"] by (auto simp: adaptation_target_def)

lemma recommend_switch_from:
  "recommend F ev cur = Some (SwitchJoinStrategy n f t) \<Longrightarrow> f = cur \<and> t \<noteq> cur"
  by (auto simp: recommend_def handle_underestimate_def handle_overestimate_def
      split: trigger_kind.splits join_strategy.splits if_splits)

subsection \<open>Exchanging the inputs of a join keeps its rows\<close>

text \<open>A row of the tables \<open>T\<close>: the columns of other tables are null.\<close>

definition row_of :: "string set \<Rightarrow> env \<Rightarrow> bool" where
  "row_of T e \<longleftrightarrow> (\<forall>c. \<not> (\<exists>t \<in> T. cr_table c = Some t) \<longrightarrow> e c = NullC)"

lemma row_of_null [simp]: "row_of T null_row"
  by (simp add: row_of_def null_row_def)

lemma combine_swap:
  assumes "S \<inter> T = {}" "row_of T l" "row_of S r"
  shows "combine S l r = combine T r l"
proof
  fix c :: column_ref
  let ?in = "\<lambda>U :: string set. \<exists>t \<in> U. cr_table c = Some t"
  have "\<not> (?in S \<and> ?in T)" using assms(1) by auto
  moreover have "\<not> ?in T \<Longrightarrow> l c = NullC" "\<not> ?in S \<Longrightarrow> r c = NullC"
    using assms(2,3) by (simp_all add: row_of_def)
  ultimately show "combine S l r c = combine T r l c" by (auto simp: combine_def)
qed

lemma mset_transpose:
  "mset (concat (map (\<lambda>x. filter P (map (f x) ys)) xs))
   = mset (concat (map (\<lambda>y. filter P (map (\<lambda>x. f x y) xs)) ys))"
proof (induction xs)
  case Nil
  then show ?case by (induction ys) auto
next
  case (Cons x xs)
  have "mset (concat (map (\<lambda>y. filter P (map (\<lambda>x. f x y) (x # xs))) ys))
     = mset (filter P (map (f x) ys)) + mset (concat (map (\<lambda>y. filter P (map (\<lambda>x. f x y) xs)) ys))"
    by (induction ys) auto
  with Cons.IH show ?case by simp
qed

definition unmatched_left :: "string set \<Rightarrow> (env \<Rightarrow> bool) \<Rightarrow> env list \<Rightarrow> env list \<Rightarrow> env list" where
  "unmatched_left S on ls rs =
     map (\<lambda>l. combine S l null_row) (filter (\<lambda>l. list_all (\<lambda>r. \<not> on (combine S l r)) rs) ls)"

lemma left_rows_split:
  "mset (left_rows S on ls rs) = mset (inner_rows S on ls rs) + mset (unmatched_left S on ls rs)"
proof -
  have e: "matches S on l rs = [] \<longleftrightarrow> list_all (\<lambda>r. \<not> on (combine S l r)) rs" for l
    by (auto simp: matches_def filter_empty_conv list_all_iff)
  have "mset (case matches S on l rs of [] \<Rightarrow> [combine S l null_row] | ms \<Rightarrow> ms)
     = mset (matches S on l rs)
       + (if list_all (\<lambda>r. \<not> on (combine S l r)) rs then {#combine S l null_row#} else {#})" for l
    by (cases "matches S on l rs") (simp_all flip: e)
  then show ?thesis
    by (induction ls) (auto simp: left_rows_def inner_rows_def unmatched_left_def)
qed

lemma inner_rows_swap:
  assumes "S \<inter> T = {}" "\<forall>l \<in> set ls. row_of T l" "\<forall>r \<in> set rs. row_of S r"
  shows "mset (inner_rows S on ls rs) = mset (inner_rows T on rs ls)"
proof -
  have "map (combine S l) rs = map (\<lambda>r. combine T r l) rs" if "l \<in> set ls" for l
    using combine_swap [OF assms(1)] assms(2,3) that by simp
  then have "inner_rows S on ls rs = concat (map (\<lambda>l. filter on (map (\<lambda>r. combine T r l) rs)) ls)"
    by (simp add: inner_rows_def matches_def cong: map_cong)
  also have "mset \<dots> = mset (inner_rows T on rs ls)"
    unfolding inner_rows_def matches_def by (rule mset_transpose)
  finally show ?thesis .
qed

lemma unmatched_left_swap:
  assumes "S \<inter> T = {}" "\<forall>l \<in> set ls. row_of T l" "\<forall>r \<in> set rs. row_of S r"
  shows "unmatched_left S on ls rs = unmatched_right T on rs ls"
proof -
  have "list_all (\<lambda>r. \<not> on (combine S l r)) rs = list_all (\<lambda>r. \<not> on (combine T r l)) rs" if "l \<in> set ls" for l
    using combine_swap [OF assms(1)] assms(2,3) that by (auto simp: list_all_iff)
  moreover have "combine S l null_row = combine T null_row l" if "l \<in> set ls" for l
    using combine_swap [OF assms(1)] assms(2) that by simp
  ultimately show ?thesis
    by (auto simp: unmatched_left_def unmatched_right_def cong: filter_cong)
qed

lemma unmatched_right_swap:
  assumes "S \<inter> T = {}" "\<forall>l \<in> set ls. row_of T l" "\<forall>r \<in> set rs. row_of S r"
  shows "unmatched_right S on ls rs = unmatched_left T on rs ls"
  using unmatched_left_swap [of T S rs ls on] assms by (simp add: Int_commute)

lemma join_rows_swap:
  assumes "S \<inter> T = {}" "\<forall>l \<in> set ls. row_of T l" "\<forall>r \<in> set rs. row_of S r"
    and "jt \<in> {Inner, Cross, LeftOuter, RightOuter, FullOuter}"
  shows "mset (join_rows jt S on ls rs) = mset (join_rows (swapped_type jt) T on rs ls)"
  using assms(4) inner_rows_swap [OF assms(1-3), of on]
    unmatched_left_swap [OF assms(1-3), of on] unmatched_right_swap [OF assms(1-3), of on]
  by (auto simp: swapped_type_def left_rows_split join_rows_def)

text \<open>Exchanging the inputs of a running join keeps its result: for the inner, cross
  and outer joins the executor's new plan returns the same rows, as a multiset, for every
  condition and all contents of the two inputs, provided the inputs are of different tables.
  The type of the join is adjusted as the exchange requires.\<close>

lemma swap_join_inputs_sound:
  assumes "swap_join_inputs (Join jt cond l r) = Some (Join jt' cond' l' r')"
    and "collect_scan_tables l \<inter> collect_scan_tables r = {}"
    and "\<forall>e \<in> set ls. row_of (collect_scan_tables l) e" "\<forall>e \<in> set rs. row_of (collect_scan_tables r) e"
    and "jt \<in> {Inner, Cross, LeftOuter, RightOuter, FullOuter}"
  shows "cond' = cond \<and> l' = r \<and> r' = l
    \<and> mset (join_rows jt' (collect_scan_tables r') on rs ls) = mset (join_rows jt (collect_scan_tables r) on ls rs)"
proof -
  have "collect_scan_tables r \<inter> collect_scan_tables l = {}" using assms(2) by blast
  note swap = join_rows_swap [OF this assms(3,4,5), of on]
  from assms(1) have "jt' = swapped_type jt" "cond' = cond" "l' = r" "r' = l" by simp_all
  with swap show ?thesis by simp
qed

lemma swap_join_inputs_sound_witness:
  "mset (join_rows RightOuter {''a''} (\<lambda>_. False) [] [null_row])
   = mset (join_rows LeftOuter {''b''} (\<lambda>_. False) [null_row] [])"
proof -
  have "collect_scan_tables (rel_scan ''a'') = {''a''}" "collect_scan_tables (rel_scan ''b'') = {''b''}"
    by code_simp+
  with swap_join_inputs_sound [of LeftOuter "Const NullC" "rel_scan ''a''" "rel_scan ''b''" RightOuter
      "Const NullC" "rel_scan ''b''" "rel_scan ''a''" "[null_row]" "[]" "\<lambda>_. False"]
  show ?thesis by (simp add: swapped_type_def)
qed

text \<open>A semi join or an anti join keeps its type when its inputs are exchanged, so that the new
  plan returns rows of the other table.\<close>

definition semi_rows :: "string set \<Rightarrow> (env \<Rightarrow> bool) \<Rightarrow> env list \<Rightarrow> env list \<Rightarrow> env list" where
  "semi_rows S on ls rs = filter (\<lambda>l. list_ex (\<lambda>r. on (combine S l r)) rs) ls"

lemma semi_join_swap_wrong:
  "swap_join_inputs (Join Semi c l r) = Some (Join Semi c r l)"
  "map (\<lambda>rows. length (semi_rows {} (\<lambda>_. True) (fst rows) (snd rows)))
     [([null_row], [null_row, null_row]), ([null_row, null_row], [null_row])] = [1, 2]"
  by (simp_all add: swapped_type_def semi_rows_def)

subsection \<open>Checkpoints\<close>

datatype checkpoint_state = NotStarted | InProgress u64 | Completed u64

record checkpoint =
  cp_node_id :: node_id
  cp_sequence :: u64
  cp_state :: checkpoint_state
  cp_materialized :: bool

definition cp_not_started :: "node_id \<Rightarrow> u64 \<Rightarrow> checkpoint" where
  "cp_not_started n sq = \<lparr>cp_node_id = n, cp_sequence = sq, cp_state = NotStarted, cp_materialized = False\<rparr>"

definition cp_in_progress :: "node_id \<Rightarrow> u64 \<Rightarrow> u64 \<Rightarrow> checkpoint" where
  "cp_in_progress n sq rows =
    \<lparr>cp_node_id = n, cp_sequence = sq, cp_state = InProgress rows, cp_materialized = False\<rparr>"

definition cp_completed :: "node_id \<Rightarrow> u64 \<Rightarrow> u64 \<Rightarrow> checkpoint" where
  "cp_completed n sq rows =
    \<lparr>cp_node_id = n, cp_sequence = sq, cp_state = Completed rows, cp_materialized = False\<rparr>"

definition state_completed :: "checkpoint_state \<Rightarrow> bool" where
  "state_completed s = (case s of Completed rows \<Rightarrow> True | _ \<Rightarrow> False)"

definition cp_is_completed :: "checkpoint \<Rightarrow> bool" where
  "cp_is_completed cp = state_completed (cp_state cp)"

definition cp_rows_emitted :: "checkpoint \<Rightarrow> u64" where
  "cp_rows_emitted cp = (case cp_state cp of NotStarted \<Rightarrow> 0 | InProgress rows \<Rightarrow> rows | Completed rows \<Rightarrow> rows)"

record checkpoint_manager =
  cm_checkpoints :: "checkpoint list"
  cm_next_sequence :: u64

definition cm_new :: checkpoint_manager where
  "cm_new = \<lparr>cm_checkpoints = [], cm_next_sequence = 0\<rparr>"

definition cm_record :: "checkpoint_manager \<Rightarrow> node_id \<Rightarrow> checkpoint_state \<Rightarrow> checkpoint_manager" where
  "cm_record m n s = m\<lparr>
     cm_checkpoints := cm_checkpoints m
       @ [\<lparr>cp_node_id = n, cp_sequence = cm_next_sequence m, cp_state = s, cp_materialized = False\<rparr>],
     cm_next_sequence := cm_next_sequence m + 1\<rparr>"

definition latest_for :: "checkpoint_manager \<Rightarrow> node_id \<Rightarrow> checkpoint option" where
  "latest_for m n = find (\<lambda>cp. cp_node_id cp = n) (rev (cm_checkpoints m))"

definition all_have_checkpoints :: "checkpoint_manager \<Rightarrow> bool" where
  "all_have_checkpoints m \<longleftrightarrow> cm_checkpoints m \<noteq> []"

definition is_safe_transition :: "checkpoint_manager \<Rightarrow> adaptation \<Rightarrow> bool" where
  "is_safe_transition m a = (case a of
     ReoptimizePlan p \<Rightarrow> all_have_checkpoints m
   | SwitchJoinStrategy n f t \<Rightarrow> (case latest_for m n of Some cp \<Rightarrow> \<not> cp_is_completed cp | None \<Rightarrow> False)
   | SwapJoinInputs n \<Rightarrow> (case latest_for m n of Some cp \<Rightarrow> \<not> cp_is_completed cp | None \<Rightarrow> False)
   | SpillToDisk n \<Rightarrow> (case latest_for m n of Some cp \<Rightarrow> \<not> cp_is_completed cp | None \<Rightarrow> False))"

text \<open>\<^verbatim>\<open>mark_materialized\<close> updates the last checkpoint of the node: the first one in the
  reversed list.\<close>

fun mark_first :: "node_id \<Rightarrow> checkpoint list \<Rightarrow> checkpoint list option" where
  "mark_first n [] = None"
| "mark_first n (cp # cps) =
    (if cp_node_id cp = n then Some (cp\<lparr>cp_materialized := True\<rparr> # cps)
     else map_option ((#) cp) (mark_first n cps))"

definition mark_materialized :: "checkpoint_manager \<Rightarrow> node_id \<Rightarrow> checkpoint_manager \<times> bool" where
  "mark_materialized m n = (case mark_first n (rev (cm_checkpoints m)) of
     Some cps \<Rightarrow> (m\<lparr>cm_checkpoints := rev cps\<rparr>, True)
   | None \<Rightarrow> (m, False))"

definition cm_checkpoint_count :: "checkpoint_manager \<Rightarrow> nat" where
  "cm_checkpoint_count m = length (cm_checkpoints m)"

definition cm_wf :: "checkpoint_manager \<Rightarrow> bool" where
  "cm_wf m \<longleftrightarrow> map cp_sequence (cm_checkpoints m) = map of_nat [0..<length (cm_checkpoints m)]
     \<and> cm_next_sequence m = of_nat (length (cm_checkpoints m))"

lemma cm_wf_new: "cm_wf cm_new"
  by (simp add: cm_wf_def cm_new_def)

lemma cm_wf_record: "cm_wf m \<Longrightarrow> cm_wf (cm_record m n s)"
  by (simp add: cm_wf_def cm_record_def)

lemma mark_first_spec:
  "mark_first n cps = Some cps' \<Longrightarrow> map cp_sequence cps' = map cp_sequence cps
     \<and> map cp_state cps' = map cp_state cps \<and> map cp_node_id cps' = map cp_node_id cps
     \<and> (\<exists>cp. find (\<lambda>c. cp_node_id c = n) cps' = Some cp \<and> cp_materialized cp)"
  by (induction cps arbitrary: cps') (auto split: if_splits)

lemma mark_first_None: "mark_first n cps = None \<longleftrightarrow> find (\<lambda>c. cp_node_id c = n) cps = None"
  by (induction cps) auto

lemma cm_wf_mark: "cm_wf m \<Longrightarrow> cm_wf (fst (mark_materialized m n))"
proof (cases "mark_first n (rev (cm_checkpoints m))")
  case (Some cps)
  assume "cm_wf m"
  from mark_first_spec [OF Some] have "map cp_sequence (rev cps) = map cp_sequence (cm_checkpoints m)"
    by (metis rev_map rev_rev_ident)
  moreover from this have "length (rev cps) = length (cm_checkpoints m)" by (metis length_map)
  ultimately show ?thesis using Some \<open>cm_wf m\<close> by (simp add: mark_materialized_def cm_wf_def)
qed (simp add: mark_materialized_def)

lemma mark_materialized_latest:
  "snd (mark_materialized m n) = (latest_for m n \<noteq> None)
   \<and> (snd (mark_materialized m n) \<longrightarrow>
      (\<exists>cp. latest_for (fst (mark_materialized m n)) n = Some cp \<and> cp_materialized cp))"
proof (cases "mark_first n (rev (cm_checkpoints m))")
  case None
  moreover from None have "find (\<lambda>c. cp_node_id c = n) (rev (cm_checkpoints m)) = None"
    by (simp only: mark_first_None)
  ultimately show ?thesis by (simp add: mark_materialized_def latest_for_def)
next
  case (Some cps)
  then have "find (\<lambda>c. cp_node_id c = n) (rev (cm_checkpoints m)) \<noteq> None"
    by (metis mark_first_None option.distinct(1))
  with mark_first_spec [OF Some] Some show ?thesis
    by (auto simp: mark_materialized_def latest_for_def)
qed

end
