(* ===== verification/Adaptive_Executor.thy ===== *)
theory Adaptive_Executor
  imports Plan_Switch
begin

text \<open>
  The adaptive executor (\<^verbatim>\<open>crates/ra-adaptive/src/executor.rs\<close>): the feedback loop that records
  what the operators of a plan report, evaluates the triggers and applies the adaptations that
  are safe. The executor is a state machine: its steps are the calls of its public interface.
  The second half proves what holds in every state a client can reach.
\<close>

subsection \<open>State\<close>

record 'f adaptive_config =
  check_interval_rows :: u64
  max_adaptations :: u32
  trigger_config :: "'f trigger_config"
  ac_enabled :: bool

definition adaptive_config_default :: "('f, 'z) runtime_ops_scheme \<Rightarrow> 'f adaptive_config" where
  "adaptive_config_default F = \<lparr>check_interval_rows = 10000, max_adaptations = 5,
     trigger_config = trigger_config_default F, ac_enabled = True\<rparr>"

record 'f adaptation_record =
  ar_sequence :: u32
  ar_trigger :: "'f trigger_event"
  ar_adaptation :: adaptation
  ar_rows_at_switch :: u64

record 'f operator_summary =
  os_estimated_rows :: 'f
  os_actual_rows :: u64
  os_cardinality_ratio :: "'f option"

record 'f execution_report =
  er_final_plan :: rel_expr
  er_was_adapted :: bool
  er_adaptation_count :: u32
  er_adaptations :: "'f adaptation_record list"
  er_final_stats :: "(node_id \<times> 'f operator_summary) list"

text \<open>The trigger set holds a clone of the configuration's thresholds and the switcher its
  default threshold; neither ever changes.\<close>

record 'f executor =
  ex_config :: "'f adaptive_config"
  ex_triggers :: "'f trigger_config"
  ex_hash_join_threshold :: u64
  ex_checkpoints :: checkpoint_manager
  ex_plan_stats :: "'f plan_stats"
  ex_current_plan :: rel_expr
  ex_adaptations :: "'f adaptation_record list"
  ex_adaptation_count :: u32
  ex_join_strategies :: "(node_id \<times> join_strategy) list"
  ex_table_stats :: "(string \<times> 'f statistics) list"

definition executor_with_config :: "rel_expr \<Rightarrow> 'f adaptive_config \<Rightarrow> 'f executor" where
  "executor_with_config plan cfg = \<lparr>ex_config = cfg, ex_triggers = trigger_config cfg,
     ex_hash_join_threshold = hash_join_threshold_default, ex_checkpoints = cm_new, ex_plan_stats = [],
     ex_current_plan = plan, ex_adaptations = [], ex_adaptation_count = 0, ex_join_strategies = [],
     ex_table_stats = []\<rparr>"

definition adaptive_executor_new :: "('f, 'z) runtime_ops_scheme \<Rightarrow> rel_expr \<Rightarrow> 'f executor" where
  "adaptive_executor_new F plan = executor_with_config plan (adaptive_config_default F)"

subsection \<open>Operations\<close>

definition register_operator :: "'f executor \<Rightarrow> node_id \<Rightarrow> 'f \<Rightarrow> 'f executor" where
  "register_operator ex n est = ex\<lparr>ex_plan_stats := ps_register (ex_plan_stats ex) n est,
     ex_checkpoints := cm_record (ex_checkpoints ex) n NotStarted\<rparr>"

definition register_join :: "'f executor \<Rightarrow> node_id \<Rightarrow> 'f \<Rightarrow> join_strategy \<Rightarrow> 'f executor" where
  "register_join ex n est s = (let ex1 = register_operator ex n est in
     ex1\<lparr>ex_join_strategies := AList.update n s (ex_join_strategies ex1)\<rparr>)"

definition add_table_stats :: "'f executor \<Rightarrow> string \<Rightarrow> 'f statistics \<Rightarrow> 'f executor" where
  "add_table_stats ex t st = ex\<lparr>ex_table_stats := AList.update t st (ex_table_stats ex)\<rparr>"

definition executor_join_strategy :: "'f executor \<Rightarrow> node_id \<Rightarrow> join_strategy option" where
  "executor_join_strategy ex n = map_of (ex_join_strategies ex) n"

definition apply_adaptation :: "'f executor \<Rightarrow> adaptation \<Rightarrow> 'f executor" where
  "apply_adaptation ex a = (case a of
     SwitchJoinStrategy n f t \<Rightarrow> ex\<lparr>ex_join_strategies := AList.update n t (ex_join_strategies ex)\<rparr>
   | SwapJoinInputs n \<Rightarrow> (case swap_join_inputs (ex_current_plan ex) of
       Some swapped \<Rightarrow> ex\<lparr>ex_current_plan := swapped\<rparr>
     | None \<Rightarrow> ex)
   | ReoptimizePlan new_plan \<Rightarrow> ex\<lparr>ex_current_plan := new_plan\<rparr>
   | SpillToDisk n \<Rightarrow> ex)"

definition try_adapt ::
  "('f, 'z) runtime_ops_scheme \<Rightarrow> 'f executor \<Rightarrow> 'f trigger_event \<Rightarrow> 'f executor \<times> adaptation option" where
  "try_adapt F ex ev =
    (let current_strategy = (case map_of (ex_join_strategies ex) (te_node_id ev) of
         Some s \<Rightarrow> s | None \<Rightarrow> HashJoinStrategy) in
     case recommend F ev current_strategy of
       None \<Rightarrow> (ex, None)
     | Some a \<Rightarrow>
         (if \<not> is_safe_transition (ex_checkpoints ex) a then (ex, None)
          else (apply_adaptation ex a, Some a)))"

fun adapt_events ::
  "('f, 'z) runtime_ops_scheme \<Rightarrow> node_id \<Rightarrow> 'f trigger_event list \<Rightarrow> 'f executor \<Rightarrow> 'f executor \<times> adaptation list" where
  "adapt_events F n [] ex = (ex, [])"
| "adapt_events F n (ev # evs) ex =
    (if ex_adaptation_count ex \<ge> max_adaptations (ex_config ex) then (ex, [])
     else (case try_adapt F ex ev of
       (ex1, Some a) \<Rightarrow>
         (let rows_at = (case ps_get (ex_plan_stats ex1) n of Some s \<Rightarrow> actual_rows s | None \<Rightarrow> 0);
              ex2 = ex1\<lparr>ex_adaptations := ex_adaptations ex1
                   @ [\<lparr>ar_sequence = ex_adaptation_count ex1, ar_trigger = ev, ar_adaptation = a,
                       ar_rows_at_switch = rows_at\<rparr>],
                 ex_adaptation_count := ex_adaptation_count ex1 + 1\<rparr>;
              (ex3, applied) = adapt_events F n evs ex2
          in (ex3, a # applied))
     | (ex1, None) \<Rightarrow> adapt_events F n evs ex1))"

definition evaluate_and_adapt ::
  "('f, 'z) runtime_ops_scheme \<Rightarrow> 'f executor \<Rightarrow> node_id \<Rightarrow> 'f executor \<times> adaptation list" where
  "evaluate_and_adapt F ex n =
    (if ex_adaptation_count ex \<ge> max_adaptations (ex_config ex) then (ex, [])
     else (case ps_get (ex_plan_stats ex) n of
       None \<Rightarrow> (ex, [])
     | Some stats \<Rightarrow> adapt_events F n (check_operator F (ex_triggers ex) n stats) ex))"

text \<open>\<^verbatim>\<open>is_multiple_of\<close>: zero divides only zero.\<close>

definition is_multiple_of :: "u64 \<Rightarrow> u64 \<Rightarrow> bool" where
  "is_multiple_of a b = (if b = 0 then a = 0 else a mod b = 0)"

definition report_rows ::
  "('f, 'z) runtime_ops_scheme \<Rightarrow> 'f executor \<Rightarrow> node_id \<Rightarrow> u64 \<Rightarrow> 'f executor \<times> adaptation list" where
  "report_rows F ex n k =
    (if \<not> ac_enabled (ex_config ex) then (ex, [])
     else
       (let ex1 = ex\<lparr>ex_plan_stats := fst (ps_record_rows (ex_plan_stats ex) n k)\<rparr>;
            rows_emitted = (case ps_get (ex_plan_stats ex1) n of Some s \<Rightarrow> actual_rows s | None \<Rightarrow> 0);
            ex2 = ex1\<lparr>ex_checkpoints := cm_record (ex_checkpoints ex1) n (InProgress rows_emitted)\<rparr>
        in if \<not> is_multiple_of rows_emitted (check_interval_rows (ex_config ex2)) then (ex2, [])
           else evaluate_and_adapt F ex2 n))"

definition report_completed :: "'f executor \<Rightarrow> node_id \<Rightarrow> u64 \<Rightarrow> 'f executor" where
  "report_completed ex n total_rows =
    (let ps = fst (ps_record_rows (ex_plan_stats ex) n 0);
         ps1 = (case ps_get ps n of
           Some s \<Rightarrow> AList.update n (s\<lparr>actual_rows := total_rows\<rparr>) ps
         | None \<Rightarrow> ps)
     in ex\<lparr>ex_plan_stats := ps1, ex_checkpoints := cm_record (ex_checkpoints ex) n (Completed total_rows)\<rparr>)"

definition force_evaluate ::
  "('f, 'z) runtime_ops_scheme \<Rightarrow> 'f executor \<Rightarrow> node_id \<Rightarrow> 'f executor \<times> adaptation list" where
  "force_evaluate F ex n = (if \<not> ac_enabled (ex_config ex) then (ex, []) else evaluate_and_adapt F ex n)"

definition executor_report :: "('f, 'z) runtime_ops_scheme \<Rightarrow> 'f executor \<Rightarrow> 'f execution_report" where
  "executor_report F ex = \<lparr>er_final_plan = ex_current_plan ex, er_was_adapted = (ex_adaptations ex \<noteq> []),
     er_adaptation_count = ex_adaptation_count ex, er_adaptations = ex_adaptations ex,
     er_final_stats = map (\<lambda>(n, s). (n, \<lparr>os_estimated_rows = estimated_rows s, os_actual_rows = actual_rows s,
       os_cardinality_ratio = cardinality_ratio F s\<rparr>)) (ex_plan_stats ex)\<rparr>"

subsection \<open>The log of checkpoints as the executor uses it\<close>

text \<open>The executor needs two laws of the log: the latest entry of a node is the one recorded
  last for it, and recording for a node leaves the other nodes alone.\<close>

locale checkpoint_log =
  fixes record_state :: "'m \<Rightarrow> 'n \<Rightarrow> 's \<Rightarrow> 'm"
    and latest :: "'m \<Rightarrow> 'n \<Rightarrow> 's option"
    and finished :: "'s \<Rightarrow> bool"
  assumes latest_record: "latest (record_state m n s) n' = (if n' = n then Some s else latest m n')"
begin

definition open_for :: "'m \<Rightarrow> 'n \<Rightarrow> bool" where
  "open_for m n \<longleftrightarrow> (\<exists>s. latest m n = Some s \<and> \<not> finished s)"

lemma open_for_record: "open_for (record_state m n s) n' \<longleftrightarrow> (if n' = n then \<not> finished s else open_for m n')"
  by (simp add: open_for_def latest_record)

lemma open_for_records:
  "open_for (foldl (\<lambda>m (n, s). record_state m n s) m ps) n \<longleftrightarrow>
   (case filter (\<lambda>(n', s). n' = n) ps of [] \<Rightarrow> open_for m n | qs \<Rightarrow> \<not> finished (snd (last qs)))"
  by (induction ps rule: rev_induct)
    (auto simp: open_for_record split: list.splits prod.splits)

end

interpretation cm_log: checkpoint_log cm_record "\<lambda>m n. map_option cp_state (latest_for m n)" state_completed
  by unfold_locales (auto simp: cm_record_def latest_for_def)

lemma is_safe_transition_open:
  "adaptation_target a = Some n \<Longrightarrow> is_safe_transition m a \<longleftrightarrow> cm_log.open_for m n"
  by (auto simp: is_safe_transition_def adaptation_target_def cm_log.open_for_def cp_is_completed_def
      split: adaptation.splits option.splits)

subsection \<open>What an evaluation may do\<close>

lemma apply_adaptation_frame [simp]:
  "ex_config (apply_adaptation ex a) = ex_config ex"
  "ex_triggers (apply_adaptation ex a) = ex_triggers ex"
  "ex_checkpoints (apply_adaptation ex a) = ex_checkpoints ex"
  "ex_plan_stats (apply_adaptation ex a) = ex_plan_stats ex"
  "ex_adaptations (apply_adaptation ex a) = ex_adaptations ex"
  "ex_adaptation_count (apply_adaptation ex a) = ex_adaptation_count ex"
  by (simp_all add: apply_adaptation_def split: adaptation.split option.split)

lemma try_adapt_cases:
  obtains (skip) "try_adapt F ex ev = (ex, None)"
  | (adapt) a where "try_adapt F ex ev = (apply_adaptation ex a, Some a)"
      "adaptation_target a = Some (te_node_id ev)" "is_safe_transition (ex_checkpoints ex) a"
      "recommend F ev (case map_of (ex_join_strategies ex) (te_node_id ev) of
         Some s \<Rightarrow> s | None \<Rightarrow> HashJoinStrategy) = Some a"
proof (cases "recommend F ev (case map_of (ex_join_strategies ex) (te_node_id ev) of
    Some s \<Rightarrow> s | None \<Rightarrow> HashJoinStrategy)")
  case None
  then show ?thesis by (intro skip) (simp add: try_adapt_def)
next
  case (Some a)
  show ?thesis
  proof (cases "is_safe_transition (ex_checkpoints ex) a")
    case True
    with Some show ?thesis by (intro adapt) (auto simp: try_adapt_def dest: recommend_target)
  next
    case False
    with Some show ?thesis by (intro skip) (simp add: try_adapt_def)
  qed
qed

text \<open>The plan after a list of adaptations.\<close>

definition replay_plan :: "rel_expr \<Rightarrow> adaptation \<Rightarrow> rel_expr" where
  "replay_plan p a = (case a of
     SwapJoinInputs n \<Rightarrow> (case swap_join_inputs p of Some q \<Rightarrow> q | None \<Rightarrow> p)
   | ReoptimizePlan q \<Rightarrow> q
   | _ \<Rightarrow> p)"

lemma apply_adaptation_plan: "ex_current_plan (apply_adaptation ex a) = replay_plan (ex_current_plan ex) a"
  by (simp add: apply_adaptation_def replay_plan_def split: adaptation.split option.split)

definition is_swap :: "adaptation \<Rightarrow> bool" where
  "is_swap a = (case a of SwapJoinInputs n \<Rightarrow> True | _ \<Rightarrow> False)"

lemma replay_plan_cases:
  "adaptation_target a \<noteq> None \<Longrightarrow> replay_plan p a =
    (if is_swap a then (case swap_join_inputs p of Some q \<Rightarrow> q | None \<Rightarrow> p) else p)"
  by (auto simp: replay_plan_def is_swap_def adaptation_target_def split: adaptation.splits)

lemma replay_plans:
  "\<forall>a \<in> set as. adaptation_target a \<noteq> None \<Longrightarrow> foldl replay_plan p as =
    (if even (length (filter is_swap as)) then p
     else (case swap_join_inputs p of Some q \<Rightarrow> q | None \<Rightarrow> p))"
  by (induction as rule: rev_induct)
    (auto simp: replay_plan_cases dest: swap_join_inputs_twice split: option.splits)

text \<open>The invariant of the executor, for a plan and a configuration it was created with.\<close>

definition record_ok :: "('f, 'z) runtime_ops_scheme \<Rightarrow> 'f adaptation_record \<Rightarrow> bool" where
  "record_ok F r \<longleftrightarrow> adaptation_target (ar_adaptation r) = Some (te_node_id (ar_trigger r))
     \<and> f64_lt F (te_threshold (ar_trigger r)) (te_deviation (ar_trigger r))"

definition executor_inv ::
  "('f, 'z) runtime_ops_scheme \<Rightarrow> rel_expr \<Rightarrow> 'f adaptive_config \<Rightarrow> 'f executor \<Rightarrow> bool" where
  "executor_inv F plan cfg ex \<longleftrightarrow>
     ex_config ex = cfg \<and> ex_triggers ex = trigger_config cfg
     \<and> unat (ex_adaptation_count ex) = length (ex_adaptations ex)
     \<and> ex_adaptation_count ex \<le> max_adaptations cfg
     \<and> map ar_sequence (ex_adaptations ex) = map of_nat [0..<length (ex_adaptations ex)]
     \<and> list_all (record_ok F) (ex_adaptations ex)
     \<and> ex_current_plan ex = foldl replay_plan plan (map ar_adaptation (ex_adaptations ex))
     \<and> (\<not> ac_enabled cfg \<longrightarrow> ex_adaptations ex = [])
     \<and> cm_wf (ex_checkpoints ex)"

lemma executor_inv_init: "executor_inv F plan cfg (executor_with_config plan cfg)"
  by (simp add: executor_inv_def executor_with_config_def cm_wf_new)

lemma executor_inv_frame:
  assumes "executor_inv F plan cfg ex"
    and "ex_config ex' = ex_config ex" "ex_triggers ex' = ex_triggers ex"
    and "ex_adaptations ex' = ex_adaptations ex" "ex_adaptation_count ex' = ex_adaptation_count ex"
    and "ex_current_plan ex' = ex_current_plan ex" "cm_wf (ex_checkpoints ex')"
  shows "executor_inv F plan cfg ex'"
  using assms by (simp add: executor_inv_def)

lemma executor_inv_adapt:
  assumes "executor_inv F plan cfg ex" "ac_enabled cfg" "ex_adaptation_count ex < max_adaptations cfg"
    and "record_ok F r" "ar_sequence r = ex_adaptation_count ex"
  shows "executor_inv F plan cfg ((apply_adaptation ex (ar_adaptation r))
     \<lparr>ex_adaptations := ex_adaptations ex @ [r], ex_adaptation_count := ex_adaptation_count ex + 1\<rparr>)"
proof -
  let ?n = "ex_adaptation_count ex"
  have less: "unat ?n < unat (max_adaptations cfg)" using assms(3) by (simp add: word_less_nat_alt)
  have "unat (max_adaptations cfg) < 2 ^ LENGTH(32)" by (rule unsigned_less)
  with less have suc: "unat (?n + 1) = Suc (unat ?n)" by (simp add: unat_word_ariths)
  with less have le: "?n + 1 \<le> max_adaptations cfg" by (simp add: word_le_nat_alt)
  have sq: "?n = of_nat (length (ex_adaptations ex))"
  proof -
    have "?n = of_nat (unat ?n)" by simp
    also have "unat ?n = length (ex_adaptations ex)" using assms(1) by (simp add: executor_inv_def)
    finally show ?thesis .
  qed
  show ?thesis
    using assms suc le sq by (simp add: executor_inv_def apply_adaptation_plan)
qed

lemma executor_inv_events:
  assumes "executor_inv F plan cfg ex" "ac_enabled cfg"
    and "\<forall>ev \<in> set evs. f64_lt F (te_threshold ev) (te_deviation ev)"
  shows "executor_inv F plan cfg (fst (adapt_events F n evs ex))"
  using assms
proof (induction evs arbitrary: ex)
  case (Cons ev evs)
  show ?case
  proof (cases "ex_adaptation_count ex \<ge> max_adaptations (ex_config ex)")
    case False
    with Cons.prems(1) have less: "ex_adaptation_count ex < max_adaptations cfg"
      by (simp add: executor_inv_def not_le)
    show ?thesis
    proof (cases rule: try_adapt_cases [of F ex ev])
      case skip
      with False Cons show ?thesis by simp
    next
      case (adapt a)
      let ?rows = "case ps_get (ex_plan_stats ex) n of Some s \<Rightarrow> actual_rows s | None \<Rightarrow> 0"
      let ?r = "\<lparr>ar_sequence = ex_adaptation_count ex, ar_trigger = ev, ar_adaptation = a,
                 ar_rows_at_switch = ?rows\<rparr>"
      have "record_ok F ?r" using adapt Cons.prems(3) by (simp add: record_ok_def)
      from executor_inv_adapt [OF Cons.prems(1,2) less this]
      have "executor_inv F plan cfg ((apply_adaptation ex a)
        \<lparr>ex_adaptations := ex_adaptations ex @ [?r], ex_adaptation_count := ex_adaptation_count ex + 1\<rparr>)"
        by simp
      from Cons.IH [OF this Cons.prems(2)] Cons.prems(3) adapt False show ?thesis
        by (simp add: Let_def case_prod_beta)
    qed
  qed (use Cons.prems in simp)
qed simp

lemma executor_inv_evaluate:
  assumes "executor_inv F plan cfg ex" "ac_enabled cfg"
  shows "executor_inv F plan cfg (fst (evaluate_and_adapt F ex n))"
  using assms executor_inv_events [OF assms]
  by (simp add: evaluate_and_adapt_def check_operator_exceeds split: option.split)

subsection \<open>Steps and reachable states\<close>

inductive executor_step :: "('f, 'z) runtime_ops_scheme \<Rightarrow> 'f executor \<Rightarrow> 'f executor \<Rightarrow> bool"
  for F :: "('f, 'z) runtime_ops_scheme" where
  step_register: "executor_step F ex (register_operator ex n est)"
| step_join: "executor_step F ex (register_join ex n est s)"
| step_stats: "executor_step F ex (add_table_stats ex t tst)"
| step_rows: "executor_step F ex (fst (report_rows F ex n k))"
| step_completed: "executor_step F ex (report_completed ex n k)"
| step_force: "executor_step F ex (fst (force_evaluate F ex n))"

inductive executor_reachable ::
  "('f, 'z) runtime_ops_scheme \<Rightarrow> rel_expr \<Rightarrow> 'f adaptive_config \<Rightarrow> 'f executor \<Rightarrow> bool"
  for F :: "('f, 'z) runtime_ops_scheme" and plan :: rel_expr and cfg :: "'f adaptive_config" where
  reach_init: "executor_reachable F plan cfg (executor_with_config plan cfg)"
| reach_step: "executor_reachable F plan cfg ex \<Longrightarrow> executor_step F ex ex' \<Longrightarrow> executor_reachable F plan cfg ex'"

inductive_cases executor_step_cases: "executor_step F ex ex'"

lemma executor_inv_step:
  assumes "executor_inv F plan cfg ex" "executor_step F ex ex'"
  shows "executor_inv F plan cfg ex'"
  using assms(2)
proof cases
  case (step_register n est)
  with assms(1) show ?thesis
    by (auto intro!: executor_inv_frame [OF assms(1)] simp: register_operator_def cm_wf_record executor_inv_def)
next
  case (step_join n est s)
  with assms(1) show ?thesis
    by (auto intro!: executor_inv_frame [OF assms(1)]
        simp: register_join_def register_operator_def cm_wf_record executor_inv_def Let_def)
next
  case (step_stats t tst)
  with assms(1) show ?thesis
    by (auto intro!: executor_inv_frame [OF assms(1)] simp: add_table_stats_def executor_inv_def)
next
  case (step_completed n k)
  with assms(1) show ?thesis
    by (auto intro!: executor_inv_frame [OF assms(1)]
        simp: report_completed_def cm_wf_record executor_inv_def Let_def)
next
  case (step_force n)
  then show ?thesis
    using executor_inv_evaluate [OF assms(1)] assms(1) by (auto simp: force_evaluate_def executor_inv_def)
next
  case (step_rows n k)
  let ?ps = "fst (ps_record_rows (ex_plan_stats ex) n k)"
  let ?rows = "case ps_get ?ps n of Some s \<Rightarrow> actual_rows s | None \<Rightarrow> 0"
  let ?ex = "ex\<lparr>ex_plan_stats := ?ps, ex_checkpoints := cm_record (ex_checkpoints ex) n (InProgress ?rows)\<rparr>"
  have inv: "executor_inv F plan cfg ?ex"
    using assms(1) by (auto intro!: executor_inv_frame [OF assms(1)] simp: cm_wf_record executor_inv_def)
  show ?thesis
  proof (cases "ac_enabled cfg")
    case True
    with executor_inv_evaluate [OF inv] inv assms(1) step_rows show ?thesis
      by (auto simp: report_rows_def Let_def executor_inv_def)
  qed (use assms(1) step_rows in \<open>simp add: report_rows_def executor_inv_def\<close>)
qed

lemma executor_reachable_inv: "executor_reachable F plan cfg ex \<Longrightarrow> executor_inv F plan cfg ex"
  by (induction rule: executor_reachable.induct) (auto intro: executor_inv_init executor_inv_step)

text \<open>Claim C13. Whatever calls a client makes, the report of the executor is consistent: it
  counts exactly the adaptations it lists, never more than the configured maximum, numbered
  without gaps from zero; it says that the plan was adapted just when the count is not zero; and
  the final plan is the original plan with the listed adaptations applied in their order.\<close>

theorem adaptive_report_consistent:
  assumes "executor_reachable F plan cfg ex" and "r = executor_report F ex"
  shows "unat (er_adaptation_count r) = length (er_adaptations r)
    \<and> er_adaptation_count r \<le> max_adaptations cfg
    \<and> (er_was_adapted r \<longleftrightarrow> er_adaptation_count r \<noteq> 0)
    \<and> map ar_sequence (er_adaptations r) = map of_nat [0..<length (er_adaptations r)]
    \<and> er_final_plan r = foldl replay_plan plan (map ar_adaptation (er_adaptations r))"
proof -
  have inv: "executor_inv F plan cfg ex" by (rule executor_reachable_inv [OF assms(1)])
  then have len: "unat (ex_adaptation_count ex) = length (ex_adaptations ex)"
    by (simp add: executor_inv_def)
  then have "ex_adaptations ex = [] \<longleftrightarrow> ex_adaptation_count ex = 0"
    by (metis length_0_conv unat_eq_zero)
  with inv len show ?thesis
    by (simp add: assms(2) executor_report_def executor_inv_def)
qed

text \<open>A run with one adaptation: a hash join that produces twice the estimated row.\<close>

definition example_config :: "int adaptive_config" where
  "example_config = \<lparr>check_interval_rows = 1, max_adaptations = 5,
     trigger_config = \<lparr>cardinality_overcount_ratio = 1, cardinality_undercount_ratio = 1,
       skew_fraction = 1, memory_ratio = 3, min_rows_for_cardinality = 0\<rparr>, ac_enabled = True\<rparr>"

definition example_plan :: rel_expr where
  "example_plan = Join LeftOuter (Const (BoolC True)) (rel_scan ''a'') (rel_scan ''b'')"

definition example_run :: "int executor" where
  "example_run = fst (report_rows int_runtime
     (register_join (executor_with_config example_plan example_config) 1 1 HashJoinStrategy) 1 2)"

lemma example_run_reachable: "executor_reachable int_runtime example_plan example_config example_run"
  unfolding example_run_def by (rule reach_step [OF reach_step [OF reach_init step_join] step_rows])

lemma example_run_adaptations: "map ar_adaptation (ex_adaptations example_run) = [SwapJoinInputs 1]"
  by code_simp

theorem adaptive_report_consistent_witness:
  "unat (er_adaptation_count (executor_report int_runtime example_run)) = 1"
proof -
  have "length (ex_adaptations example_run) = 1"
    using arg_cong [OF example_run_adaptations, where f = length] by simp
  then show ?thesis
    using adaptive_report_consistent [OF example_run_reachable refl] by (simp add: executor_report_def)
qed

text \<open>The rows a plan returns when its root is a join, for given rows of the inputs: two rows are
  joined when the condition of the join itself is true of them. \<open>ar\<close> and \<open>other\<close> give the
  comparisons and the expressions the evaluation does not look into.\<close>

definition plan_rows ::
  "(bin_op \<Rightarrow> const_value \<Rightarrow> const_value \<Rightarrow> const_value) \<Rightarrow> (expr \<Rightarrow> env \<Rightarrow> const_value) \<Rightarrow>
    (rel_expr \<Rightarrow> env list) \<Rightarrow> rel_expr \<Rightarrow> env list" where
  "plan_rows ar other rows p = (case p of
     Join jt cond l r \<Rightarrow> join_rows jt (collect_scan_tables r) (passes ar other cond) (rows l) (rows r)
   | _ \<Rightarrow> rows p)"

definition exchangeable :: "(rel_expr \<Rightarrow> env list) \<Rightarrow> rel_expr \<Rightarrow> bool" where
  "exchangeable rows p \<longleftrightarrow> (case p of
     Join jt cond l r \<Rightarrow> jt \<notin> {Semi, Anti} \<and> collect_scan_tables l \<inter> collect_scan_tables r = {}
       \<and> list_all (row_of (collect_scan_tables l)) (rows l)
       \<and> list_all (row_of (collect_scan_tables r)) (rows r)
   | _ \<Rightarrow> True)"

lemma plan_rows_swap:
  assumes "exchangeable rows p" "swap_join_inputs p = Some q"
  shows "mset (plan_rows ar other rows q) = mset (plan_rows ar other rows p)"
proof -
  from swap_join_inputs_SomeD [OF assms(2)] obtain jt c l r
    where p: "p = Join jt c l r" and q: "q = Join (swapped_type jt) c r l" by blast
  have "jt \<in> {Inner, Cross, LeftOuter, RightOuter, FullOuter}"
    using assms(1) p by (cases jt) (simp_all add: exchangeable_def)
  moreover have "collect_scan_tables r \<inter> collect_scan_tables l = {}"
    using assms(1) p by (auto simp: exchangeable_def)
  ultimately show ?thesis
    using join_rows_swap [of "collect_scan_tables r" "collect_scan_tables l" "rows l" "rows r" jt "passes ar other c"] assms(1)
    by (simp add: p q plan_rows_def exchangeable_def list_all_iff)
qed

text \<open>Claim C3. Adaptive execution does not change the answer: in every reachable state the
  current plan returns the same rows as the plan the executor was created with, as a multiset.
  Each plan is evaluated with its own type of join, condition and inputs, under three-valued
  logic, for all contents of the inputs and every meaning of the operators; the root of the plan
  is not a semi or anti join, and its inputs are of different tables.\<close>

theorem adaptive_keeps_rows:
  assumes "executor_reachable F plan cfg ex" and "exchangeable rows plan"
  shows "mset (plan_rows ar other rows (ex_current_plan ex)) = mset (plan_rows ar other rows plan)"
proof -
  have inv: "executor_inv F plan cfg ex" by (rule executor_reachable_inv [OF assms(1)])
  then have "\<forall>a \<in> set (map ar_adaptation (ex_adaptations ex)). adaptation_target a \<noteq> None"
    by (auto simp: executor_inv_def record_ok_def list_all_iff)
  from replay_plans [OF this] inv show ?thesis
    by (auto simp: executor_inv_def plan_rows_swap [OF assms(2)] split: option.split)
qed

theorem adaptive_keeps_rows_witness:
  "mset (plan_rows (\<lambda>_ _ _. NullC) (\<lambda>_ _. NullC) (\<lambda>_. [null_row, null_row]) (ex_current_plan example_run))
   = mset (plan_rows (\<lambda>_ _ _. NullC) (\<lambda>_ _. NullC) (\<lambda>_. [null_row, null_row]) example_plan)"
proof (rule adaptive_keeps_rows [OF example_run_reachable])
  have "collect_scan_tables (rel_scan ''a'') = {''a''}" "collect_scan_tables (rel_scan ''b'') = {''b''}"
    by code_simp+
  then show "exchangeable (\<lambda>_. [null_row, null_row]) example_plan"
    by (simp add: exchangeable_def example_plan_def)
qed

subsection \<open>Operators that have finished\<close>

lemma adapt_events_closed:
  "\<forall>ev \<in> set evs. te_node_id ev = n \<Longrightarrow> \<not> cm_log.open_for (ex_checkpoints ex) n \<Longrightarrow>
   adapt_events F m evs ex = (ex, [])"
proof (induction evs)
  case (Cons ev evs)
  show ?case
  proof (cases rule: try_adapt_cases [of F ex ev])
    case (adapt a)
    with Cons.prems show ?thesis by (simp add: is_safe_transition_open)
  qed (use Cons in simp)
qed simp

text \<open>A finished operator is left alone: while the latest checkpoint of an operator
  says that it has completed, or when there is no checkpoint for it, a forced evaluation changes
  nothing and applies nothing, whatever the statistics of the operator look like.\<close>

lemma completed_not_adapted:
  assumes "case latest_for (ex_checkpoints ex) n of Some cp \<Rightarrow> cp_is_completed cp | None \<Rightarrow> True"
  shows "force_evaluate F ex n = (ex, [])"
proof -
  have "\<not> cm_log.open_for (ex_checkpoints ex) n"
    using assms by (auto simp: cm_log.open_for_def cp_is_completed_def split: option.splits)
  then have "adapt_events F n (check_operator F (ex_triggers ex) n s) ex = (ex, [])" for s
    by (intro adapt_events_closed) (simp_all add: check_operator_node)
  then show ?thesis
    by (simp add: force_evaluate_def evaluate_and_adapt_def split: option.split)
qed

lemma completed_not_adapted_witness:
  "force_evaluate int_runtime (report_completed example_run 1 7) 1 = (report_completed example_run 1 7, [])"
  by (rule completed_not_adapted) code_simp

text \<open>A report of rows opens the operator again, also one that had completed.\<close>

lemma evaluate_checkpoints:
  "ex_checkpoints (fst (adapt_events F m evs ex)) = ex_checkpoints ex"
proof (induction evs arbitrary: ex)
  case (Cons ev evs)
  show ?case
    by (cases rule: try_adapt_cases [of F ex ev]) (simp_all add: Cons.IH Let_def case_prod_beta)
qed simp

lemma late_rows_reopen:
  "ac_enabled (ex_config ex) \<Longrightarrow> cm_log.open_for (ex_checkpoints (fst (report_rows F ex n k))) n"
  by (simp add: report_rows_def evaluate_and_adapt_def evaluate_checkpoints Let_def cm_log.open_for_record
      state_completed_def split: option.split)

lemma completed_operator_adapted:
  "snd (report_rows int_runtime (report_completed example_run 1 7) 1 0) = [SwapJoinInputs 1]"
  by code_simp

subsection \<open>Underestimated joins\<close>

lemma adapt_events_strategies:
  "\<forall>ev \<in> set evs. te_kind ev \<in> {SkewDetected, MemoryPressure} \<Longrightarrow>
   ex_join_strategies (fst (adapt_events F m evs ex)) = ex_join_strategies ex"
proof (induction evs arbitrary: ex)
  case (Cons ev evs)
  show ?case
  proof (cases rule: try_adapt_cases [of F ex ev])
    case (adapt a)
    then have "\<exists>n. a = SwapJoinInputs n \<or> a = SpillToDisk n"
      using Cons.prems by (auto simp: recommend_def)
    then have "ex_join_strategies (apply_adaptation ex a) = ex_join_strategies ex"
      by (auto simp: apply_adaptation_def split: option.split)
    with adapt Cons show ?thesis by (simp add: Let_def case_prod_beta)
  qed (use Cons in simp)
qed simp

lemma check_skew_memory_kinds:
  "ev \<in> set (check_skew F c n s @ check_memory F c n s) \<Longrightarrow> te_kind ev \<in> {SkewDetected, MemoryPressure}"
  by (auto simp: check_skew_def check_memory_def Let_def dest!: check_skew_loop_events split: if_splits)

text \<open>Claim C25. An underestimated nested-loop join becomes a hash join: if the executor has
  adaptations left, the join is running, it has produced enough rows, and their number exceeds
  the estimate by more than the configured factor without also counting as an overestimate, then
  evaluating the triggers switches the strategy of the join to hash join and reports the
  switch.\<close>

theorem underestimated_join_switches:
  assumes "ac_enabled (ex_config ex)" "ex_adaptation_count ex < max_adaptations (ex_config ex)"
    and stats: "ps_get (ex_plan_stats ex) n = Some s"
    and "executor_join_strategy ex n = Some NestedLoop"
    and "latest_for (ex_checkpoints ex) n = Some cp" "\<not> cp_is_completed cp"
    and "min_rows_for_cardinality (ex_triggers ex) \<le> actual_rows s"
    and "cardinality_ratio F s = Some ratio"
    and "f64_lt F (cardinality_overcount_ratio (ex_triggers ex)) ratio"
    and "\<not> f64_lt F (cardinality_undercount_ratio (ex_triggers ex)) (f64_div F (f64_one F) ratio)"
  shows "executor_join_strategy (fst (force_evaluate F ex n)) n = Some HashJoinStrategy
    \<and> SwitchJoinStrategy n NestedLoop HashJoinStrategy \<in> set (snd (force_evaluate F ex n))"
proof -
  let ?ev = "\<lparr>te_node_id = n, te_kind = CardinalityUnderestimate, te_deviation = ratio,
              te_threshold = cardinality_overcount_ratio (ex_triggers ex)\<rparr>"
  let ?a = "SwitchJoinStrategy n NestedLoop HashJoinStrategy"
  let ?rest = "check_skew F (ex_triggers ex) n s @ check_memory F (ex_triggers ex) n s"
  have events: "check_operator F (ex_triggers ex) n s = ?ev # ?rest"
    using assms by (simp add: check_operator_def check_cardinality_def not_less)
  have "is_safe_transition (ex_checkpoints ex) ?a"
    using assms by (simp add: is_safe_transition_def)
  then have adapt: "try_adapt F ex ?ev = (apply_adaptation ex ?a, Some ?a)"
    using assms by (simp add: try_adapt_def recommend_def handle_underestimate_def executor_join_strategy_def)
  have strat: "map_of (ex_join_strategies (apply_adaptation ex ?a)) n = Some HashJoinStrategy"
    by (simp add: apply_adaptation_def update_conv)
  have "\<forall>ev \<in> set ?rest. te_kind ev \<in> {SkewDetected, MemoryPressure}"
    using check_skew_memory_kinds by blast
  note rest = adapt_events_strategies [OF this, where F = F and m = n]
  show ?thesis
    using assms(1,2) strat rest
    by (simp add: force_evaluate_def evaluate_and_adapt_def stats events adapt executor_join_strategy_def
        Let_def case_prod_beta not_le)
qed

theorem underestimated_join_switches_witness:
  "executor_join_strategy (fst (force_evaluate int_runtime
     (fst (report_rows int_runtime (register_join (executor_with_config example_plan
        (example_config\<lparr>check_interval_rows := 0\<rparr>)) 1 1 NestedLoop) 1 2)) 1)) 1 = Some HashJoinStrategy"
  (is "executor_join_strategy (fst (force_evaluate int_runtime ?ex 1)) 1 = _")
proof -
  let ?s = "(with_estimate 1 :: int operator_stats)\<lparr>actual_rows := 2\<rparr>"
  let ?cp = "\<lparr>cp_node_id = 1, cp_sequence = 1, cp_state = InProgress 2, cp_materialized = False\<rparr>"
  have "ac_enabled (ex_config ?ex)" "ex_adaptation_count ?ex < max_adaptations (ex_config ?ex)"
    "ps_get (ex_plan_stats ?ex) 1 = Some ?s" "executor_join_strategy ?ex 1 = Some NestedLoop"
    "latest_for (ex_checkpoints ?ex) 1 = Some ?cp" "\<not> cp_is_completed ?cp"
    "min_rows_for_cardinality (ex_triggers ?ex) \<le> actual_rows ?s"
    "cardinality_ratio int_runtime ?s = Some 2"
    "f64_lt int_runtime (cardinality_overcount_ratio (ex_triggers ?ex)) 2"
    "\<not> f64_lt int_runtime (cardinality_undercount_ratio (ex_triggers ?ex))
       (f64_div int_runtime (f64_one int_runtime) 2)"
    by code_simp+
  from underestimated_join_switches [OF this] show ?thesis by blast
qed

text \<open>The interval is tested on the running total, so reports of three rows with an interval of
  two reach an evaluation only at every other report; with an interval of zero, there is none
  once a row has been produced.\<close>

lemma interval_skipped:
  "map (\<lambda>k. is_multiple_of k 2) [3, 6, 9, 12] = [False, True, False, True]"
  "is_multiple_of k 0 \<longleftrightarrow> k = 0"
  by (simp_all add: is_multiple_of_def)

text \<open>The executor does nothing when it is disabled.\<close>

lemma disabled_never_adapts:
  "executor_reachable F plan cfg ex \<Longrightarrow> \<not> ac_enabled cfg \<Longrightarrow>
   ex_current_plan ex = plan \<and> ex_adaptations ex = [] \<and> report_rows F ex n k = (ex, [])"
  by (drule executor_reachable_inv) (simp add: executor_inv_def report_rows_def)

end
