(* ===== verification/Cost_Type.thy ===== *)
theory Cost_Type
  imports Complex_Main Runtime_Stats
begin

text \<open>
  The cost of a plan (\<^verbatim>\<open>crates/ra-core/src/cost.rs\<close>): total and startup components, the
  scalars made of them and the comparators. The functions are over the arithmetic parameter;
  the theorems about orders instantiate it with the real numbers, that is, they describe the
  formulas without rounding.
\<close>

record 'f cost =
  c_cpu :: 'f
  c_io :: 'f
  c_network :: 'f
  c_memory :: u64
  c_startup_cpu :: 'f
  c_startup_io :: 'f
  c_startup_network :: 'f

definition cost_zero :: "('f, 'z) runtime_ops_scheme \<Rightarrow> 'f cost" where
  "cost_zero F = \<lparr>c_cpu = f64_zero F, c_io = f64_zero F, c_network = f64_zero F, c_memory = 0,
     c_startup_cpu = f64_zero F, c_startup_io = f64_zero F, c_startup_network = f64_zero F\<rparr>"

definition cost_new :: "('f, 'z) runtime_ops_scheme \<Rightarrow> 'f \<Rightarrow> 'f \<Rightarrow> 'f \<Rightarrow> u64 \<Rightarrow> 'f cost" where
  "cost_new F cpu io net mem = \<lparr>c_cpu = cpu, c_io = io, c_network = net, c_memory = mem,
     c_startup_cpu = f64_zero F, c_startup_io = f64_zero F, c_startup_network = f64_zero F\<rparr>"

definition cost_with_startup ::
  "('f, 'z) runtime_ops_scheme \<Rightarrow> 'f \<Rightarrow> 'f \<Rightarrow> 'f \<Rightarrow> u64 \<Rightarrow> 'f \<Rightarrow> 'f \<Rightarrow> 'f \<Rightarrow> 'f cost" where
  "cost_with_startup F cpu io net mem scpu sio snet = \<lparr>c_cpu = cpu, c_io = io, c_network = net,
     c_memory = mem, c_startup_cpu = f64_min F scpu cpu, c_startup_io = f64_min F sio io,
     c_startup_network = f64_min F snet net\<rparr>"

definition weighted_total :: "('f, 'z) runtime_ops_scheme \<Rightarrow> 'f cost \<Rightarrow> 'f \<Rightarrow> 'f \<Rightarrow> 'f \<Rightarrow> 'f" where
  "weighted_total F c wc wi wn =
    f64_add F (f64_add F (f64_mul F (c_cpu c) wc) (f64_mul F (c_io c) wi)) (f64_mul F (c_network c) wn)"

definition weighted_startup :: "('f, 'z) runtime_ops_scheme \<Rightarrow> 'f cost \<Rightarrow> 'f \<Rightarrow> 'f \<Rightarrow> 'f \<Rightarrow> 'f" where
  "weighted_startup F c wc wi wn =
    f64_add F (f64_add F (f64_mul F (c_startup_cpu c) wc) (f64_mul F (c_startup_io c) wi))
      (f64_mul F (c_startup_network c) wn)"

definition cost_total :: "('f, 'z) runtime_ops_scheme \<Rightarrow> 'f cost \<Rightarrow> 'f" where
  "cost_total F c = weighted_total F c (f64_one F) (f64_4 F) (f64_2 F)"

definition cost_startup :: "('f, 'z) runtime_ops_scheme \<Rightarrow> 'f cost \<Rightarrow> 'f" where
  "cost_startup F c = weighted_startup F c (f64_one F) (f64_4 F) (f64_2 F)"

definition cost_run :: "('f, 'z) runtime_ops_scheme \<Rightarrow> 'f cost \<Rightarrow> 'f" where
  "cost_run F c = f64_sub F (cost_total F c) (cost_startup F c)"

definition cost_add :: "('f, 'z) runtime_ops_scheme \<Rightarrow> 'f cost \<Rightarrow> 'f cost \<Rightarrow> 'f cost" where
  "cost_add F a b = \<lparr>c_cpu = f64_add F (c_cpu a) (c_cpu b), c_io = f64_add F (c_io a) (c_io b),
     c_network = f64_add F (c_network a) (c_network b), c_memory = saturating_add (c_memory a) (c_memory b),
     c_startup_cpu = f64_add F (c_startup_cpu a) (c_startup_cpu b),
     c_startup_io = f64_add F (c_startup_io a) (c_startup_io b),
     c_startup_network = f64_add F (c_startup_network a) (c_startup_network b)\<rparr>"

definition limit_cost :: "('f, 'z) runtime_ops_scheme \<Rightarrow> 'f cost \<Rightarrow> 'f \<Rightarrow> 'f \<Rightarrow> 'f cost" where
  "limit_cost F c limit_rows total_rows =
    (if f64_le F total_rows (f64_zero F) \<or> f64_le F total_rows limit_rows then c
     else
       (let fraction = f64_div F limit_rows total_rows;
            run_cpu = f64_sub F (c_cpu c) (c_startup_cpu c);
            run_io = f64_sub F (c_io c) (c_startup_io c);
            run_network = f64_sub F (c_network c) (c_startup_network c)
        in \<lparr>c_cpu = f64_add F (c_startup_cpu c) (f64_mul F run_cpu fraction),
            c_io = f64_add F (c_startup_io c) (f64_mul F run_io fraction),
            c_network = f64_add F (c_startup_network c) (f64_mul F run_network fraction),
            c_memory = c_memory c, c_startup_cpu = c_startup_cpu c, c_startup_io = c_startup_io c,
            c_startup_network = c_startup_network c\<rparr>))"

definition nested_loop_inner_cost :: "('f, 'z) runtime_ops_scheme \<Rightarrow> 'f cost \<Rightarrow> 'f \<Rightarrow> 'f cost" where
  "nested_loop_inner_cost F c outer_rows = \<lparr>c_cpu = f64_mul F (c_cpu c) outer_rows,
     c_io = f64_mul F (c_io c) outer_rows, c_network = f64_mul F (c_network c) outer_rows,
     c_memory = c_memory c, c_startup_cpu = c_startup_cpu c, c_startup_io = c_startup_io c,
     c_startup_network = c_startup_network c\<rparr>"

definition is_cheaper_default :: "('f, 'z) runtime_ops_scheme \<Rightarrow> 'f cost \<Rightarrow> 'f cost \<Rightarrow> bool" where
  "is_cheaper_default F a b = f64_lt F (cost_total F a) (cost_total F b)"

definition is_cheaper_startup :: "('f, 'z) runtime_ops_scheme \<Rightarrow> 'f cost \<Rightarrow> 'f cost \<Rightarrow> bool" where
  "is_cheaper_startup F a b = f64_lt F (cost_startup F a) (cost_startup F b)"

definition f64_clamp :: "('f, 'z) runtime_ops_scheme \<Rightarrow> 'f \<Rightarrow> 'f \<Rightarrow> 'f \<Rightarrow> 'f" where
  "f64_clamp F x lo hi = (if f64_lt F x lo then lo else if f64_lt F hi x then hi else x)"

definition is_cheaper_limit :: "('f, 'z) runtime_ops_scheme \<Rightarrow> 'f \<Rightarrow> 'f cost \<Rightarrow> 'f cost \<Rightarrow> bool" where
  "is_cheaper_limit F fraction a b =
    (let f = f64_clamp F fraction (f64_zero F) (f64_one F);
         cost_a = f64_add F (cost_startup F a) (f64_mul F (cost_run F a) f);
         cost_b = f64_add F (cost_startup F b) (f64_mul F (cost_run F b) f)
     in f64_lt F cost_a cost_b)"

subsection \<open>Exact arithmetic\<close>

definition real_ops :: "real runtime_ops" where
  "real_ops = \<lparr>f64_lt = (<), f64_le = (\<le>), f64_add = (+), f64_sub = (-), f64_mul = (*), f64_div = (/),
     f64_max = max, f64_ln = ln, f64_midpoint = (\<lambda>a b. (a + b) / 2), f64_sum = sum_list, f64_zero = 0,
     f64_one = 1, f64_200 = 200, f64_epsilon = 1 / 10 ^ 10, f64_max_value = 2 ^ 1024, f64_abs = abs,
     f64_min = min, f64_of_nanos = (\<lambda>n. real n / 10 ^ 9), f64_of_u64 = (\<lambda>w. of_int (uint w)),
     u64_of_f64 = (\<lambda>x. word_of_int (max 0 (min (2 ^ 64 - 1) \<lfloor>x\<rfloor>))), f64_eps = 1 / 2 ^ 52, f64_tenth = 1 / 10,
     f64_half = 1 / 2, f64_fifth = 1 / 5, f64_2 = 2, f64_3 = 3, f64_4 = 4, f64_8 = 8, f64_10 = 10,
     f64_100 = 100\<rparr>"

lemma real_ops_simps [simp]:
  "f64_lt real_ops = (<)" "f64_le real_ops = (\<le>)" "f64_add real_ops = (+)" "f64_sub real_ops = (-)"
  "f64_mul real_ops = (*)" "f64_div real_ops = (/)" "f64_min real_ops = min" "f64_zero real_ops = 0"
  "f64_one real_ops = 1" "f64_2 real_ops = 2" "f64_4 real_ops = 4"
  by (simp_all add: real_ops_def)

text \<open>The documented invariant of a cost.\<close>

definition cost_wf :: "real cost \<Rightarrow> bool" where
  "cost_wf c \<longleftrightarrow> c_startup_cpu c \<le> c_cpu c \<and> c_startup_io c \<le> c_io c \<and> c_startup_network c \<le> c_network c"

lemma cost_wf_startup: "cost_wf c \<Longrightarrow> cost_startup real_ops c \<le> cost_total real_ops c"
  by (simp add: cost_wf_def cost_startup_def cost_total_def weighted_total_def weighted_startup_def)

lemma cost_total_add: "cost_total real_ops (cost_add real_ops a b) = cost_total real_ops a + cost_total real_ops b"
  "cost_startup real_ops (cost_add real_ops a b) = cost_startup real_ops a + cost_startup real_ops b"
  by (simp_all add: cost_total_def cost_startup_def weighted_total_def weighted_startup_def cost_add_def algebra_simps)

lemma cost_wf_with_startup: "cost_wf (cost_with_startup real_ops cpu io net mem scpu sio snet)"
  by (simp add: cost_wf_def cost_with_startup_def)

lemma cost_wf_add: "cost_wf a \<Longrightarrow> cost_wf b \<Longrightarrow> cost_wf (cost_add real_ops a b)"
  by (simp add: cost_wf_def cost_add_def add_mono)

lemma limit_component:
  fixes x s n N :: real
  assumes "s \<le> x" "0 \<le> n" "n < N"
  shows "s \<le> s + (x - s) * n / N" "s + (x - s) * n / N \<le> x"
proof -
  have f: "0 \<le> n / N" "n / N \<le> 1" using assms by simp_all
  have "0 \<le> (x - s) * (n / N)" using assms(1) f by (intro mult_nonneg_nonneg) simp_all
  then show "s \<le> s + (x - s) * n / N" by simp
  have "(x - s) * (n / N) \<le> (x - s) * 1" using assms(1) f by (intro mult_left_mono) simp_all
  then show "s + (x - s) * n / N \<le> x" by simp
qed

lemma cost_wf_limit: "cost_wf c \<Longrightarrow> 0 \<le> n \<Longrightarrow> cost_wf (limit_cost real_ops c n N)"
  by (auto simp: cost_wf_def limit_cost_def Let_def not_le intro: limit_component)

text \<open>The cost of a plan under a limit of \<open>n\<close> of its \<open>N\<close> rows lies between its startup
  cost and its total cost, component by component, keeps the startup cost, and grows with the
  limit: reading fewer rows is never estimated to cost more. Costs whose startup is at most the
  total keep that property under addition and under limits. In exact arithmetic.\<close>

lemma limit_cost_between:
  assumes "cost_wf c" "0 \<le> n" "n \<le> m"
  shows "cost_wf (limit_cost real_ops c n N)
    \<and> cost_startup real_ops (limit_cost real_ops c n N) = cost_startup real_ops c
    \<and> cost_total real_ops (limit_cost real_ops c n N) \<le> cost_total real_ops (limit_cost real_ops c m N)
    \<and> cost_total real_ops (limit_cost real_ops c m N) \<le> cost_total real_ops c"
proof -
  have startup: "cost_startup real_ops (limit_cost real_ops c n N) = cost_startup real_ops c"
    by (simp add: limit_cost_def cost_startup_def weighted_startup_def Let_def)
  have below: "c_cpu (limit_cost real_ops c k N) \<le> c_cpu c \<and> c_io (limit_cost real_ops c k N) \<le> c_io c
      \<and> c_network (limit_cost real_ops c k N) \<le> c_network c" if "0 \<le> k" for k
    using assms(1) that by (auto simp: limit_cost_def Let_def cost_wf_def not_le intro: limit_component)
  have mono: "c_cpu (limit_cost real_ops c n N) \<le> c_cpu (limit_cost real_ops c m N)
      \<and> c_io (limit_cost real_ops c n N) \<le> c_io (limit_cost real_ops c m N)
      \<and> c_network (limit_cost real_ops c n N) \<le> c_network (limit_cost real_ops c m N)"
  proof (cases "N \<le> 0 \<or> N \<le> m")
    case True
    then have "limit_cost real_ops c m N = c" by (simp add: limit_cost_def)
    with below [of n] assms(2) show ?thesis by simp
  next
    case False
    then have "n / N \<le> m / N" using assms(3) by (simp add: divide_right_mono)
    moreover have "x * (n / N) \<le> x * (m / N)" if "0 \<le> x" for x
      using that calculation by (rule mult_left_mono [rotated])
    ultimately show ?thesis
      using False assms by (simp add: limit_cost_def Let_def cost_wf_def)
  qed
  show ?thesis
    using cost_wf_limit [OF assms(1,2)] startup mono below [of m] assms(2,3)
    by (simp add: cost_total_def weighted_total_def add_mono)
qed

lemma limit_cost_between_witness:
  "cost_total real_ops (limit_cost real_ops (cost_with_startup real_ops 10 0 0 0 4 0 0) 1 10)
   \<le> cost_total real_ops (limit_cost real_ops (cost_with_startup real_ops 10 0 0 0 4 0 0) 5 10)"
  using limit_cost_between [OF cost_wf_with_startup, of 1 5 10 0 0 0 4 0 0 10] by simp

text \<open>The limit comparator lies between the two others: with fraction 0 it compares startup
  costs and with fraction 1 total costs, and any fraction outside is one of them.\<close>

lemma is_cheaper_limit_bounds:
  "f \<le> 0 \<Longrightarrow> is_cheaper_limit real_ops f a b \<longleftrightarrow> is_cheaper_startup real_ops a b"
  "1 \<le> f \<Longrightarrow> is_cheaper_limit real_ops f a b \<longleftrightarrow> is_cheaper_default real_ops a b"
proof -
  have c0: "f64_clamp real_ops f 0 1 = 0" if "f \<le> 0" using that by (simp add: f64_clamp_def)
  have c1: "f64_clamp real_ops f 0 1 = 1" if "1 \<le> f" using that by (simp add: f64_clamp_def)
  show "f \<le> 0 \<Longrightarrow> is_cheaper_limit real_ops f a b \<longleftrightarrow> is_cheaper_startup real_ops a b"
    by (simp add: is_cheaper_limit_def is_cheaper_startup_def Let_def c0)
  show "1 \<le> f \<Longrightarrow> is_cheaper_limit real_ops f a b \<longleftrightarrow> is_cheaper_default real_ops a b"
    by (simp add: is_cheaper_limit_def is_cheaper_default_def Let_def c1 cost_run_def)
qed

text \<open>A plan that is cheaper both to start and in total is cheaper under every limit.\<close>

lemma is_cheaper_limit_dominates:
  assumes "is_cheaper_startup real_ops a b" "is_cheaper_default real_ops a b"
  shows "is_cheaper_limit real_ops f a b"
proof -
  let ?f = "f64_clamp real_ops f 0 1"
  have f: "0 \<le> ?f" "?f \<le> 1" by (auto simp: f64_clamp_def)
  have eq: "s + (t - s) * ?f = (1 - ?f) * s + ?f * t" for s t :: real by (simp add: algebra_simps)
  have lt: "cost_startup real_ops a < cost_startup real_ops b" "cost_total real_ops a < cost_total real_ops b"
    using assms by (simp_all add: is_cheaper_startup_def is_cheaper_default_def)
  have "(1 - ?f) * cost_startup real_ops a + ?f * cost_total real_ops a
      < (1 - ?f) * cost_startup real_ops b + ?f * cost_total real_ops b"
  proof (cases "?f = 0")
    case False
    with f lt show ?thesis by (intro add_le_less_mono mult_left_mono mult_strict_left_mono) simp_all
  qed (use lt in simp)
  then show ?thesis by (simp add: is_cheaper_limit_def Let_def cost_run_def eq)
qed

text \<open>The inner side of a nested loop is charged its total cost for every outer row, and its
  startup cost is kept as it is: for an empty outer side the total falls below the startup.\<close>

lemma nested_loop_not_wf:
  "cost_wf (cost_with_startup real_ops 10 0 0 0 4 0 0)"
  "\<not> cost_wf (nested_loop_inner_cost real_ops (cost_with_startup real_ops 10 0 0 0 4 0 0) 0)"
  by (simp_all add: cost_wf_def cost_with_startup_def nested_loop_inner_cost_def)

lemma nested_loop_wf:
  assumes "cost_wf c" "1 \<le> n" "0 \<le> c_cpu c" "0 \<le> c_io c" "0 \<le> c_network c"
  shows "cost_wf (nested_loop_inner_cost real_ops c n)"
proof -
  have "s \<le> x * n" if "s \<le> x" "0 \<le> x" for s x :: real
    using mult_left_mono [OF assms(2) that(2)] that by simp
  with assms show ?thesis by (simp add: cost_wf_def nested_loop_inner_cost_def)
qed

end
