(* ===== verification/Cache_Types.thy ===== *)
theory Cache_Types
  imports Cost_Type Algebra_Ops
begin

text \<open>
  The types of the plan cache interface (\<^verbatim>\<open>crates/ra-cache-api/src\<close>): keys and the
  normalisation of their SQL text (\<^verbatim>\<open>key.rs\<close>), cached plans (\<^verbatim>\<open>plan.rs\<close>), metrics
  (\<^verbatim>\<open>metrics.rs\<close>) and drift reports (\<^verbatim>\<open>validity.rs\<close>), with the drift test of the reference
  implementation (\<^verbatim>\<open>crates/ra-cache-impl/src/validity.rs\<close>). SQL text is a list of Unicode
  code points, an \<^verbatim>\<open>Instant\<close> is a number of nanoseconds, a hash map is the list of its
  entries in the order of the iteration.
\<close>

subsection \<open>Keys\<close>

type_synonym code_points = "nat list"

text \<open>\<^verbatim>\<open>char::is_whitespace\<close>: the code points with the Unicode property White_Space.\<close>

definition char_is_whitespace :: "nat \<Rightarrow> bool" where
  "char_is_whitespace c \<longleftrightarrow> 9 \<le> c \<and> c \<le> 13 \<or> c = 32 \<or> c = 133 \<or> c = 160 \<or> c = 5760
     \<or> 8192 \<le> c \<and> c \<le> 8202 \<or> c = 8232 \<or> c = 8233 \<or> c = 8239 \<or> c = 8287 \<or> c = 12288"

definition str_trim :: "code_points \<Rightarrow> code_points" where
  "str_trim s = rev (dropWhile char_is_whitespace (rev (dropWhile char_is_whitespace s)))"

fun normalize_loop :: "bool \<Rightarrow> code_points \<Rightarrow> code_points" where
  "normalize_loop prev [] = []"
| "normalize_loop prev (ch # cs) =
    (if char_is_whitespace ch then (if \<not> prev then 32 # normalize_loop True cs else normalize_loop True cs)
     else ch # normalize_loop False cs)"

definition normalize_sql :: "code_points \<Rightarrow> code_points" where
  "normalize_sql s = normalize_loop False (str_trim s)"

record query_key =
  qk_sql :: code_points
  qk_hardware_profile :: string
  qk_parameter_types :: "string list"

definition query_key_new :: "code_points \<Rightarrow> string \<Rightarrow> string list \<Rightarrow> query_key" where
  "query_key_new sql hw ps = \<lparr>qk_sql = normalize_sql sql, qk_hardware_profile = hw, qk_parameter_types = ps\<rparr>"

text \<open>The words of a text, and the text with one space between its words.\<close>

fun words_loop :: "code_points \<Rightarrow> code_points \<Rightarrow> code_points list" where
  "words_loop w [] = (if w = [] then [] else [rev w])"
| "words_loop w (c # cs) =
    (if char_is_whitespace c then (if w = [] then [] else [rev w]) @ words_loop [] cs
     else words_loop (c # w) cs)"

definition sql_words :: "code_points \<Rightarrow> code_points list" where
  "sql_words s = words_loop [] s"

fun unwords :: "code_points list \<Rightarrow> code_points" where
  "unwords [] = []"
| "unwords [w] = w"
| "unwords (w # v # ws) = w @ 32 # unwords (v # ws)"

lemma space_is_whitespace [simp]: "char_is_whitespace 32"
  by (simp add: char_is_whitespace_def)

lemma words_loop_word:
  "\<forall>c \<in> set u. \<not> char_is_whitespace c \<Longrightarrow> words_loop w (u @ cs) = words_loop (rev u @ w) cs"
  by (induction u arbitrary: w) auto

lemma words_loop_nonempty: "w \<noteq> [] \<Longrightarrow> words_loop w cs \<noteq> []"
  by (induction cs arbitrary: w) auto

lemma words_loop_spaces: "\<forall>c \<in> set cs. char_is_whitespace c \<Longrightarrow> words_loop w cs = (if w = [] then [] else [rev w])"
  by (induction cs arbitrary: w) auto

lemma words_loop_snoc_spaces:
  "\<forall>c \<in> set ts. char_is_whitespace c \<Longrightarrow> words_loop w (cs @ ts) = words_loop w cs"
  by (induction cs arbitrary: w) (auto simp: words_loop_spaces)

lemma words_loop_leading: "words_loop [] (dropWhile char_is_whitespace s) = words_loop [] s"
  by (induction s) auto

lemma sql_words_trim: "sql_words (str_trim s) = sql_words s"
proof -
  let ?t = "dropWhile char_is_whitespace s"
  have "?t = str_trim s @ rev (takeWhile char_is_whitespace (rev ?t))"
    by (metis rev_append rev_rev_ident str_trim_def takeWhile_dropWhile_id)
  then have "words_loop [] ?t = words_loop [] (str_trim s)"
    by (metis words_loop_snoc_spaces set_rev set_takeWhileD)
  then show ?thesis by (simp add: sql_words_def words_loop_leading)
qed

lemma unwords_Cons: "unwords (w # ws) = (if ws = [] then w else w @ 32 # unwords ws)"
  by (cases ws) simp_all

lemma words_loop_last: "cs \<noteq> [] \<Longrightarrow> \<not> char_is_whitespace (last cs) \<Longrightarrow> words_loop w cs \<noteq> []"
  by (induction cs arbitrary: w) (auto simp: words_loop_nonempty split: if_splits)

text \<open>Within a word, the loop copies; at a word's end it leaves one space unless the text ends.\<close>

lemma normalize_loop_words:
  "cs = [] \<or> \<not> char_is_whitespace (last cs) \<Longrightarrow>
   normalize_loop True cs = unwords (words_loop [] cs)
   \<and> (\<forall>w. w \<noteq> [] \<longrightarrow> rev w @ normalize_loop False cs = unwords (words_loop w cs))"
proof (induction cs)
  case (Cons c cs)
  have last: "cs = [] \<or> \<not> char_is_whitespace (last cs)" using Cons.prems by (auto split: if_splits)
  note IH = Cons.IH [OF last]
  show ?case
  proof (cases "char_is_whitespace c")
    case True
    then have "cs \<noteq> []" using Cons.prems by auto
    with last have "words_loop [] cs \<noteq> []" by (intro words_loop_last) simp_all
    with True IH show ?thesis by (simp add: unwords_Cons)
  next
    case False
    have "c # normalize_loop False cs = unwords (words_loop [c] cs)" using IH by (auto dest: spec [of _ "[c]"])
    moreover have "rev w @ c # normalize_loop False cs = unwords (words_loop (c # w) cs)" for w
      using IH by (auto dest: spec [of _ "c # w"])
    ultimately show ?thesis using False by simp
  qed
qed simp

lemma normalize_loop_start:
  "cs \<noteq> [] \<Longrightarrow> \<not> char_is_whitespace (hd cs) \<Longrightarrow> normalize_loop False cs = normalize_loop True cs"
  by (cases cs) simp_all

lemma str_trim_ends:
  "str_trim s = [] \<or> \<not> char_is_whitespace (hd (str_trim s)) \<and> \<not> char_is_whitespace (last (str_trim s))"
proof (cases "str_trim s = []")
  case False
  let ?t = "dropWhile char_is_whitespace s"
  have "last (str_trim s) = hd (dropWhile char_is_whitespace (rev ?t))"
    using False by (simp add: str_trim_def last_rev)
  then have l: "\<not> char_is_whitespace (last (str_trim s))"
    using False hd_dropWhile [of char_is_whitespace "rev ?t"] by (simp add: str_trim_def)
  have t: "?t = str_trim s @ rev (takeWhile char_is_whitespace (rev ?t))"
    by (metis rev_append rev_rev_ident str_trim_def takeWhile_dropWhile_id)
  have "hd ?t = hd (str_trim s)" by (subst t) (use False in \<open>rule hd_append2\<close>)
  moreover have "?t \<noteq> []" by (subst t) (use False in \<open>simp only: append_is_Nil_conv, simp\<close>)
  ultimately show ?thesis using hd_dropWhile [of char_is_whitespace s] l by metis
qed simp

lemma normalize_sql_words: "normalize_sql s = unwords (sql_words s)"
proof (cases "str_trim s = []")
  case True
  then show ?thesis using sql_words_trim [of s] by (simp add: normalize_sql_def sql_words_def)
next
  case False
  with str_trim_ends [of s] have "normalize_loop False (str_trim s) = normalize_loop True (str_trim s)"
    by (simp add: normalize_loop_start)
  also have "\<dots> = unwords (sql_words (str_trim s))"
    using normalize_loop_words [of "str_trim s"] str_trim_ends [of s] by (auto simp: sql_words_def)
  finally show ?thesis by (simp add: normalize_sql_def sql_words_trim)
qed

lemma words_loop_props:
  "\<forall>c \<in> set w. \<not> char_is_whitespace c \<Longrightarrow> u \<in> set (words_loop w cs) \<Longrightarrow>
   u \<noteq> [] \<and> (\<forall>c \<in> set u. \<not> char_is_whitespace c)"
proof (induction cs arbitrary: w)
  case (Cons c cs)
  show ?case
  proof (cases "char_is_whitespace c")
    case True
    then consider "w \<noteq> []" "u = rev w" | "u \<in> set (words_loop [] cs)"
      using Cons.prems(2) by (auto split: if_splits)
    then show ?thesis
    proof cases
      case 1
      with Cons.prems(1) show ?thesis by simp
    next
      case 2
      then show ?thesis by (intro Cons.IH) simp_all
    qed
  next
    case False
    with Cons.prems have "u \<in> set (words_loop (c # w) cs)" "\<forall>x \<in> set (c # w). \<not> char_is_whitespace x"
      by simp_all
    then show ?thesis by (intro Cons.IH)
  qed
qed (auto split: if_splits)

lemma sql_words_unwords:
  "\<forall>w \<in> set ws. w \<noteq> [] \<and> (\<forall>c \<in> set w. \<not> char_is_whitespace c) \<Longrightarrow> sql_words (unwords ws) = ws"
proof (induction ws rule: unwords.induct)
  case (2 w)
  then show ?case using words_loop_word [of w "[]" "[]"] by (simp add: sql_words_def)
next
  case (3 w v ws)
  then show ?case by (simp add: sql_words_def words_loop_word)
qed (simp add: sql_words_def)

text \<open>The normalised SQL text of a cache key is the words of the text with one space
  between them; so two texts have the same key exactly when they have the same words, and
  normalising is idempotent.\<close>

lemma normalize_sql_spec:
  "normalize_sql s = unwords (sql_words s)
   \<and> (normalize_sql s = normalize_sql t \<longleftrightarrow> sql_words s = sql_words t)
   \<and> normalize_sql (normalize_sql s) = normalize_sql s"
proof -
  have w: "sql_words (normalize_sql u) = sql_words u" for u
    using words_loop_props [of "[]" _ u] unfolding normalize_sql_words
    by (intro sql_words_unwords) (auto simp: sql_words_def)
  then have "normalize_sql s = normalize_sql t \<longleftrightarrow> sql_words s = sql_words t"
    by (metis normalize_sql_words)
  with w [of s] show ?thesis by (simp add: normalize_sql_words)
qed

text \<open>White space inside a string literal is collapsed too, so queries for different strings
  share a key; letters keep their case.\<close>

definition ascii_points :: "string \<Rightarrow> code_points" where
  "ascii_points s = map of_char s"

lemma different_queries_same_key:
  "normalize_sql (ascii_points ''SELECT 'a  b' '') = normalize_sql (ascii_points ''SELECT 'a b' '')"
  "normalize_sql (ascii_points ''SELECT 1'') \<noteq> normalize_sql (ascii_points ''select 1'')"
  by (simp_all add: normalize_sql_words sql_words_def ascii_points_def char_is_whitespace_def)

subsection \<open>Metrics\<close>

record cache_metrics =
  cm_hits :: u64
  cm_misses :: u64
  cm_evictions :: u64
  cm_clears :: u64
  cm_current_entries :: nat
  cm_max_entries :: nat

definition metrics_new :: cache_metrics where
  "metrics_new = \<lparr>cm_hits = 0, cm_misses = 0, cm_evictions = 0, cm_clears = 0, cm_current_entries = 0,
     cm_max_entries = 0\<rparr>"

definition record_hit :: "cache_metrics \<Rightarrow> cache_metrics" where
  "record_hit m = m\<lparr>cm_hits := saturating_add (cm_hits m) 1\<rparr>"

definition record_miss :: "cache_metrics \<Rightarrow> cache_metrics" where
  "record_miss m = m\<lparr>cm_misses := saturating_add (cm_misses m) 1\<rparr>"

definition record_eviction :: "cache_metrics \<Rightarrow> cache_metrics" where
  "record_eviction m = m\<lparr>cm_evictions := saturating_add (cm_evictions m) 1\<rparr>"

definition record_clear :: "cache_metrics \<Rightarrow> cache_metrics" where
  "record_clear m = m\<lparr>cm_clears := saturating_add (cm_clears m) 1\<rparr>"

definition total_lookups :: "cache_metrics \<Rightarrow> u64" where
  "total_lookups m = saturating_add (cm_hits m) (cm_misses m)"

definition hit_rate :: "('f, 'z) runtime_ops_scheme \<Rightarrow> cache_metrics \<Rightarrow> 'f" where
  "hit_rate F m = (let total = total_lookups m in
     if total = 0 then f64_zero F else f64_div F (f64_of_u64 F (cm_hits m)) (f64_of_u64 F total))"

definition utilization :: "('f, 'z) runtime_ops_scheme \<Rightarrow> cache_metrics \<Rightarrow> 'f" where
  "utilization F m =
    (if cm_max_entries m = 0 then f64_zero F
     else f64_div F (f64_of_u64 F (of_nat (cm_current_entries m))) (f64_of_u64 F (of_nat (cm_max_entries m))))"

end
