(* ===== verification/Plan_Drift.thy ===== *)
theory Plan_Drift
  imports Cache_Types
begin

text \<open>
  Cached plans (\<^verbatim>\<open>crates/ra-cache-api/src/plan.rs\<close>) and the test whether the statistics they
  were optimised for have drifted (\<^verbatim>\<open>crates/ra-cache-api/src/validity.rs\<close>,
  \<^verbatim>\<open>crates/ra-cache-impl/src/validity.rs\<close>). The statistics provider is a function from table
  names.
\<close>

subsection \<open>Cached plans\<close>

record 'f cached_plan =
  cp_plan :: rel_expr
  cp_cost :: "'f cost"
  cp_statistics_snapshot :: "(string \<times> 'f statistics) list"
  cp_original_sql :: code_points
  cp_created_at :: nat
  cp_optimized_at :: nat
  cp_last_accessed :: nat
  cp_use_count :: u64
  cp_reoptimization_count :: u32

definition cached_plan_new ::
  "rel_expr \<Rightarrow> 'f cost \<Rightarrow> (string \<times> 'f statistics) list \<Rightarrow> code_points \<Rightarrow> nat \<Rightarrow> 'f cached_plan" where
  "cached_plan_new p c snapshot sql now = \<lparr>cp_plan = p, cp_cost = c, cp_statistics_snapshot = snapshot,
     cp_original_sql = sql, cp_created_at = now, cp_optimized_at = now, cp_last_accessed = now,
     cp_use_count = 0, cp_reoptimization_count = 0\<rparr>"

function plan_scans_table :: "rel_expr \<Rightarrow> string \<Rightarrow> bool" where
  "plan_scans_table p target = (case p of
     Scan t a only \<Rightarrow> t = target
   | _ \<Rightarrow> list_ex (\<lambda>child. plan_scans_table child target) (children p))"
  by pat_completeness auto
termination
  by (relation "measure (size \<circ> fst)")
    (auto intro: children_smaller simp: less_Suc_eq_le size_list_estimation' [where f = size, OF _ order_refl])

declare plan_scans_table.simps [simp del]

definition references_table_name :: "'f cached_plan \<Rightarrow> string \<Rightarrow> bool" where
  "references_table_name p t \<longleftrightarrow>
    map_of (cp_statistics_snapshot p) t \<noteq> None \<or> plan_scans_table (cp_plan p) t"

definition plan_staleness :: "'f cached_plan \<Rightarrow> nat \<Rightarrow> nat" where
  "plan_staleness p now = now - cp_optimized_at p"

definition plan_age :: "'f cached_plan \<Rightarrow> nat \<Rightarrow> nat" where
  "plan_age p now = now - cp_created_at p"

lemma plan_scans_table_step:
  "plan_scans_table p t \<longleftrightarrow> (\<exists>a only. p = Scan t a only) \<or> (\<exists>c \<in> set (children p). plan_scans_table c t)"
  by (subst plan_scans_table.simps, cases p) (auto simp: list_ex_iff)

text \<open>The walk finds the table exactly when some node of the plan, at any depth, is a \<^verbatim>\<open>Scan\<close>
  of it.\<close>

lemma plan_scans_table_nodes:
  "plan_scans_table p t \<longleftrightarrow> (\<exists>n \<in> set (plan_nodes p). \<exists>a only. n = Scan t a only)"
proof (induction p rule: children_induct)
  case (node p)
  then show ?case by (subst plan_scans_table_step, subst plan_nodes.simps) auto
qed

subsection \<open>Drift\<close>

datatype drift_status = Fresh | Stale | UnknownDrift

datatype 'f drift_dimension =
    RowCountDrift string 'f 'f 'f
  | DistinctCountDrift string string 'f 'f 'f
  | HistogramShape string string nat nat
  | IndexPresence string string bool

record 'f table_drift =
  td_table :: string
  td_cached_row_count :: 'f
  td_current_row_count :: "'f option"
  td_drift_fraction :: "'f option"
  td_drifted_dimensions :: "'f drift_dimension list"

record 'f plan_drift =
  pd_status :: drift_status
  pd_table_drifts :: "'f table_drift list"
  pd_max_drift :: 'f
  pd_dimensions :: "'f drift_dimension list"

definition fractional_drift :: "('f, 'z) runtime_ops_scheme \<Rightarrow> 'f \<Rightarrow> 'f \<Rightarrow> 'f" where
  "fractional_drift F cached current =
    (if f64_lt F (f64_abs F cached) (f64_eps F)
     then (if f64_lt F (f64_abs F current) (f64_eps F) then f64_zero F else f64_one F)
     else f64_abs F (f64_div F (f64_sub F current cached) cached))"

definition bucket_count :: "'f histogram \<Rightarrow> nat" where
  "bucket_count h = (case h of EquiWidth bs \<Rightarrow> length bs | EquiDepth bs d \<Rightarrow> length bs)"

text \<open>The loops update the largest drift, the flag \<^verbatim>\<open>any_stale\<close> and the dimensions of the table.\<close>

type_synonym 'f drift_state = "'f \<times> bool \<times> 'f drift_dimension list"

definition raise_drift :: "('f, 'z) runtime_ops_scheme \<Rightarrow> 'f \<Rightarrow> 'f \<Rightarrow> 'f" where
  "raise_drift F m d = (if f64_lt F m d then d else m)"

definition drift_column ::
  "('f, 'z) runtime_ops_scheme \<Rightarrow> 'f \<Rightarrow> string \<Rightarrow> 'f statistics \<Rightarrow> string \<times> 'f column_stats \<Rightarrow> 'f drift_state
   \<Rightarrow> 'f drift_state" where
  "drift_column F threshold table current cc acc = (case cc of (col, cached_col) \<Rightarrow> (case acc of (m, stale, dims) \<Rightarrow>
     (case map_of (columns current) col of
        None \<Rightarrow> (m, stale, dims)
      | Some current_col \<Rightarrow>
          (let ndv_drift = fractional_drift F (distinct_count cached_col) (distinct_count current_col);
               m1 = raise_drift F m ndv_drift;
               (stale1, dims1) =
                 (if f64_lt F threshold ndv_drift
                  then (True, dims @ [DistinctCountDrift table col (distinct_count cached_col)
                                        (distinct_count current_col) ndv_drift])
                  else (stale, dims));
               (stale2, dims2) =
                 (case (col_histogram cached_col, col_histogram current_col) of
                    (Some old_h, Some new_h) \<Rightarrow>
                      (if bucket_count old_h \<noteq> bucket_count new_h
                       then (True, dims1 @ [HistogramShape table col (bucket_count old_h) (bucket_count new_h)])
                       else (stale1, dims1))
                  | _ \<Rightarrow> (stale1, dims1))
           in (m1, stale2, dims2)))))"

definition index_changes ::
  "string \<Rightarrow> bool \<Rightarrow> (string \<times> index_stats) list \<Rightarrow> (string \<times> index_stats) list \<Rightarrow> 'f drift_dimension list" where
  "index_changes table added ixs others =
    map (\<lambda>(name, ix). IndexPresence table name added) (filter (\<lambda>(name, ix). map_of others name = None) ixs)"

definition drift_table ::
  "('f, 'z) runtime_ops_scheme \<Rightarrow> 'f \<Rightarrow> string \<Rightarrow> 'f statistics \<Rightarrow> 'f statistics \<Rightarrow> 'f \<Rightarrow> bool \<Rightarrow>
   'f \<times> bool \<times> 'f drift_dimension list \<times> 'f table_drift" where
  "drift_table F threshold table cached current m stale =
    (let drift = fractional_drift F (row_count cached) (row_count current);
         m1 = raise_drift F m drift;
         (stale1, dims1) =
           (if f64_lt F threshold drift
            then (True, [RowCountDrift table (row_count cached) (row_count current) drift])
            else (stale, []));
         (m2, stale2, dims2) = fold (drift_column F threshold table current) (columns cached) (m1, stale1, dims1);
         added = index_changes table True (indexes current) (indexes cached);
         dropped = index_changes table False (indexes cached) (indexes current);
         dims3 = dims2 @ added @ dropped
     in (m2, stale2 \<or> added \<noteq> [] \<or> dropped \<noteq> [], dims3,
         \<lparr>td_table = table, td_cached_row_count = row_count cached, td_current_row_count = Some (row_count current),
          td_drift_fraction = Some drift, td_drifted_dimensions = dims3\<rparr>))"

fun drift_tables ::
  "('f, 'z) runtime_ops_scheme \<Rightarrow> 'f \<Rightarrow> (string \<Rightarrow> 'f statistics option) \<Rightarrow> (string \<times> 'f statistics) list \<Rightarrow>
   'f \<times> bool \<times> bool \<times> 'f drift_dimension list \<times> 'f table_drift list \<Rightarrow>
   'f \<times> bool \<times> bool \<times> 'f drift_dimension list \<times> 'f table_drift list" where
  "drift_tables F threshold stats [] acc = acc"
| "drift_tables F threshold stats ((table, cached) # rest) (m, stale, unknown, all, tds) =
    (case stats table of
       Some current \<Rightarrow>
         (case drift_table F threshold table cached current m stale of
            (m1, stale1, dims, td) \<Rightarrow>
              drift_tables F threshold stats rest (m1, stale1, unknown, all @ dims, tds @ [td]))
     | None \<Rightarrow>
         drift_tables F threshold stats rest (m, stale, True, all, tds @
           [\<lparr>td_table = table, td_cached_row_count = row_count cached, td_current_row_count = None,
             td_drift_fraction = None, td_drifted_dimensions = []\<rparr>]))"

definition check_plan_drift ::
  "('f, 'z) runtime_ops_scheme \<Rightarrow> 'f cached_plan \<Rightarrow> (string \<Rightarrow> 'f statistics option) \<Rightarrow> 'f \<Rightarrow> 'f plan_drift" where
  "check_plan_drift F plan stats threshold =
    (case drift_tables F threshold stats (cp_statistics_snapshot plan) (f64_zero F, False, False, [], []) of
       (m, any_stale, any_unknown, all, tds) \<Rightarrow>
         \<lparr>pd_status = (if any_stale then Stale else if any_unknown then UnknownDrift else Fresh),
          pd_table_drifts = tds, pd_max_drift = m, pd_dimensions = all\<rparr>)"

subsection \<open>What the status means\<close>

definition column_drifted :: "('f, 'z) runtime_ops_scheme \<Rightarrow> 'f \<Rightarrow> 'f column_stats \<Rightarrow> 'f column_stats \<Rightarrow> bool" where
  "column_drifted F threshold old new \<longleftrightarrow>
     f64_lt F threshold (fractional_drift F (distinct_count old) (distinct_count new))
     \<or> (\<exists>h h'. col_histogram old = Some h \<and> col_histogram new = Some h' \<and> bucket_count h \<noteq> bucket_count h')"

definition table_drifted :: "('f, 'z) runtime_ops_scheme \<Rightarrow> 'f \<Rightarrow> 'f statistics \<Rightarrow> 'f statistics \<Rightarrow> bool" where
  "table_drifted F threshold old new \<longleftrightarrow>
     f64_lt F threshold (fractional_drift F (row_count old) (row_count new))
     \<or> (\<exists>(col, c) \<in> set (columns old). \<exists>c'. map_of (columns new) col = Some c' \<and> column_drifted F threshold c c')
     \<or> fst ` set (indexes old) \<noteq> fst ` set (indexes new)"

definition snapshot_drifted ::
  "('f, 'z) runtime_ops_scheme \<Rightarrow> 'f \<Rightarrow> (string \<Rightarrow> 'f statistics option) \<Rightarrow> (string \<times> 'f statistics) list \<Rightarrow> bool" where
  "snapshot_drifted F threshold stats snapshot =
     list_ex (\<lambda>(t, old). case stats t of Some new \<Rightarrow> table_drifted F threshold old new | None \<Rightarrow> False) snapshot"

definition snapshot_unknown :: "(string \<Rightarrow> 'f statistics option) \<Rightarrow> (string \<times> 'f statistics) list \<Rightarrow> bool" where
  "snapshot_unknown stats snapshot = list_ex (\<lambda>(t, old). stats t = None) snapshot"

lemma snapshot_simps [simp]:
  "\<not> snapshot_drifted F threshold stats []" "\<not> snapshot_unknown stats []"
  "stats t = Some new \<Longrightarrow> snapshot_drifted F threshold stats ((t, old) # rest) \<longleftrightarrow>
     table_drifted F threshold old new \<or> snapshot_drifted F threshold stats rest"
  "stats t = None \<Longrightarrow> snapshot_drifted F threshold stats ((t, old) # rest) \<longleftrightarrow> snapshot_drifted F threshold stats rest"
  "snapshot_unknown stats ((t, old) # rest) \<longleftrightarrow> stats t = None \<or> snapshot_unknown stats rest"
  by (simp_all add: snapshot_drifted_def snapshot_unknown_def)

lemma drift_columns_stale:
  "case fold (drift_column F threshold table current) cs (m, stale, dims) of (m', stale', dims') \<Rightarrow>
     (stale' \<longleftrightarrow> stale \<or> (\<exists>(col, c) \<in> set cs. \<exists>c'. map_of (columns current) col = Some c' \<and> column_drifted F threshold c c'))
     \<and> (dims' \<noteq> [] \<longleftrightarrow> dims \<noteq> [] \<or> (\<exists>(col, c) \<in> set cs. \<exists>c'. map_of (columns current) col = Some c' \<and> column_drifted F threshold c c'))"
proof (induction cs arbitrary: m stale dims)
  case (Cons cc cs)
  obtain col c where cc: "cc = (col, c)" by (cases cc)
  obtain m1 s1 d1 where step: "drift_column F threshold table current (col, c) (m, stale, dims) = (m1, s1, d1)"
    by (cases "drift_column F threshold table current (col, c) (m, stale, dims)")
  have s1: "s1 \<longleftrightarrow> stale \<or> (\<exists>c'. map_of (columns current) col = Some c' \<and> column_drifted F threshold c c')"
   and d1: "d1 \<noteq> [] \<longleftrightarrow> dims \<noteq> [] \<or> (\<exists>c'. map_of (columns current) col = Some c' \<and> column_drifted F threshold c c')"
    using step by (auto simp: drift_column_def column_drifted_def Let_def split: option.splits if_splits)
  show ?case using Cons.IH [where m = m1 and stale = s1 and dims = d1] by (auto simp: cc step s1 d1)
qed simp

lemma index_changes_nil: "index_changes table added ixs others = [] \<longleftrightarrow> fst ` set ixs \<subseteq> fst ` set others"
  by (force simp: index_changes_def filter_empty_conv map_of_eq_None_iff)

lemma drift_table_stale:
  "case drift_table F threshold table cached current m stale of (m', stale', dims, td) \<Rightarrow>
     (stale' \<longleftrightarrow> stale \<or> table_drifted F threshold cached current)
     \<and> (dims \<noteq> [] \<longleftrightarrow> table_drifted F threshold cached current)
     \<and> td_table td = table \<and> td_drifted_dimensions td = dims"
proof -
  let ?drift = "fractional_drift F (row_count cached) (row_count current)"
  let ?s1 = "stale \<or> f64_lt F threshold ?drift"
  let ?d1 = "if f64_lt F threshold ?drift then [RowCountDrift table (row_count cached) (row_count current) ?drift] else []"
  obtain m2 s2 d2 where f: "fold (drift_column F threshold table current) (columns cached)
      (raise_drift F m ?drift, ?s1, ?d1) = (m2, s2, d2)"
    by (cases "fold (drift_column F threshold table current) (columns cached) (raise_drift F m ?drift, ?s1, ?d1)")
  have pair: "(if f64_lt F threshold ?drift
      then (True, [RowCountDrift table (row_count cached) (row_count current) ?drift]) else (stale, [])) = (?s1, ?d1)"
    by simp
  note cols = drift_columns_stale [where F = F and threshold = threshold and table = table and current = current
    and cs = "columns cached" and m = "raise_drift F m ?drift" and stale = ?s1 and dims = ?d1, unfolded f]
  show ?thesis
    using cols unfolding drift_table_def Let_def pair
    by (simp add: f index_changes_nil table_drifted_def split del: if_split) (auto split: if_splits)
qed

lemma drift_tables_stale:
  "case drift_tables F threshold stats snapshot (m, stale, unknown, all, tds) of (m', stale', unknown', all', tds') \<Rightarrow>
     (stale' \<longleftrightarrow> stale \<or> snapshot_drifted F threshold stats snapshot)
     \<and> (unknown' \<longleftrightarrow> unknown \<or> snapshot_unknown stats snapshot)
     \<and> (all' \<noteq> [] \<longleftrightarrow> all \<noteq> [] \<or> snapshot_drifted F threshold stats snapshot)
     \<and> map td_table tds' = map td_table tds @ map fst snapshot"
proof (induction snapshot arbitrary: m stale unknown all tds)
  case (Cons tc rest)
  obtain table cached where tc: "tc = (table, cached)" by (cases tc)
  show ?case
  proof (cases "stats table")
    case None
    let ?td = "\<lparr>td_table = table, td_cached_row_count = row_count cached, td_current_row_count = None,
             td_drift_fraction = None, td_drifted_dimensions = []\<rparr>"
    from Cons.IH [where m = m and stale = stale and unknown = True and all = all and tds = "tds @ [?td]"] None
    show ?thesis by (auto simp: tc split: prod.splits)
  next
    case (Some current)
    obtain m1 s1 d1 td where t: "drift_table F threshold table cached current m stale = (m1, s1, d1, td)"
      by (cases "drift_table F threshold table cached current m stale")
    note table = drift_table_stale [where F = F and threshold = threshold and table = table and cached = cached
      and current = current and m = m and stale = stale, unfolded t]
    from Cons.IH [where m = m1 and stale = s1 and unknown = unknown and all = "all @ d1" and tds = "tds @ [td]"]
      table Some
    show ?thesis by (auto simp: tc t split: prod.splits)
  qed
qed simp

lemma check_plan_drift_status:
  "pd_status (check_plan_drift F plan stats threshold) =
    (if snapshot_drifted F threshold stats (cp_statistics_snapshot plan) then Stale
     else if snapshot_unknown stats (cp_statistics_snapshot plan) then UnknownDrift else Fresh)"
  "pd_dimensions (check_plan_drift F plan stats threshold) \<noteq> []
     \<longleftrightarrow> snapshot_drifted F threshold stats (cp_statistics_snapshot plan)"
  "map td_table (pd_table_drifts (check_plan_drift F plan stats threshold)) = map fst (cp_statistics_snapshot plan)"
proof -
  obtain m s u a tds where d: "drift_tables F threshold stats (cp_statistics_snapshot plan)
      (f64_zero F, False, False, [], []) = (m, s, u, a, tds)"
    by (cases "drift_tables F threshold stats (cp_statistics_snapshot plan) (f64_zero F, False, False, [], [])")
  note st = drift_tables_stale [where F = F and threshold = threshold and stats = stats
        and snapshot = "cp_statistics_snapshot plan" and m = "f64_zero F" and stale = False
        and unknown = False and all = "[]" and tds = "[]", unfolded d]
  show "pd_status (check_plan_drift F plan stats threshold) =
    (if snapshot_drifted F threshold stats (cp_statistics_snapshot plan) then Stale
     else if snapshot_unknown stats (cp_statistics_snapshot plan) then UnknownDrift else Fresh)"
    "pd_dimensions (check_plan_drift F plan stats threshold) \<noteq> []
     \<longleftrightarrow> snapshot_drifted F threshold stats (cp_statistics_snapshot plan)"
    "map td_table (pd_table_drifts (check_plan_drift F plan stats threshold)) = map fst (cp_statistics_snapshot plan)"
    using st by (simp_all add: check_plan_drift_def d)
qed

text \<open>The drift status says exactly this: \<^verbatim>\<open>Stale\<close> when for some table of the snapshot
  that still has statistics the row count or the distinct count of a common column has moved by
  more than the threshold, a common column's histogram has another number of buckets, or an index
  has appeared or gone; otherwise \<^verbatim>\<open>Unknown\<close> when some table of the snapshot has no statistics;
  otherwise \<^verbatim>\<open>Fresh\<close>. Drift dimensions are listed just when the status is \<^verbatim>\<open>Stale\<close>, and every
  table of the snapshot has one entry.\<close>

lemma check_plan_drift_spec:
  "let r = check_plan_drift F plan stats threshold;
       stale = snapshot_drifted F threshold stats (cp_statistics_snapshot plan);
       unknown = snapshot_unknown stats (cp_statistics_snapshot plan)
   in pd_status r = (if stale then Stale else if unknown then UnknownDrift else Fresh)
     \<and> (pd_dimensions r \<noteq> [] \<longleftrightarrow> pd_status r = Stale)
     \<and> map td_table (pd_table_drifts r) = map fst (cp_statistics_snapshot plan)"
  by (simp add: Let_def check_plan_drift_status)

end
