(* ===== verification/Plan_Cache.thy ===== *)
theory Plan_Cache
  imports Plan_Drift
begin

text \<open>
  The reference plan cache (\<^verbatim>\<open>crates/ra-cache-impl/src/lib.rs\<close>, \<^verbatim>\<open>eviction.rs\<close>) behind the trait
  \<^verbatim>\<open>PlanCacheApi\<close> (\<^verbatim>\<open>crates/ra-cache-api/src/lib.rs\<close>). The lock's content is the record
  \<open>cache_inner\<close>; a poisoned lock makes every operation fail. Iterating over a hash map visits
  its entries in an order that is not specified: the operations that iterate take that order as
  the argument \<open>it\<close>, a function that returns the entries in the order of the iteration, and the
  theorems hold for all of them. \<^verbatim>\<open>Instant::now()\<close> is the argument \<open>now\<close>; the SQL parser and
  the optimizer are the arguments \<open>parse\<close> and \<open>optimize\<close>.
\<close>

datatype eviction_policy = Lru | Lfu | Adaptive

definition eviction_policy_label :: "eviction_policy \<Rightarrow> string" where
  "eviction_policy_label p = (case p of Lru \<Rightarrow> ''LRU'' | Lfu \<Rightarrow> ''LFU'' | Adaptive \<Rightarrow> ''Adaptive'')"

datatype cache_error = OptimizationFailed string | LockPoisoned

record 'f cache_config =
  cc_max_entries :: nat
  cc_eviction_policy :: eviction_policy
  cc_drift_threshold :: 'f

definition cache_config_default :: "('f, 'z) runtime_ops_scheme \<Rightarrow> 'f cache_config" where
  "cache_config_default F = \<lparr>cc_max_entries = 1024, cc_eviction_policy = Lru, cc_drift_threshold = f64_fifth F\<rparr>"

type_synonym 'f cache_entries = "(query_key \<times> 'f cached_plan) list"

record 'f cache_inner =
  ci_entries :: "'f cache_entries"
  ci_metrics :: cache_metrics
  ci_insertion_order :: "query_key list"

record 'f plan_cache =
  pc_inner :: "'f cache_inner"
  pc_config :: "'f cache_config"
  pc_poisoned :: bool

definition cache_with_config :: "'f cache_config \<Rightarrow> 'f plan_cache" where
  "cache_with_config cfg = \<lparr>pc_inner = \<lparr>ci_entries = [], ci_metrics = metrics_new, ci_insertion_order = []\<rparr>,
     pc_config = cfg, pc_poisoned = False\<rparr>"

definition cache_new :: "('f, 'z) runtime_ops_scheme \<Rightarrow> 'f plan_cache" where
  "cache_new F = cache_with_config (cache_config_default F)"

subsection \<open>Victims\<close>

text \<open>\<^verbatim>\<open>Iterator::min_by\<close>: the first of the smallest elements, for a test whether the first
  argument compares greater.\<close>

definition min_by :: "('a \<Rightarrow> 'a \<Rightarrow> bool) \<Rightarrow> 'a list \<Rightarrow> 'a option" where
  "min_by gt xs = (case xs of [] \<Rightarrow> None | x # ys \<Rightarrow> Some (fold (\<lambda>y m. if gt m y then y else m) ys x))"

definition find_lru_victim :: "'f cache_entries \<Rightarrow> query_key option" where
  "find_lru_victim es =
    map_option fst (min_by (\<lambda>(k, a) (k', b). cp_last_accessed a > cp_last_accessed b) es)"

definition find_lfu_victim :: "'f cache_entries \<Rightarrow> query_key option" where
  "find_lfu_victim es = map_option fst (min_by (\<lambda>(k, a) (k', b). cp_use_count a > cp_use_count b
     \<or> cp_use_count a = cp_use_count b \<and> cp_last_accessed a > cp_last_accessed b) es)"

text \<open>All scores of an eviction are taken at one instant; a \<^verbatim>\<open>partial_cmp\<close> without a result
  counts as equal.\<close>

definition adaptive_score :: "('f, 'z) runtime_ops_scheme \<Rightarrow> nat \<Rightarrow> 'f cached_plan \<Rightarrow> 'f" where
  "adaptive_score F now p =
    (let recency_secs = f64_of_nanos F (now - cp_last_accessed p);
         recency_factor = (if f64_lt F recency_secs (f64_one F) then f64_one F
                           else f64_div F (f64_one F) recency_secs);
         frequency = f64_max F (f64_of_u64 F (cp_use_count p)) (f64_one F)
     in f64_mul F frequency recency_factor)"

definition find_adaptive_victim :: "('f, 'z) runtime_ops_scheme \<Rightarrow> nat \<Rightarrow> 'f cache_entries \<Rightarrow> query_key option" where
  "find_adaptive_victim F now es = map_option fst (min_by (\<lambda>(k, a) (k', b).
     f64_lt F (adaptive_score F now b) (adaptive_score F now a)) es)"

definition evict_one ::
  "('f, 'z) runtime_ops_scheme \<Rightarrow> ('f cache_entries \<Rightarrow> 'f cache_entries) \<Rightarrow> nat \<Rightarrow> 'f cache_config \<Rightarrow>
   'f cache_inner \<Rightarrow> 'f cache_inner" where
  "evict_one F it now cfg inner =
    (if ci_entries inner = [] then inner
     else (case (case cc_eviction_policy cfg of
                   Lru \<Rightarrow> find_lru_victim (it (ci_entries inner))
                 | Lfu \<Rightarrow> find_lfu_victim (it (ci_entries inner))
                 | Adaptive \<Rightarrow> find_adaptive_victim F now (it (ci_entries inner))) of
       Some k \<Rightarrow> inner\<lparr>ci_entries := AList.delete k (ci_entries inner),
          ci_metrics := record_eviction (ci_metrics inner),
          ci_insertion_order := filter (\<lambda>k'. k' \<noteq> k) (ci_insertion_order inner)\<rparr>
     | None \<Rightarrow> inner))"

subsection \<open>Operations\<close>

definition cache_get ::
  "'f plan_cache \<Rightarrow> query_key \<Rightarrow> nat \<Rightarrow> cache_error + 'f plan_cache \<times> 'f cached_plan option" where
  "cache_get c k now =
    (if pc_poisoned c then Inl LockPoisoned
     else (let inner = pc_inner c in
       case map_of (ci_entries inner) k of
         Some e \<Rightarrow>
           (let e1 = e\<lparr>cp_last_accessed := now, cp_use_count := saturating_add (cp_use_count e) 1\<rparr>
            in Inr (c\<lparr>pc_inner := inner\<lparr>ci_entries := AList.update k e1 (ci_entries inner),
                 ci_metrics := record_hit (ci_metrics inner)\<rparr>\<rparr>, Some e1))
       | None \<Rightarrow> Inr (c\<lparr>pc_inner := inner\<lparr>ci_metrics := record_miss (ci_metrics inner)\<rparr>\<rparr>, None)))"

definition cache_put ::
  "('f, 'z) runtime_ops_scheme \<Rightarrow> ('f cache_entries \<Rightarrow> 'f cache_entries) \<Rightarrow> 'f plan_cache \<Rightarrow> query_key \<Rightarrow>
   'f cached_plan \<Rightarrow> nat \<Rightarrow> cache_error + 'f plan_cache" where
  "cache_put F it c k p now =
    (if pc_poisoned c then Inl LockPoisoned
     else
       (let inner = pc_inner c;
            inner1 = (if length (ci_entries inner) \<ge> cc_max_entries (pc_config c)
                         \<and> map_of (ci_entries inner) k = None
                      then evict_one F it now (pc_config c) inner else inner);
            inner2 = (if map_of (ci_entries inner1) k = None
                      then inner1\<lparr>ci_insertion_order := ci_insertion_order inner1 @ [k]\<rparr> else inner1)
        in Inr (c\<lparr>pc_inner := inner2\<lparr>ci_entries := AList.update k p (ci_entries inner2)\<rparr>\<rparr>)))"

definition cache_remove ::
  "'f plan_cache \<Rightarrow> query_key \<Rightarrow> cache_error + 'f plan_cache \<times> 'f cached_plan option" where
  "cache_remove c k =
    (if pc_poisoned c then Inl LockPoisoned
     else
       (let inner = pc_inner c;
            removed = map_of (ci_entries inner) k;
            inner1 = inner\<lparr>ci_entries := AList.delete k (ci_entries inner)\<rparr>;
            inner2 = (if removed \<noteq> None
                      then inner1\<lparr>ci_insertion_order := filter (\<lambda>k'. k' \<noteq> k) (ci_insertion_order inner1)\<rparr>
                      else inner1)
        in Inr (c\<lparr>pc_inner := inner2\<rparr>, removed)))"

definition cache_clear :: "'f plan_cache \<Rightarrow> cache_error + 'f plan_cache" where
  "cache_clear c =
    (if pc_poisoned c then Inl LockPoisoned
     else Inr (c\<lparr>pc_inner := (pc_inner c)\<lparr>ci_entries := [], ci_metrics := record_clear (ci_metrics (pc_inner c)),
       ci_insertion_order := []\<rparr>\<rparr>))"

definition cache_clear_table :: "'f plan_cache \<Rightarrow> string \<Rightarrow> cache_error + 'f plan_cache \<times> nat" where
  "cache_clear_table c table =
    (if pc_poisoned c then Inl LockPoisoned
     else
       (let inner = pc_inner c;
            before = length (ci_entries inner);
            entries1 = filter (\<lambda>(k, p). \<not> references_table_name p table) (ci_entries inner);
            removed = before - length entries1;
            order1 = filter (\<lambda>k. k \<in> set (map fst entries1)) (ci_insertion_order inner)
        in Inr (c\<lparr>pc_inner := inner\<lparr>ci_entries := entries1, ci_insertion_order := order1\<rparr>\<rparr>, removed)))"

definition cache_check_validity ::
  "('f, 'z) runtime_ops_scheme \<Rightarrow> ('f cache_entries \<Rightarrow> 'f cache_entries) \<Rightarrow> 'f plan_cache \<Rightarrow>
   (string \<Rightarrow> 'f statistics option) \<Rightarrow> cache_error + (query_key \<times> 'f plan_drift) list" where
  "cache_check_validity F it c stats =
    (if pc_poisoned c then Inl LockPoisoned
     else Inr (filter (\<lambda>(k, d). pd_status d \<noteq> Fresh)
       (map (\<lambda>(k, p). (k, check_plan_drift F p stats (cc_drift_threshold (pc_config c))))
         (it (ci_entries (pc_inner c))))))"

definition cache_list ::
  "('f cache_entries \<Rightarrow> 'f cache_entries) \<Rightarrow> 'f plan_cache \<Rightarrow> cache_error + 'f cache_entries" where
  "cache_list it c = (if pc_poisoned c then Inl LockPoisoned else Inr (it (ci_entries (pc_inner c))))"

definition cache_get_metrics :: "'f plan_cache \<Rightarrow> cache_error + cache_metrics" where
  "cache_get_metrics c =
    (if pc_poisoned c then Inl LockPoisoned
     else Inr ((ci_metrics (pc_inner c))\<lparr>cm_current_entries := length (ci_entries (pc_inner c)),
       cm_max_entries := cc_max_entries (pc_config c)\<rparr>))"

definition cache_len :: "'f plan_cache \<Rightarrow> cache_error + nat" where
  "cache_len c = (if pc_poisoned c then Inl LockPoisoned else Inr (length (ci_entries (pc_inner c))))"

definition cache_is_empty :: "'f plan_cache \<Rightarrow> cache_error + bool" where
  "cache_is_empty c = map_sum id (\<lambda>n. n = 0) (cache_len c)"

subsection \<open>Reoptimisation\<close>

function collect_tables ::
  "(string \<Rightarrow> 'f statistics option) \<Rightarrow> rel_expr \<Rightarrow> (string \<times> 'f statistics) list \<Rightarrow> (string \<times> 'f statistics) list" where
  "collect_tables provider p snapshot = (case p of
     Scan t a only \<Rightarrow>
       (if map_of snapshot t = None
        then (case provider t of Some st \<Rightarrow> AList.update t st snapshot | None \<Rightarrow> snapshot)
        else snapshot)
   | _ \<Rightarrow> fold (\<lambda>child snap. collect_tables provider child snap) (children p) snapshot)"
  by pat_completeness auto
termination
  by (relation "measure (\<lambda>(provider, p, snapshot). size p)")
    (auto intro: children_smaller simp: less_Suc_eq_le size_list_estimation' [where f = size, OF _ order_refl])

declare collect_tables.simps [simp del]

definition build_snapshot ::
  "rel_expr \<Rightarrow> (string \<Rightarrow> 'f statistics option) \<Rightarrow> (string \<times> 'f statistics) list" where
  "build_snapshot p provider = collect_tables provider p []"

function count_plan_nodes :: "rel_expr \<Rightarrow> nat" where
  "count_plan_nodes p = 1 + sum_list (map count_plan_nodes (children p))"
  by pat_completeness auto
termination by (relation "measure size") (auto intro: children_smaller)

declare count_plan_nodes.simps [simp del]

definition estimate_simple_cost :: "('f, 'z) runtime_ops_scheme \<Rightarrow> rel_expr \<Rightarrow> 'f cost" where
  "estimate_simple_cost F p = (let n = f64_of_u64 F (of_nat (count_plan_nodes p)) in
     cost_new F n (f64_mul F n (f64_half F)) (f64_zero F) 0)"

definition find_stale_keys ::
  "('f, 'z) runtime_ops_scheme \<Rightarrow> ('f cache_entries \<Rightarrow> 'f cache_entries) \<Rightarrow> 'f plan_cache \<Rightarrow>
   (string \<Rightarrow> 'f statistics option) \<Rightarrow> 'f \<Rightarrow> cache_error + query_key list" where
  "find_stale_keys F it c stats threshold =
    (if pc_poisoned c then Inl LockPoisoned
     else Inr (map fst (filter (\<lambda>(k, p). pd_status (check_plan_drift F p stats threshold) \<noteq> Fresh)
       (it (ci_entries (pc_inner c))))))"

definition update_entry ::
  "'f plan_cache \<Rightarrow> query_key \<Rightarrow> rel_expr \<Rightarrow> 'f cost \<Rightarrow> (string \<times> 'f statistics) list \<Rightarrow> nat \<Rightarrow>
   cache_error + 'f plan_cache" where
  "update_entry c k new_plan new_cost new_snapshot now =
    (if pc_poisoned c then Inl LockPoisoned
     else (case map_of (ci_entries (pc_inner c)) k of
       Some e \<Rightarrow> Inr (c\<lparr>pc_inner := (pc_inner c)\<lparr>ci_entries := AList.update k
            (e\<lparr>cp_plan := new_plan, cp_cost := new_cost, cp_statistics_snapshot := new_snapshot,
              cp_optimized_at := now, cp_reoptimization_count := saturating_add (cp_reoptimization_count e) 1\<rparr>)
            (ci_entries (pc_inner c))\<rparr>\<rparr>)
     | None \<Rightarrow> Inr c))"

definition try_reoptimize_entry ::
  "('f, 'z) runtime_ops_scheme \<Rightarrow> (code_points \<Rightarrow> rel_expr option) \<Rightarrow> (rel_expr \<Rightarrow> rel_expr option) \<Rightarrow>
   'f plan_cache \<Rightarrow> query_key \<Rightarrow> (string \<Rightarrow> 'f statistics option) \<Rightarrow> nat \<Rightarrow>
   cache_error + 'f plan_cache \<times> bool" where
  "try_reoptimize_entry F parse optimize c k stats now =
    (if pc_poisoned c then Inl LockPoisoned
     else (case map_of (ci_entries (pc_inner c)) k of
       None \<Rightarrow> Inr (c, False)
     | Some e \<Rightarrow> (case parse (cp_original_sql e) of
         None \<Rightarrow> Inr (c, False)
       | Some parsed_plan \<Rightarrow> (case optimize parsed_plan of
           None \<Rightarrow> Inr (c, False)
         | Some new_plan \<Rightarrow>
             (case update_entry c k new_plan (estimate_simple_cost F new_plan) (build_snapshot parsed_plan stats) now of
                Inl err \<Rightarrow> Inl err
              | Inr c1 \<Rightarrow> Inr (c1, True))))))"

fun reoptimize_loop ::
  "('f, 'z) runtime_ops_scheme \<Rightarrow> (code_points \<Rightarrow> rel_expr option) \<Rightarrow> (rel_expr \<Rightarrow> rel_expr option) \<Rightarrow>
   (string \<Rightarrow> 'f statistics option) \<Rightarrow> nat \<Rightarrow> query_key list \<Rightarrow> 'f plan_cache \<Rightarrow> nat \<Rightarrow>
   cache_error + 'f plan_cache \<times> nat" where
  "reoptimize_loop F parse optimize stats now [] c n = Inr (c, n)"
| "reoptimize_loop F parse optimize stats now (k # ks) c n =
    (case try_reoptimize_entry F parse optimize c k stats now of
       Inl err \<Rightarrow> Inl err
     | Inr (c1, ok) \<Rightarrow> reoptimize_loop F parse optimize stats now ks c1 (if ok then n + 1 else n))"

definition cache_reoptimize_with_threshold ::
  "('f, 'z) runtime_ops_scheme \<Rightarrow> (code_points \<Rightarrow> rel_expr option) \<Rightarrow> (rel_expr \<Rightarrow> rel_expr option) \<Rightarrow>
   ('f cache_entries \<Rightarrow> 'f cache_entries) \<Rightarrow> 'f plan_cache \<Rightarrow> (string \<Rightarrow> 'f statistics option) \<Rightarrow> nat \<Rightarrow> 'f \<Rightarrow>
   cache_error + 'f plan_cache \<times> nat" where
  "cache_reoptimize_with_threshold F parse optimize it c stats now threshold =
    (case find_stale_keys F it c stats threshold of
       Inl err \<Rightarrow> Inl err
     | Inr ks \<Rightarrow> reoptimize_loop F parse optimize stats now ks c 0)"

definition cache_reoptimize ::
  "('f, 'z) runtime_ops_scheme \<Rightarrow> (code_points \<Rightarrow> rel_expr option) \<Rightarrow> (rel_expr \<Rightarrow> rel_expr option) \<Rightarrow>
   ('f cache_entries \<Rightarrow> 'f cache_entries) \<Rightarrow> 'f plan_cache \<Rightarrow> (string \<Rightarrow> 'f statistics option) \<Rightarrow> nat \<Rightarrow>
   cache_error + 'f plan_cache \<times> nat" where
  "cache_reoptimize F parse optimize it c stats now =
    cache_reoptimize_with_threshold F parse optimize it c stats now (cc_drift_threshold (pc_config c))"

end
