(* ===== verification/Plan_Cache_Laws.thy ===== *)
theory Plan_Cache_Laws
  imports Plan_Cache "HOL-Library.Multiset"
begin

text \<open>
  What the plan cache promises. Every operation is one critical section of the lock, and
  reoptimisation is a sequence of them; the steps of this theory are these sections, so what
  holds for all sequences of steps holds for every interleaving of threads. The cache is compared
  with an unbounded one: a map that only \<^verbatim>\<open>put\<close>, \<^verbatim>\<open>remove\<close> and the two \<^verbatim>\<open>clear\<close>s change.
\<close>

subsection \<open>The interface\<close>

text \<open>A store of plans as the trait has it: \<open>peek\<close> is what a lookup would find. Putting a plan
  may drop other plans, but changes none; which ones may depend on an environment \<open>x\<close>, here the
  clock and the order of an iteration.\<close>

locale plan_store =
  fixes wf :: "'s \<Rightarrow> bool"
    and env_ok :: "'x \<Rightarrow> bool"
    and peek :: "'s \<Rightarrow> 'k \<Rightarrow> 'v option"
    and put :: "'x \<Rightarrow> 's \<Rightarrow> 'k \<Rightarrow> 'p \<Rightarrow> 's"
    and core :: "'p \<Rightarrow> 'v"
    and remove :: "'s \<Rightarrow> 'k \<Rightarrow> 's"
    and retain :: "'s \<Rightarrow> ('v \<Rightarrow> bool) \<Rightarrow> 's"
  assumes wf_put: "wf s \<Longrightarrow> env_ok x \<Longrightarrow> wf (put x s k p)"
    and wf_remove: "wf s \<Longrightarrow> wf (remove s k)"
    and wf_retain: "wf s \<Longrightarrow> wf (retain s P)"
    and peek_put_same: "wf s \<Longrightarrow> env_ok x \<Longrightarrow> peek (put x s k p) k = Some (core p)"
    and peek_put_other: "wf s \<Longrightarrow> env_ok x \<Longrightarrow> k' \<noteq> k \<Longrightarrow>
      peek (put x s k p) k' = peek s k' \<or> peek (put x s k p) k' = None"
    and peek_remove: "wf s \<Longrightarrow> peek (remove s k) = (peek s)(k := None)"
    and peek_retain: "wf s \<Longrightarrow> peek (retain s P) = (\<lambda>k. case peek s k of Some v \<Rightarrow> if P v then Some v else None | None \<Rightarrow> None)"
begin

text \<open>The contents stay within those of an unbounded map that follows the same calls.\<close>

lemma put_within:
  assumes "wf s" "env_ok x" "peek s \<subseteq>\<^sub>m m"
  shows "peek (put x s k p) \<subseteq>\<^sub>m m(k \<mapsto> core p)"
proof (unfold map_le_def, intro ballI)
  fix k' assume k': "k' \<in> dom (peek (put x s k p))"
  show "peek (put x s k p) k' = (m(k \<mapsto> core p)) k'"
  proof (cases "k' = k")
    case False
    with peek_put_other [OF assms(1,2), of k' k p] k'
    have "peek (put x s k p) k' = peek s k'" "k' \<in> dom (peek s)" by auto
    with assms False show ?thesis by (simp add: map_le_def)
  qed (use assms in \<open>simp add: peek_put_same\<close>)
qed

lemma remove_within: "wf s \<Longrightarrow> peek s \<subseteq>\<^sub>m m \<Longrightarrow> peek (remove s k) \<subseteq>\<^sub>m m(k := None)"
  by (auto simp: map_le_def peek_remove)

lemma retain_within:
  "wf s \<Longrightarrow> peek s \<subseteq>\<^sub>m m \<Longrightarrow>
   peek (retain s P) \<subseteq>\<^sub>m (\<lambda>k. case m k of Some v \<Rightarrow> if P v then Some v else None | None \<Rightarrow> None)"
  by (force simp: map_le_def peek_retain split: option.splits if_splits)

end

text \<open>What identifies a cached plan: everything but the counters that lookups update.\<close>

definition plan_core :: "'f cached_plan \<Rightarrow> 'f cached_plan" where
  "plan_core p = p\<lparr>cp_last_accessed := 0, cp_use_count := 0\<rparr>"

definition inner_peek :: "'f cache_inner \<Rightarrow> query_key \<Rightarrow> 'f cached_plan option" where
  "inner_peek inner k = map_option plan_core (map_of (ci_entries inner) k)"

definition inner_put ::
  "('f, 'z) runtime_ops_scheme \<Rightarrow> ('f cache_entries \<Rightarrow> 'f cache_entries) \<Rightarrow> nat \<Rightarrow> 'f cache_config \<Rightarrow>
   'f cache_inner \<Rightarrow> query_key \<Rightarrow> 'f cached_plan \<Rightarrow> 'f cache_inner" where
  "inner_put F it now cfg inner k p =
    (let inner1 = (if length (ci_entries inner) \<ge> cc_max_entries cfg \<and> map_of (ci_entries inner) k = None
                   then evict_one F it now cfg inner else inner);
         inner2 = (if map_of (ci_entries inner1) k = None
                   then inner1\<lparr>ci_insertion_order := ci_insertion_order inner1 @ [k]\<rparr> else inner1)
     in inner2\<lparr>ci_entries := AList.update k p (ci_entries inner2)\<rparr>)"

lemma cache_put_inner:
  "\<not> pc_poisoned c \<Longrightarrow> cache_put F it c k p now = Inr (c\<lparr>pc_inner := inner_put F it now (pc_config c) (pc_inner c) k p\<rparr>)"
  by (simp add: cache_put_def inner_put_def Let_def)

lemma map_of_filter_snd:
  "distinct (map fst es) \<Longrightarrow> map_of (filter (\<lambda>(k, v). P v) es) k =
    (case map_of es k of Some v \<Rightarrow> if P v then Some v else None | None \<Rightarrow> None)"
proof (induction es)
  case (Cons e es)
  obtain k' v where e: "e = (k', v)" by (cases e)
  from Cons show ?case
    by (auto simp: e image_iff map_of_eq_None_iff split: option.splits dest: map_of_SomeD)
qed simp

lemma evict_one_peek:
  "map_of (ci_entries (evict_one F it now cfg inner)) k = map_of (ci_entries inner) k
   \<or> map_of (ci_entries (evict_one F it now cfg inner)) k = None"
  by (auto simp: evict_one_def delete_conv' split: option.split)

lemma map_of_inner_put_same: "map_of (ci_entries (inner_put F it now cfg inner k p)) k = Some p"
  by (simp add: inner_put_def Let_def update_conv)

lemma map_of_inner_put_other:
  "k' \<noteq> k \<Longrightarrow> map_of (ci_entries (inner_put F it now cfg inner k p)) k' = map_of (ci_entries inner) k'
    \<or> map_of (ci_entries (inner_put F it now cfg inner k p)) k' = None"
  using evict_one_peek [of F it now cfg inner k'] by (auto simp: inner_put_def Let_def update_conv)

subsection \<open>Eviction\<close>

lemma fold_min_in: "fold (\<lambda>y m. if gt m y then y else m) ys x \<in> set (x # ys)"
  by (induction ys arbitrary: x) (auto split: if_splits)

lemma min_by_in: "xs \<noteq> [] \<Longrightarrow> \<exists>x \<in> set xs. min_by gt xs = Some x"
  using fold_min_in [of gt "tl xs" "hd xs"] by (cases xs) (auto simp: min_by_def)

lemma min_by_least:
  assumes trans: "\<And>a b c. \<not> gt a b \<Longrightarrow> \<not> gt b c \<Longrightarrow> \<not> gt a c" and asym: "\<And>a b. gt a b \<Longrightarrow> \<not> gt b a"
    and "min_by gt xs = Some m" "y \<in> set xs"
  shows "\<not> gt m y"
proof -
  have refl: "\<not> gt a a" for a using asym by blast
  have "\<not> gt (fold (\<lambda>y m. if gt m y then y else m) ys x) z" if "z \<in> set (x # ys)" for ys x z
    using that
  proof (induction ys arbitrary: x z)
    case Nil
    then show ?case by (simp add: refl)
  next
    case (Cons y ys)
    let ?x = "if gt x y then y else x"
    have IH: "\<not> gt (fold (\<lambda>y m. if gt m y then y else m) ys ?x) w" if "w \<in> set (?x # ys)" for w
      using that by (rule Cons.IH)
    have x: "\<not> gt ?x x" "\<not> gt ?x y" using asym by (auto simp: refl)
    have m: "\<not> gt (fold (\<lambda>y m. if gt m y then y else m) ys ?x) ?x" by (rule IH) simp
    note trans [OF m x(1)] trans [OF m x(2)]
    with IH Cons.prems show ?case by auto
  qed
  with assms(3,4) show ?thesis by (cases xs) (auto simp: min_by_def)
qed

definition some_order :: "('f cache_entries \<Rightarrow> 'f cache_entries) \<Rightarrow> bool" where
  "some_order it \<longleftrightarrow> (\<forall>es. mset (it es) = mset es)"

lemma some_order_set: "some_order it \<Longrightarrow> set (it es) = set es"
  by (metis set_mset_mset some_order_def)

lemma evict_one_cases:
  assumes "some_order it" "ci_entries inner \<noteq> []"
  obtains k where "k \<in> fst ` set (ci_entries inner)"
    "evict_one F it now cfg inner = inner\<lparr>ci_entries := AList.delete k (ci_entries inner),
        ci_metrics := record_eviction (ci_metrics inner),
        ci_insertion_order := filter (\<lambda>k'. k' \<noteq> k) (ci_insertion_order inner)\<rparr>"
proof -
  have it: "it (ci_entries inner) \<noteq> []" using assms some_order_set [of it "ci_entries inner"] by auto
  have vic: "\<exists>k \<in> fst ` set (ci_entries inner). map_option fst (min_by gt (it (ci_entries inner))) = Some k" for gt
    using min_by_in [OF it, of gt] some_order_set [OF assms(1), of "ci_entries inner"] by force
  let ?victim = "case cc_eviction_policy cfg of
      Lru \<Rightarrow> find_lru_victim (it (ci_entries inner))
    | Lfu \<Rightarrow> find_lfu_victim (it (ci_entries inner))
    | Adaptive \<Rightarrow> find_adaptive_victim F now (it (ci_entries inner))"
  have "\<exists>k \<in> fst ` set (ci_entries inner). ?victim = Some k"
    by (cases "cc_eviction_policy cfg")
      (simp_all only: eviction_policy.case find_lru_victim_def find_lfu_victim_def find_adaptive_victim_def vic)
  then obtain k where "k \<in> fst ` set (ci_entries inner)" "?victim = Some k" by blast
  with assms(2) show ?thesis by (intro that [of k]) (simp_all add: evict_one_def)
qed

subsection \<open>Well-formed caches\<close>

definition inner_wf :: "nat \<Rightarrow> 'f cache_inner \<Rightarrow> bool" where
  "inner_wf n inner \<longleftrightarrow> distinct (map fst (ci_entries inner)) \<and> distinct (ci_insertion_order inner)
     \<and> set (ci_insertion_order inner) = fst ` set (ci_entries inner) \<and> length (ci_entries inner) \<le> max 1 n"

lemma keys_delete: "fst ` set (AList.delete k es) = fst ` set es - {k}"
  by (simp add: AList.delete_keys flip: set_map)

lemma length_delete:
  assumes "distinct (map fst es)" "k \<in> fst ` set es"
  shows "length (AList.delete k es) = length es - 1"
proof -
  have "length (AList.delete k es) = length (map fst (AList.delete k es))" by simp
  also have "map fst (AList.delete k es) = remove1 k (map fst es)"
    using assms(1) by (simp add: AList.delete_keys distinct_remove1_removeAll)
  also have "length (remove1 k (map fst es)) = length es - 1" using assms(2) by (simp add: length_remove1)
  finally show ?thesis .
qed

lemma length_update: "length (AList.update k v es) = (if k \<in> fst ` set es then length es else Suc (length es))"
proof -
  have "length (AList.update k v es) = length (map fst (AList.update k v es))" by simp
  also have "\<dots> = (if k \<in> fst ` set es then length es else Suc (length es))"
    by (subst AList.update_keys) simp
  finally show ?thesis .
qed

lemma map_of_None_key: "map_of es k = None \<longleftrightarrow> k \<notin> fst ` set es"
  by (rule map_of_eq_None_iff)

lemma inner_wf_evict:
  assumes "inner_wf n inner" "some_order it" "ci_entries inner \<noteq> []"
  shows "inner_wf n (evict_one F it now cfg inner)"
    "length (ci_entries (evict_one F it now cfg inner)) = length (ci_entries inner) - 1"
    "fst ` set (ci_entries (evict_one F it now cfg inner)) \<subseteq> fst ` set (ci_entries inner)"
proof -
  obtain k where k: "k \<in> fst ` set (ci_entries inner)" and e: "evict_one F it now cfg inner =
      inner\<lparr>ci_entries := AList.delete k (ci_entries inner), ci_metrics := record_eviction (ci_metrics inner),
        ci_insertion_order := filter (\<lambda>k'. k' \<noteq> k) (ci_insertion_order inner)\<rparr>"
    using evict_one_cases [OF assms(2,3)] by metis
  have wf: "distinct (map fst (ci_entries inner))" using assms(1) by (simp add: inner_wf_def)
  show len: "length (ci_entries (evict_one F it now cfg inner)) = length (ci_entries inner) - 1"
    by (simp add: e length_delete [OF wf k])
  show "fst ` set (ci_entries (evict_one F it now cfg inner)) \<subseteq> fst ` set (ci_entries inner)"
    by (auto simp: e keys_delete)
  show "inner_wf n (evict_one F it now cfg inner)"
    using assms(1) len unfolding e by (auto simp: inner_wf_def keys_delete AList.distinct_delete)
qed

lemma inner_wf_insert:
  assumes "inner_wf n inner" "map_of (ci_entries inner) k \<noteq> None \<or> length (ci_entries inner) < max 1 n"
  shows "inner_wf n ((if map_of (ci_entries inner) k = None
      then inner\<lparr>ci_insertion_order := ci_insertion_order inner @ [k]\<rparr> else inner)
     \<lparr>ci_entries := AList.update k p (ci_entries inner)\<rparr>)"
proof (cases "k \<in> fst ` set (ci_entries inner)")
  case True
  with assms show ?thesis
    by (simp add: inner_wf_def map_of_None_key AList.distinct_update AList.dom_update length_update insert_absorb)
next
  case False
  with assms show ?thesis
    by (simp add: inner_wf_def map_of_None_key AList.distinct_update AList.dom_update length_update)
qed

lemma inner_put_insert:
  "inner_put F it now cfg inner k p =
    (let inner1 = (if length (ci_entries inner) \<ge> cc_max_entries cfg \<and> map_of (ci_entries inner) k = None
                   then evict_one F it now cfg inner else inner)
     in (if map_of (ci_entries inner1) k = None
         then inner1\<lparr>ci_insertion_order := ci_insertion_order inner1 @ [k]\<rparr> else inner1)
        \<lparr>ci_entries := AList.update k p (ci_entries inner1)\<rparr>)"
proof -
  have upd: "(let inner2 = (if map_of (ci_entries i) k = None
         then i\<lparr>ci_insertion_order := ci_insertion_order i @ [k]\<rparr> else i)
       in inner2\<lparr>ci_entries := AList.update k p (ci_entries inner2)\<rparr>)
     = (if map_of (ci_entries i) k = None then i\<lparr>ci_insertion_order := ci_insertion_order i @ [k]\<rparr> else i)
        \<lparr>ci_entries := AList.update k p (ci_entries i)\<rparr>" for i :: "'a cache_inner"
    by (simp add: Let_def)
  show ?thesis unfolding inner_put_def upd by (simp only: Let_def)
qed

lemma inner_wf_put:
  assumes "inner_wf (cc_max_entries cfg) inner" "some_order it"
  shows "inner_wf (cc_max_entries cfg) (inner_put F it now cfg inner k p)"
proof -
  let ?n = "cc_max_entries cfg"
  let ?full = "length (ci_entries inner) \<ge> ?n \<and> map_of (ci_entries inner) k = None"
  let ?inner1 = "if ?full then evict_one F it now cfg inner else inner"
  have le: "length (ci_entries inner) \<le> max 1 ?n" using assms(1) by (simp add: inner_wf_def)
  have "inner_wf ?n ?inner1 \<and> (map_of (ci_entries ?inner1) k \<noteq> None \<or> length (ci_entries ?inner1) < max 1 ?n)"
  proof (cases "?full \<and> ci_entries inner \<noteq> []")
    case True
    then have "0 < length (ci_entries inner)" by simp
    with inner_wf_evict(2) [OF assms, where F = F and now = now and cfg = cfg] True le
    have "length (ci_entries (evict_one F it now cfg inner)) < max 1 ?n"
      by (simp del: length_greater_0_conv)
    with inner_wf_evict(1) [OF assms, where F = F and now = now and cfg = cfg] True show ?thesis by simp
  next
    case False
    with assms(1) le show ?thesis by (auto simp: evict_one_def)
  qed
  then have "inner_wf ?n ((if map_of (ci_entries ?inner1) k = None
      then ?inner1\<lparr>ci_insertion_order := ci_insertion_order ?inner1 @ [k]\<rparr> else ?inner1)
     \<lparr>ci_entries := AList.update k p (ci_entries ?inner1)\<rparr>)"
    by (intro inner_wf_insert) simp_all
  then show ?thesis unfolding inner_put_insert Let_def .
qed

lemma inner_wf_replace:
  "inner_wf n inner \<Longrightarrow> map_of (ci_entries inner) k = Some e \<Longrightarrow>
   inner_wf n (inner\<lparr>ci_entries := AList.update k e' (ci_entries inner), ci_metrics := m\<rparr>)"
  by (auto simp: inner_wf_def AList.distinct_update AList.dom_update length_update insert_absorb
      dest: map_of_SomeD intro: rev_image_eqI)

lemma inner_wf_remove:
  "inner_wf n inner \<Longrightarrow> inner_wf n (inner\<lparr>ci_entries := AList.delete k (ci_entries inner),
     ci_insertion_order := filter (\<lambda>k'. k' \<noteq> k) (ci_insertion_order inner)\<rparr>)"
proof -
  assume wf: "inner_wf n inner"
  have "length (AList.delete k (ci_entries inner)) \<le> length (ci_entries inner)"
    by (simp add: AList.length_delete_le)
  with wf show ?thesis by (auto simp: inner_wf_def keys_delete AList.distinct_delete)
qed

lemma inner_wf_retain:
  "inner_wf n inner \<Longrightarrow> inner_wf n (inner\<lparr>ci_entries := filter P (ci_entries inner),
     ci_insertion_order := filter (\<lambda>k. k \<in> set (map fst (filter P (ci_entries inner)))) (ci_insertion_order inner)\<rparr>)"
  using length_filter_le [of P "ci_entries inner"]
  by (auto simp: inner_wf_def distinct_map_filter simp del: length_filter_le)

subsection \<open>Runs of the cache\<close>

text \<open>A run from an empty cache, beside the contents an unbounded cache would have. The update is
  the second critical section of a reoptimisation.\<close>

definition update_core ::
  "rel_expr \<Rightarrow> 'f cost \<Rightarrow> (string \<times> 'f statistics) list \<Rightarrow> nat \<Rightarrow> 'f cached_plan \<Rightarrow> 'f cached_plan" where
  "update_core p cst snap now e = e\<lparr>cp_plan := p, cp_cost := cst, cp_statistics_snapshot := snap,
     cp_optimized_at := now, cp_reoptimization_count := saturating_add (cp_reoptimization_count e) 1\<rparr>"

definition filter_map :: "('v \<Rightarrow> bool) \<Rightarrow> ('k \<rightharpoonup> 'v) \<Rightarrow> 'k \<rightharpoonup> 'v" where
  "filter_map P m = (\<lambda>k. case m k of Some v \<Rightarrow> if P v then Some v else None | None \<Rightarrow> None)"

inductive cache_run ::
  "('f, 'z) runtime_ops_scheme \<Rightarrow> 'f cache_config \<Rightarrow> 'f plan_cache \<Rightarrow> (query_key \<rightharpoonup> 'f cached_plan) \<Rightarrow> bool"
  for F :: "('f, 'z) runtime_ops_scheme" and cfg :: "'f cache_config" where
  run_new: "cache_run F cfg (cache_with_config cfg) Map.empty"
| run_get: "cache_run F cfg c m \<Longrightarrow> cache_get c k now = Inr (c', r) \<Longrightarrow> cache_run F cfg c' m"
| run_put: "cache_run F cfg c m \<Longrightarrow> some_order it \<Longrightarrow> cache_put F it c k p now = Inr c' \<Longrightarrow>
     cache_run F cfg c' (m(k \<mapsto> plan_core p))"
| run_remove: "cache_run F cfg c m \<Longrightarrow> cache_remove c k = Inr (c', r) \<Longrightarrow> cache_run F cfg c' (m(k := None))"
| run_clear: "cache_run F cfg c m \<Longrightarrow> cache_clear c = Inr c' \<Longrightarrow> cache_run F cfg c' Map.empty"
| run_clear_table: "cache_run F cfg c m \<Longrightarrow> cache_clear_table c t = Inr (c', n) \<Longrightarrow>
     cache_run F cfg c' (filter_map (\<lambda>p. \<not> references_table_name p t) m)"
| run_update: "cache_run F cfg c m \<Longrightarrow> update_entry c k p cst snap now = Inr c' \<Longrightarrow>
     cache_run F cfg c' (case m k of Some e \<Rightarrow> m(k \<mapsto> update_core p cst snap now e) | None \<Rightarrow> m)"

definition no_evictions :: "'f cache_inner \<Rightarrow> bool" where
  "no_evictions inner \<longleftrightarrow> cm_evictions (ci_metrics inner) = 0"

definition cache_inv :: "'f cache_config \<Rightarrow> 'f plan_cache \<Rightarrow> (query_key \<rightharpoonup> 'f cached_plan) \<Rightarrow> bool" where
  "cache_inv cfg c m \<longleftrightarrow> \<not> pc_poisoned c \<and> pc_config c = cfg \<and> inner_wf (cc_max_entries cfg) (pc_inner c)
     \<and> inner_peek (pc_inner c) \<subseteq>\<^sub>m m \<and> (no_evictions (pc_inner c) \<longrightarrow> inner_peek (pc_inner c) = m)"

lemma plan_core_simps [simp]:
  "plan_core (p\<lparr>cp_last_accessed := t, cp_use_count := u\<rparr>) = plan_core p"
  "references_table_name (plan_core p) tbl = references_table_name p tbl"
  "plan_core (update_core p' cst snap now e) = update_core p' cst snap now (plan_core e)"
  by (simp_all add: plan_core_def references_table_name_def update_core_def)

definition retain_entries :: "'f cache_inner \<Rightarrow> ('f cached_plan \<Rightarrow> bool) \<Rightarrow> 'f cache_inner" where
  "retain_entries inner P = (let es = filter (\<lambda>(k, p). P (plan_core p)) (ci_entries inner) in
     inner\<lparr>ci_entries := es, ci_insertion_order := filter (\<lambda>k. k \<in> set (map fst es)) (ci_insertion_order inner)\<rparr>)"

definition remove_entry :: "'f cache_inner \<Rightarrow> query_key \<Rightarrow> 'f cache_inner" where
  "remove_entry inner k = inner\<lparr>ci_entries := AList.delete k (ci_entries inner),
     ci_insertion_order := filter (\<lambda>k'. k' \<noteq> k) (ci_insertion_order inner)\<rparr>"

text \<open>The lock's content provides the interface.\<close>

lemma inner_peek_put_other:
  "k' \<noteq> k \<Longrightarrow> inner_peek (inner_put F it now cfg inner k p) k' = inner_peek inner k'
     \<or> inner_peek (inner_put F it now cfg inner k p) k' = None"
  using map_of_inner_put_other [of k' k F it now cfg inner p] by (auto simp: inner_peek_def)

lemma inner_peek_retain:
  "inner_wf n inner \<Longrightarrow> inner_peek (retain_entries inner P) = filter_map P (inner_peek inner)"
  by (rule ext) (auto simp: inner_peek_def retain_entries_def filter_map_def Let_def inner_wf_def
      map_of_filter_snd [where P = "\<lambda>p. P (plan_core p)"] split: option.split)

interpretation cache_store: plan_store "inner_wf (cc_max_entries cfg)" "\<lambda>(it, now). some_order it" inner_peek
    "\<lambda>(it, now). inner_put F it now cfg" plan_core remove_entry retain_entries
  for F :: "('f, 'z) runtime_ops_scheme" and cfg :: "'f cache_config"
proof (unfold_locales, goal_cases)
  case (1 s x k p)
  then show ?case by (auto intro: inner_wf_put split: prod.splits)
next
  case (2 s k)
  then show ?case by (simp add: remove_entry_def inner_wf_remove)
next
  case (3 s P)
  then show ?case
    using inner_wf_retain [of "cc_max_entries cfg" s "\<lambda>(k, p). P (plan_core p)"]
    by (simp add: retain_entries_def Let_def)
next
  case (4 s x k p)
  then show ?case by (simp add: inner_peek_def map_of_inner_put_same split: prod.split)
next
  case (5 s x k' k p)
  then show ?case by (auto simp: inner_peek_put_other split: prod.split)
next
  case (6 s k)
  show ?case by (rule ext) (simp add: inner_peek_def remove_entry_def AList.delete_conv')
next
  case (7 s P)
  then show ?case by (simp add: inner_peek_retain filter_map_def)
qed

lemma evictions_record: "cm_evictions (record_eviction m) \<noteq> 0"
proof -
  have "unat (saturating_add (cm_evictions m) 1) \<noteq> 0" by (simp add: saturating_add_unat)
  then have "saturating_add (cm_evictions m) 1 \<noteq> 0" by (intro notI) simp
  then show ?thesis by (simp add: record_eviction_def)
qed

lemma evict_one_no_evictions:
  assumes "some_order it" "no_evictions (evict_one F it now cfg inner)"
  shows "evict_one F it now cfg inner = inner"
proof (cases "ci_entries inner = []")
  case False
  then obtain k where "evict_one F it now cfg inner = inner\<lparr>ci_entries := AList.delete k (ci_entries inner),
        ci_metrics := record_eviction (ci_metrics inner),
        ci_insertion_order := filter (\<lambda>k'. k' \<noteq> k) (ci_insertion_order inner)\<rparr>"
    using evict_one_cases [OF assms(1)] by metis
  with assms(2) show ?thesis by (simp add: no_evictions_def evictions_record)
qed (simp add: evict_one_def)

lemma inner_put_no_evictions:
  assumes "some_order it" "no_evictions (inner_put F it now cfg inner k p)"
  shows "no_evictions inner \<and> inner_peek (inner_put F it now cfg inner k p) = (inner_peek inner)(k \<mapsto> plan_core p)"
proof -
  let ?inner1 = "if length (ci_entries inner) \<ge> cc_max_entries cfg \<and> map_of (ci_entries inner) k = None
                 then evict_one F it now cfg inner else inner"
  have "no_evictions ?inner1"
    using assms(2) unfolding inner_put_insert Let_def no_evictions_def
    by (cases "map_of (ci_entries ?inner1) k = None") (simp_all split del: if_split)
  then have "?inner1 = inner"
    using evict_one_no_evictions [OF assms(1), of F now cfg inner] by (auto split: if_splits)
  then show ?thesis
    using \<open>no_evictions ?inner1\<close>
    by (auto simp: inner_put_insert Let_def inner_peek_def AList.update_conv' fun_eq_iff)
qed

lemma inner_peek_empty: "ci_entries inner = [] \<Longrightarrow> inner_peek inner = Map.empty"
  by (rule ext) (simp add: inner_peek_def)

lemma inner_peek_metrics [simp]: "inner_peek (inner\<lparr>ci_metrics := mt\<rparr>) = inner_peek inner"
  by (rule ext) (simp add: inner_peek_def)

lemma cache_inv_get:
  assumes "cache_inv cfg c m" "cache_get c k now = Inr (c', r)"
  shows "cache_inv cfg c' m"
proof (cases "map_of (ci_entries (pc_inner c)) k")
  case None
  with assms have "c' = c\<lparr>pc_inner := (pc_inner c)\<lparr>ci_metrics := record_miss (ci_metrics (pc_inner c))\<rparr>\<rparr>"
    by (simp add: cache_get_def cache_inv_def Let_def)
  with assms(1) show ?thesis by (simp add: cache_inv_def inner_wf_def no_evictions_def record_miss_def)
next
  case (Some e)
  let ?e = "e\<lparr>cp_last_accessed := now, cp_use_count := saturating_add (cp_use_count e) 1\<rparr>"
  let ?inner = "(pc_inner c)\<lparr>ci_entries := AList.update k ?e (ci_entries (pc_inner c)),
     ci_metrics := record_hit (ci_metrics (pc_inner c))\<rparr>"
  have c': "c' = c\<lparr>pc_inner := ?inner\<rparr>"
    using assms Some by (simp add: cache_get_def cache_inv_def Let_def)
  have "inner_wf (cc_max_entries cfg) ?inner"
    using assms(1) Some by (intro inner_wf_replace) (simp_all add: cache_inv_def)
  moreover have "inner_peek ?inner = inner_peek (pc_inner c)"
    using Some by (auto simp: inner_peek_def AList.update_conv' fun_eq_iff)
  moreover have "no_evictions ?inner \<longleftrightarrow> no_evictions (pc_inner c)"
    by (simp add: no_evictions_def record_hit_def)
  ultimately show ?thesis using assms(1) by (simp add: cache_inv_def c')
qed

lemma cache_inv_put:
  assumes "cache_inv cfg c m" "some_order it" "cache_put F it c k p now = Inr c'"
  shows "cache_inv cfg c' (m(k \<mapsto> plan_core p))"
proof -
  let ?inner = "inner_put F it now cfg (pc_inner c) k p"
  have c': "c' = c\<lparr>pc_inner := ?inner\<rparr>"
    using assms by (simp add: cache_put_inner cache_inv_def)
  have "inner_wf (cc_max_entries cfg) ?inner"
    using assms(1,2) by (intro inner_wf_put) (simp_all add: cache_inv_def)
  moreover have "inner_peek ?inner \<subseteq>\<^sub>m m(k \<mapsto> plan_core p)"
    using cache_store.put_within [where cfg = cfg and F = F and x = "(it, now)"] assms(1,2)
    by (simp add: cache_inv_def)
  moreover have "no_evictions ?inner \<Longrightarrow> inner_peek ?inner = m(k \<mapsto> plan_core p)"
    using inner_put_no_evictions [OF assms(2), of F now cfg "pc_inner c" k p] assms(1)
    by (simp add: cache_inv_def)
  ultimately show ?thesis using assms(1) by (simp add: cache_inv_def c')
qed

lemma cache_remove_inner:
  assumes "\<not> pc_poisoned c" "inner_wf n (pc_inner c)" "cache_remove c k = Inr (c', r)"
  shows "c' = c\<lparr>pc_inner := remove_entry (pc_inner c) k\<rparr>"
proof (cases "map_of (ci_entries (pc_inner c)) k")
  case None
  then have "k \<notin> set (ci_insertion_order (pc_inner c))"
    using assms(2) by (simp add: inner_wf_def map_of_None_key)
  then have "filter (\<lambda>k'. k' \<noteq> k) (ci_insertion_order (pc_inner c)) = ci_insertion_order (pc_inner c)"
    by (auto simp: filter_id_conv)
  with None assms show ?thesis by (simp add: cache_remove_def remove_entry_def Let_def)
next
  case (Some e)
  with assms show ?thesis by (simp add: cache_remove_def remove_entry_def Let_def)
qed

lemma cache_inv_remove:
  assumes "cache_inv cfg c m" "cache_remove c k = Inr (c', r)"
  shows "cache_inv cfg c' (m(k := None))"
proof -
  have c': "c' = c\<lparr>pc_inner := remove_entry (pc_inner c) k\<rparr>"
    using cache_remove_inner [OF _ _ assms(2)] assms(1) unfolding cache_inv_def by blast
  have "no_evictions (remove_entry (pc_inner c) k) = no_evictions (pc_inner c)"
    by (simp add: no_evictions_def remove_entry_def)
  with assms(1) show ?thesis
    using cache_store.remove_within [where cfg = cfg and s = "pc_inner c"]
      cache_store.wf_remove [where cfg = cfg and s = "pc_inner c"]
      cache_store.peek_remove [where cfg = cfg and s = "pc_inner c"]
    by (simp add: cache_inv_def c')
qed

lemma cache_inv_clear_table:
  assumes "cache_inv cfg c m" "cache_clear_table c t = Inr (c', n)"
  shows "cache_inv cfg c' (filter_map (\<lambda>p. \<not> references_table_name p t) m)"
proof -
  let ?P = "\<lambda>p :: 'a cached_plan. \<not> references_table_name p t"
  have c': "c' = c\<lparr>pc_inner := retain_entries (pc_inner c) ?P\<rparr>"
    using assms by (auto simp: cache_clear_table_def retain_entries_def cache_inv_def Let_def)
  have "no_evictions (retain_entries (pc_inner c) ?P) = no_evictions (pc_inner c)"
    by (simp add: no_evictions_def retain_entries_def Let_def)
  with assms(1) show ?thesis
    using cache_store.retain_within [where cfg = cfg and s = "pc_inner c" and P = ?P]
      cache_store.wf_retain [where cfg = cfg and s = "pc_inner c" and P = ?P]
      cache_store.peek_retain [where cfg = cfg and s = "pc_inner c" and P = ?P]
    by (simp add: cache_inv_def c' filter_map_def)
qed

lemma cache_inv_update:
  assumes "cache_inv cfg c m" "update_entry c k p cst snap now = Inr c'"
  shows "cache_inv cfg c' (case m k of Some e \<Rightarrow> m(k \<mapsto> update_core p cst snap now e) | None \<Rightarrow> m)"
proof (cases "map_of (ci_entries (pc_inner c)) k")
  case None
  with assms have c': "c' = c" by (simp add: update_entry_def cache_inv_def)
  from None have "inner_peek (pc_inner c) k = None" by (simp add: inner_peek_def)
  with assms(1) show ?thesis by (auto simp: cache_inv_def c' map_le_def split: option.split)
next
  case (Some e)
  let ?e = "update_core p cst snap now e"
  let ?inner = "(pc_inner c)\<lparr>ci_entries := AList.update k ?e (ci_entries (pc_inner c))\<rparr>"
  have c': "c' = c\<lparr>pc_inner := ?inner\<rparr>"
    using assms Some by (simp add: update_entry_def cache_inv_def update_core_def)
  have "inner_wf (cc_max_entries cfg) ?inner"
    using inner_wf_replace [OF _ Some, where n = "cc_max_entries cfg" and e' = ?e and m = "ci_metrics (pc_inner c)"]
      assms(1)
    by (simp add: cache_inv_def)
  moreover have peek: "inner_peek ?inner = (inner_peek (pc_inner c))(k \<mapsto> update_core p cst snap now (plan_core e))"
    by (auto simp: inner_peek_def AList.update_conv' fun_eq_iff)
  moreover have mk: "m k = Some (plan_core e)"
    using assms(1) Some by (auto simp: cache_inv_def map_le_def inner_peek_def dom_def)
  moreover have "inner_peek ?inner \<subseteq>\<^sub>m m(k \<mapsto> update_core p cst snap now (plan_core e))"
    using assms(1) unfolding peek by (auto simp: cache_inv_def map_le_def)
  ultimately show ?thesis using assms(1) by (simp add: cache_inv_def c' no_evictions_def)
qed

lemma cache_run_inv: "cache_run F cfg c m \<Longrightarrow> cache_inv cfg c m"
proof (induction rule: cache_run.induct)
  case run_new
  then show ?case
    by (simp add: cache_inv_def cache_with_config_def inner_wf_def inner_peek_empty)
next
  case (run_clear c m c')
  then show ?case
    by (auto simp: cache_inv_def cache_clear_def inner_wf_def inner_peek_empty)
qed (blast intro: cache_inv_get cache_inv_put cache_inv_remove cache_inv_clear_table cache_inv_update)+

lemma cache_get_result:
  "\<not> pc_poisoned c \<Longrightarrow> \<exists>c' r. cache_get c k now = Inr (c', r) \<and> map_option plan_core r = inner_peek (pc_inner c) k"
  by (cases "map_of (ci_entries (pc_inner c)) k") (simp_all add: cache_get_def inner_peek_def Let_def)

text \<open>Claim C4. The bounded cache refines an unbounded one: after any sequence of critical
  sections, from any threads, a lookup answers; a hit returns the plan an unbounded cache holds
  for the key, that is, the one put last and not removed, cleared or replaced by a
  reoptimisation since; and as long as the metrics count no eviction, a miss means that the
  unbounded cache has nothing for the key either.\<close>

theorem plan_cache_refines:
  assumes "cache_run F cfg c m"
  shows "\<exists>c' r. cache_get c k now = Inr (c', r)
    \<and> (case r of Some p \<Rightarrow> m k = Some (plan_core p)
       | None \<Rightarrow> cm_evictions (ci_metrics (pc_inner c)) \<noteq> 0 \<or> m k = None)"
proof -
  have inv: "cache_inv cfg c m" by (rule cache_run_inv [OF assms])
  then obtain c' r where get: "cache_get c k now = Inr (c', r)" "map_option plan_core r = inner_peek (pc_inner c) k"
    using cache_get_result [of c k now] by (auto simp: cache_inv_def)
  have sub: "inner_peek (pc_inner c) \<subseteq>\<^sub>m m"
    and eq: "no_evictions (pc_inner c) \<Longrightarrow> inner_peek (pc_inner c) = m"
    using inv by (simp_all add: cache_inv_def)
  have "case r of Some p \<Rightarrow> m k = Some (plan_core p)
       | None \<Rightarrow> cm_evictions (ci_metrics (pc_inner c)) \<noteq> 0 \<or> m k = None"
  proof (cases r)
    case None
    with get(2) eq show ?thesis by (auto simp: no_evictions_def)
  next
    case (Some p)
    with get(2) sub show ?thesis by (simp add: map_le_def dom_def) (metis option.distinct(1))
  qed
  with get(1) show ?thesis by blast
qed

text \<open>An example: two plans in a cache for one.\<close>

definition example_cache_config :: "int cache_config" where
  "example_cache_config = \<lparr>cc_max_entries = 1, cc_eviction_policy = Lru, cc_drift_threshold = 0\<rparr>"

definition example_key :: "nat \<Rightarrow> query_key" where
  "example_key n = \<lparr>qk_sql = [n], qk_hardware_profile = [], qk_parameter_types = []\<rparr>"

definition example_cached :: "nat \<Rightarrow> int cached_plan" where
  "example_cached n = cached_plan_new (rel_scan ''t'') (cost_zero int_runtime) [] [n] n"

definition example_cache :: "int plan_cache" where
  "example_cache = projr (cache_put int_runtime id (cache_with_config example_cache_config) (example_key 1) (example_cached 1) 1)"

lemma some_order_id: "some_order id"
  by (simp add: some_order_def)

lemma put_Inr: "\<not> pc_poisoned c \<Longrightarrow> cache_put F it c k p now = Inr (projr (cache_put F it c k p now))"
  by (simp add: cache_put_inner)

lemma example_cache_run: "cache_run int_runtime example_cache_config example_cache [example_key 1 \<mapsto> plan_core (example_cached 1)]"
  unfolding example_cache_def
  by (rule run_put [OF run_new some_order_id put_Inr]) (simp add: cache_with_config_def)

theorem plan_cache_refines_witness:
  "\<exists>c' r. cache_get example_cache (example_key 2) 5 = Inr (c', r)
    \<and> (case r of Some p \<Rightarrow> [example_key 1 \<mapsto> plan_core (example_cached 1)] (example_key 2) = Some (plan_core p)
       | None \<Rightarrow> cm_evictions (ci_metrics (pc_inner example_cache)) \<noteq> 0
          \<or> [example_key 1 \<mapsto> plan_core (example_cached 1)] (example_key 2) = None)"
  by (rule plan_cache_refines [OF example_cache_run])

text \<open>Claim C30. The cache stays within its capacity: after any sequence of critical sections it
  holds at most \<^verbatim>\<open>max_entries\<close> plans (one, when that is zero), one per key, and the insertion
  order lists exactly the cached keys, each once.\<close>

theorem plan_cache_bounded:
  assumes "cache_run F cfg c m"
  shows "cache_len c = Inr (length (ci_entries (pc_inner c)))
    \<and> length (ci_entries (pc_inner c)) \<le> max 1 (cc_max_entries cfg)
    \<and> distinct (map fst (ci_entries (pc_inner c))) \<and> distinct (ci_insertion_order (pc_inner c))
    \<and> set (ci_insertion_order (pc_inner c)) = set (map fst (ci_entries (pc_inner c)))"
  using cache_run_inv [OF assms] by (simp add: cache_inv_def inner_wf_def cache_len_def)

theorem plan_cache_bounded_witness:
  "length (ci_entries (pc_inner example_cache)) \<le> max 1 (cc_max_entries example_cache_config)"
  using plan_cache_bounded [OF example_cache_run] by blast

lemma zero_capacity_holds_one:
  "cache_len (projr (cache_put int_runtime id (cache_with_config (example_cache_config\<lparr>cc_max_entries := 0\<rparr>))
     (example_key 1) (example_cached 1) 1)) = Inr 1"
  by code_simp

text \<open>Which plan goes first.\<close>

definition evicts_first :: "eviction_policy \<Rightarrow> 'f cached_plan \<Rightarrow> 'f cached_plan \<Rightarrow> bool" where
  "evicts_first policy a b \<longleftrightarrow> (if policy = Lru then cp_last_accessed a \<le> cp_last_accessed b
     else cp_use_count a < cp_use_count b
        \<or> cp_use_count a = cp_use_count b \<and> cp_last_accessed a \<le> cp_last_accessed b)"

lemma find_victim_least:
  assumes "some_order it" "es \<noteq> []" "policy \<in> {Lru, Lfu}"
  shows "\<exists>(k, a) \<in> set es. (if policy = Lru then find_lru_victim (it es) else find_lfu_victim (it es)) = Some k
    \<and> (\<forall>(k', b) \<in> set es. evicts_first policy a b)"
proof -
  let ?lru = "\<lambda>(k :: query_key, a :: 'a cached_plan) (k' :: query_key, b :: 'a cached_plan). cp_last_accessed a > cp_last_accessed b"
  let ?lfu = "\<lambda>(k :: query_key, a :: 'a cached_plan) (k' :: query_key, b :: 'a cached_plan). cp_use_count a > cp_use_count b
     \<or> cp_use_count a = cp_use_count b \<and> cp_last_accessed a > cp_last_accessed b"
  let ?gt = "if policy = Lru then ?lru else ?lfu"
  have it: "it es \<noteq> []" "set (it es) = set es"
    using some_order_set [OF assms(1), of es] assms(2) by auto
  obtain k a where m: "(k, a) \<in> set es" "min_by ?gt (it es) = Some (k, a)"
    using min_by_in [OF it(1), of ?gt] it(2) by auto
  have "\<not> ?gt (k, a) y" if "y \<in> set es" for y
  proof (rule min_by_least [OF _ _ m(2)])
    show "\<not> ?gt x z" if "\<not> ?gt x y" "\<not> ?gt y z" for x y z
      using that by (cases x; cases y; cases z) (auto split: if_splits)
    show "\<not> ?gt y x" if "?gt x y" for x y
      using that by (cases x; cases y) (auto split: if_splits)
    show "y \<in> set (it es)" using that it(2) by simp
  qed
  then have "evicts_first policy a b" if "(k', b) \<in> set es" for k' b
    using that by (force simp: evicts_first_def not_less split: if_splits)
  with m assms(3) show ?thesis
    by (intro bexI [of _ "(k, a)"]) (auto simp: find_lru_victim_def find_lfu_victim_def split: if_splits)
qed

text \<open>Claim C16. The policies evict what they say: when a plan with a new key is put into a full
  cache, one cached plan goes that no other was accessed before (least recently used) or that no
  other was used less often than, the least recently used among these (least frequently used);
  all other plans stay as they are, and the new plan is there.\<close>

theorem put_evicts_victim:
  assumes "cache_run F cfg c m" "some_order it" "cc_eviction_policy cfg \<in> {Lru, Lfu}"
    and "length (ci_entries (pc_inner c)) \<ge> cc_max_entries cfg" "1 \<le> cc_max_entries cfg"
    and "map_of (ci_entries (pc_inner c)) k = None"
  shows "\<exists>(v, a) \<in> set (ci_entries (pc_inner c)).
    (\<forall>(k', b) \<in> set (ci_entries (pc_inner c)). evicts_first (cc_eviction_policy cfg) a b)
    \<and> (\<exists>c'. cache_put F it c k p now = Inr c'
        \<and> map_of (ci_entries (pc_inner c')) = (map_of (ci_entries (pc_inner c)))(v := None, k \<mapsto> p))"
proof -
  let ?es = "ci_entries (pc_inner c)"
  have inv: "\<not> pc_poisoned c" "pc_config c = cfg" using cache_run_inv [OF assms(1)] by (simp_all add: cache_inv_def)
  have ne: "?es \<noteq> []" using assms(4,5) by auto
  obtain v a where v: "(v, a) \<in> set ?es" "\<forall>(k', b) \<in> set ?es. evicts_first (cc_eviction_policy cfg) a b"
    and vic: "(if cc_eviction_policy cfg = Lru then find_lru_victim (it ?es) else find_lfu_victim (it ?es)) = Some v"
    using find_victim_least [OF assms(2) ne assms(3)] by blast
  have "ci_entries (evict_one F it now cfg (pc_inner c)) = AList.delete v ?es"
    using vic assms(3) ne by (auto simp: evict_one_def)
  then have "map_of (ci_entries (inner_put F it now cfg (pc_inner c) k p)) = (map_of ?es)(v := None, k \<mapsto> p)"
    using assms(4,6) by (simp add: inner_put_insert Let_def AList.update_conv' AList.delete_conv')
  with v inv show ?thesis by (intro bexI [of _ "(v, a)"]) (auto simp: cache_put_inner)
qed

theorem put_evicts_victim_witness:
  "\<exists>(v, a) \<in> set (ci_entries (pc_inner example_cache)).
    (\<forall>(k', b) \<in> set (ci_entries (pc_inner example_cache)). evicts_first Lru a b)
    \<and> (\<exists>c'. cache_put int_runtime rev example_cache (example_key 2) (example_cached 2) 9 = Inr c'
        \<and> map_of (ci_entries (pc_inner c'))
          = (map_of (ci_entries (pc_inner example_cache)))(v := None, example_key 2 \<mapsto> example_cached 2))"
proof -
  let ?es = "ci_entries (pc_inner example_cache)"
  have keys: "map fst ?es = [example_key 1]" and ne: "example_key 2 \<noteq> example_key 1" by code_simp+
  have "length ?es = 1" using arg_cong [OF keys, of length] by simp
  moreover have "fst ` set ?es = {example_key 1}" using arg_cong [OF keys, of set] by simp
  then have "map_of ?es (example_key 2) = None" using ne by (simp add: map_of_None_key)
  moreover have "some_order rev" by (simp add: some_order_def)
  ultimately show ?thesis
    using put_evicts_victim [OF example_cache_run, of rev "example_key 2" "example_cached 2" 9]
    by (simp add: example_cache_config_def)
qed

end
