(* ===== verification/Plan_Cache_Reoptimize.thy ===== *)
theory Plan_Cache_Reoptimize
  imports Plan_Cache_Laws
begin

text \<open>
  What the reoptimisation of stale plans (\<^verbatim>\<open>PlanCache::reoptimize\<close>,
  \<^verbatim>\<open>crates/ra-cache-impl/src/lib.rs\<close>) achieves: afterwards no plan is stale, and where it does
  more than it should.
\<close>

subsection \<open>Snapshots of the current statistics\<close>

definition snapshot_current ::
  "(string \<Rightarrow> 'f statistics option) \<Rightarrow> (string \<times> 'f statistics) list \<Rightarrow> bool" where
  "snapshot_current stats snapshot \<longleftrightarrow> (\<forall>(t, st) \<in> set snapshot. stats t = Some st)"

lemma set_AList_update: "set (AList.update k v al) \<subseteq> insert (k, v) (set al)"
  by (induction al) auto

lemma collect_tables_current:
  "snapshot_current stats snapshot \<Longrightarrow> snapshot_current stats (collect_tables stats p snapshot)"
proof (induction p arbitrary: snapshot rule: children_induct)
  case (node p)
  have fold: "snapshot_current stats (fold (\<lambda>child snap. collect_tables stats child snap) cs snap)"
    if "set cs \<subseteq> set (children p)" "snapshot_current stats snap" for cs snap
    using that by (induction cs arbitrary: snap) (auto simp: node.IH)
  show ?case
  proof (cases "\<exists>t a only. p = Scan t a only")
    case True
    then obtain t a only where p: "p = Scan t a only" by blast
    have "snapshot_current stats (AList.update t st snapshot)" if "stats t = Some st" for st
      using set_AList_update [of t st snapshot] node.prems that by (auto simp: snapshot_current_def)
    then show ?thesis
      using node.prems by (subst collect_tables.simps) (simp add: p split: option.split)
  next
    case False
    then have "collect_tables stats p snapshot = fold (\<lambda>child snap. collect_tables stats child snap) (children p) snapshot"
      by (subst collect_tables.simps) (cases p; simp)
    then show ?thesis using fold [of "children p" snapshot] node.prems by simp
  qed
qed

lemma build_snapshot_current: "snapshot_current stats (build_snapshot p stats)"
  unfolding build_snapshot_def by (rule collect_tables_current) (simp add: snapshot_current_def)

text \<open>What a threshold and statistics have to satisfy for unchanged statistics not to count as
  drift: no value drifts from itself, and columns have one entry each, as in a hash map.\<close>

definition reflexive_drift :: "('f, 'z) runtime_ops_scheme \<Rightarrow> 'f \<Rightarrow> bool" where
  "reflexive_drift F threshold \<longleftrightarrow> (\<forall>x. \<not> f64_lt F threshold (fractional_drift F x x))"

definition provider_ok :: "(string \<Rightarrow> 'f statistics option) \<Rightarrow> bool" where
  "provider_ok stats \<longleftrightarrow> (\<forall>t st. stats t = Some st \<longrightarrow> distinct (map fst (columns st)))"

lemma table_not_drifted:
  assumes "reflexive_drift F threshold" "distinct (map fst (columns st))"
  shows "\<not> table_drifted F threshold st st"
proof -
  have "\<not> column_drifted F threshold c c" for c
    using assms(1) by (auto simp: column_drifted_def reflexive_drift_def)
  moreover have "map_of (columns st) col = Some c" if "(col, c) \<in> set (columns st)" for col c
    using assms(2) that by simp
  ultimately show ?thesis
    using assms(1) by (fastforce simp: table_drifted_def reflexive_drift_def)
qed

lemma current_snapshot_fresh:
  assumes "reflexive_drift F threshold" "provider_ok stats" "snapshot_current stats (cp_statistics_snapshot p)"
  shows "pd_status (check_plan_drift F p stats threshold) = Fresh"
proof -
  have "\<not> snapshot_drifted F threshold stats (cp_statistics_snapshot p)"
    "\<not> snapshot_unknown stats (cp_statistics_snapshot p)"
    using assms by (auto simp: snapshot_drifted_def snapshot_unknown_def snapshot_current_def list_ex_iff
        provider_ok_def table_not_drifted)
  then show ?thesis by (simp add: check_plan_drift_status)
qed

subsection \<open>The loop\<close>

definition can_reoptimize ::
  "(code_points \<Rightarrow> rel_expr option) \<Rightarrow> (rel_expr \<Rightarrow> rel_expr option) \<Rightarrow> 'f cached_plan \<Rightarrow> bool" where
  "can_reoptimize parse optimize p \<longleftrightarrow> (\<exists>q. parse (cp_original_sql p) = Some q \<and> optimize q \<noteq> None)"

lemma try_reoptimize_entry_ok:
  assumes "\<not> pc_poisoned c" "map_of (ci_entries (pc_inner c)) k = Some e" "can_reoptimize parse optimize e"
  shows "\<exists>e'. try_reoptimize_entry F parse optimize c k stats now
      = Inr (c\<lparr>pc_inner := (pc_inner c)\<lparr>ci_entries := AList.update k e' (ci_entries (pc_inner c))\<rparr>\<rparr>, True)
    \<and> snapshot_current stats (cp_statistics_snapshot e') \<and> cp_original_sql e' = cp_original_sql e"
proof -
  obtain q r where "parse (cp_original_sql e) = Some q" "optimize q = Some r"
    using assms(3) by (auto simp: can_reoptimize_def)
  with assms(1,2) show ?thesis
    by (auto simp: try_reoptimize_entry_def update_entry_def build_snapshot_current)
qed

lemma reoptimize_loop_ok:
  assumes "\<not> pc_poisoned c"
    and "\<forall>k \<in> set ks. \<exists>e. map_of (ci_entries (pc_inner c)) k = Some e \<and> can_reoptimize parse optimize e"
  shows "\<exists>c'. reoptimize_loop F parse optimize stats now ks c n = Inr (c', n + length ks)
    \<and> \<not> pc_poisoned c' \<and> pc_config c' = pc_config c
    \<and> map fst (ci_entries (pc_inner c')) = map fst (ci_entries (pc_inner c))
    \<and> (\<forall>k. k \<notin> set ks \<longrightarrow> map_of (ci_entries (pc_inner c')) k = map_of (ci_entries (pc_inner c)) k)
    \<and> (\<forall>k \<in> set ks. \<exists>e. map_of (ci_entries (pc_inner c')) k = Some e
         \<and> snapshot_current stats (cp_statistics_snapshot e))"
  using assms
proof (induction ks arbitrary: c n)
  case (Cons k ks)
  obtain e where e: "map_of (ci_entries (pc_inner c)) k = Some e" "can_reoptimize parse optimize e"
    using Cons.prems(2) by auto
  from try_reoptimize_entry_ok [OF Cons.prems(1) e, of F stats now] obtain e' where
    step: "try_reoptimize_entry F parse optimize c k stats now
      = Inr (c\<lparr>pc_inner := (pc_inner c)\<lparr>ci_entries := AList.update k e' (ci_entries (pc_inner c))\<rparr>\<rparr>, True)"
    and e': "snapshot_current stats (cp_statistics_snapshot e')" "cp_original_sql e' = cp_original_sql e" by blast
  let ?c = "c\<lparr>pc_inner := (pc_inner c)\<lparr>ci_entries := AList.update k e' (ci_entries (pc_inner c))\<rparr>\<rparr>"
  have "can_reoptimize parse optimize e'" using e(2) e'(2) by (simp add: can_reoptimize_def)
  then have "\<forall>k' \<in> set ks. \<exists>e. map_of (ci_entries (pc_inner ?c)) k' = Some e \<and> can_reoptimize parse optimize e"
    using Cons.prems(2) by (auto simp: AList.update_conv')
  from Cons.IH [of ?c "n + 1", OF _ this] Cons.prems(1) obtain c' where
    c': "reoptimize_loop F parse optimize stats now ks ?c (n + 1) = Inr (c', n + 1 + length ks)"
      "\<not> pc_poisoned c'" "pc_config c' = pc_config c"
      "map fst (ci_entries (pc_inner c')) = map fst (AList.update k e' (ci_entries (pc_inner c)))"
      "\<forall>k'. k' \<notin> set ks \<longrightarrow> map_of (ci_entries (pc_inner c')) k' = map_of (AList.update k e' (ci_entries (pc_inner c))) k'"
      "\<forall>k' \<in> set ks. \<exists>e. map_of (ci_entries (pc_inner c')) k' = Some e \<and> snapshot_current stats (cp_statistics_snapshot e)"
    by auto
  have "k \<in> set (map fst (ci_entries (pc_inner c)))" using e(1) by (force dest: map_of_SomeD)
  then have keys: "map fst (AList.update k e' (ci_entries (pc_inner c))) = map fst (ci_entries (pc_inner c))"
    by (simp add: AList.update_keys)
  have "\<exists>e. map_of (ci_entries (pc_inner c')) k = Some e \<and> snapshot_current stats (cp_statistics_snapshot e)"
    using c'(5,6) e'(1) by (cases "k \<in> set ks") (auto simp: AList.update_conv')
  with c' keys show ?case by (intro exI [of _ c']) (auto simp: step AList.update_conv')
qed simp

definition stale_in ::
  "('f, 'z) runtime_ops_scheme \<Rightarrow> (string \<Rightarrow> 'f statistics option) \<Rightarrow> 'f \<Rightarrow> 'f cached_plan \<Rightarrow> bool" where
  "stale_in F stats threshold p \<longleftrightarrow> pd_status (check_plan_drift F p stats threshold) \<noteq> Fresh"

lemma find_stale_keys_eq:
  "\<not> pc_poisoned c \<Longrightarrow> find_stale_keys F it c stats threshold
     = Inr (map fst (filter (\<lambda>(k, p). stale_in F stats threshold p) (it (ci_entries (pc_inner c)))))"
  by (simp add: find_stale_keys_def stale_in_def)

lemma check_validity_empty:
  "\<not> pc_poisoned c \<Longrightarrow> some_order it \<Longrightarrow>
   cache_check_validity F it c stats = Inr [] \<longleftrightarrow>
   (\<forall>(k, p) \<in> set (ci_entries (pc_inner c)). \<not> stale_in F stats (cc_drift_threshold (pc_config c)) p)"
  using some_order_set [of it "ci_entries (pc_inner c)"]
  by (auto simp: cache_check_validity_def stale_in_def filter_empty_conv)

text \<open>Claim C11. Reoptimisation makes the cache fresh: when every cached query still parses and
  optimises, \<^verbatim>\<open>reoptimize\<close> succeeds, counts exactly the plans that were not fresh, keeps the
  keys and leaves the fresh plans alone, and a validity check against the same statistics then
  reports nothing.\<close>

theorem reoptimize_makes_fresh:
  assumes "cache_run F cfg c m" "some_order it" "some_order it'"
    and "\<forall>(k, p) \<in> set (ci_entries (pc_inner c)). can_reoptimize parse optimize p"
    and "reflexive_drift F (cc_drift_threshold cfg)" "provider_ok stats"
  shows "\<exists>c'. cache_reoptimize F parse optimize it c stats now
      = Inr (c', length (filter (\<lambda>(k, p). stale_in F stats (cc_drift_threshold cfg) p) (ci_entries (pc_inner c))))
    \<and> map fst (ci_entries (pc_inner c')) = map fst (ci_entries (pc_inner c))
    \<and> (\<forall>(k, p) \<in> set (ci_entries (pc_inner c)). stale_in F stats (cc_drift_threshold cfg) p
         \<or> map_of (ci_entries (pc_inner c')) k = Some p)
    \<and> cache_check_validity F it' c' stats = Inr []"
proof -
  let ?es = "ci_entries (pc_inner c)" and ?thr = "cc_drift_threshold cfg"
  let ?stale = "\<lambda>(k :: query_key, p). stale_in F stats ?thr p"
  let ?ks = "map fst (filter ?stale (it ?es))"
  have inv: "\<not> pc_poisoned c" "pc_config c = cfg" "distinct (map fst ?es)"
    using cache_run_inv [OF assms(1)] by (simp_all add: cache_inv_def inner_wf_def)
  have it: "set (it ?es) = set ?es" using assms(2) by (rule some_order_set)
  have "\<forall>k \<in> set ?ks. \<exists>e. map_of ?es k = Some e \<and> can_reoptimize parse optimize e"
    using assms(4) inv(3) it by (force simp: map_of_eq_Some_iff)
  from reoptimize_loop_ok [OF inv(1) this, of F stats now 0] obtain c' where
    loop: "reoptimize_loop F parse optimize stats now ?ks c 0 = Inr (c', 0 + length ?ks)"
      "\<not> pc_poisoned c'" "pc_config c' = pc_config c" "map fst (ci_entries (pc_inner c')) = map fst ?es"
    and keep: "\<forall>k. k \<notin> set ?ks \<longrightarrow> map_of (ci_entries (pc_inner c')) k = map_of ?es k"
    and new: "\<forall>k \<in> set ?ks. \<exists>e. map_of (ci_entries (pc_inner c')) k = Some e
         \<and> snapshot_current stats (cp_statistics_snapshot e)" by blast
  have c': "reoptimize_loop F parse optimize stats now ?ks c 0 = Inr (c', length ?ks)"
      "\<not> pc_poisoned c'" "pc_config c' = cfg" "map fst (ci_entries (pc_inner c')) = map fst ?es"
    using loop inv(2) by (simp_all only: add_0 not_False_eq_True)
  have in_ks: "k \<in> set ?ks \<longleftrightarrow> stale_in F stats ?thr p" if "(k, p) \<in> set ?es" for k p
  proof -
    have "k \<in> set ?ks \<longleftrightarrow> (\<exists>p'. (k, p') \<in> set ?es \<and> stale_in F stats ?thr p')" using it by force
    moreover have "p' = p" if "(k, p') \<in> set ?es" for p'
      using eq_key_imp_eq_value [OF inv(3) that \<open>(k, p) \<in> set ?es\<close>] .
    ultimately show ?thesis using that by blast
  qed
  have "\<not> stale_in F stats ?thr p" if "(k, p) \<in> set (ci_entries (pc_inner c'))" for k p
  proof -
    have mp: "map_of (ci_entries (pc_inner c')) k = Some p" using that c'(4) inv(3) by simp
    show ?thesis
    proof (cases "k \<in> set ?ks")
      case True
      with bspec [OF new True] mp current_snapshot_fresh [OF assms(5,6)] show ?thesis by (auto simp: stale_in_def)
    next
      case False
      with keep mp have "(k, p) \<in> set ?es" by (auto dest: map_of_SomeD)
      with in_ks False show ?thesis by blast
    qed
  qed
  then have "cache_check_validity F it' c' stats = Inr []"
    using check_validity_empty [OF c'(2) assms(3), where F = F and stats = stats] c'(3) by auto
  moreover have "length ?ks = length (filter ?stale ?es)"
    using assms(2) by (metis length_map mset_filter size_mset some_order_def)
  moreover have "stale_in F stats ?thr p \<or> map_of (ci_entries (pc_inner c')) k = Some p" if "(k, p) \<in> set ?es" for k p
    using in_ks [OF that] keep that inv(3) by auto
  ultimately show ?thesis
    using c' inv(1,2) by (auto simp: cache_reoptimize_def cache_reoptimize_with_threshold_def find_stale_keys_eq)
qed

theorem reoptimize_makes_fresh_witness:
  "\<exists>c'. cache_reoptimize int_runtime (\<lambda>_. Some (rel_scan ''t'')) Some rev example_cache (\<lambda>_. None) 7
      = Inr (c', length (filter (\<lambda>(k, p). stale_in int_runtime (\<lambda>_. None) (cc_drift_threshold example_cache_config) p)
          (ci_entries (pc_inner example_cache))))
    \<and> cache_check_validity int_runtime id c' (\<lambda>_. None) = Inr []"
proof -
  have drift: "reflexive_drift int_runtime (cc_drift_threshold example_cache_config)"
    by (simp add: reflexive_drift_def fractional_drift_def int_runtime_def example_cache_config_def)
  have ok: "some_order rev" "provider_ok (\<lambda>_ :: string. None :: int statistics option)"
    "\<forall>(k, p) \<in> set (ci_entries (pc_inner example_cache)). can_reoptimize (\<lambda>_. Some (rel_scan ''t'')) Some p"
    by (simp_all add: some_order_def provider_ok_def can_reoptimize_def)
  from reoptimize_makes_fresh [OF example_cache_run ok(1) some_order_id ok(3) drift ok(2), of 7]
  show ?thesis by blast
qed

text \<open>A table that was dropped makes its plans \<^verbatim>\<open>Unknown\<close>; reoptimising them takes the table out
  of the snapshot, and from then on the plan over the dropped table counts as fresh.\<close>

lemma dropped_table_becomes_fresh:
  "pd_status (check_plan_drift F (p\<lparr>cp_statistics_snapshot := [(t, st)]\<rparr>) (\<lambda>_. None) thr) = UnknownDrift"
  "pd_status (check_plan_drift F (p\<lparr>cp_statistics_snapshot := build_snapshot (Scan t a only) (\<lambda>_. None)\<rparr>) (\<lambda>_. None) thr) = Fresh"
  by (simp_all add: check_plan_drift_status build_snapshot_def snapshot_drifted_def snapshot_unknown_def collect_tables.simps)

text \<open>Only \<^verbatim>\<open>Scan\<close> nodes are looked for when a table's plans are cleared: a plan that reads the
  table through an index keeps its place unless the snapshot names the table.\<close>

lemma index_scan_not_cleared:
  "references_table_name (p\<lparr>cp_plan := IndexScanRel t ix, cp_statistics_snapshot := []\<rparr>) t = False"
  by (simp add: references_table_name_def plan_scans_table.simps)

end
