(* ===== verification/Rust_Text.thy ===== *)
theory Rust_Text
  imports Prelude
begin

text \<open>
  Operations of Rust's \<^verbatim>\<open>str\<close> on UTF-8 bytes that the executors of set-returning functions
  use: trimming and splitting at white space, splitting at a character and reading a
  64-bit integer.
\<close>

subsection \<open>White space\<close>

text \<open>The UTF-8 encodings of the characters with the property White_Space.\<close>

definition whitespace_encodings :: "string list" where
  "whitespace_encodings = map (map char_of :: nat list \<Rightarrow> string)
     [[9], [10], [11], [12], [13], [32], [194, 133], [194, 160], [225, 154, 128],
      [226, 128, 128], [226, 128, 129], [226, 128, 130], [226, 128, 131], [226, 128, 132], [226, 128, 133],
      [226, 128, 134], [226, 128, 135], [226, 128, 136], [226, 128, 137], [226, 128, 138], [226, 128, 168],
      [226, 128, 169], [226, 128, 175], [226, 129, 159], [227, 128, 128]]"

definition take_whitespace :: "string \<Rightarrow> string option" where
  "take_whitespace s = find (\<lambda>w. take (length w) s = w) whitespace_encodings"

lemma whitespace_nonempty: "w \<in> set whitespace_encodings \<Longrightarrow> w \<noteq> []"
  by (auto simp: whitespace_encodings_def)

lemma take_whitespace_length: "take_whitespace s = Some w \<Longrightarrow> 0 < length w \<and> length w \<le> length s"
proof -
  assume "take_whitespace s = Some w"
  then have "w \<in> set whitespace_encodings" "take (length w) s = w"
    by (auto simp: take_whitespace_def find_Some_iff)
  then show ?thesis using whitespace_nonempty [of w] by (metis length_greater_0_conv length_take min.cobounded1)
qed

lemma shorter_without: "w \<noteq> [] \<Longrightarrow> length w \<le> length s \<Longrightarrow> length s - length w < length s"
  by (cases w) auto

function trim_start :: "string \<Rightarrow> string" where
  "trim_start s = (case take_whitespace s of Some w \<Rightarrow> trim_start (drop (length w) s) | None \<Rightarrow> s)"
  by pat_completeness auto
termination
proof (relation "measure length", goal_cases)
  case (2 s w)
  then show ?case using take_whitespace_length [of s w] by (simp add: shorter_without)
qed simp

declare trim_start.simps [simp del]

definition take_whitespace_end :: "string \<Rightarrow> string option" where
  "take_whitespace_end s = find (\<lambda>w. length w \<le> length s \<and> drop (length s - length w) s = w) whitespace_encodings"

function trim_end :: "string \<Rightarrow> string" where
  "trim_end s = (case take_whitespace_end s of Some w \<Rightarrow> trim_end (take (length s - length w) s) | None \<Rightarrow> s)"
  by pat_completeness auto
termination
proof (relation "measure length", goal_cases)
  case (2 s w)
  then have "w \<in> set whitespace_encodings" "length w \<le> length s"
    by (auto simp: take_whitespace_end_def find_Some_iff)
  then show ?case using whitespace_nonempty [of w] by (simp add: shorter_without)
qed simp

declare trim_end.simps [simp del]

definition trim :: "string \<Rightarrow> string" where
  "trim s = trim_end (trim_start s)"

text \<open>A text without white space at its ends is not changed.\<close>

definition plain_char :: "char \<Rightarrow> bool" where
  "plain_char c \<longleftrightarrow> 33 \<le> byte c \<and> byte c < 128"

lemma whitespace_first: "w \<in> set whitespace_encodings \<Longrightarrow> \<not> plain_char (hd w)"
  by (auto simp: whitespace_encodings_def plain_char_def)

lemma whitespace_last: "w \<in> set whitespace_encodings \<Longrightarrow> \<not> plain_char (last w)"
  by (auto simp: whitespace_encodings_def plain_char_def)

lemma hd_take_prefix: "take (length w) s = w \<Longrightarrow> w \<noteq> [] \<Longrightarrow> hd s = hd w"
  by (metis hd_take length_greater_0_conv)

lemma last_drop_suffix: "drop n s = w \<Longrightarrow> w \<noteq> [] \<Longrightarrow> last s = last w"
  by (metis drop_eq_Nil last_drop not_le)

lemma trim_plain: "s = [] \<or> plain_char (hd s) \<and> plain_char (last s) \<Longrightarrow> trim s = s"
proof -
  assume s: "s = [] \<or> plain_char (hd s) \<and> plain_char (last s)"
  have "take (length w) s \<noteq> w" if "w \<in> set whitespace_encodings" for w
  proof
    assume t: "take (length w) s = w"
    have "w \<noteq> []" using that by (rule whitespace_nonempty)
    with t have "s \<noteq> []" "hd s = hd w" by (auto intro: hd_take_prefix)
    with s whitespace_first [OF that] show False by auto
  qed
  then have "take_whitespace s = None" by (simp add: take_whitespace_def find_None_iff)
  then have start: "trim_start s = s" by (subst trim_start.simps) simp
  have "drop (length s - length w) s \<noteq> w" if "w \<in> set whitespace_encodings" "length w \<le> length s" for w
  proof
    assume t: "drop (length s - length w) s = w"
    have "w \<noteq> []" using that(1) by (rule whitespace_nonempty)
    with t that(2) have "s \<noteq> []" "last s = last w" by (auto intro: last_drop_suffix)
    with s whitespace_last [OF that(1)] show False by auto
  qed
  then have "take_whitespace_end s = None" by (auto simp: take_whitespace_end_def find_None_iff)
  then have "trim_end s = s" by (subst trim_end.simps) simp
  with start show ?thesis by (simp add: trim_def)
qed

function split_whitespace_loop :: "string \<Rightarrow> string \<Rightarrow> string list" where
  "split_whitespace_loop w s = (case s of
     [] \<Rightarrow> if w = [] then [] else [w]
   | c # cs \<Rightarrow>
       (case take_whitespace s of
          Some ws \<Rightarrow> (if w = [] then [] else [w]) @ split_whitespace_loop [] (drop (length ws) s)
        | None \<Rightarrow> split_whitespace_loop (w @ [c]) cs))"
  by pat_completeness auto
termination
  by (relation "measure (length \<circ> snd)") (auto dest!: take_whitespace_length simp: diff_less)

declare split_whitespace_loop.simps [simp del]

definition split_whitespace :: "string \<Rightarrow> string list" where
  "split_whitespace s = split_whitespace_loop [] s"

subsection \<open>Splitting and stripping at a character\<close>

fun split_on :: "char \<Rightarrow> string \<Rightarrow> string list" where
  "split_on d [] = [[]]"
| "split_on d (c # cs) =
    (if c = d then [] # split_on d cs
     else (case split_on d cs of [] \<Rightarrow> [[c]] | p # ps \<Rightarrow> (c # p) # ps))"

lemma split_on_nonempty: "split_on d s \<noteq> []"
  by (induction s) (auto split: list.split)

lemma split_on_none: "d \<notin> set s \<Longrightarrow> split_on d s = [s]"
  by (induction s) auto

lemma split_on_append: "d \<notin> set p \<Longrightarrow> split_on d (p @ d # s) = p # split_on d s"
  by (induction p) auto

lemma split_on_join:
  "ps \<noteq> [] \<Longrightarrow> \<forall>p \<in> set ps. d \<notin> set p \<Longrightarrow> split_on d (join_with [d] ps) = ps"
proof (induction ps)
  case (Cons p ps)
  then show ?case by (cases "ps = []") (simp_all add: join_with_Cons split_on_none split_on_append)
qed simp

definition trim_matches :: "char \<Rightarrow> string \<Rightarrow> string" where
  "trim_matches d s = rev (dropWhile (\<lambda>c. c = d) (rev (dropWhile (\<lambda>c. c = d) s)))"

definition starts_with :: "char \<Rightarrow> string \<Rightarrow> bool" where
  "starts_with d s \<longleftrightarrow> s \<noteq> [] \<and> hd s = d"

definition ends_with :: "char \<Rightarrow> string \<Rightarrow> bool" where
  "ends_with d s \<longleftrightarrow> s \<noteq> [] \<and> last s = d"

subsection \<open>Integers\<close>

text \<open>\<^verbatim>\<open>str::parse::<i64>\<close>: an optional sign and at least one digit, within the range.\<close>

definition parse_i64 :: "string \<Rightarrow> i64 option" where
  "parse_i64 s =
    (let (neg, ds) = (case s of
         [] \<Rightarrow> (False, [])
       | c # cs \<Rightarrow> if c = CHR ''-'' then (True, cs) else if c = CHR ''+'' then (False, cs) else (False, s));
         v = (if neg then - dec_value ds else dec_value ds)
     in if ds \<noteq> [] \<and> list_all is_ascii_digit ds \<and> - (2 ^ 63) \<le> v \<and> v < 2 ^ 63 then Some (word_of_int v) else None)"

definition show_i64 :: "i64 \<Rightarrow> string" where
  "show_i64 w = (if sint w < 0 then CHR ''-'' # dec_string (nat (- sint w)) else dec_string (nat (sint w)))"

lemma is_ascii_digit_not_sign: "is_ascii_digit c \<Longrightarrow> c \<noteq> CHR ''-'' \<and> c \<noteq> CHR ''+'' \<and> c \<noteq> CHR '',''"
  by (auto simp: is_ascii_digit_def)

lemma dec_string_list_all: "list_all is_ascii_digit (dec_string n)"
  using dec_string_digits by (simp add: list_all_iff)

lemma sint_range: "- (2 ^ 63) \<le> sint (w :: i64) \<and> sint w < 2 ^ 63"
  using sint_greater_eq [of w] sint_less [of w] by simp

lemma parse_show_i64: "parse_i64 (show_i64 w) = Some w"
proof (cases "sint w < 0")
  case True
  then show ?thesis
    using sint_range [of w] by (simp add: parse_i64_def show_i64_def dec_string_list_all)
next
  case False
  obtain c cs where d: "dec_string (nat (sint w)) = c # cs"
    using dec_string_nonempty [of "nat (sint w)"] by (meson neq_Nil_conv)
  have "is_ascii_digit c" using dec_string_digits [of "nat (sint w)"] d by simp
  then have "c \<noteq> CHR ''-''" "c \<noteq> CHR ''+''" using is_ascii_digit_not_sign by blast+
  moreover have "dec_value (c # cs) = sint w" using dec_value_dec_string [of "nat (sint w)"] False d by simp
  moreover have "list_all is_ascii_digit (c # cs)" using dec_string_list_all [of "nat (sint w)"] d by simp
  ultimately show ?thesis
    using False sint_range [of w] by (simp add: parse_i64_def show_i64_def d)
qed

lemma show_i64_chars: "c \<in> set (show_i64 w) \<Longrightarrow> c = CHR ''-'' \<or> is_ascii_digit c"
  using dec_string_digits by (auto simp: show_i64_def split: if_splits)

lemma show_i64_nonempty: "show_i64 w \<noteq> []"
  by (simp add: show_i64_def)

lemma show_i64_plain: "c \<in> set (show_i64 w) \<Longrightarrow> plain_char c \<and> c \<noteq> CHR '',''"
  using show_i64_chars [of c w] by (auto simp: plain_char_def is_ascii_digit_def)

end
