(* ===== verification/Set_Returning.thy ===== *)
theory Set_Returning
  imports Rust_Text Recursive_Cte
begin

text \<open>
  The executors of set-returning operators (\<^verbatim>\<open>crates/ra-engine/src/executors\<close>): \<^verbatim>\<open>UNNEST\<close> of
  one and of several arrays (\<^verbatim>\<open>unnest.rs\<close>), table functions (\<^verbatim>\<open>table_function.rs\<close>) and lateral
  joins over them (\<^verbatim>\<open>lateral_join.rs\<close>). An execution ends with rows, with an error or in a
  panic, an index or slice out of range. Arithmetic on 64-bit integers wraps around as in a
  release build.

  What lies outside the repository is the record \<open>exec_env\<close>: the debug output of expressions,
  values and strings in error messages, the reading of floats, conversions of floats,
  lower-casing, and the JSON library. A JSON value is the data type of that library's values,
  over a type of numbers.
\<close>

subsection \<open>Outcomes\<close>

datatype 'a outcome = Done 'a | Failed execution_error | Panicked

definition bind_outcome :: "'a outcome \<Rightarrow> ('a \<Rightarrow> 'b outcome) \<Rightarrow> 'b outcome" where
  "bind_outcome x f = (case x of Done a \<Rightarrow> f a | Failed e \<Rightarrow> Failed e | Panicked \<Rightarrow> Panicked)"

lemma bind_outcome_simps [simp]:
  "bind_outcome (Done a) f = f a" "bind_outcome (Failed e) f = Failed e" "bind_outcome Panicked f = Panicked"
  by (simp_all add: bind_outcome_def)

lemma bind_outcome_Done: "bind_outcome x f = Done b \<longleftrightarrow> (\<exists>a. x = Done a \<and> f a = Done b)"
  by (cases x) simp_all

fun traverse :: "('a \<Rightarrow> 'b outcome) \<Rightarrow> 'a list \<Rightarrow> 'b list outcome" where
  "traverse f [] = Done []"
| "traverse f (x # xs) = bind_outcome (f x) (\<lambda>y. bind_outcome (traverse f xs) (\<lambda>ys. Done (y # ys)))"

lemma traverse_Done: "traverse f xs = Done ys \<longleftrightarrow> list_all2 (\<lambda>x y. f x = Done y) xs ys"
  by (induction xs arbitrary: ys) (auto simp: bind_outcome_Done list_all2_Cons1)

lemma traverse_length: "traverse f xs = Done ys \<Longrightarrow> length ys = length xs"
  by (simp add: traverse_Done list_all2_lengthD)

datatype 'n json = JsonNull | JsonBool bool | JsonNumber 'n | JsonString string
  | JsonArray "'n json list" | JsonObject "(string \<times> 'n json) list"

record 'n exec_env =
  debug_expr :: "expr \<Rightarrow> string"
  debug_const :: "const_value \<Rightarrow> string"
  parse_f64 :: "string \<Rightarrow> 64 word option"
  f64_as_i64 :: "64 word \<Rightarrow> i64"
  to_lowercase :: "string \<Rightarrow> string"
  json_from_str :: "string \<Rightarrow> string + 'n json"
  json_as_i64 :: "'n \<Rightarrow> i64 option"
  json_as_f64 :: "'n \<Rightarrow> 64 word option"
  json_to_string :: "'n json \<Rightarrow> string"

subsection \<open>UNNEST\<close>

record unnest_executor =
  un_expr :: expr
  un_alias :: "string option"
  un_with_ordinality :: bool

definition column_alias :: "unnest_executor \<Rightarrow> string" where
  "column_alias x = (case un_alias x of Some a \<Rightarrow> a | None \<Rightarrow> ''unnest'')"

definition eval_const_expr :: "'n exec_env \<Rightarrow> expr \<Rightarrow> const_value outcome" where
  "eval_const_expr E e = (case e of
     Const c \<Rightarrow> Done c
   | other \<Rightarrow> Failed (EvalError (''expected constant, got: '' @ debug_expr E other)))"

definition parse_element :: "'n exec_env \<Rightarrow> string \<Rightarrow> const_value" where
  "parse_element E part0 =
    (let part = trim part0 in
     if eq_ignore_ascii_case part ''null'' then NullC
     else (case parse_i64 part of
       Some i \<Rightarrow> IntC i
     | None \<Rightarrow> (case parse_f64 E part of
         Some f \<Rightarrow> FloatC f
       | None \<Rightarrow> StringC (trim_matches CHR 0x27 (trim_matches CHR 0x22 part)))))"

definition parse_pg_array_literal :: "'n exec_env \<Rightarrow> string \<Rightarrow> const_value list outcome" where
  "parse_pg_array_literal E s =
    (let trimmed = trim s in
     if \<not> starts_with CHR ''{'' trimmed \<or> \<not> ends_with CHR ''}'' trimmed
     then Failed (EvalError (''invalid array literal: '' @ s))
     else (let inner = take (length trimmed - 2) (drop 1 trimmed) in
       if inner = [] then Done [] else Done (map (parse_element E) (split_on CHR '','' inner))))"

definition extract_array_elements :: "'n exec_env \<Rightarrow> const_value \<Rightarrow> const_value list outcome" where
  "extract_array_elements E v = (case v of
     StringC s \<Rightarrow> parse_pg_array_literal E s
   | NullC \<Rightarrow> Done []
   | other \<Rightarrow> Failed (EvalError (''expected array value, got: '' @ debug_const E other)))"

text \<open>\<^verbatim>\<open>enumerate\<close>, with the ordinality column \<^verbatim>\<open>(idx as i64) + 1\<close>.\<close>

definition ordinality :: "bool \<Rightarrow> nat \<Rightarrow> const_value list" where
  "ordinality with_ord idx = (if with_ord then [IntC (of_nat idx + 1)] else [])"

definition unnest_array_literal :: "'n exec_env \<Rightarrow> unnest_executor \<Rightarrow> expr list \<Rightarrow> row list outcome" where
  "unnest_array_literal E x elements =
    traverse (\<lambda>(idx, elem). bind_outcome (eval_const_expr E elem)
        (\<lambda>v. Done (row_new (v # ordinality (un_with_ordinality x) idx))))
      (enumerate 0 elements)"

definition resolve_column_index :: "row list \<Rightarrow> nat outcome" where
  "resolve_column_index rows = (case rows of
     [] \<Rightarrow> Done 0
   | r # rs \<Rightarrow>
       (if width r = 0 then Failed (EvalError ''input row has no columns'') else Done (width r - 1)))"

definition unnest_row :: "'n exec_env \<Rightarrow> unnest_executor \<Rightarrow> nat \<Rightarrow> row \<Rightarrow> row list outcome" where
  "unnest_row E x col_idx r =
    (if length (row_values r) \<le> col_idx then Panicked
     else bind_outcome (extract_array_elements E (row_values r ! col_idx))
       (\<lambda>elems. Done (map (\<lambda>(ord, e). row_new (row_values r @ e # ordinality (un_with_ordinality x) ord))
         (enumerate 0 elems))))"

definition unnest_column :: "'n exec_env \<Rightarrow> unnest_executor \<Rightarrow> row list \<Rightarrow> row list outcome" where
  "unnest_column E x rows = bind_outcome (resolve_column_index rows)
     (\<lambda>col_idx. bind_outcome (traverse (unnest_row E x col_idx) rows) (\<lambda>rss. Done (concat rss)))"

definition unnest_execute :: "'n exec_env \<Rightarrow> unnest_executor \<Rightarrow> row list option \<Rightarrow> row list outcome" where
  "unnest_execute E x input = (case un_expr x of
     Array elements \<Rightarrow> unnest_array_literal E x elements
   | Column c \<Rightarrow>
       (case input of
          Some rows \<Rightarrow> unnest_column E x rows
        | None \<Rightarrow> Failed (EvalError ''UNNEST of column requires input relation''))
   | other \<Rightarrow> Failed (EvalError (''cannot UNNEST expression: '' @ debug_expr E other)))"

record multi_unnest_executor =
  mu_exprs :: "expr list"
  mu_aliases :: "string option list"
  mu_with_ordinality :: bool

definition extract_array_from_expr :: "'n exec_env \<Rightarrow> expr \<Rightarrow> const_value list outcome" where
  "extract_array_from_expr E e = (case e of
     Array elements \<Rightarrow> traverse (eval_const_expr E) elements
   | Const NullC \<Rightarrow> Done []
   | other \<Rightarrow> Failed (EvalError (''multi-UNNEST requires array expressions, got: '' @ debug_expr E other)))"

definition multi_unnest_execute :: "'n exec_env \<Rightarrow> multi_unnest_executor \<Rightarrow> row list outcome" where
  "multi_unnest_execute E x = bind_outcome (traverse (extract_array_from_expr E) (mu_exprs x))
    (\<lambda>columns. let max_len = foldr max (map length columns) 0 in
       Done (map (\<lambda>idx. row_new
           (map (\<lambda>col. if idx < length col then col ! idx else NullC) columns
            @ ordinality (mu_with_ordinality x) idx))
         [0..<max_len]))"

subsection \<open>Table functions\<close>

record table_function_executor =
  tf_name :: string
  tf_args :: "expr list"

definition MAX_ROWS :: nat where
  "MAX_ROWS = 1000000"

definition eval_arg_as_int :: "'n exec_env \<Rightarrow> expr \<Rightarrow> i64 outcome" where
  "eval_arg_as_int E e = (case e of
     Const (IntC i) \<Rightarrow> Done i
   | Const (FloatC f) \<Rightarrow> Done (f64_as_i64 E f)
   | other \<Rightarrow> Failed (EvalError (''expected integer argument, got: '' @ debug_expr E other)))"

definition eval_arg_as_string :: "'n exec_env \<Rightarrow> expr \<Rightarrow> string outcome" where
  "eval_arg_as_string E e = (case e of
     Const (StringC s) \<Rightarrow> Done s
   | other \<Rightarrow> Failed (EvalError (''expected string argument, got: '' @ debug_expr E other)))"

text \<open>The loop of \<^verbatim>\<open>generate_series\<close>: \<open>n\<close> is how many rows may still be pushed.\<close>

fun series_loop :: "nat \<Rightarrow> i64 \<Rightarrow> i64 \<Rightarrow> i64 \<Rightarrow> row list outcome" where
  "series_loop n current stop step =
    (if sint step > 0 \<and> sint current \<le> sint stop \<or> sint step < 0 \<and> sint current \<ge> sint stop
     then (case n of
         0 \<Rightarrow> Failed (EvalError (''generate_series exceeded '' @ dec_string MAX_ROWS @ '' row limit''))
       | Suc m \<Rightarrow> bind_outcome (series_loop m (current + step) stop step)
                    (\<lambda>rows. Done (row_new [IntC current] # rows)))
     else Done [])"

declare series_loop.simps [simp del]

definition execute_generate_series :: "'n exec_env \<Rightarrow> table_function_executor \<Rightarrow> row list outcome" where
  "execute_generate_series E x =
    (if length (tf_args x) < 2 then Failed (EvalError ''generate_series requires at least 2 arguments'')
     else bind_outcome (eval_arg_as_int E (tf_args x ! 0)) (\<lambda>start.
       bind_outcome (eval_arg_as_int E (tf_args x ! 1)) (\<lambda>stop.
       bind_outcome (if length (tf_args x) \<ge> 3 then eval_arg_as_int E (tf_args x ! 2) else Done 1) (\<lambda>step.
         if step = 0 then Failed (EvalError ''generate_series step cannot be zero'')
         else series_loop MAX_ROWS start stop step))))"

definition json_value_to_const :: "'n exec_env \<Rightarrow> 'n json \<Rightarrow> const_value" where
  "json_value_to_const E v = (case v of
     JsonNull \<Rightarrow> NullC
   | JsonBool b \<Rightarrow> BoolC b
   | JsonNumber n \<Rightarrow> (case json_as_i64 E n of
       Some i \<Rightarrow> IntC i
     | None \<Rightarrow> FloatC (case json_as_f64 E n of Some f \<Rightarrow> f | None \<Rightarrow> 0))
   | JsonString s \<Rightarrow> StringC s
   | other \<Rightarrow> StringC (json_to_string E other))"

definition coerce_json_value :: "'n exec_env \<Rightarrow> 'n json \<Rightarrow> string \<Rightarrow> const_value" where
  "coerce_json_value E v ty =
    (if ty \<in> {''int'', ''integer'', ''int4'', ''int8'', ''bigint''} then
       (case v of
          JsonNumber n \<Rightarrow> (case json_as_i64 E n of
            Some i \<Rightarrow> IntC i
          | None \<Rightarrow> IntC (f64_as_i64 E (case json_as_f64 E n of Some f \<Rightarrow> f | None \<Rightarrow> 0)))
        | JsonString s \<Rightarrow> (case parse_i64 s of Some i \<Rightarrow> IntC i | None \<Rightarrow> NullC)
        | _ \<Rightarrow> NullC)
     else if ty \<in> {''float'', ''double'', ''real'', ''numeric'', ''float4'', ''float8''} then
       (case v of
          JsonNumber n \<Rightarrow> FloatC (case json_as_f64 E n of Some f \<Rightarrow> f | None \<Rightarrow> 0)
        | JsonString s \<Rightarrow> (case parse_f64 E s of Some f \<Rightarrow> FloatC f | None \<Rightarrow> NullC)
        | _ \<Rightarrow> NullC)
     else if ty \<in> {''bool'', ''boolean''} then
       (case v of JsonBool b \<Rightarrow> BoolC b | _ \<Rightarrow> NullC)
     else json_value_to_const E v)"

definition parse_json :: "'n exec_env \<Rightarrow> string \<Rightarrow> 'n json outcome" where
  "parse_json E s = (case json_from_str E s of
     Inr v \<Rightarrow> Done v | Inl e \<Rightarrow> Failed (EvalError (''invalid JSON: '' @ e)))"

text \<open>The first argument, as text, parsed.\<close>

definition json_argument :: "'n exec_env \<Rightarrow> table_function_executor \<Rightarrow> string \<Rightarrow> 'n json outcome" where
  "json_argument E x msg =
    (if tf_args x = [] then Failed (EvalError msg)
     else bind_outcome (eval_arg_as_string E (tf_args x ! 0)) (parse_json E))"

definition execute_json_array_elements :: "'n exec_env \<Rightarrow> table_function_executor \<Rightarrow> row list outcome" where
  "execute_json_array_elements E x =
    bind_outcome (json_argument E x ''json_array_elements requires 1 argument'') (\<lambda>parsed.
      case parsed of
        JsonArray elements \<Rightarrow> Done (map (\<lambda>e. row_new [json_value_to_const E e]) elements)
      | _ \<Rightarrow> Failed (EvalError ''json_array_elements requires a JSON array''))"

definition execute_json_each :: "'n exec_env \<Rightarrow> table_function_executor \<Rightarrow> row list outcome" where
  "execute_json_each E x =
    bind_outcome (json_argument E x ''json_each requires 1 argument'') (\<lambda>parsed.
      case parsed of
        JsonObject m \<Rightarrow> Done (map (\<lambda>(k, v). row_new [StringC k, json_value_to_const E v]) m)
      | _ \<Rightarrow> Failed (EvalError ''json_each requires a JSON object''))"

definition execute_json_object_keys :: "'n exec_env \<Rightarrow> table_function_executor \<Rightarrow> row list outcome" where
  "execute_json_object_keys E x =
    bind_outcome (json_argument E x ''json_object_keys requires 1 argument'') (\<lambda>parsed.
      case parsed of
        JsonObject m \<Rightarrow> Done (map (\<lambda>(k, v). row_new [StringC k]) m)
      | _ \<Rightarrow> Failed (EvalError ''json_object_keys requires a JSON object''))"

text \<open>\<^verbatim>\<open>strip_prefix('(').and_then(strip_suffix(')')).unwrap_or(trimmed)\<close>.\<close>

definition strip_parens :: "string \<Rightarrow> string" where
  "strip_parens s =
    (if starts_with CHR ''('' s \<and> ends_with CHR '')'' (tl s) then butlast (tl s) else s)"

definition parse_type_definition :: "'n exec_env \<Rightarrow> string \<Rightarrow> (string \<times> string) list outcome" where
  "parse_type_definition E def = traverse (\<lambda>part.
      let tokens = split_whitespace part in
      if length tokens < 2 then Failed (EvalError (''invalid type definition part: '' @ part))
      else Done (tokens ! 0, to_lowercase E (join_with '' '' (tl tokens))))
    (split_on CHR '','' (strip_parens (trim def)))"

definition execute_json_populate_recordset :: "'n exec_env \<Rightarrow> table_function_executor \<Rightarrow> row list outcome" where
  "execute_json_populate_recordset E x =
    (if length (tf_args x) < 2 then Failed (EvalError ''json_populate_recordset requires 2 arguments'')
     else bind_outcome (eval_arg_as_string E (tf_args x ! 0)) (\<lambda>json_str.
       bind_outcome (eval_arg_as_string E (tf_args x ! 1)) (\<lambda>type_def.
       bind_outcome (parse_type_definition E type_def) (\<lambda>col_names.
       bind_outcome (parse_json E json_str) (\<lambda>parsed.
         case parsed of
           JsonArray elements \<Rightarrow> traverse (\<lambda>elem. case elem of
               JsonObject obj \<Rightarrow> Done (row_new (map (\<lambda>(col, ty).
                  case map_of obj col of None \<Rightarrow> NullC | Some v \<Rightarrow> coerce_json_value E v ty) col_names))
             | _ \<Rightarrow> Failed (EvalError ''json_populate_recordset: each element must be a JSON object'')) elements
         | _ \<Rightarrow> Failed (EvalError ''json_populate_recordset requires a JSON array''))))))"

definition execute_json_to_recordset :: "'n exec_env \<Rightarrow> table_function_executor \<Rightarrow> row list outcome" where
  "execute_json_to_recordset E x =
    bind_outcome (json_argument E x ''json_to_recordset requires 1 argument'') (\<lambda>parsed.
      case parsed of
        JsonArray elements \<Rightarrow>
          (case elements of
             [] \<Rightarrow> Done []
           | JsonObject first # _ \<Rightarrow> traverse (\<lambda>elem. case elem of
                 JsonObject obj \<Rightarrow> Done (row_new (map (\<lambda>col.
                    case map_of obj col of None \<Rightarrow> NullC | Some v \<Rightarrow> json_value_to_const E v) (map fst first)))
               | _ \<Rightarrow> Failed (EvalError ''json_to_recordset: each element must be a JSON object'')) elements
           | _ \<Rightarrow> Failed (EvalError ''json_to_recordset: elements must be objects''))
      | _ \<Rightarrow> Failed (EvalError ''json_to_recordset requires a JSON array''))"

definition table_function_execute ::
  "'n exec_env \<Rightarrow> table_function_executor \<Rightarrow> row list option \<Rightarrow> row list outcome" where
  "table_function_execute E x input =
    (if tf_name x = ''generate_series'' then execute_generate_series E x
     else if tf_name x \<in> {''json_array_elements'', ''json_array_elements_text'', ''jsonb_array_elements'',
         ''jsonb_array_elements_text''} then execute_json_array_elements E x
     else if tf_name x \<in> {''json_each'', ''jsonb_each''} then execute_json_each E x
     else if tf_name x \<in> {''json_object_keys'', ''jsonb_object_keys''} then execute_json_object_keys E x
     else if tf_name x = ''json_populate_recordset'' then execute_json_populate_recordset E x
     else if tf_name x \<in> {''json_to_recordset'', ''jsonb_to_recordset''} then execute_json_to_recordset E x
     else Failed (EvalError (''unsupported table function: '' @ tf_name x)))"

subsection \<open>Lateral joins\<close>

datatype lateral_rhs = LateralUnnest unnest_executor | LateralTableFunction table_function_executor

record lateral_join_executor =
  lj_rhs :: lateral_rhs
  lj_preserve_left :: bool

definition rhs_width :: "lateral_rhs \<Rightarrow> nat" where
  "rhs_width rhs = (case rhs of LateralUnnest u \<Rightarrow> 1 | LateralTableFunction t \<Rightarrow> 1)"

text \<open>Slicing \<^verbatim>\<open>r.values[left_width..]\<close> panics when the row is shorter.\<close>

definition evaluate_rhs :: "'n exec_env \<Rightarrow> lateral_rhs \<Rightarrow> row \<Rightarrow> row list outcome" where
  "evaluate_rhs E rhs left_row = (case rhs of
     LateralUnnest u \<Rightarrow> bind_outcome (unnest_execute E u (Some [left_row]))
       (traverse (\<lambda>r. if length (row_values r) < width left_row then Panicked
          else Done (row_new (drop (width left_row) (row_values r)))))
   | LateralTableFunction t \<Rightarrow> table_function_execute E t (Some [left_row]))"

definition lateral_row :: "'n exec_env \<Rightarrow> lateral_join_executor \<Rightarrow> row \<Rightarrow> row list outcome" where
  "lateral_row E x left_row = bind_outcome (evaluate_rhs E (lj_rhs x) left_row) (\<lambda>right_rows.
     if right_rows = [] \<and> lj_preserve_left x
     then Done [row_new (row_values left_row @ replicate (rhs_width (lj_rhs x)) NullC)]
     else Done (map (\<lambda>r. row_new (row_values left_row @ row_values r)) right_rows))"

definition lateral_execute :: "'n exec_env \<Rightarrow> lateral_join_executor \<Rightarrow> row list \<Rightarrow> row list outcome" where
  "lateral_execute E x left_rows =
    bind_outcome (traverse (lateral_row E x) left_rows) (\<lambda>rss. Done (concat rss))"


subsection \<open>Arrays in parallel\<close>

lemma foldr_max_ge: "c \<in> set xs \<Longrightarrow> c \<le> foldr max xs (0 :: nat)"
  by (induction xs) auto

lemma foldr_max_in: "xs \<noteq> [] \<Longrightarrow> foldr max xs (0 :: nat) \<in> set xs"
proof (induction xs)
  case (Cons a xs)
  then show ?case by (cases "xs = []") (auto simp: max_def)
qed simp

lemma length_ordinality [simp]: "length (ordinality b i) = (if b then 1 else 0)"
  by (simp add: ordinality_def)

text \<open>Column \<open>j\<close> of the first rows is array \<open>j\<close>, and below it stand NULLs.\<close>

definition column_padded :: "const_value list \<Rightarrow> row list \<Rightarrow> nat \<Rightarrow> bool" where
  "column_padded c rows j \<longleftrightarrow> length c \<le> length rows
    \<and> map (\<lambda>r. row_values r ! j) rows = c @ replicate (length rows - length c) NullC"

lemma padded_column:
  "length c \<le> n \<Longrightarrow> map (\<lambda>i. if i < length c then c ! i else z) [0..<n] = c @ replicate (n - length c) z"
  by (rule nth_equalityI) (auto simp: nth_append)

text \<open>\<^verbatim>\<open>MultiUnnestExecutor::execute\<close> lays the arrays out in parallel: column \<open>j\<close> of the
  result is the elements of array \<open>j\<close> followed by NULLs, there are as many rows as the longest
  array has elements, and every row has one value per array and, with ordinality, the number
  of the row.
\<close>

lemma multi_unnest_columns:
  assumes "multi_unnest_execute E x = Done rows"
  shows "\<exists>columns. list_all2 (\<lambda>e c. extract_array_from_expr E e = Done c) (mu_exprs x) columns
    \<and> (\<forall>j < length columns. column_padded (columns ! j) rows j)
    \<and> (columns \<noteq> [] \<longrightarrow> length rows \<in> length ` set columns)
    \<and> (\<forall>i < length rows. width (rows ! i) = length (mu_exprs x) + (if mu_with_ordinality x then 1 else 0)
        \<and> (mu_with_ordinality x \<longrightarrow> last (row_values (rows ! i)) = IntC (of_nat i + 1)))"
proof -
  obtain columns where c: "list_all2 (\<lambda>e c. extract_array_from_expr E e = Done c) (mu_exprs x) columns"
    and rows: "rows = map (\<lambda>idx. row_new (map (\<lambda>col. if idx < length col then col ! idx else NullC) columns
        @ ordinality (mu_with_ordinality x) idx)) [0..<foldr max (map length columns) 0]"
    using assms by (auto simp: multi_unnest_execute_def bind_outcome_Done traverse_Done Let_def)
  have len: "length rows = foldr max (map length columns) 0" by (simp add: rows)
  have "column_padded (columns ! j) rows j" if "j < length columns" for j
  proof -
    have le: "length (columns ! j) \<le> length rows" using that len by (auto intro: foldr_max_ge)
    moreover have "map (\<lambda>r. row_values r ! j) rows
        = map (\<lambda>i. if i < length (columns ! j) then columns ! j ! i else NullC) [0..<length rows]"
      unfolding len using that by (simp add: rows row_new_def nth_append)
    ultimately show ?thesis by (simp only: column_padded_def padded_column simp_thms)
  qed
  moreover have "length rows \<in> length ` set columns" if "columns \<noteq> []"
    using foldr_max_in [of "map length columns"] that len by simp
  moreover have "width (rows ! i) = length (mu_exprs x) + (if mu_with_ordinality x then 1 else 0)
      \<and> (mu_with_ordinality x \<longrightarrow> last (row_values (rows ! i)) = IntC (of_nat i + 1))" if "i < length rows" for i
    using that list_all2_lengthD [OF c] by (simp add: len) (simp add: rows row_new_def width_def ordinality_def)
  ultimately show ?thesis using c by blast
qed


lemma multi_unnest_columns_witness:
  "\<exists>E :: unit exec_env. \<exists>rows. multi_unnest_execute E
      \<lparr>mu_exprs = [Array [Const (IntC 1), Const (IntC 2)], Array [Const (BoolC True)]], mu_aliases = [],
       mu_with_ordinality = True\<rparr> = Done rows
    \<and> map width rows = [3, 3]"
proof -
  let ?E = "undefined :: unit exec_env"
  let ?x = "\<lparr>mu_exprs = [Array [Const (IntC 1), Const (IntC 2)], Array [Const (BoolC True)]], mu_aliases = [],
       mu_with_ordinality = True\<rparr>"
  have run: "multi_unnest_execute ?E ?x
      = Done [row_new [IntC 1, BoolC True, IntC 1], row_new [IntC 2, NullC, IntC 2]]"
    by (simp add: multi_unnest_execute_def extract_array_from_expr_def eval_const_expr_def ordinality_def
        upt_rec numeral_2_eq_2)
  show ?thesis using multi_unnest_columns [OF run] run
    by (intro exI [of _ ?E] exI [of _ "[row_new [IntC 1, BoolC True, IntC 1], row_new [IntC 2, NullC, IntC 2]]"])
      (simp add: row_new_def width_def)
qed

subsection \<open>Array literals\<close>

lemma show_i64_trim: "trim (show_i64 w) = show_i64 w"
  using show_i64_plain [OF hd_in_set [OF show_i64_nonempty]] show_i64_plain [OF last_in_set [OF show_i64_nonempty]]
  by (intro trim_plain) blast

lemma show_i64_not_null: "\<not> eq_ignore_ascii_case (show_i64 w) ''null''"
proof
  assume "eq_ignore_ascii_case (show_i64 w) ''null''"
  moreover obtain c cs where d: "show_i64 w = c # cs" using show_i64_nonempty [of w] by (meson neq_Nil_conv)
  moreover have "c = CHR ''-'' \<or> is_ascii_digit c" using show_i64_chars [of c w] d by simp
  ultimately show False
    by (auto simp: eq_ignore_ascii_case_def to_ascii_lowercase_def is_ascii_digit_def is_ascii_uppercase_def
        split: if_splits)
qed

lemma parse_element_show: "parse_element E (show_i64 w) = IntC w"
  by (simp add: parse_element_def show_i64_trim show_i64_not_null parse_show_i64)

text \<open>An array literal printed from 64-bit integers, \<^verbatim>\<open>{i1,i2,..}\<close>, is read back by
  \<^verbatim>\<open>parse_pg_array_literal\<close> as those integers, for every list, the empty one included, and
  whatever the reader of floats does.
\<close>

lemma array_literal_roundtrip:
  "parse_pg_array_literal E (''{'' @ join_with '','' (map show_i64 ws) @ ''}'') = Done (map IntC ws)"
proof -
  have trim: "trim (''{'' @ s @ ''}'') = ''{'' @ s @ ''}''" for s
    by (rule trim_plain) (simp add: plain_char_def)
  have "split_on CHR '','' (join_with '','' (map show_i64 ws)) = map show_i64 ws" if "ws \<noteq> []"
    using that by (intro split_on_join) (auto dest: show_i64_plain)
  moreover have "join_with '','' (map show_i64 ws) = [] \<longleftrightarrow> ws = []"
    by (cases ws) (simp_all add: join_with_Cons show_i64_nonempty)
  ultimately show ?thesis
    unfolding parse_pg_array_literal_def trim Let_def
    by (auto simp: starts_with_def ends_with_def parse_element_show comp_def)
qed

text \<open>The literal is cut at every comma, those between quotes included, unlike PostgreSQL's.\<close>

lemma array_literal_quoted_comma:
  assumes "\<And>s. parse_f64 E s = None"
  shows "parse_pg_array_literal E (''{'' @ [CHR 0x22] @ ''a,b'' @ [CHR 0x22] @ ''}'')
    = Done [StringC ''a'', StringC ''b'']"
proof -
  have trim: "trim (''{'' @ [CHR 0x22] @ ''a,b'' @ [CHR 0x22] @ ''}'') = ''{'' @ [CHR 0x22] @ ''a,b'' @ [CHR 0x22] @ ''}''"
    "trim [CHR 0x22, CHR ''a''] = [CHR 0x22, CHR ''a'']" "trim [CHR ''b'', CHR 0x22] = [CHR ''b'', CHR 0x22]"
    by (rule trim_plain; simp add: plain_char_def)+
  show ?thesis unfolding parse_pg_array_literal_def trim Let_def
    by (simp add: starts_with_def ends_with_def parse_element_def trim assms eq_ignore_ascii_case_def
        to_ascii_lowercase_def is_ascii_uppercase_def parse_i64_def is_ascii_digit_def trim_matches_def)
qed

subsection \<open>generate\_series\<close>

definition series_active :: "int \<Rightarrow> int \<Rightarrow> int \<Rightarrow> bool" where
  "series_active start stop step \<longleftrightarrow> 0 < step \<and> start \<le> stop \<or> step < 0 \<and> stop \<le> start"

text \<open>How many members the series \<open>start, start + step, ..\<close> has up to \<open>stop\<close>, over the integers.\<close>

definition series_count :: "int \<Rightarrow> int \<Rightarrow> int \<Rightarrow> nat" where
  "series_count start stop step =
    (if series_active start stop step then nat ((stop - start) div step) + 1 else 0)"

lemma series_count_Suc:
  "series_active start stop step \<Longrightarrow> series_count start stop step = Suc (series_count (start + step) stop step)"
proof -
  assume a: "series_active start stop step"
  then have ne: "step \<noteq> 0" by (auto simp: series_active_def)
  have d: "(stop - (start + step)) div step = (stop - start) div step - 1"
    using ne div_add_self2 [of step "stop - (start + step)"] by (simp add: algebra_simps)
  show ?thesis
  proof (cases "series_active (start + step) stop step")
    case True
    then have "0 \<le> (stop - (start + step)) div step"
      by (auto simp: series_active_def pos_imp_zdiv_nonneg_iff neg_imp_zdiv_nonneg_iff)
    then show ?thesis using a True d by (simp add: series_count_def)
  next
    case False
    then have "(stop - start) div step = 0"
      using a by (auto simp: series_active_def div_pos_pos_trivial div_neg_neg_trivial)
    then show ?thesis using a False by (simp add: series_count_def)
  qed
qed

definition in_i64 :: "int \<Rightarrow> bool" where
  "in_i64 v \<longleftrightarrow> - (2 ^ 63) \<le> v \<and> v < 2 ^ 63"

lemma sint_add_in_i64: "in_i64 (sint (a :: i64) + sint b) \<Longrightarrow> sint (a + b) = sint a + sint b"
  by (simp add: in_i64_def sint_word_ariths(1) signed_take_bit_int_eq_self)

lemma series_loop_count:
  "(series_count (sint start) (sint stop) (sint step) \<le> n \<Longrightarrow>
      in_i64 (sint start + int (series_count (sint start) (sint stop) (sint step)) * sint step)) \<Longrightarrow>
   series_loop n start stop step =
    (if series_count (sint start) (sint stop) (sint step) \<le> n
     then Done (map (\<lambda>k. row_new [IntC (start + of_nat k * step)]) [0..<series_count (sint start) (sint stop) (sint step)])
     else Failed (EvalError (''generate_series exceeded '' @ dec_string MAX_ROWS @ '' row limit'')))"
proof (induction n arbitrary: start)
  case 0
  show ?case by (subst series_loop.simps) (auto simp: series_count_def series_active_def)
next
  case (Suc n)
  show ?case
  proof (cases "series_active (sint start) (sint stop) (sint step)")
    case False
    then show ?thesis by (subst series_loop.simps) (auto simp: series_count_def series_active_def)
  next
    case True
    let ?c = "series_count (sint start + sint step) (sint stop) (sint step)"
    have count: "series_count (sint start) (sint stop) (sint step) = Suc ?c" using True by (rule series_count_Suc)
    have in_range: "in_i64 (sint start + sint step)"
    proof (cases "series_active (sint start + sint step) (sint stop) (sint step)")
      case True
      then show ?thesis using sint_range [of start] sint_range [of stop] by (auto simp: series_active_def in_i64_def)
    next
      case False
      then have "?c = 0" by (simp add: series_count_def)
      with Suc.prems count show ?thesis by simp
    qed
    then have stepped: "sint (start + step) = sint start + sint step" by (rule sint_add_in_i64)
    have IH: "series_loop n (start + step) stop step =
      (if ?c \<le> n then Done (map (\<lambda>k. row_new [IntC (start + step + of_nat k * step)]) [0..<?c])
       else Failed (EvalError (''generate_series exceeded '' @ dec_string MAX_ROWS @ '' row limit'')))"
      using Suc.IH [of "start + step"] Suc.prems unfolding count stepped by (simp add: algebra_simps)
    have "map (\<lambda>k. row_new [IntC (start + of_nat k * step)]) [0..<Suc ?c]
        = row_new [IntC start] # map (\<lambda>k. row_new [IntC (start + step + of_nat k * step)]) [0..<?c]"
      by (simp add: upt_conv_Cons map_Suc_upt [symmetric] del: upt_Suc) (simp add: algebra_simps)
    then show ?thesis using True unfolding count
      by (subst series_loop.simps) (auto simp: IH series_active_def simp del: upt_Suc)
  qed
qed


text \<open>The count is the number of members: the first members, and no others, lie up to \<open>stop\<close>.\<close>

lemma series_count_members:
  assumes "series_active start stop step"
  shows "k < series_count start stop step \<longleftrightarrow> series_active (start + int k * step) stop step"
  using assms
proof (induction k arbitrary: start)
  case 0
  then show ?case by (simp add: series_count_def)
next
  case (Suc k)
  have count: "series_count start stop step = Suc (series_count (start + step) stop step)"
    using Suc.prems by (rule series_count_Suc)
  have shift: "start + int (Suc k) * step = start + step + int k * step" by (simp add: algebra_simps)
  show ?case
  proof (cases "series_active (start + step) stop step")
    case True
    then show ?thesis unfolding shift count using Suc.IH by simp
  next
    case False
    have "\<not> series_active (start + step + int k * step) stop step"
      using False Suc.prems zero_le_mult_iff [of "int k" step] mult_le_0_iff [of "int k" step]
      by (auto simp: series_active_def)
    then show ?thesis unfolding shift count using False by (simp add: series_count_def)
  qed
qed

definition series_step :: "expr list \<Rightarrow> i64 option" where
  "series_step args = (case args of
     [_, _] \<Rightarrow> Some 1 | _ # _ # Const (IntC s) # _ \<Rightarrow> Some s | _ \<Rightarrow> None)"

text \<open>Claim C37. \<^verbatim>\<open>generate_series(start, stop[, step])\<close> on 64-bit integers with a step that is not 0
  gives exactly \<open>start + k * step\<close> for \<open>k\<close> below the number of members up to \<open>stop\<close>, in order,
  upwards or downwards, and the row-limit error when there are more than \<^verbatim>\<open>MAX_ROWS\<close> members. The
  only condition is that the value after the last member fits into 64 bits.
\<close>

theorem generate_series_spec:
  assumes "tf_name x = ''generate_series''"
    and "tf_args x = Const (IntC a) # Const (IntC b) # rest" "series_step (tf_args x) = Some s" "s \<noteq> 0"
    and "c = series_count (sint a) (sint b) (sint s)"
    and "c \<le> MAX_ROWS \<Longrightarrow> in_i64 (sint a + int c * sint s)"
  shows "table_function_execute E x input =
    (if c \<le> MAX_ROWS then Done (map (\<lambda>k. row_new [IntC (a + of_nat k * s)]) [0..<c])
     else Failed (EvalError (''generate_series exceeded '' @ dec_string MAX_ROWS @ '' row limit'')))"
proof -
  have third: "bind_outcome (if length (tf_args x) \<ge> 3 then eval_arg_as_int E (tf_args x ! 2) else Done 1) f = f s" for f
    using assms(2,3)
    by (auto simp: series_step_def eval_arg_as_int_def numeral_3_eq_3 numeral_2_eq_2
        split: list.splits expr.splits const_value.splits)
  have "table_function_execute E x input = series_loop MAX_ROWS a b s"
    unfolding table_function_execute_def execute_generate_series_def third
    using assms(1,2,4) by (simp add: eval_arg_as_int_def)
  then show ?thesis using series_loop_count [of a b s MAX_ROWS] assms(5,6) by simp
qed

lemma generate_series_spec_witness:
  "table_function_execute (undefined :: unit exec_env)
      \<lparr>tf_name = ''generate_series'', tf_args = [Const (IntC 5), Const (IntC 1), Const (IntC (- 2))]\<rparr> None
    = Done [row_new [IntC 5], row_new [IntC 3], row_new [IntC 1]]"
proof -
  have c: "series_count (sint (5 :: i64)) (sint (1 :: i64)) (sint (- 2 :: i64)) = 3"
    by (simp add: series_count_def series_active_def)
  have "table_function_execute (undefined :: unit exec_env)
      \<lparr>tf_name = ''generate_series'', tf_args = [Const (IntC 5), Const (IntC 1), Const (IntC (- 2))]\<rparr> None
    = (if 3 \<le> MAX_ROWS then Done (map (\<lambda>k. row_new [IntC (5 + of_nat k * - 2)]) [0..<3]) else
        Failed (EvalError (''generate_series exceeded '' @ dec_string MAX_ROWS @ '' row limit'')))"
    by (rule generate_series_spec [where b = 1 and rest = "[Const (IntC (- 2))]"])
      (simp_all only: c, simp_all add: series_step_def in_i64_def)
  then show ?thesis by (simp add: MAX_ROWS_def upt_rec)
qed

text \<open>
  Up to the largest 64-bit integer the condition fails and the loop wraps around: every ascending
  series to it ends in the row-limit error (a debug build panics at the addition), however few
  members it has.
\<close>

lemma series_loop_max:
  "sint step > 0 \<Longrightarrow> series_loop n start (word_of_int (2 ^ 63 - 1)) step
    = Failed (EvalError (''generate_series exceeded '' @ dec_string MAX_ROWS @ '' row limit''))"
proof (induction n arbitrary: start)
  case 0
  then show ?case using sint_range [of start] by (subst series_loop.simps) simp
next
  case (Suc n)
  then show ?case using sint_range [of start] by (subst series_loop.simps) simp
qed


subsection \<open>Lateral joins\<close>

lemma map_enumerate_snd: "map (\<lambda>(i, e). f e) (enumerate n xs) = map f xs"
  by (induction xs arbitrary: n) simp_all

lemma length_not_le_pred: "xs \<noteq> [] \<Longrightarrow> \<not> length xs \<le> length xs - Suc 0"
  by (cases xs) simp_all

lemma traverse_map_Done: "traverse (\<lambda>x. Done (f x)) xs = Done (map f xs)"
  by (induction xs) simp_all

lemma traverse_cong: "(\<And>x. x \<in> set xs \<Longrightarrow> f x = g x) \<Longrightarrow> traverse f xs = traverse g xs"
  by (induction xs) simp_all

text \<open>The right rows of one left row for an \<^verbatim>\<open>UNNEST\<close> of its array column.\<close>

lemma evaluate_rhs_column:
  assumes "un_expr u = Column col" "row_values l \<noteq> []" "extract_array_elements E (last (row_values l)) = Done es"
  shows "evaluate_rhs E (LateralUnnest u) l
    = Done (map (\<lambda>(i, e). row_new (e # ordinality (un_with_ordinality u) i)) (enumerate 0 es))"
proof -
  have "unnest_execute E u (Some [l])
      = Done (map (\<lambda>(i, e). row_new (row_values l @ e # ordinality (un_with_ordinality u) i)) (enumerate 0 es))"
    using assms
    by (simp add: unnest_execute_def unnest_column_def resolve_column_index_def unnest_row_def width_def last_conv_nth
        length_not_le_pred)
  moreover have "traverse (\<lambda>r. if length (row_values r) < width l then Panicked
          else Done (row_new (drop (width l) (row_values r))))
        (map (\<lambda>(i, e). row_new (row_values l @ e # ordinality (un_with_ordinality u) i)) (enumerate 0 es))
      = traverse (\<lambda>r. Done (row_new (drop (width l) (row_values r))))
        (map (\<lambda>(i, e). row_new (row_values l @ e # ordinality (un_with_ordinality u) i)) (enumerate 0 es))"
    by (rule traverse_cong) (auto simp: width_def row_new_def)
  ultimately show ?thesis
    by (simp add: evaluate_rhs_def traverse_map_Done comp_def case_prod_beta width_def row_new_def)
qed

definition lateral_group :: "'n exec_env \<Rightarrow> lateral_join_executor \<Rightarrow> row \<Rightarrow> row list \<Rightarrow> bool" where
  "lateral_group E x l g \<longleftrightarrow> (\<exists>rs. evaluate_rhs E (lj_rhs x) l = Done rs
    \<and> map row_values g = (if rs = [] \<and> lj_preserve_left x then [row_values l @ replicate (rhs_width (lj_rhs x)) NullC]
        else map (\<lambda>r. row_values l @ row_values r) rs))"

lemma lateral_row_group: "lateral_row E x l = Done g \<Longrightarrow> lateral_group E x l g"
proof -
  assume g: "lateral_row E x l = Done g"
  then obtain rs where run: "evaluate_rhs E (lj_rhs x) l = Done rs"
    by (cases "evaluate_rhs E (lj_rhs x) l") (simp_all add: lateral_row_def)
  show ?thesis
  proof (cases "rs = [] \<and> lj_preserve_left x")
    case True
    with g run have "g = [row_new (row_values l @ replicate (rhs_width (lj_rhs x)) NullC)]"
      by (simp add: lateral_row_def)
    with True run show ?thesis by (simp add: lateral_group_def row_new_def)
  next
    case False
    with g run have "g = map (\<lambda>r. row_new (row_values l @ row_values r)) rs"
      by (simp only: lateral_row_def bind_outcome_simps if_False outcome.inject)
    with False run show ?thesis by (simp add: lateral_group_def row_new_def comp_def)
  qed
qed

lemma lateral_execute_groups:
  "lateral_execute E x left_rows = Done rows
    \<Longrightarrow> \<exists>groups. rows = concat groups \<and> list_all2 (lateral_group E x) left_rows groups"
proof -
  assume "lateral_execute E x left_rows = Done rows"
  then obtain groups where t: "traverse (lateral_row E x) left_rows = Done groups" and rows: "rows = concat groups"
    by (cases "traverse (lateral_row E x) left_rows") (simp_all add: lateral_execute_def)
  have "list_all2 (lateral_group E x) left_rows groups"
    using t unfolding traverse_Done by (rule list_all2_mono) (rule lateral_row_group)
  with rows show ?thesis by (intro exI conjI)
qed

lemma lateral_group_preserved: "lateral_group E x l g \<Longrightarrow> lj_preserve_left x \<Longrightarrow> g \<noteq> []"
  unfolding lateral_group_def by (elim exE conjE) (cases g, simp_all split: if_splits)

text \<open>Claim C14. A lateral join over an array column keeps the schema and, as a left join, every left
  row: without \<^verbatim>\<open>WITH ORDINALITY\<close>, when all left rows have the same width and the join returns, the
  output is one group per left row, in their order, every row of a group is the left row followed
  by exactly one value, an element of that row's array or NULL for an empty array, and with \<^verbatim>\<open>preserve_left\<close> no
  group is empty. The array is the value in the last column of the left row, whichever column the
  query names.\<close>

theorem lateral_join_typed:
  assumes "lj_rhs x = LateralUnnest u" "un_expr u = Column col" "\<not> un_with_ordinality u"
    and "\<forall>l \<in> set left_rows. width l = w" and "lateral_execute E x left_rows = Done rows"
  shows "\<exists>groups. rows = concat groups \<and> list_all2 (\<lambda>l g.
      \<exists>es. extract_array_elements E (last (row_values l)) = Done es
        \<and> map row_values g = map (\<lambda>v. row_values l @ [v]) (if es = [] \<and> lj_preserve_left x then [NullC] else es)
        \<and> (lj_preserve_left x \<longrightarrow> g \<noteq> [])
        \<and> (\<forall>r \<in> set g. width r = w + 1)) left_rows groups"
proof -
  obtain groups where rows: "rows = concat groups" and gs: "list_all2 (lateral_group E x) left_rows groups"
    using lateral_execute_groups [OF assms(5)] by blast
  have "\<exists>es. extract_array_elements E (last (row_values l)) = Done es
        \<and> map row_values g = map (\<lambda>v. row_values l @ [v]) (if es = [] \<and> lj_preserve_left x then [NullC] else es)
        \<and> (lj_preserve_left x \<longrightarrow> g \<noteq> []) \<and> (\<forall>r \<in> set g. width r = w + 1)"
    if l: "l \<in> set left_rows" and g: "lateral_group E x l g" for l g
  proof -
    from g obtain rs where run: "evaluate_rhs E (LateralUnnest u) l = Done rs"
      and vals: "map row_values g = (if rs = [] \<and> lj_preserve_left x then [row_values l @ [NullC]]
        else map (\<lambda>r. row_values l @ row_values r) rs)"
      using assms(1) by (auto simp: lateral_group_def rhs_width_def)
    have "row_values l \<noteq> []" "\<exists>es. extract_array_elements E (last (row_values l)) = Done es"
      using run assms(2)
      by (auto simp: evaluate_rhs_def unnest_execute_def unnest_column_def resolve_column_index_def unnest_row_def
          bind_outcome_Done width_def last_conv_nth split: if_splits)
    then obtain es where ne: "row_values l \<noteq> []" and es: "extract_array_elements E (last (row_values l)) = Done es"
      by blast
    have "rs = map (\<lambda>(i, e). row_new [e]) (enumerate 0 es)"
      using evaluate_rhs_column [OF assms(2) ne es] run assms(3) by (simp add: ordinality_def)
    then have rs: "map row_values rs = map (\<lambda>e. [e]) es"
      by (simp add: map_enumerate_snd row_new_def comp_def)
    have vals': "map row_values g = map (\<lambda>v. row_values l @ [v]) (if es = [] \<and> lj_preserve_left x then [NullC] else es)"
    proof -
      have "map (\<lambda>r. row_values l @ row_values r) rs = map (\<lambda>v. row_values l @ [v]) es"
        using arg_cong [OF rs, of "map ((@) (row_values l))"] by (simp add: comp_def)
      moreover have "rs = [] \<longleftrightarrow> es = []" using arg_cong [OF rs, of length] by auto
      ultimately show ?thesis using vals by simp
    qed
    have "width r = w + 1" if "r \<in> set g" for r
    proof -
      have "row_values r \<in> set (map row_values g)" using that by simp
      then show ?thesis using assms(4) l unfolding vals' by (auto simp: width_def)
    qed
    then show ?thesis using es vals' lateral_group_preserved [OF g] by blast
  qed
  then have "list_all2 (\<lambda>l g. \<exists>es. extract_array_elements E (last (row_values l)) = Done es
        \<and> map row_values g = map (\<lambda>v. row_values l @ [v]) (if es = [] \<and> lj_preserve_left x then [NullC] else es)
        \<and> (lj_preserve_left x \<longrightarrow> g \<noteq> [])
        \<and> (\<forall>r \<in> set g. width r = w + 1)) left_rows groups"
    using gs unfolding list_all2_conv_all_nth by (metis nth_mem)
  with rows show ?thesis by (intro exI conjI)
qed


lemma lateral_join_typed_witness:
  "\<exists>E :: unit exec_env. \<exists>rows. lateral_execute E
      \<lparr>lj_rhs = LateralUnnest \<lparr>un_expr = Column (column_new ''a''), un_alias = None, un_with_ordinality = False\<rparr>,
       lj_preserve_left = True\<rparr>
      [row_new [IntC 1, StringC ''{}''], row_new [IntC 2, NullC]] = Done rows
    \<and> map row_values rows = [[IntC 1, StringC ''{}'', NullC], [IntC 2, NullC, NullC]]"
proof -
  let ?E = "undefined :: unit exec_env"
  let ?u = "\<lparr>un_expr = Column (column_new ''a''), un_alias = None, un_with_ordinality = False\<rparr>"
  let ?x = "\<lparr>lj_rhs = LateralUnnest ?u, lj_preserve_left = True\<rparr>"
  let ?left = "[row_new [IntC 1, StringC ''{}''], row_new [IntC 2, NullC]]"
  have empty: "extract_array_elements ?E (StringC ''{}'') = Done []" "extract_array_elements ?E NullC = Done []"
    using array_literal_roundtrip [of ?E "[]"] by (simp_all add: extract_array_elements_def)
  obtain rows where run: "lateral_execute ?E ?x ?left = Done rows"
    using empty by (simp add: lateral_execute_def lateral_row_def evaluate_rhs_def unnest_execute_def unnest_column_def
        resolve_column_index_def unnest_row_def width_def row_new_def)
  have "\<exists>groups. rows = concat groups \<and> list_all2 (\<lambda>l g.
      \<exists>es. extract_array_elements ?E (last (row_values l)) = Done es
        \<and> map row_values g = map (\<lambda>v. row_values l @ [v]) (if es = [] \<and> lj_preserve_left ?x then [NullC] else es)
        \<and> (lj_preserve_left ?x \<longrightarrow> g \<noteq> [])
        \<and> (\<forall>r \<in> set g. width r = 2 + 1)) ?left groups"
    by (rule lateral_join_typed [where u = ?u and w = 2, OF _ _ _ _ run]) (simp_all add: row_new_def width_def)
  then have "map row_values rows = [[IntC 1, StringC ''{}'', NullC], [IntC 2, NullC, NullC]]"
    using empty by (auto simp: list_all2_Cons1 row_new_def)
  with run show ?thesis by (intro exI [of _ ?E] exI [of _ rows] conjI)
qed

text \<open>
  For an array literal the rows of \<^verbatim>\<open>UNNEST\<close> do not contain the left row, and still its width is
  stripped from them: a left row of one column loses the values, a wider one panics.
\<close>

lemma lateral_array_literal_loses:
  assumes "lj_rhs x = LateralUnnest u" "un_expr u = Array (map Const (v # vs))" "\<not> un_with_ordinality u"
  shows "width l = 1 \<Longrightarrow> lateral_row E x l = Done (map (\<lambda>_. l) (v # vs))"
    and "1 < width l \<Longrightarrow> lateral_row E x l = Panicked"
proof -
  have literal: "traverse (\<lambda>(idx, elem). bind_outcome (eval_const_expr E elem)
        (\<lambda>v. Done (row_new (v # ordinality (un_with_ordinality u) idx)))) (enumerate n (map Const cs))
      = Done (map (\<lambda>c. row_new [c]) cs)" for cs n
    using assms(3) by (induction cs arbitrary: n) (simp_all add: eval_const_expr_def ordinality_def)
  have run: "unnest_execute E u (Some [l]) = Done (map (\<lambda>c. row_new [c]) (v # vs))"
    using literal [of 0 "v # vs"] assms(2) by (simp add: unnest_execute_def unnest_array_literal_def)
  show "lateral_row E x l = Done (map (\<lambda>_. l) (v # vs))" if w: "width l = 1"
  proof -
    have "traverse (\<lambda>r. if length (row_values r) < width l then Panicked
          else Done (row_new (drop (width l) (row_values r)))) (map (\<lambda>c. row_new [c]) cs)
        = Done (map (\<lambda>_. row_new []) cs)" for cs
      using w by (induction cs) (simp_all add: row_new_def)
    then have "evaluate_rhs E (LateralUnnest u) l = Done (map (\<lambda>_. row_new []) (v # vs))"
      unfolding evaluate_rhs_def lateral_rhs.case run bind_outcome_simps .
    moreover have "row_new (row_values l) = l" by (cases l) (simp add: row_new_def)
    ultimately show ?thesis using assms(1) by (simp add: lateral_row_def comp_def) (simp add: row_new_def)
  qed
  show "lateral_row E x l = Panicked" if w: "1 < width l"
    using w assms(1) by (simp add: lateral_row_def evaluate_rhs_def run) (simp add: row_new_def)
qed

end
