(* ===== verification/Partition_Pruning.thy ===== *)
theory Partition_Pruning
  imports Join_Transform
begin

text \<open>
  Partition pruning (\<^verbatim>\<open>crates/ra-engine/src/partition_pruning.rs\<close>): which partitions of a table
  a filter leaves to be scanned. Comparisons of constants go through 64-bit floats; the
  conversion and the comparisons of floats, given by their bit patterns, are the record
  \<open>f64_cmp\<close>.
\<close>

subsection \<open>The code\<close>

record f64_cmp =
  f64_of_i64 :: "i64 \<Rightarrow> 64 word"
  f_lt :: "64 word \<Rightarrow> 64 word \<Rightarrow> bool"
  f_le :: "64 word \<Rightarrow> 64 word \<Rightarrow> bool"
  f_near :: "64 word \<Rightarrow> 64 word \<Rightarrow> bool"  \<comment> \<open>\<^verbatim>\<open>(a - b).abs() < f64::EPSILON\<close>\<close>

datatype partition_bounds =
    RangePartition "const_value option" "const_value option"
  | ListPartition "const_value list"
  | HashPartition u32 u32

record partition_info =
  pi_table :: string
  pi_partition_key :: string
  pi_partitions :: "partition_bounds list"

record key_constraint =
  kc_op :: bin_op
  kc_value :: const_value

definition const_as_f64 :: "f64_cmp \<Rightarrow> const_value \<Rightarrow> 64 word option" where
  "const_as_f64 F c = (case c of IntC i \<Rightarrow> Some (f64_of_i64 F i) | FloatC f \<Rightarrow> Some f | _ \<Rightarrow> None)"

definition flip_op :: "bin_op \<Rightarrow> bin_op" where
  "flip_op op = (case op of Lt \<Rightarrow> Gt | Le \<Rightarrow> Ge | Gt \<Rightarrow> Lt | Ge \<Rightarrow> Le | other \<Rightarrow> other)"

definition comparison_op :: "bin_op \<Rightarrow> bool" where
  "comparison_op op \<longleftrightarrow> op \<in> {Eq, Lt, Le, Gt, Ge}"

definition key_comparison :: "bin_op \<Rightarrow> expr \<Rightarrow> expr \<Rightarrow> string \<Rightarrow> key_constraint list" where
  "key_comparison op l r key = (case (l, r) of
     (Column c, Const v) \<Rightarrow>
       if eq_ignore_ascii_case (cr_column c) key then [\<lparr>kc_op = op, kc_value = v\<rparr>] else []
   | (Const v, Column c) \<Rightarrow>
       if eq_ignore_ascii_case (cr_column c) key then [\<lparr>kc_op = flip_op op, kc_value = v\<rparr>] else []
   | _ \<Rightarrow> [])"

text \<open>\<^verbatim>\<open>walk_constraints\<close> appends to its argument \<^verbatim>\<open>out\<close>; here the appended part is the value.\<close>

function walk_constraints :: "expr \<Rightarrow> string \<Rightarrow> key_constraint list" where
  "walk_constraints e key = (case e of
     BinOp op l r \<Rightarrow>
       if op = And then walk_constraints l key @ walk_constraints r key
       else if comparison_op op then key_comparison op l r key else []
   | _ \<Rightarrow> [])"
  by pat_completeness auto
termination by (relation "measure (size \<circ> fst)") auto

declare walk_constraints.simps [simp del]

definition extract_key_constraints :: "expr \<Rightarrow> string \<Rightarrow> key_constraint list" where
  "extract_key_constraints e key = walk_constraints e key"

definition is_none_or :: "'a option \<Rightarrow> ('a \<Rightarrow> bool) \<Rightarrow> bool" where
  "is_none_or x p = (case x of None \<Rightarrow> True | Some y \<Rightarrow> p y)"

definition range_allows ::
  "f64_cmp \<Rightarrow> key_constraint \<Rightarrow> const_value option \<Rightarrow> const_value option \<Rightarrow> bool" where
  "range_allows F c mn mx = (case const_as_f64 F (kc_value c) of
     None \<Rightarrow> True
   | Some v \<Rightarrow>
       (let min_f = Option.bind mn (const_as_f64 F); max_f = Option.bind mx (const_as_f64 F) in
        if kc_op c = Eq then is_none_or min_f (\<lambda>m. f_le F m v) \<and> is_none_or max_f (\<lambda>m. f_lt F v m)
        else if kc_op c = Lt then is_none_or min_f (\<lambda>m. f_lt F m v)
        else if kc_op c = Le then is_none_or min_f (\<lambda>m. f_le F m v)
        else if kc_op c = Gt then is_none_or max_f (\<lambda>m. f_lt F v m)
        else if kc_op c = Ge then is_none_or max_f (\<lambda>m. f_lt F v m)
        else True))"

definition list_allows :: "f64_cmp \<Rightarrow> key_constraint \<Rightarrow> const_value list \<Rightarrow> bool" where
  "list_allows F c vs = (case const_as_f64 F (kc_value c) of
     None \<Rightarrow> True
   | Some v \<Rightarrow>
       (let fs = List.map_filter (const_as_f64 F) vs in
        if kc_op c = Eq then list_ex (\<lambda>lv. f_near F lv v) fs
        else if kc_op c = Lt then list_ex (\<lambda>lv. f_lt F lv v) fs
        else if kc_op c = Le then list_ex (\<lambda>lv. f_le F lv v) fs
        else if kc_op c = Gt then list_ex (\<lambda>lv. f_lt F v lv) fs
        else if kc_op c = Ge then list_ex (\<lambda>lv. f_le F v lv) fs
        else True))"

definition constraint_allows_partition :: "f64_cmp \<Rightarrow> key_constraint \<Rightarrow> partition_bounds \<Rightarrow> bool" where
  "constraint_allows_partition F c b = (case b of
     RangePartition mn mx \<Rightarrow> range_allows F c mn mx
   | ListPartition vs \<Rightarrow> list_allows F c vs
   | HashPartition m r \<Rightarrow> True)"

definition prune :: "f64_cmp \<Rightarrow> partition_info \<Rightarrow> expr \<Rightarrow> nat list" where
  "prune F info predicate =
    (let constraints = extract_key_constraints predicate (pi_partition_key info) in
     if constraints = [] then [0..<length (pi_partitions info)]
     else map fst (filter (\<lambda>(idx, bounds). list_all (\<lambda>c. constraint_allows_partition F c bounds) constraints)
            (enumerate 0 (pi_partitions info))))"

subsection \<open>What a partition holds\<close>

definition numeric :: "const_value \<Rightarrow> bool" where
  "numeric c \<longleftrightarrow> (case c of IntC i \<Rightarrow> True | FloatC f \<Rightarrow> True | _ \<Rightarrow> False)"

text \<open>\<open>num\<close> is the number a constant stands for. A partition can hold a row with key \<open>k\<close>.\<close>

definition partition_holds :: "(const_value \<Rightarrow> 'r::linorder) \<Rightarrow> partition_bounds \<Rightarrow> const_value \<Rightarrow> bool" where
  "partition_holds num b k = (case b of
     RangePartition mn mx \<Rightarrow>
       (\<forall>m. mn = Some m \<and> numeric m \<longrightarrow> num m \<le> num k) \<and> (\<forall>m. mx = Some m \<and> numeric m \<longrightarrow> num k < num m)
   | ListPartition vs \<Rightarrow> \<exists>v \<in> set vs. numeric v \<and> num v = num k
   | HashPartition m r \<Rightarrow> True)"

definition bound_values :: "partition_bounds \<Rightarrow> const_value set" where
  "bound_values b = (case b of
     RangePartition mn mx \<Rightarrow> set_option mn \<union> set_option mx | ListPartition vs \<Rightarrow> set vs | HashPartition m r \<Rightarrow> {})"

definition compare_num :: "bin_op \<Rightarrow> 'r::linorder \<Rightarrow> 'r \<Rightarrow> bool" where
  "compare_num op a b = (case op of Eq \<Rightarrow> a = b | Lt \<Rightarrow> a < b | Le \<Rightarrow> a \<le> b | Gt \<Rightarrow> a > b | Ge \<Rightarrow> a \<ge> b | _ \<Rightarrow> True)"

text \<open>Comparison of numeric values in a predicate is comparison of numbers.\<close>

definition compares_numbers ::
  "(bin_op \<Rightarrow> const_value \<Rightarrow> const_value \<Rightarrow> const_value) \<Rightarrow> (const_value \<Rightarrow> 'r::linorder) \<Rightarrow> bool" where
  "compares_numbers ar num \<longleftrightarrow> (\<forall>op x y. comparison_op op \<and> numeric x \<and> numeric y \<longrightarrow>
     ar op x y = BoolC (compare_num op (num x) (num y)))"

text \<open>The floats of the constants in \<open>V\<close> compare as their numbers do.\<close>

definition exact_floats :: "f64_cmp \<Rightarrow> (const_value \<Rightarrow> 'r::linorder) \<Rightarrow> const_value set \<Rightarrow> bool" where
  "exact_floats F num V \<longleftrightarrow> (\<forall>x \<in> V. \<forall>y \<in> V. \<forall>a b. const_as_f64 F x = Some a \<and> const_as_f64 F y = Some b \<longrightarrow>
     (f_lt F a b \<longleftrightarrow> num x < num y) \<and> (f_le F a b \<longleftrightarrow> num x \<le> num y) \<and> (num x = num y \<longrightarrow> f_near F a b))"

lemma numeric_as_f64: "numeric c \<longleftrightarrow> (\<exists>f. const_as_f64 F c = Some f)"
  by (cases c) (simp_all add: numeric_def const_as_f64_def)

text \<open>A value satisfies a constraint.\<close>

definition satisfies :: "(const_value \<Rightarrow> 'r::linorder) \<Rightarrow> const_value \<Rightarrow> key_constraint \<Rightarrow> bool" where
  "satisfies num k c \<longleftrightarrow> (numeric (kc_value c) \<longrightarrow> compare_num (kc_op c) (num k) (num (kc_value c)))"

lemma compare_num_flip: "compare_num (flip_op op) a b \<longleftrightarrow> compare_num op b a"
  by (cases op) (auto simp: compare_num_def flip_op_def)

lemma eval_comparison:
  assumes "compares_numbers ar num" "comparison_op op" "numeric x" "numeric y" "eval_binop ar op x y = BoolC True"
  shows "compare_num op (num x) (num y)"
proof -
  have "op \<noteq> And" "op \<noteq> Or" "op \<noteq> IsDistinctFrom" "op \<noteq> IsNotDistinctFrom" "x \<noteq> NullC" "y \<noteq> NullC"
    using assms(2-4) by (auto simp: comparison_op_def numeric_def)
  then have "ar op x y = BoolC True" using assms(5) by (simp add: eval_binop_def)
  then show ?thesis using assms(1-4) by (simp add: compares_numbers_def)
qed

lemma key_comparison_satisfied:
  assumes "compares_numbers ar num" "numeric k" "comparison_op op"
    and "\<And>c. eq_ignore_ascii_case (cr_column c) key \<Longrightarrow> env c = k"
    and "passes ar other (BinOp op l r) env" "kc \<in> set (key_comparison op l r key)"
  shows "satisfies num k kc"
proof -
  have "eval_binop ar op (eval_expr ar other env l) (eval_expr ar other env r) = BoolC True"
    using assms(5) by (simp add: passes_def)
  then show ?thesis
    using assms(6) assms(4) eval_comparison [OF assms(1,3)] assms(2)
    by (auto simp: key_comparison_def satisfies_def compare_num_flip split: expr.splits if_splits)
qed

lemma walk_constraints_And:
  "walk_constraints (BinOp And l r) key = walk_constraints l key @ walk_constraints r key"
  by (simp add: walk_constraints.simps)

lemma walk_constraints_cases:
  assumes "kc \<in> set (walk_constraints e key)"
  obtains l r where "e = BinOp And l r" "kc \<in> set (walk_constraints l key) \<union> set (walk_constraints r key)"
  | op l r where "e = BinOp op l r" "comparison_op op" "kc \<in> set (key_comparison op l r key)"
proof (cases "\<exists>op l r. e = BinOp op l r")
  case True
  then obtain op l r where e: "e = BinOp op l r" by blast
  show ?thesis
  proof (cases "op = And")
    case True
    then show ?thesis using assms that(1) [of l r] by (simp add: e walk_constraints_And)
  next
    case False
    then show ?thesis using assms that(2) [of op l r]
      by (simp add: e walk_constraints.simps [of "BinOp op l r"] split: if_splits)
  qed
next
  case False
  then have "walk_constraints e key = []" by (subst walk_constraints.simps) (auto split: expr.split)
  with assms show ?thesis by simp
qed

lemma walk_constraints_satisfied:
  assumes "compares_numbers ar num" "numeric k"
    and key: "\<And>c. eq_ignore_ascii_case (cr_column c) key \<Longrightarrow> env c = k"
  shows "passes ar other e env \<Longrightarrow> kc \<in> set (walk_constraints e key) \<Longrightarrow> satisfies num k kc"
proof (induction e rule: measure_induct_rule [where f = size])
  case (less e)
  from less.prems(2) show ?case
  proof (cases rule: walk_constraints_cases)
    case (1 l r)
    then show ?thesis using less.IH [of l] less.IH [of r] less.prems(1) by (auto simp: passes_And)
  next
    case (2 op l r)
    show ?thesis
      by (rule key_comparison_satisfied [OF assms(1,2) 2(2) key]) (use less.prems(1) 2 in auto)
  qed
qed

lemma walk_constraints_op: "kc \<in> set (walk_constraints e key) \<Longrightarrow> comparison_op (kc_op kc)"
proof (induction e rule: measure_induct_rule [where f = size])
  case (less e)
  from less.prems show ?case
  proof (cases rule: walk_constraints_cases)
    case (1 l r)
    then show ?thesis using less.IH [of l] less.IH [of r] by auto
  next
    case (2 op l r)
    then show ?thesis
      by (auto simp: key_comparison_def comparison_op_def flip_op_def split: if_splits expr.splits)
  qed
qed

subsection \<open>No partition with a matching row is pruned\<close>

lemma is_none_or_bind: "is_none_or (Option.bind x f) p \<longleftrightarrow> (\<forall>m b. x = Some m \<longrightarrow> f m = Some b \<longrightarrow> p b)"
  by (cases x) (auto simp: is_none_or_def split: option.split)

lemma range_allows_holds:
  assumes "exact_floats F num (insert (kc_value c) (bound_values (RangePartition mn mx)))"
    and "partition_holds num (RangePartition mn mx) k" "satisfies num k c" "comparison_op (kc_op c)"
  shows "range_allows F c mn mx"
proof (cases "const_as_f64 F (kc_value c)")
  case (Some v)
  then have sat: "compare_num (kc_op c) (num k) (num (kc_value c))"
    using assms(3) by (auto simp: satisfies_def numeric_as_f64 [of _ F])
  have bounded: "f_le F b v \<longleftrightarrow> num m \<le> num (kc_value c)" "f_lt F b v \<longleftrightarrow> num m < num (kc_value c)" "num m \<le> num k"
    if "mn = Some m" "const_as_f64 F m = Some b" for m b
    using assms(1,2) Some that by (auto simp: exact_floats_def bound_values_def partition_holds_def numeric_as_f64 [of _ F])
  have lower: "num k < num (kc_value c) \<Longrightarrow> f_lt F b v" "num k \<le> num (kc_value c) \<Longrightarrow> f_le F b v"
    if "mn = Some m" "const_as_f64 F m = Some b" for m b
    using bounded [OF that] by simp_all
  have bounded_above: "f_lt F v b \<longleftrightarrow> num (kc_value c) < num m" "num k < num m"
    if "mx = Some m" "const_as_f64 F m = Some b" for m b
    using assms(1,2) Some that by (auto simp: exact_floats_def bound_values_def partition_holds_def numeric_as_f64 [of _ F])
  have upper: "f_lt F v b" if "mx = Some m" "const_as_f64 F m = Some b" "num (kc_value c) \<le> num k" for m b
    using bounded_above [OF that(1,2)] that(3) by simp
  show ?thesis
    using sat assms(4) Some lower upper
    by (auto simp: range_allows_def comparison_op_def compare_num_def is_none_or_bind Let_def)
qed (simp add: range_allows_def)

lemma list_allows_holds:
  assumes "exact_floats F num (insert (kc_value c) (set vs))"
    and "u \<in> set vs" "numeric u" "num u = num k" "satisfies num k c" "comparison_op (kc_op c)"
  shows "list_allows F c vs"
proof (cases "const_as_f64 F (kc_value c)")
  case (Some v)
  then have sat: "compare_num (kc_op c) (num u) (num (kc_value c))"
    using assms(4,5) by (auto simp: satisfies_def numeric_as_f64 [of _ F])
  obtain b where b: "const_as_f64 F u = Some b" using assms(3) by (auto simp: numeric_as_f64 [of _ F])
  then have in_list: "b \<in> set (List.map_filter (const_as_f64 F) vs)"
    using assms(2) by (force simp: List.map_filter_def)
  have exact: "f_lt F b v \<longleftrightarrow> num u < num (kc_value c)" "f_le F b v \<longleftrightarrow> num u \<le> num (kc_value c)"
    "f_lt F v b \<longleftrightarrow> num (kc_value c) < num u" "f_le F v b \<longleftrightarrow> num (kc_value c) \<le> num u"
    "num u = num (kc_value c) \<longrightarrow> f_near F b v"
    using assms(1,2) b Some by (auto simp: exact_floats_def)
  show ?thesis
    using sat assms(6) Some exact in_list
    by (auto simp: list_allows_def comparison_op_def compare_num_def list_ex_iff)
qed (simp add: list_allows_def)

lemma exact_floats_mono: "exact_floats F num V \<Longrightarrow> W \<subseteq> V \<Longrightarrow> exact_floats F num W"
  unfolding exact_floats_def by blast

lemma constraint_allows_holds:
  assumes "exact_floats F num (insert (kc_value c) (bound_values b))"
    and "partition_holds num b k" "satisfies num k c" "comparison_op (kc_op c)"
  shows "constraint_allows_partition F c b"
proof (cases b)
  case (RangePartition mn mx)
  then show ?thesis using assms range_allows_holds by (simp add: constraint_allows_partition_def)
next
  case (ListPartition vs)
  then show ?thesis using assms list_allows_holds [of F num c vs]
    by (auto simp: constraint_allows_partition_def partition_holds_def bound_values_def)
qed (simp add: constraint_allows_partition_def)

text \<open>The constants a pruning compares: those of the constraints and of the bounds.\<close>

definition compared_constants :: "partition_info \<Rightarrow> expr \<Rightarrow> const_value set" where
  "compared_constants info predicate =
     kc_value ` set (extract_key_constraints predicate (pi_partition_key info))
     \<union> (\<Union>b \<in> set (pi_partitions info). bound_values b)"

text \<open>Claim C38. Pruning is conservative: a partition that can hold a row on which the predicate is
  true, whatever else the predicate contains, is kept. The row's key is a number, every column
  that is named like the key, in any case and with any qualifier, stands for it, and the constants that are compared keep their
  order as 64-bit floats.\<close>

theorem prune_safe:
  assumes "compares_numbers ar num" "exact_floats F num (compared_constants info predicate)"
    and "numeric k" "\<forall>c. eq_ignore_ascii_case (cr_column c) (pi_partition_key info) \<longrightarrow> env c = k"
    and "passes ar other predicate env"
    and "i < length (pi_partitions info)" "partition_holds num (pi_partitions info ! i) k"
  shows "i \<in> set (prune F info predicate)"
proof -
  let ?b = "pi_partitions info ! i" and ?cs = "extract_key_constraints predicate (pi_partition_key info)"
  have "constraint_allows_partition F c ?b" if c: "c \<in> set ?cs" for c
  proof (rule constraint_allows_holds [OF _ assms(7)])
    show "exact_floats F num (insert (kc_value c) (bound_values ?b))"
      using assms(2,6) c by (rule_tac exact_floats_mono) (auto simp: compared_constants_def)
    show "satisfies num k c"
      using walk_constraints_satisfied [OF assms(1,3) _ assms(5)] assms(4) c
      unfolding extract_key_constraints_def by blast
    show "comparison_op (kc_op c)"
      using walk_constraints_op c unfolding extract_key_constraints_def by blast
  qed
  then have "(i, ?b) \<in> set (filter (\<lambda>(idx, bounds). list_all (\<lambda>c. constraint_allows_partition F c bounds) ?cs)
      (enumerate 0 (pi_partitions info)))"
    using assms(6) by (auto simp: list_all_iff in_set_enumerate_eq)
  then show ?thesis using assms(6) by (force simp: prune_def Let_def)
qed

text \<open>What is kept are partitions, each once, in their order.\<close>

lemma prune_sorted: "sorted_wrt (<) (prune F info predicate) \<and> set (prune F info predicate) \<subseteq> {..<length (pi_partitions info)}"
proof -
  have "sorted_wrt (<) (map fst (filter P (enumerate 0 xs)))" for P and xs :: "partition_bounds list"
    by (rule sorted_wrt_map [THEN iffD2], rule sorted_wrt_filter)
      (auto simp: sorted_wrt_iff_nth_less nth_enumerate_eq)
  then show ?thesis by (auto simp: prune_def Let_def in_set_enumerate_eq)
qed


text \<open>A concrete instance: a comparison of floats that is that of the integers of their patterns.\<close>

definition example_cmp :: f64_cmp where
  "example_cmp = \<lparr>f64_of_i64 = id, f_lt = (\<lambda>a b. sint a < sint b), f_le = (\<lambda>a b. sint a \<le> sint b),
     f_near = (\<lambda>a b. sint a = sint b)\<rparr>"

definition example_num :: "const_value \<Rightarrow> int" where
  "example_num c = (case c of IntC i \<Rightarrow> sint i | FloatC f \<Rightarrow> sint f | _ \<Rightarrow> 0)"

lemma example_exact: "exact_floats example_cmp example_num V"
  by (auto simp: exact_floats_def example_cmp_def example_num_def const_as_f64_def split: const_value.splits)

definition example_ar :: "bin_op \<Rightarrow> const_value \<Rightarrow> const_value \<Rightarrow> const_value" where
  "example_ar op x y = BoolC (compare_num op (example_num x) (example_num y))"

lemma prune_safe_witness:
  "1 \<in> set (prune example_cmp
      \<lparr>pi_table = ''events'', pi_partition_key = ''ts'',
       pi_partitions = [RangePartition (Some (IntC 0)) (Some (IntC 100)), RangePartition (Some (IntC 100)) None]\<rparr>
      (BinOp And (BinOp Ge (Column (column_new ''ts'')) (Const (IntC 100)))
        (BinOp Lt (Column (column_new ''ts'')) (Const (IntC 200)))))"
proof -
  let ?info = "\<lparr>pi_table = ''events'', pi_partition_key = ''ts'',
       pi_partitions = [RangePartition (Some (IntC 0)) (Some (IntC 100)), RangePartition (Some (IntC 100)) None]\<rparr>"
  let ?p = "BinOp And (BinOp Ge (Column (column_new ''ts'')) (Const (IntC 100)))
        (BinOp Lt (Column (column_new ''ts'')) (Const (IntC 200)))"
  show ?thesis
  proof (rule prune_safe [where ar = example_ar and num = example_num and k = "IntC 150" and env = "\<lambda>_. IntC 150"])
    show "compares_numbers example_ar example_num" by (simp add: compares_numbers_def example_ar_def)
    show "passes example_ar undefined ?p (\<lambda>_. IntC 150)"
      by (simp add: passes_def eval_binop_def example_ar_def compare_num_def example_num_def and3_def)
  qed (simp_all add: example_exact numeric_def partition_holds_def example_num_def)
qed

text \<open>
  Beyond \<open>2 ^ 53\<close> a conversion to 64-bit floats merges integers, and the condition is needed: where
  the conversion merges \<open>2 ^ 53 + 1\<close> with \<open>2 ^ 53\<close>, as the rounding to nearest does, the filter
  \<^verbatim>\<open>ts < 2 ^ 53 + 1\<close> prunes the partition from \<open>2 ^ 53\<close> on, which holds the row with that key.
\<close>

lemma prune_drops_large_integers:
  assumes "f64_of_i64 F (2 ^ 53 + 1) = f64_of_i64 F (2 ^ 53)" "\<And>a. \<not> f_lt F a a"
  shows "prune F \<lparr>pi_table = t, pi_partition_key = key, pi_partitions = [RangePartition (Some (IntC (2 ^ 53))) None]\<rparr>
      (BinOp Lt (Column (column_new key)) (Const (IntC (2 ^ 53 + 1)))) = []"
    and "partition_holds example_num (RangePartition (Some (IntC (2 ^ 53))) None) (IntC (2 ^ 53))"
    and "passes example_ar other (BinOp Lt (Column (column_new key)) (Const (IntC (2 ^ 53 + 1)))) (\<lambda>_. IntC (2 ^ 53))"
proof -
  show "prune F \<lparr>pi_table = t, pi_partition_key = key, pi_partitions = [RangePartition (Some (IntC (2 ^ 53))) None]\<rparr>
      (BinOp Lt (Column (column_new key)) (Const (IntC (2 ^ 53 + 1)))) = []"
    using assms
    by (simp add: prune_def extract_key_constraints_def walk_constraints.simps comparison_op_def key_comparison_def
        column_new_def eq_ignore_ascii_case_def constraint_allows_partition_def range_allows_def const_as_f64_def
        is_none_or_def)
  show "partition_holds example_num (RangePartition (Some (IntC (2 ^ 53))) None) (IntC (2 ^ 53))"
    by (simp add: partition_holds_def)
  show "passes example_ar other (BinOp Lt (Column (column_new key)) (Const (IntC (2 ^ 53 + 1)))) (\<lambda>_. IntC (2 ^ 53))"
    by (simp add: passes_def eval_binop_def example_ar_def compare_num_def example_num_def)
qed

end
