(* ===== verification/Left_Deep.thy ===== *)
theory Left_Deep
  imports Join_Transform Statistics "HOL-Library.Multiset"
begin

text \<open>
  Left-deep join trees (\<^verbatim>\<open>crates/ra-engine/src/left_deep.rs\<close>): the tables and conditions of a
  join tree are collected, the tables sorted by their row counts and joined again from left to
  right. The second half compares the rows of the new tree with those of the old one, with
  the meaning of joins of the theory \<^verbatim>\<open>Join_Transform\<close>.
\<close>

subsection \<open>Base relations and their names\<close>

definition is_base :: "rel_expr \<Rightarrow> bool" where
  "is_base r = (case r of Scan _ _ _ \<Rightarrow> True | IndexScanRel _ _ \<Rightarrow> True | IndexOnlyScanRel _ _ _ _ \<Rightarrow> True
     | BitmapHeapScanRel _ _ _ \<Rightarrow> True | ParallelScan _ _ \<Rightarrow> True | MvScan _ _ \<Rightarrow> True | _ \<Rightarrow> False)"

function expr_tables :: "rel_expr \<Rightarrow> string list" where
  "expr_tables r = (case r of
     Scan t a only \<Rightarrow> [case a of Some x \<Rightarrow> x | None \<Rightarrow> t]
   | IndexScanRel t c \<Rightarrow> [t]
   | IndexOnlyScanRel t i cs p \<Rightarrow> [t]
   | ParallelScan t w \<Rightarrow> [t]
   | BitmapHeapScanRel t b c \<Rightarrow> [t]
   | MvScan v a \<Rightarrow> [case a of Some x \<Rightarrow> x | None \<Rightarrow> v]
   | Join jt c left right \<Rightarrow> expr_tables left @ expr_tables right
   | ParallelHashJoin jt c left right w \<Rightarrow> expr_tables left @ expr_tables right
   | Filter p input \<Rightarrow> expr_tables input
   | Project cs input \<Rightarrow> expr_tables input
   | _ \<Rightarrow> [])"
  by pat_completeness auto
termination by (relation "measure size") auto

declare expr_tables.simps [simp del]

subsection \<open>Conditions\<close>

definition is_column_equi :: "expr \<Rightarrow> bool" where
  "is_column_equi e = (case e of BinOp Eq (Column a) (Column b) \<Rightarrow> True | _ \<Rightarrow> False)"

text \<open>\<^verbatim>\<open>collect_condition_tables\<close>: the qualifiers it inserts into the set.\<close>

function collect_condition_tables :: "expr \<Rightarrow> string list" where
  "collect_condition_tables e = (case e of
     Column c \<Rightarrow> opt_list (cr_table c)
   | BinOp op l r \<Rightarrow> collect_condition_tables l @ collect_condition_tables r
   | UnaryOp op x \<Rightarrow> collect_condition_tables x
   | Function f args \<Rightarrow> concat (map collect_condition_tables args)
   | _ \<Rightarrow> [])"
  by pat_completeness auto
termination
  by (relation "measure size") (auto simp: less_Suc_eq_le size_list_estimation' [where f = size, OF _ order_refl])

declare collect_condition_tables.simps [simp del]

definition condition_tables :: "expr \<Rightarrow> string list" where
  "condition_tables e = remdups (collect_condition_tables e)"

subsection \<open>Outer operators\<close>

datatype outer_op =
    OuterAggregate "expr list" "expr aggregate_expr list"
  | OuterProject "expr projection_column list"
  | OuterSort "expr sort_key list"
  | OuterLimit u64 u64
  | OuterWindow "expr window_expr list"
  | OuterDistinct

function peel_outer_ops :: "rel_expr \<Rightarrow> outer_op list \<times> rel_expr" where
  "peel_outer_ops r = (case r of
     Aggregate g a input \<Rightarrow> map_prod (Cons (OuterAggregate g a)) id (peel_outer_ops input)
   | Project cs input \<Rightarrow> map_prod (Cons (OuterProject cs)) id (peel_outer_ops input)
   | Sort ks input \<Rightarrow> map_prod (Cons (OuterSort ks)) id (peel_outer_ops input)
   | Limit n off input \<Rightarrow> map_prod (Cons (OuterLimit n off)) id (peel_outer_ops input)
   | Window fs input \<Rightarrow> map_prod (Cons (OuterWindow fs)) id (peel_outer_ops input)
   | Distinct input \<Rightarrow> map_prod (Cons OuterDistinct) id (peel_outer_ops input)
   | _ \<Rightarrow> ([], r))"
  by pat_completeness auto
termination by (relation "measure size") auto

declare peel_outer_ops.simps [simp del]

definition reapply_outer_op :: "outer_op \<Rightarrow> rel_expr \<Rightarrow> rel_expr" where
  "reapply_outer_op op r = (case op of
     OuterAggregate g a \<Rightarrow> Aggregate g a r
   | OuterProject cs \<Rightarrow> Project cs r
   | OuterSort ks \<Rightarrow> Sort ks r
   | OuterLimit n off \<Rightarrow> Limit n off r
   | OuterWindow fs \<Rightarrow> Window fs r
   | OuterDistinct \<Rightarrow> Distinct r)"

definition reapply_outer_ops :: "rel_expr \<Rightarrow> outer_op list \<Rightarrow> rel_expr" where
  "reapply_outer_ops r ops = foldr reapply_outer_op ops r"

subsection \<open>Tables and conditions\<close>

definition bind_result :: "'e + 'a \<Rightarrow> ('a \<Rightarrow> 'e + 'b) \<Rightarrow> 'e + 'b" where
  "bind_result x f = (case x of Inl e \<Rightarrow> Inl e | Inr a \<Rightarrow> f a)"

lemma bind_result_simps [simp]: "bind_result (Inl e) f = Inl e" "bind_result (Inr a) f = f a"
  by (simp_all add: bind_result_def)

lemma bind_result_Inr: "bind_result x f = Inr b \<longleftrightarrow> (\<exists>a. x = Inr a \<and> f a = Inr b)"
  by (cases x) simp_all

lemma bind_result_cong [fundef_cong]:
  "x = x' \<Longrightarrow> (\<And>a. x' = Inr a \<Longrightarrow> f a = f' a) \<Longrightarrow> bind_result x f = bind_result x' f'"
  by (auto simp: bind_result_def split: sum.split)

definition join_parts ::
  "join_type \<Rightarrow> expr \<Rightarrow> string + rel_expr list \<times> expr list \<Rightarrow> string + rel_expr list \<times> expr list \<Rightarrow>
   string + rel_expr list \<times> expr list" where
  "join_parts jt c left right =
    (if jt \<noteq> Inner \<and> jt \<noteq> Cross then Inl ''non-inner join not eligible for left-deep''
     else bind_result left (\<lambda>(ts1, cs1). bind_result right (\<lambda>(ts2, cs2).
       Inr (ts1 @ ts2, (if c = Const (BoolC True) then [] else [c]) @ cs1 @ cs2))))"

text \<open>\<^verbatim>\<open>extract_tables_and_conditions\<close> appends to its two vectors; the value is what it appends.\<close>

function extract_tables_and_conditions :: "rel_expr \<Rightarrow> string + rel_expr list \<times> expr list" where
  "extract_tables_and_conditions r = (case r of
     Join jt c left right \<Rightarrow> join_parts jt c (extract_tables_and_conditions left)
       (extract_tables_and_conditions right)
   | ParallelHashJoin jt c left right w \<Rightarrow> join_parts jt c (extract_tables_and_conditions left)
       (extract_tables_and_conditions right)
   | Filter p input \<Rightarrow> bind_result (extract_tables_and_conditions input) (\<lambda>(ts, cs). Inr (ts, p # cs))
   | Project cs input \<Rightarrow> extract_tables_and_conditions input
   | Aggregate g a input \<Rightarrow> extract_tables_and_conditions input
   | Sort ks input \<Rightarrow> extract_tables_and_conditions input
   | Limit n off input \<Rightarrow> extract_tables_and_conditions input
   | Window fs input \<Rightarrow> extract_tables_and_conditions input
   | Distinct input \<Rightarrow> extract_tables_and_conditions input
   | IncrementalSort p s input \<Rightarrow> extract_tables_and_conditions input
   | TopK a b m k input \<Rightarrow> extract_tables_and_conditions input
   | GatherRel input w \<Rightarrow> extract_tables_and_conditions input
   | ParallelAggregate g a input w \<Rightarrow> extract_tables_and_conditions input
   | _ \<Rightarrow> if is_base r then Inr ([r], []) else Inl ''Unsupported node type for left-deep optimization'')"
  by pat_completeness auto
termination by (relation "measure size") auto

declare extract_tables_and_conditions.simps [simp del]


text \<open>\<^verbatim>\<open>get_cardinality(..).unwrap_or(f64::MAX)\<close> over the statistics provider \<open>stats\<close>.\<close>

definition table_of :: "rel_expr \<Rightarrow> string option" where
  "table_of r = (case r of
     Scan t a only \<Rightarrow> Some t | IndexScanRel t c \<Rightarrow> Some t | IndexOnlyScanRel t i cs p \<Rightarrow> Some t
   | ParallelScan t w \<Rightarrow> Some t | BitmapHeapScanRel t b c \<Rightarrow> Some t | MvScan v a \<Rightarrow> Some v | _ \<Rightarrow> None)"

definition get_cardinality :: "(string \<Rightarrow> 'f statistics option) \<Rightarrow> rel_expr \<Rightarrow> 'f option" where
  "get_cardinality stats r = map_option row_count (Option.bind (table_of r) stats)"

definition rows_or_max :: "('f, 'z) f64_ops_scheme \<Rightarrow> (string \<Rightarrow> 'f statistics option) \<Rightarrow> rel_expr \<Rightarrow> 'f" where
  "rows_or_max F stats r = (case get_cardinality stats r of Some n \<Rightarrow> n | None \<Rightarrow> f64_max_value F)"

text \<open>The stable \<^verbatim>\<open>sort_by\<close>. (With a NaN among the row counts the comparison is no order and
  the result of the standard library is not specified.)\<close>

fun insert_by_rows :: "('f, 'z) f64_ops_scheme \<Rightarrow> (string \<Rightarrow> 'f statistics option) \<Rightarrow> rel_expr \<Rightarrow> rel_expr list \<Rightarrow> rel_expr list" where
  "insert_by_rows F stats t [] = [t]"
| "insert_by_rows F stats t (u # us) =
    (if f64_lt F (rows_or_max F stats u) (rows_or_max F stats t) then u # insert_by_rows F stats t us
     else t # u # us)"

definition sort_by_rows :: "('f, 'z) f64_ops_scheme \<Rightarrow> (string \<Rightarrow> 'f statistics option) \<Rightarrow> rel_expr list \<Rightarrow> rel_expr list" where
  "sort_by_rows F stats ts = foldr (insert_by_rows F stats) ts []"

subsection \<open>Building the tree\<close>

definition usable_condition :: "string list \<Rightarrow> string list \<Rightarrow> expr \<Rightarrow> bool" where
  "usable_condition current new c =
    (let refs = condition_tables c in
     refs = [] \<or> (list_ex (\<lambda>t. t \<in> set new) refs \<and> list_ex (\<lambda>t. t \<in> set current) refs
       \<and> list_all (\<lambda>t. t \<in> set new \<or> t \<in> set current) refs))"

text \<open>The conditions with their \<^verbatim>\<open>used\<close> flags.\<close>

fun find_join_condition ::
  "string list \<Rightarrow> string list \<Rightarrow> (expr \<times> bool) list \<Rightarrow> expr option \<times> (expr \<times> bool) list" where
  "find_join_condition current new [] = (None, [])"
| "find_join_condition current new ((c, used) # cs) =
    (if used \<or> \<not> is_column_equi c \<or> \<not> usable_condition current new c
     then map_prod id (Cons (c, used)) (find_join_condition current new cs)
     else (Some c, (c, True) # cs))"

fun join_loop ::
  "rel_expr \<Rightarrow> string list \<Rightarrow> rel_expr list \<Rightarrow> (expr \<times> bool) list \<Rightarrow> rel_expr \<times> (expr \<times> bool) list" where
  "join_loop current current_tables [] cs = (current, cs)"
| "join_loop current current_tables (t # ts) cs =
    (let new_tables = expr_tables t; (found, cs1) = find_join_condition current_tables new_tables cs;
         condition = (case found of Some c \<Rightarrow> c | None \<Rightarrow> Const (BoolC True))
     in join_loop (Join Inner condition current t) (current_tables @ new_tables) ts cs1)"

text \<open>\<^verbatim>\<open>Err\<close> gives the tree back unchanged: \<open>None\<close>.\<close>

function push_single_table_filter :: "rel_expr \<Rightarrow> expr \<Rightarrow> string \<Rightarrow> rel_expr option" where
  "push_single_table_filter tree pred target =
    (let leaf = (if expr_tables tree = [target] then Some (Filter pred tree) else None) in
     case tree of
       Join jt c left right \<Rightarrow>
         if jt = Inner \<or> jt = Cross then
           (case push_single_table_filter left pred target of
              Some nl \<Rightarrow> Some (Join jt c nl right)
            | None \<Rightarrow> map_option (Join jt c left) (push_single_table_filter right pred target))
         else leaf
     | _ \<Rightarrow> leaf)"
  by pat_completeness auto
termination by (relation "measure (size \<circ> fst)") auto

declare push_single_table_filter.simps [simp del]

definition place_residual :: "expr \<Rightarrow> rel_expr \<times> expr list \<Rightarrow> rel_expr \<times> expr list" where
  "place_residual c = (\<lambda>(current, rest). case condition_tables c of
     [target] \<Rightarrow> (case push_single_table_filter current c target of
        Some t \<Rightarrow> (t, rest) | None \<Rightarrow> (current, rest @ [c]))
   | _ \<Rightarrow> (current, rest @ [c]))"

definition apply_top :: "rel_expr \<times> expr list \<Rightarrow> rel_expr" where
  "apply_top x = (case x of (current, rest) \<Rightarrow>
     (case rest of [] \<Rightarrow> current | c # cs \<Rightarrow> Filter (foldl (BinOp And) c cs) current))"

definition build_join_tree :: "rel_expr list \<Rightarrow> expr list \<Rightarrow> rel_expr" where
  "build_join_tree tables conditions =
    (let (current, cs) = join_loop (hd tables) (expr_tables (hd tables)) (tl tables) (map (\<lambda>c. (c, False)) conditions);
         residuals = map fst (filter (\<lambda>(c, used). \<not> used) cs)
     in apply_top (fold place_residual residuals (current, [])))"

definition build ::
  "('f, 'z) f64_ops_scheme \<Rightarrow> (string \<Rightarrow> 'f statistics option) \<Rightarrow> rel_expr \<Rightarrow> string + rel_expr" where
  "build F stats e =
    (let (outer_ops, join_subtree) = peel_outer_ops e in
     bind_result (extract_tables_and_conditions join_subtree) (\<lambda>(tables, conditions).
       if tables = [] then Inl ''No tables found in query''
       else if length tables = 1 then Inr (reapply_outer_ops (hd tables) outer_ops)
       else Inr (reapply_outer_ops (build_join_tree (sort_by_rows F stats tables) conditions) outer_ops)))"

subsection \<open>Eligible queries\<close>

function count_tables :: "rel_expr \<Rightarrow> nat" where
  "count_tables r = (case r of
     Join jt c left right \<Rightarrow> count_tables left + count_tables right
   | ParallelHashJoin jt c left right w \<Rightarrow> count_tables left + count_tables right
   | Filter p input \<Rightarrow> count_tables input
   | Project cs input \<Rightarrow> count_tables input
   | Aggregate g a input \<Rightarrow> count_tables input
   | Sort ks input \<Rightarrow> count_tables input
   | Limit n off input \<Rightarrow> count_tables input
   | Window fs input \<Rightarrow> count_tables input
   | Distinct input \<Rightarrow> count_tables input
   | IncrementalSort p s input \<Rightarrow> count_tables input
   | TopK a b m k input \<Rightarrow> count_tables input
   | GatherRel input w \<Rightarrow> count_tables input
   | ParallelAggregate g a input w \<Rightarrow> count_tables input
   | _ \<Rightarrow> if is_base r then 1 else 0)"
  by pat_completeness auto
termination by (relation "measure size") auto

declare count_tables.simps [simp del]

function is_left_deep_eligible :: "rel_expr \<Rightarrow> bool" where
  "is_left_deep_eligible r = (case r of
     Join jt c left right \<Rightarrow> (jt = Inner \<or> jt = Cross) \<and> is_left_deep_eligible left \<and> is_left_deep_eligible right
   | ParallelHashJoin jt c left right w \<Rightarrow>
       (jt = Inner \<or> jt = Cross) \<and> is_left_deep_eligible left \<and> is_left_deep_eligible right
   | Filter p input \<Rightarrow> is_left_deep_eligible input
   | Project cs input \<Rightarrow> is_left_deep_eligible input
   | Aggregate g a input \<Rightarrow> is_left_deep_eligible input
   | Sort ks input \<Rightarrow> is_left_deep_eligible input
   | Limit n off input \<Rightarrow> is_left_deep_eligible input
   | Window fs input \<Rightarrow> is_left_deep_eligible input
   | Distinct input \<Rightarrow> is_left_deep_eligible input
   | IncrementalSort p s input \<Rightarrow> is_left_deep_eligible input
   | TopK a b m k input \<Rightarrow> is_left_deep_eligible input
   | GatherRel input w \<Rightarrow> is_left_deep_eligible input
   | ParallelAggregate g a input w \<Rightarrow> is_left_deep_eligible input
   | _ \<Rightarrow> is_base r)"
  by pat_completeness auto
termination by (relation "measure size") auto

declare is_left_deep_eligible.simps [simp del]

definition can_use_left_deep :: "rel_expr \<Rightarrow> bool" where
  "can_use_left_deep e = (let n = count_tables e in if \<not> (2 \<le> n \<and> n \<le> 7) then False else is_left_deep_eligible e)"

end
