(* ===== verification/Left_Deep_Sound.thy ===== *)
theory Left_Deep_Sound
  imports Left_Deep
begin

text \<open>
  The rebuilt join tree has the tables and the predicates of the original one, and where every
  predicate names the tables of its columns it has the same rows. Rows are combined as in the
  theory \<^verbatim>\<open>Join_Transform\<close>; the rows of the base relations are a parameter.
\<close>

subsection \<open>Join trees\<close>

inductive join_tree :: "rel_expr \<Rightarrow> bool" where
  base: "is_base b \<Longrightarrow> join_tree b"
| join: "jt = Inner \<or> jt = Cross \<Longrightarrow> join_tree l \<Longrightarrow> join_tree r \<Longrightarrow> join_tree (Join jt c l r)"
| parallel: "jt = Inner \<or> jt = Cross \<Longrightarrow> join_tree l \<Longrightarrow> join_tree r \<Longrightarrow> join_tree (ParallelHashJoin jt c l r w)"
| filter_by: "join_tree i \<Longrightarrow> join_tree (Filter p i)"

lemma is_base_simps [simp]:
  "\<not> is_base (Join jt c l r)" "\<not> is_base (ParallelHashJoin jt c l r w)" "\<not> is_base (Filter p i)"
  by (simp_all add: is_base_def)

lemma expr_tables_simps [simp]:
  "expr_tables (Join jt c l r) = expr_tables l @ expr_tables r"
  "expr_tables (ParallelHashJoin jt c l r w) = expr_tables l @ expr_tables r"
  "expr_tables (Filter p i) = expr_tables i"
  by (simp_all add: expr_tables.simps)

lemma expr_tables_base: "is_base b \<Longrightarrow> \<exists>n. expr_tables b = [n]"
  by (cases b) (simp_all add: is_base_def expr_tables.simps)

lemma extract_simps [simp]:
  "extract_tables_and_conditions (Join jt c l r)
    = join_parts jt c (extract_tables_and_conditions l) (extract_tables_and_conditions r)"
  "extract_tables_and_conditions (ParallelHashJoin jt c l r w)
    = join_parts jt c (extract_tables_and_conditions l) (extract_tables_and_conditions r)"
  "extract_tables_and_conditions (Filter p i)
    = bind_result (extract_tables_and_conditions i) (\<lambda>(ts, cs). Inr (ts, p # cs))"
  by (simp_all add: extract_tables_and_conditions.simps)

lemma extract_base: "is_base b \<Longrightarrow> extract_tables_and_conditions b = Inr ([b], [])"
  by (cases b) (simp_all add: is_base_def extract_tables_and_conditions.simps)

lemma join_parts_Inr:
  "join_parts jt c x y = Inr (ts, cs) \<longleftrightarrow> (jt = Inner \<or> jt = Cross)
    \<and> (\<exists>ts1 cs1 ts2 cs2. x = Inr (ts1, cs1) \<and> y = Inr (ts2, cs2) \<and> ts = ts1 @ ts2
       \<and> cs = (if c = Const (BoolC True) then [] else [c]) @ cs1 @ cs2)"
  by (auto simp: join_parts_def bind_result_Inr)

lemma extract_join_tree:
  assumes "join_tree t"
  shows "\<exists>ts cs. extract_tables_and_conditions t = Inr (ts, cs) \<and> ts \<noteq> [] \<and> (\<forall>b \<in> set ts. is_base b)
    \<and> expr_tables t = concat (map expr_tables ts)"
  using assms
proof induction
  case (base b)
  then show ?case by (simp add: extract_base)
next
  case (join jt l r c)
  then obtain ts1 cs1 ts2 cs2 where "extract_tables_and_conditions l = Inr (ts1, cs1)"
    "extract_tables_and_conditions r = Inr (ts2, cs2)" "ts1 \<noteq> []" "\<forall>b \<in> set ts1 \<union> set ts2. is_base b"
    "expr_tables l = concat (map expr_tables ts1)" "expr_tables r = concat (map expr_tables ts2)" by blast
  with join(1) show ?case by (auto simp: join_parts_def)
next
  case (parallel jt l r c w)
  then obtain ts1 cs1 ts2 cs2 where "extract_tables_and_conditions l = Inr (ts1, cs1)"
    "extract_tables_and_conditions r = Inr (ts2, cs2)" "ts1 \<noteq> []" "\<forall>b \<in> set ts1 \<union> set ts2. is_base b"
    "expr_tables l = concat (map expr_tables ts1)" "expr_tables r = concat (map expr_tables ts2)" by blast
  with parallel(1) show ?case by (auto simp: join_parts_def)
next
  case (filter_by i p)
  then show ?case by auto
qed

subsection \<open>Sorting\<close>

lemma mset_insert_by_rows [simp]: "mset (insert_by_rows F stats t ts) = add_mset t (mset ts)"
  by (induction ts) auto

lemma mset_sort_by_rows [simp]: "mset (sort_by_rows F stats ts) = mset ts"
  by (induction ts) (simp_all add: sort_by_rows_def)

lemma set_sort_by_rows [simp]: "set (sort_by_rows F stats ts) = set ts"
  by (metis mset_sort_by_rows set_mset_mset)

lemma length_sort_by_rows [simp]: "length (sort_by_rows F stats ts) = length ts"
  by (metis mset_sort_by_rows size_mset)

subsection \<open>Where the conditions go\<close>

lemma find_join_condition_None: "find_join_condition cur new cs = (None, cs') \<Longrightarrow> cs' = cs"
  by (induction cs arbitrary: cs') (auto simp: map_prod_def split: if_splits prod.splits)

lemma find_join_condition_Some:
  "find_join_condition cur new cs = (Some c, cs') \<Longrightarrow>
    is_column_equi c \<and> usable_condition cur new c \<and> (\<exists>xs ys. cs = xs @ (c, False) # ys \<and> cs' = xs @ (c, True) # ys)"
proof (induction cs arbitrary: cs')
  case (Cons x cs)
  obtain d u where x: "x = (d, u)" by (cases x)
  show ?case
  proof (cases "u \<or> \<not> is_column_equi d \<or> \<not> usable_condition cur new d")
    case True
    with Cons.prems x obtain cs'' where "find_join_condition cur new cs = (Some c, cs'')" "cs' = x # cs''"
      by (cases "find_join_condition cur new cs") auto
    with Cons.IH [of cs''] show ?thesis by (metis append_Cons)
  next
    case False
    with Cons.prems x have "c = d" "cs' = (d, True) # cs" "\<not> u" by auto
    with False x show ?thesis by (metis append_Nil)
  qed
qed simp

definition used_conditions :: "(expr \<times> bool) list \<Rightarrow> expr set" where
  "used_conditions cs = {c. (c, True) \<in> set cs}"

lemma is_column_equi_not_True: "is_column_equi c \<Longrightarrow> c \<noteq> Const (BoolC True)"
  by (auto simp: is_column_equi_def)

lemma join_loop_extract:
  assumes "extract_tables_and_conditions current = Inr (ts0, us)" "set us = used_conditions cs"
    and "\<forall>t \<in> set ts. is_base t" "join_loop current cur ts cs = (result, cs')"
  shows "map fst cs' = map fst cs \<and> (\<exists>us'. extract_tables_and_conditions result = Inr (ts0 @ ts, us')
    \<and> set us' = used_conditions cs')"
  using assms
proof (induction ts arbitrary: current cur cs ts0 us)
  case Nil
  then show ?case by auto
next
  case (Cons t ts)
  obtain found cs1 where f: "find_join_condition cur (expr_tables t) cs = (found, cs1)" by fastforce
  have base: "extract_tables_and_conditions t = Inr ([t], [])" using Cons.prems(3) by (simp add: extract_base)
  show ?case
  proof (cases found)
    case None
    have loop: "join_loop (Join Inner (Const (BoolC True)) current t) (cur @ expr_tables t) ts cs = (result, cs')"
      using Cons.prems(4) f None find_join_condition_None [of cur "expr_tables t" cs cs1] by simp
    have "extract_tables_and_conditions (Join Inner (Const (BoolC True)) current t) = Inr (ts0 @ [t], us)"
      using Cons.prems(1) base by (simp add: join_parts_def)
    from Cons.IH [OF this Cons.prems(2) _ loop] show ?thesis using Cons.prems(3) by simp
  next
    case (Some c)
    then obtain xs ys where c: "is_column_equi c" "cs = xs @ (c, False) # ys" "cs1 = xs @ (c, True) # ys"
      using find_join_condition_Some f by blast
    have loop: "join_loop (Join Inner c current t) (cur @ expr_tables t) ts cs1 = (result, cs')"
      using Cons.prems(4) f Some by simp
    have e: "extract_tables_and_conditions (Join Inner c current t) = Inr (ts0 @ [t], c # us)"
      using Cons.prems(1) base is_column_equi_not_True [OF c(1)] by (simp add: join_parts_def)
    have u: "set (c # us) = used_conditions cs1"
      using Cons.prems(2) by (auto simp: c(2,3) used_conditions_def)
    have "map fst cs1 = map fst cs" by (simp add: c)
    with Cons.IH [OF e u _ loop] show ?thesis using Cons.prems(3) by simp
  qed
qed

lemma push_cases:
  assumes "push_single_table_filter tree pred target = Some t'"
  obtains (leaf) "expr_tables tree = [target]" "t' = Filter pred tree"
  | (left) jt c l r l' where "tree = Join jt c l r" "jt = Inner \<or> jt = Cross"
      "push_single_table_filter l pred target = Some l'" "t' = Join jt c l' r"
  | (right) jt c l r r' where "tree = Join jt c l r" "jt = Inner \<or> jt = Cross"
      "push_single_table_filter r pred target = Some r'" "t' = Join jt c l r'"
proof (cases "\<exists>jt c l r. tree = Join jt c l r \<and> (jt = Inner \<or> jt = Cross)")
  case True
  then obtain jt c l r where t: "tree = Join jt c l r" "jt = Inner \<or> jt = Cross" by blast
  show ?thesis
  proof (cases "push_single_table_filter l pred target")
    case None
    then show ?thesis using assms t that(3)
      by (subst (asm) push_single_table_filter.simps) auto
  next
    case (Some l')
    then show ?thesis using assms t that(2)
      by (subst (asm) push_single_table_filter.simps) auto
  qed
next
  case False
  then have "push_single_table_filter tree pred target = (if expr_tables tree = [target] then Some (Filter pred tree) else None)"
    by (subst push_single_table_filter.simps) (auto simp: Let_def split: rel_expr.split)
  then show ?thesis using assms that(1) by (simp split: if_splits)
qed

lemma push_extract:
  "push_single_table_filter tree pred target = Some t' \<Longrightarrow> extract_tables_and_conditions tree = Inr (ts, us) \<Longrightarrow>
    expr_tables t' = expr_tables tree
    \<and> (\<exists>us'. extract_tables_and_conditions t' = Inr (ts, us') \<and> set us' = insert pred (set us))"
proof (induction tree arbitrary: t' ts us rule: measure_induct_rule [where f = size])
  case (less tree)
  from less.prems(1) show ?case
  proof (cases rule: push_cases)
    case leaf
    then show ?thesis using less.prems(2) by simp
  next
    case (left jt c l r l')
    with less.prems(2) less.IH [of l l'] show ?thesis by (fastforce simp: join_parts_Inr)
  next
    case (right jt c l r r')
    with less.prems(2) less.IH [of r r'] show ?thesis by (fastforce simp: join_parts_Inr)
  qed
qed


lemma push_tables:
  "push_single_table_filter tree pred target = Some t' \<Longrightarrow> expr_tables t' = expr_tables tree"
proof (induction tree arbitrary: t' rule: measure_induct_rule [where f = size])
  case (less tree)
  from less.prems show ?case
  proof (cases rule: push_cases)
    case (left jt c l r l')
    with less.IH [of l l'] show ?thesis by simp
  next
    case (right jt c l r r')
    with less.IH [of r r'] show ?thesis by simp
  qed simp
qed

lemma place_residual_cases:
  obtains (pushed) target t where "condition_tables c = [target]"
      "push_single_table_filter cur c target = Some t" "place_residual c (cur, rest) = (t, rest)"
  | (kept) "place_residual c (cur, rest) = (cur, rest @ [c])"
proof (cases "\<exists>target t. condition_tables c = [target] \<and> push_single_table_filter cur c target = Some t")
  case True
  then show ?thesis using that(1) by (auto simp: place_residual_def)
next
  case False
  then have "place_residual c (cur, rest) = (cur, rest @ [c])"
    by (auto simp: place_residual_def split: list.split option.split)
  then show ?thesis by (rule that(2))
qed

lemma place_residuals_extract:
  assumes "fold place_residual rs (cur, rest) = (cur', rest')" "extract_tables_and_conditions cur = Inr (ts, us)"
  shows "\<exists>us'. extract_tables_and_conditions cur' = Inr (ts, us')
    \<and> set us' \<union> set rest' = set us \<union> set rest \<union> set rs"
  using assms
proof (induction rs arbitrary: cur rest us)
  case (Cons c rs)
  show ?case
  proof (cases rule: place_residual_cases [of c cur rest])
    case (pushed target t)
    with push_extract [OF pushed(2) Cons.prems(2)] obtain us1
      where "extract_tables_and_conditions t = Inr (ts, us1)" "set us1 = insert c (set us)" by blast
    with Cons.IH [of t rest us1] Cons.prems(1) pushed(3) show ?thesis by simp
  next
    case kept
    with Cons.IH [of cur "rest @ [c]" us] Cons.prems show ?thesis by simp
  qed
qed simp

text \<open>The conjuncts of a condition.\<close>

function conjuncts :: "expr \<Rightarrow> expr list" where
  "conjuncts e = (case e of BinOp And l r \<Rightarrow> conjuncts l @ conjuncts r | _ \<Rightarrow> [e])"
  by pat_completeness auto
termination by (relation "measure size") auto

declare conjuncts.simps [simp del]

lemma conjuncts_And [simp]: "conjuncts (BinOp And l r) = conjuncts l @ conjuncts r"
  by (simp add: conjuncts.simps)

lemma conjuncts_foldl: "conjuncts (foldl (BinOp And) c cs) = conjuncts c @ concat (map conjuncts cs)"
  by (induction cs arbitrary: c) simp_all

lemma apply_top_extract:
  assumes "extract_tables_and_conditions cur = Inr (ts, us)"
  shows "\<exists>us'. extract_tables_and_conditions (apply_top (cur, rest)) = Inr (ts, us')
    \<and> (\<Union>c \<in> set us'. set (conjuncts c)) = (\<Union>c \<in> set us \<union> set rest. set (conjuncts c))"
proof (cases rest)
  case (Cons c cs)
  then show ?thesis using assms by (auto simp: apply_top_def conjuncts_foldl)
qed (use assms in \<open>simp add: apply_top_def\<close>)

lemma residual_conditions:
  "set (map fst (filter (\<lambda>(c, used). \<not> used) cs)) \<union> used_conditions cs = set (map fst cs)"
  by (force simp: used_conditions_def)

text \<open>No table and no predicate is lost.\<close>

lemma build_join_tree_extract:
  assumes "ts \<noteq> []" "\<forall>t \<in> set ts. is_base t"
  shows "\<exists>us. extract_tables_and_conditions (build_join_tree ts cs) = Inr (ts, us)
    \<and> (\<Union>c \<in> set us. set (conjuncts c)) = (\<Union>c \<in> set cs. set (conjuncts c))"
proof -
  obtain t ts' where ts: "ts = t # ts'" using assms(1) by (cases ts) auto
  obtain cur cs' where loop: "join_loop t (expr_tables t) ts' (map (\<lambda>c. (c, False)) cs) = (cur, cs')" by fastforce
  have "extract_tables_and_conditions t = Inr ([t], [])" using assms(2) ts by (simp add: extract_base)
  from join_loop_extract [OF this _ _ loop] obtain us where us: "map fst cs' = cs"
    "extract_tables_and_conditions cur = Inr (ts, us)" "set us = used_conditions cs'"
    using assms(2) by (auto simp: ts used_conditions_def comp_def)
  let ?rs = "map fst (filter (\<lambda>(c, used). \<not> used) cs')"
  obtain cur' rest where placed: "fold place_residual ?rs (cur, []) = (cur', rest)" by fastforce
  from place_residuals_extract [OF placed us(2)] obtain us1
    where us1: "extract_tables_and_conditions cur' = Inr (ts, us1)" "set us1 \<union> set rest = set us \<union> set ?rs" by auto
  have "build_join_tree ts cs = apply_top (cur', rest)"
    using loop placed by (simp add: build_join_tree_def ts)
  moreover have "set us1 \<union> set rest = set cs"
    using us1(2) us(1,3) residual_conditions [of cs'] by auto
  ultimately show ?thesis using apply_top_extract [OF us1(1), of rest] by simp
qed

subsection \<open>Scopes\<close>

text \<open>Conditions of columns with a qualifier, constants and operators: their meaning depends on the
  tables they name.\<close>

function qualified_pred :: "expr \<Rightarrow> bool" where
  "qualified_pred e = (case e of
     Column c \<Rightarrow> cr_table c \<noteq> None | Const k \<Rightarrow> True
   | BinOp op l r \<Rightarrow> qualified_pred l \<and> qualified_pred r | UnaryOp op x \<Rightarrow> qualified_pred x | _ \<Rightarrow> False)"
  by pat_completeness auto
termination by (relation "measure size") auto

declare qualified_pred.simps [simp del]

lemma qualified_pred_simps [simp]:
  "qualified_pred (Column c) \<longleftrightarrow> cr_table c \<noteq> None" "qualified_pred (Const k)"
  "qualified_pred (BinOp op l r) \<longleftrightarrow> qualified_pred l \<and> qualified_pred r"
  "qualified_pred (UnaryOp u x) \<longleftrightarrow> qualified_pred x"
  by (simp_all add: qualified_pred.simps)

lemma set_condition_tables: "set (condition_tables e) = set (collect_condition_tables e)"
  by (simp add: condition_tables_def)

lemma collect_condition_tables_simps [simp]:
  "collect_condition_tables (Column c) = opt_list (cr_table c)" "collect_condition_tables (Const k) = []"
  "collect_condition_tables (BinOp op l r) = collect_condition_tables l @ collect_condition_tables r"
  "collect_condition_tables (UnaryOp u x) = collect_condition_tables x"
  by (simp_all add: collect_condition_tables.simps)

definition in_scope :: "string set \<Rightarrow> expr \<Rightarrow> bool" where
  "in_scope S c \<longleftrightarrow> qualified_pred c \<and> set (condition_tables c) \<subseteq> S"

lemma in_scope_And: "in_scope S (BinOp And l r) \<longleftrightarrow> in_scope S l \<and> in_scope S r"
  by (auto simp: in_scope_def set_condition_tables)

lemma in_scope_foldl: "in_scope S (foldl (BinOp And) c cs) \<longleftrightarrow> (\<forall>d \<in> set (c # cs). in_scope S d)"
  by (induction cs arbitrary: c) (auto simp: in_scope_And)

inductive scoped_tree :: "rel_expr \<Rightarrow> bool" where
  base: "is_base b \<Longrightarrow> scoped_tree b"
| join: "jt = Inner \<or> jt = Cross \<Longrightarrow> scoped_tree l \<Longrightarrow> scoped_tree r \<Longrightarrow>
    in_scope (set (expr_tables l) \<union> set (expr_tables r)) c \<Longrightarrow> scoped_tree (Join jt c l r)"
| parallel: "jt = Inner \<or> jt = Cross \<Longrightarrow> scoped_tree l \<Longrightarrow> scoped_tree r \<Longrightarrow>
    in_scope (set (expr_tables l) \<union> set (expr_tables r)) c \<Longrightarrow> scoped_tree (ParallelHashJoin jt c l r w)"
| filter_by: "scoped_tree i \<Longrightarrow> in_scope (set (expr_tables i)) p \<Longrightarrow> scoped_tree (Filter p i)"

inductive_simps scoped_tree_Join: "scoped_tree (Join jt c l r)"

lemma scoped_tree_join_tree: "scoped_tree t \<Longrightarrow> join_tree t"
  by (induction rule: scoped_tree.induct) (auto intro: join_tree.intros)

lemma in_scope_mono: "in_scope S c \<Longrightarrow> S \<subseteq> T \<Longrightarrow> in_scope T c"
  by (auto simp: in_scope_def)

lemma usable_in_scope:
  assumes "is_column_equi c" "qualified_pred c" "usable_condition cur new c"
  shows "in_scope (set cur \<union> set new) c"
proof -
  obtain a b where "c = BinOp Eq (Column a) (Column b)"
    using assms(1) by (auto simp: is_column_equi_def split: expr.splits bin_op.splits)
  with assms(2) have "condition_tables c \<noteq> []" by (auto simp: condition_tables_def opt_list_def)
  with assms(2,3) show ?thesis by (auto simp: in_scope_def usable_condition_def Let_def list_all_iff)
qed

lemma join_loop_scoped:
  assumes "scoped_tree current" "set cur = set (expr_tables current)" "\<forall>t \<in> set ts. is_base t"
    and "\<forall>(c, used) \<in> set cs. qualified_pred c" "join_loop current cur ts cs = (result, cs')"
  shows "scoped_tree result \<and> expr_tables result = expr_tables current @ concat (map expr_tables ts)"
  using assms
proof (induction ts arbitrary: current cur cs)
  case (Cons t ts)
  obtain found cs1 where f: "find_join_condition cur (expr_tables t) cs = (found, cs1)" by fastforce
  let ?c = "case found of Some c \<Rightarrow> c | None \<Rightarrow> Const (BoolC True)"
  have "in_scope (set cur \<union> set (expr_tables t)) ?c \<and> (\<forall>(c, used) \<in> set cs1. qualified_pred c)"
  proof (cases found)
    case None
    then show ?thesis using find_join_condition_None [of cur "expr_tables t" cs cs1] f Cons.prems(4)
      by (simp add: in_scope_def condition_tables_def)
  next
    case (Some c)
    then obtain xs ys where c: "is_column_equi c" "usable_condition cur (expr_tables t) c"
      "cs = xs @ (c, False) # ys" "cs1 = xs @ (c, True) # ys"
      using find_join_condition_Some f by blast
    have "qualified_pred c" using Cons.prems(4) c(3) by simp
    with usable_in_scope [OF c(1) _ c(2)] Cons.prems(4) c(3,4) Some show ?thesis by auto
  qed
  then have scope: "in_scope (set cur \<union> set (expr_tables t)) ?c" and q: "\<forall>(c, used) \<in> set cs1. qualified_pred c" by auto
  have "scoped_tree (Join Inner ?c current t)"
    using Cons.prems(1-3) scope by (intro scoped_tree.join) (auto intro: scoped_tree.base)
  moreover have "join_loop (Join Inner ?c current t) (cur @ expr_tables t) ts cs1 = (result, cs')"
    using Cons.prems(5) f by simp
  ultimately show ?case
    using Cons.IH [of "Join Inner ?c current t" "cur @ expr_tables t" cs1] Cons.prems(2,3) q by simp
qed simp

lemma push_scoped:
  "push_single_table_filter tree pred target = Some t' \<Longrightarrow> scoped_tree tree \<Longrightarrow> in_scope {target} pred \<Longrightarrow> scoped_tree t'"
proof (induction tree arbitrary: t' rule: measure_induct_rule [where f = size])
  case (less tree)
  from less.prems(1) show ?case
  proof (cases rule: push_cases)
    case leaf
    then show ?thesis using less.prems(2,3) by (auto intro: scoped_tree.filter_by)
  next
    case (left jt c l r l')
    then show ?thesis using less.IH [of l l'] less.prems(2,3) push_tables [OF left(3)]
      by (simp add: scoped_tree_Join)
  next
    case (right jt c l r r')
    then show ?thesis using less.IH [of r r'] less.prems(2,3) push_tables [OF right(3)]
      by (simp add: scoped_tree_Join)
  qed
qed


lemma place_residuals_scoped:
  assumes "fold place_residual rs (cur, rest) = (cur', rest')" "scoped_tree cur" "\<forall>c \<in> set rs. qualified_pred c"
  shows "scoped_tree cur' \<and> expr_tables cur' = expr_tables cur \<and> set rest' \<subseteq> set rest \<union> set rs"
  using assms
proof (induction rs arbitrary: cur rest)
  case (Cons c rs)
  show ?case
  proof (cases rule: place_residual_cases [of c cur rest])
    case (pushed target t)
    then have "in_scope {target} c" using Cons.prems(3) by (simp add: in_scope_def)
    with push_scoped [OF pushed(2) Cons.prems(2)] push_tables [OF pushed(2)] Cons.IH [of t rest] Cons.prems pushed(3)
    show ?thesis by auto
  next
    case kept
    with Cons.IH [of cur "rest @ [c]"] Cons.prems show ?thesis by auto
  qed
qed simp

lemma build_join_tree_scoped:
  assumes "ts \<noteq> []" "\<forall>t \<in> set ts. is_base t" "\<forall>c \<in> set cs. in_scope (set (concat (map expr_tables ts))) c"
  shows "scoped_tree (build_join_tree ts cs) \<and> expr_tables (build_join_tree ts cs) = concat (map expr_tables ts)"
proof -
  obtain t ts' where ts: "ts = t # ts'" using assms(1) by (cases ts) auto
  obtain cur cs' where loop: "join_loop t (expr_tables t) ts' (map (\<lambda>c. (c, False)) cs) = (cur, cs')" by fastforce
  have "scoped_tree t" using assms(2) ts by (auto intro: scoped_tree.base)
  from join_loop_scoped [OF this refl _ _ loop] have cur: "scoped_tree cur" "expr_tables cur = concat (map expr_tables ts)"
    using assms(2,3) by (auto simp: ts in_scope_def)
  have "extract_tables_and_conditions t = Inr ([t], [])" using assms(2) ts by (simp add: extract_base)
  from join_loop_extract [OF this _ _ loop] have cs': "map fst cs' = cs"
    using assms(2) by (auto simp: ts used_conditions_def comp_def)
  let ?rs = "map fst (filter (\<lambda>(c, used). \<not> used) cs')"
  have rs: "set ?rs \<subseteq> set cs" using residual_conditions [of cs'] cs' by auto
  obtain cur' rest where placed: "fold place_residual ?rs (cur, []) = (cur', rest)" by fastforce
  have "\<forall>c \<in> set ?rs. qualified_pred c" using rs assms(3) unfolding in_scope_def by blast
  from place_residuals_scoped [OF placed cur(1) this] rs
  have cur': "scoped_tree cur'" "expr_tables cur' = expr_tables cur" "set rest \<subseteq> set cs" by auto
  have "build_join_tree ts cs = apply_top (cur', rest)"
    using loop placed by (simp add: build_join_tree_def ts)
  moreover have "scoped_tree (apply_top (cur', rest)) \<and> expr_tables (apply_top (cur', rest)) = expr_tables cur'"
  proof (cases rest)
    case (Cons c ds)
    have "in_scope (set (expr_tables cur')) (foldl (BinOp And) c ds)"
      using cur'(3) assms(3) unfolding in_scope_foldl Cons [symmetric] cur'(2) cur(2) by blast
    with Cons cur'(1) show ?thesis by (auto simp: apply_top_def intro: scoped_tree.filter_by)
  qed (use cur'(1) in \<open>simp add: apply_top_def\<close>)
  ultimately show ?thesis using cur cur' by simp
qed

lemma extract_in_scope:
  "scoped_tree t \<Longrightarrow> extract_tables_and_conditions t = Inr (ts, cs) \<Longrightarrow> c \<in> set cs \<Longrightarrow> in_scope (set (expr_tables t)) c"
proof (induction arbitrary: ts cs c rule: scoped_tree.induct)
  case (base b)
  then show ?case by (simp add: extract_base)
next
  case (join jt l r d)
  from join.prems obtain ts1 cs1 ts2 cs2 where "extract_tables_and_conditions l = Inr (ts1, cs1)"
    "extract_tables_and_conditions r = Inr (ts2, cs2)" "c \<in> {d} \<union> set cs1 \<union> set cs2"
    by (auto simp: join_parts_Inr split: if_splits)
  then show ?case using join.IH(1) [of ts1 cs1 c] join.IH(2) [of ts2 cs2 c] join.hyps(4)
    by (auto intro: in_scope_mono)
next
  case (parallel jt l r d w)
  from parallel.prems obtain ts1 cs1 ts2 cs2 where "extract_tables_and_conditions l = Inr (ts1, cs1)"
    "extract_tables_and_conditions r = Inr (ts2, cs2)" "c \<in> {d} \<union> set cs1 \<union> set cs2"
    by (auto simp: join_parts_Inr split: if_splits)
  then show ?case using parallel.IH(1) [of ts1 cs1 c] parallel.IH(2) [of ts2 cs2 c] parallel.hyps(4)
    by (auto intro: in_scope_mono)
next
  case (filter_by i p)
  then show ?case by (auto simp: bind_result_Inr)
qed

end
