(* ===== verification/Left_Deep_Rows.thy ===== *)
theory Left_Deep_Rows
  imports Left_Deep_Sound
begin

text \<open>
  The rows of join trees: a tree of inner joins over differently named relations gives the
  product of the relations, filtered by all conditions of the tree, so trees with the same
  relations and the same conditions have the same rows. The rebuilt tree of the theory
  \<^verbatim>\<open>Left_Deep\<close> is such a tree.
\<close>

subsection \<open>The rows of a join tree\<close>

text \<open>\<open>rows_of\<close> gives the rows of the base relations, \<open>p\<close> says which rows satisfy a condition.\<close>

function tree_rows :: "(rel_expr \<Rightarrow> env list) \<Rightarrow> (expr \<Rightarrow> env \<Rightarrow> bool) \<Rightarrow> rel_expr \<Rightarrow> env list" where
  "tree_rows rows_of p t = (case t of
     Join jt c l r \<Rightarrow> join_rows jt (set (expr_tables r)) (p c) (tree_rows rows_of p l) (tree_rows rows_of p r)
   | ParallelHashJoin jt c l r w \<Rightarrow>
       join_rows jt (set (expr_tables r)) (p c) (tree_rows rows_of p l) (tree_rows rows_of p r)
   | Filter c i \<Rightarrow> filter (p c) (tree_rows rows_of p i)
   | _ \<Rightarrow> rows_of t)"
  by pat_completeness auto
termination by (relation "measure (\<lambda>(r, p, t). size t)") auto

declare tree_rows.simps [simp del]

lemma tree_rows_simps [simp]:
  "tree_rows rows_of p (Join jt c l r)
    = join_rows jt (set (expr_tables r)) (p c) (tree_rows rows_of p l) (tree_rows rows_of p r)"
  "tree_rows rows_of p (ParallelHashJoin jt c l r w)
    = join_rows jt (set (expr_tables r)) (p c) (tree_rows rows_of p l) (tree_rows rows_of p r)"
  "tree_rows rows_of p (Filter c i) = filter (p c) (tree_rows rows_of p i)"
  by (simp_all add: tree_rows.simps)

lemma tree_rows_base: "is_base b \<Longrightarrow> tree_rows rows_of p b = rows_of b"
  by (cases b) (simp_all add: is_base_def tree_rows.simps)


subsection \<open>Products of relations\<close>

text \<open>The rows of a relation give values only to the columns that are qualified with its name.\<close>

definition row_over :: "string set \<Rightarrow> env \<Rightarrow> bool" where
  "row_over S e \<longleftrightarrow> (\<forall>c. e c \<noteq> NullC \<longrightarrow> (\<exists>t \<in> S. cr_table c = Some t))"

definition merge_rows :: "env \<Rightarrow> env \<Rightarrow> env" where
  "merge_rows l r = (\<lambda>c. if l c = NullC then r c else l c)"

definition cross_rows :: "env multiset \<Rightarrow> env multiset \<Rightarrow> env multiset" where
  "cross_rows ls rs = (\<Sum>l \<in># ls. image_mset (merge_rows l) rs)"

fun product_rows :: "(rel_expr \<Rightarrow> env list) \<Rightarrow> rel_expr list \<Rightarrow> env multiset" where
  "product_rows rows_of [] = {#null_row#}"
| "product_rows rows_of (b # bs) = cross_rows (mset (rows_of b)) (product_rows rows_of bs)"

lemma merge_rows_null [simp]: "merge_rows null_row = id" "merge_rows r null_row = r"
  by (simp_all add: merge_rows_def null_row_def fun_eq_iff)

lemma merge_rows_assoc: "merge_rows (merge_rows a b) = (\<lambda>c. merge_rows a (merge_rows b c))"
  by (simp add: merge_rows_def fun_eq_iff)

lemma merge_rows_commute:
  "row_over S l \<Longrightarrow> row_over T r \<Longrightarrow> S \<inter> T = {} \<Longrightarrow> merge_rows l r = merge_rows r l"
  unfolding merge_rows_def row_over_def fun_eq_iff by (metis IntI empty_iff option.inject)

lemma row_over_merge: "row_over S l \<Longrightarrow> row_over T r \<Longrightarrow> row_over (S \<union> T) (merge_rows l r)"
  by (auto simp: row_over_def merge_rows_def split: if_splits)

lemma row_over_mono: "row_over S e \<Longrightarrow> S \<subseteq> T \<Longrightarrow> row_over T e"
  by (auto simp: row_over_def)

lemma cross_rows_empty [simp]: "cross_rows {#} rs = {#}"
  by (simp add: cross_rows_def)

lemma cross_rows_add [simp]:
  "cross_rows (add_mset l ls) rs = image_mset (merge_rows l) rs + cross_rows ls rs"
  by (simp add: cross_rows_def)

lemma cross_rows_union [simp]: "cross_rows (ls + ms) rs = cross_rows ls rs + cross_rows ms rs"
  by (simp add: cross_rows_def)

lemma cross_rows_null [simp]: "cross_rows {#null_row#} rs = rs"
  by simp

lemma cross_rows_null_right [simp]: "cross_rows ls {#null_row#} = ls"
  by (induction ls) simp_all

lemma cross_rows_empty_right [simp]: "cross_rows ls {#} = {#}"
  by (induction ls) simp_all

lemma cross_rows_add_right: "cross_rows ls (add_mset r rs) = image_mset (\<lambda>l. merge_rows l r) ls + cross_rows ls rs"
  by (induction ls) (simp_all add: ac_simps)

lemma cross_image: "cross_rows (image_mset (merge_rows l) rs) ks = image_mset (merge_rows l) (cross_rows rs ks)"
  by (induction rs) (simp_all add: merge_rows_assoc multiset.map_comp comp_def)

lemma cross_rows_assoc: "cross_rows (cross_rows ls rs) ks = cross_rows ls (cross_rows rs ks)"
  by (induction ls) (simp_all add: cross_image)

lemma set_cross_rows: "e \<in># cross_rows ls rs \<longleftrightarrow> (\<exists>l \<in># ls. \<exists>r \<in># rs. e = merge_rows l r)"
  by (induction ls) auto

lemma cross_rows_commute:
  assumes "\<forall>l \<in># ls. row_over S l" "\<forall>r \<in># rs. row_over T r" "S \<inter> T = {}"
  shows "cross_rows ls rs = cross_rows rs ls"
  using assms(1)
proof (induction ls)
  case (add l ls)
  have "image_mset (merge_rows l) rs = image_mset (\<lambda>r. merge_rows r l) rs"
    using add.prems assms(2,3) by (intro image_mset_cong merge_rows_commute) auto
  then show ?case using add by (simp add: cross_rows_add_right)
qed simp

lemma product_rows_append:
  "product_rows rows_of (xs @ ys) = cross_rows (product_rows rows_of xs) (product_rows rows_of ys)"
  by (induction xs) (simp_all add: cross_rows_assoc)

definition rows_named :: "(rel_expr \<Rightarrow> env list) \<Rightarrow> rel_expr \<Rightarrow> bool" where
  "rows_named rows_of b \<longleftrightarrow> (\<forall>e \<in> set (rows_of b). row_over (set (expr_tables b)) e)"

lemma product_rows_over:
  "\<forall>b \<in> set bs. rows_named rows_of b \<Longrightarrow> e \<in># product_rows rows_of bs \<Longrightarrow> row_over (set (concat (map expr_tables bs))) e"
proof (induction bs arbitrary: e)
  case Nil
  then show ?case by (simp add: row_over_def null_row_def)
next
  case (Cons b bs)
  then obtain l r where "l \<in> set (rows_of b)" "r \<in># product_rows rows_of bs" "e = merge_rows l r"
    by (auto simp: set_cross_rows)
  with Cons show ?case using row_over_merge [of "set (expr_tables b)" l "set (concat (map expr_tables bs))" r]
    by (simp add: rows_named_def)
qed

text \<open>The order of the relations does not matter.\<close>

lemma product_rows_perm:
  assumes "mset xs = mset ys" "distinct (concat (map expr_tables xs))" "\<forall>b \<in> set xs. rows_named rows_of b"
  shows "product_rows rows_of xs = product_rows rows_of ys"
  using assms
proof (induction xs arbitrary: ys)
  case (Cons x xs)
  then have "x \<in> set ys" by (metis list.set_intros(1) mset_eq_setD)
  then obtain as bs where ys: "ys = as @ x # bs" by (meson split_list)
  then have xs: "mset xs = mset (as @ bs)" using Cons.prems(1) by simp
  then have sets: "set xs = set as \<union> set bs" using mset_eq_setD [OF xs] by simp
  have IH: "product_rows rows_of xs = cross_rows (product_rows rows_of as) (product_rows rows_of bs)"
    using Cons.IH [OF xs] Cons.prems by (simp add: product_rows_append)
  have "set (expr_tables x) \<inter> set (concat (map expr_tables as)) = {}"
    using Cons.prems(2) sets by auto
  moreover have "\<forall>e \<in># product_rows rows_of as. row_over (set (concat (map expr_tables as))) e"
    using product_rows_over [of as rows_of] Cons.prems(3) sets by auto
  moreover have "\<forall>e \<in># mset (rows_of x). row_over (set (expr_tables x)) e"
    using Cons.prems(3) by (simp add: rows_named_def)
  ultimately have "cross_rows (mset (rows_of x)) (product_rows rows_of as)
      = cross_rows (product_rows rows_of as) (mset (rows_of x))"
    by (intro cross_rows_commute) auto
  then have "cross_rows (mset (rows_of x)) (product_rows rows_of xs)
      = cross_rows (cross_rows (product_rows rows_of as) (mset (rows_of x))) (product_rows rows_of bs)"
    unfolding IH by (metis cross_rows_assoc)
  then show ?case unfolding ys product_rows_append by (simp add: cross_rows_assoc)
qed simp


subsection \<open>Join trees are filtered products\<close>

text \<open>The meaning of a condition depends on the columns of the tables it names.\<close>

definition depends_on_scope :: "(expr \<Rightarrow> env \<Rightarrow> bool) \<Rightarrow> bool" where
  "depends_on_scope p \<longleftrightarrow> (\<forall>S c e e'. in_scope S c \<longrightarrow> (\<forall>col. (\<exists>t \<in> S. cr_table col = Some t) \<longrightarrow> e col = e' col) \<longrightarrow> p c e = p c e')"

lemma eval_expr_scope:
  "qualified_pred c \<Longrightarrow> (\<And>col t. cr_table col = Some t \<Longrightarrow> t \<in> set (condition_tables c) \<Longrightarrow> e col = e' col)
    \<Longrightarrow> eval_expr ar other e c = eval_expr ar other e' c"
proof (induction c rule: measure_induct_rule [where f = size])
  case (less c)
  show ?case
  proof (cases c)
    case (BinOp op l r)
    with less.IH [of l] less.IH [of r] less.prems show ?thesis by (simp add: set_condition_tables)
  next
    case (UnaryOp u x)
    with less.IH [of x] less.prems show ?thesis by (simp add: set_condition_tables)
  next
    case (Column col)
    with less.prems show ?thesis by (auto simp: set_condition_tables opt_list_def)
  qed (use less.prems(1) in \<open>simp_all add: qualified_pred.simps\<close>)
qed

lemma passes_depends: "depends_on_scope (passes ar other)"
  unfolding depends_on_scope_def passes_def in_scope_def
  by (intro allI impI arg_cong2 [where f = "(=)"] eval_expr_scope) auto

lemma mset_inner_rows:
  assumes "\<forall>l \<in> set ls. row_over S l" "\<forall>r \<in> set rs. row_over T r" "S \<inter> T = {}"
  shows "mset (inner_rows T cond ls rs) = filter_mset cond (cross_rows (mset ls) (mset rs))"
  using assms(1)
proof (induction ls)
  case (Cons l ls)
  have "combine T l r = merge_rows l r" if "r \<in> set rs" for r
    using Cons.prems assms(2,3) that unfolding combine_def merge_rows_def row_over_def fun_eq_iff
    by (metis IntI empty_iff list.set_intros(1) option.inject)
  then have eq: "map (combine T l) rs = map (merge_rows l) rs" by simp
  have "mset (matches T cond l rs) = filter_mset cond (image_mset (merge_rows l) (mset rs))"
    unfolding matches_def eq by simp
  then show ?case using Cons by (simp add: inner_rows_def)
qed (simp add: inner_rows_def)

lemma filter_cross_rows:
  assumes "\<And>l r. l \<in># ls \<Longrightarrow> r \<in># rs \<Longrightarrow> P (merge_rows l r) \<longleftrightarrow> Q l \<and> R r"
  shows "filter_mset P (cross_rows ls rs) = cross_rows (filter_mset Q ls) (filter_mset R rs)"
  using assms
proof (induction ls)
  case (add l ls)
  have "filter_mset (\<lambda>r. P (merge_rows l r)) rs = filter_mset (\<lambda>r. Q l \<and> R r) rs"
    using add.prems by (intro filter_mset_cong refl) auto
  then have "filter_mset P (image_mset (merge_rows l) rs) = (if Q l then image_mset (merge_rows l) (filter_mset R rs) else {#})"
    by (simp add: filter_mset_image_mset)
  then show ?case using add by simp
qed simp

definition filtered_product :: "(rel_expr \<Rightarrow> env list) \<Rightarrow> (expr \<Rightarrow> env \<Rightarrow> bool) \<Rightarrow> rel_expr list \<Rightarrow> expr list \<Rightarrow> env multiset" where
  "filtered_product rows_of p ts cs = filter_mset (\<lambda>e. \<forall>c \<in> set cs. p c e) (product_rows rows_of ts)"

lemma filtered_product_over:
  "\<forall>b \<in> set ts. rows_named rows_of b \<Longrightarrow> e \<in># filtered_product rows_of p ts cs \<Longrightarrow> row_over (set (concat (map expr_tables ts))) e"
  unfolding filtered_product_def by (rule product_rows_over) auto

text \<open>Joining two filtered products.\<close>

lemma join_filtered_products:
  assumes "depends_on_scope p" "S \<inter> T = {}"
    and "S = set (concat (map expr_tables ts1))" "T = set (concat (map expr_tables ts2))"
    and "\<forall>b \<in> set ts1 \<union> set ts2. rows_named rows_of b"
    and "\<forall>c \<in> set cs1. in_scope S c" "\<forall>c \<in> set cs2. in_scope T c"
  shows "cross_rows (filtered_product rows_of p ts1 cs1) (filtered_product rows_of p ts2 cs2)
    = filtered_product rows_of p (ts1 @ ts2) (cs1 @ cs2)"
  unfolding filtered_product_def product_rows_append
proof (rule filter_cross_rows [symmetric])
  fix l r assume "l \<in># product_rows rows_of ts1" "r \<in># product_rows rows_of ts2"
  then have over: "row_over S l" "row_over T r"
    using product_rows_over [of _ rows_of] assms(3-5) by auto
  have agree: "merge_rows l r col = l col" if "\<exists>t \<in> S. cr_table col = Some t" for col
    using over that assms(2) unfolding merge_rows_def row_over_def by (metis IntI empty_iff option.inject)
  have agree': "merge_rows l r col = r col" if "\<exists>t \<in> T. cr_table col = Some t" for col
    using over that assms(2) unfolding merge_rows_def row_over_def by (metis IntI empty_iff option.inject)
  have "p c (merge_rows l r) = p c l" if "c \<in> set cs1" for c
    using assms(1,6) that agree unfolding depends_on_scope_def by blast
  moreover have "p c (merge_rows l r) = p c r" if "c \<in> set cs2" for c
    using assms(1,7) that agree' unfolding depends_on_scope_def by blast
  ultimately show "(\<forall>c \<in> set (cs1 @ cs2). p c (merge_rows l r)) \<longleftrightarrow> (\<forall>c \<in> set cs1. p c l) \<and> (\<forall>c \<in> set cs2. p c r)"
    by auto
qed


definition holds_true :: "(expr \<Rightarrow> env \<Rightarrow> bool) \<Rightarrow> bool" where
  "holds_true p \<longleftrightarrow> (\<forall>e. p (Const (BoolC True)) e)"

lemma passes_true: "holds_true (passes ar other)"
  by (simp add: holds_true_def passes_def)

lemma join_step:
  assumes "jt = Inner \<or> jt = Cross" "scoped_tree l" "scoped_tree r" "depends_on_scope p" "holds_true p"
    and "extract_tables_and_conditions l = Inr (ts1, cs1)" "extract_tables_and_conditions r = Inr (ts2, cs2)"
    and "mset (tree_rows rows_of p l) = filtered_product rows_of p ts1 cs1"
    and "mset (tree_rows rows_of p r) = filtered_product rows_of p ts2 cs2"
    and "distinct (expr_tables l @ expr_tables r)" "\<forall>b \<in> set ts1 \<union> set ts2. rows_named rows_of b"
  shows "mset (join_rows jt (set (expr_tables r)) (p c) (tree_rows rows_of p l) (tree_rows rows_of p r))
    = filtered_product rows_of p (ts1 @ ts2) ((if c = Const (BoolC True) then [] else [c]) @ cs1 @ cs2)"
proof -
  have names: "expr_tables l = concat (map expr_tables ts1)" "expr_tables r = concat (map expr_tables ts2)"
    using extract_join_tree [OF scoped_tree_join_tree] assms(2,3,6,7) by fastforce+
  have disjoint: "set (expr_tables l) \<inter> set (expr_tables r) = {}" using assms(10) by simp
  have over: "\<forall>e \<in> set (tree_rows rows_of p l). row_over (set (expr_tables l)) e"
    "\<forall>e \<in> set (tree_rows rows_of p r). row_over (set (expr_tables r)) e"
    using filtered_product_over [of ts1 rows_of _ p cs1] filtered_product_over [of ts2 rows_of _ p cs2]
      assms(8,9,11) names by (metis UnI1 UnI2 set_mset_mset)+
  have "mset (join_rows jt (set (expr_tables r)) (p c) (tree_rows rows_of p l) (tree_rows rows_of p r))
      = filter_mset (p c) (cross_rows (mset (tree_rows rows_of p l)) (mset (tree_rows rows_of p r)))"
    using assms(1) mset_inner_rows [OF over disjoint] by (auto simp: join_rows_def)
  also have "\<dots> = filter_mset (p c) (filtered_product rows_of p (ts1 @ ts2) (cs1 @ cs2))"
    unfolding assms(8,9)
    by (subst join_filtered_products [OF assms(4) disjoint])
      (use names assms(11) extract_in_scope [OF assms(2,6)] extract_in_scope [OF assms(3,7)] in simp_all)
  also have "\<dots> = filtered_product rows_of p (ts1 @ ts2) ((if c = Const (BoolC True) then [] else [c]) @ cs1 @ cs2)"
    using assms(5) by (simp add: filtered_product_def filter_filter_mset holds_true_def conj_commute)
  finally show ?thesis .
qed

lemma tree_rows_product:
  assumes "scoped_tree t" "depends_on_scope p" "holds_true p"
    and "extract_tables_and_conditions t = Inr (ts, cs)" "distinct (expr_tables t)" "\<forall>b \<in> set ts. rows_named rows_of b"
  shows "mset (tree_rows rows_of p t) = filtered_product rows_of p ts cs"
  using assms(1,4-)
proof (induction arbitrary: ts cs rule: scoped_tree.induct)
  case (base b)
  then have "ts = [b]" "cs = []" by (simp_all add: extract_base)
  with base show ?case by (simp add: tree_rows_base filtered_product_def)
next
  case (join jt l r c)
  from join.prems(1) obtain ts1 cs1 ts2 cs2 where parts: "extract_tables_and_conditions l = Inr (ts1, cs1)"
    "extract_tables_and_conditions r = Inr (ts2, cs2)" "ts = ts1 @ ts2"
    "cs = (if c = Const (BoolC True) then [] else [c]) @ cs1 @ cs2" by (auto simp: join_parts_Inr)
  have "mset (tree_rows rows_of p l) = filtered_product rows_of p ts1 cs1"
    "mset (tree_rows rows_of p r) = filtered_product rows_of p ts2 cs2"
    using join.IH(1) [OF parts(1)] join.IH(2) [OF parts(2)] join.prems(2,3) parts(3) by simp_all
  from join_step [OF join.hyps(1-3) assms(2,3) parts(1,2) this] join.prems(2,3) parts(3,4) show ?case by simp
next
  case (parallel jt l r c w)
  from parallel.prems(1) obtain ts1 cs1 ts2 cs2 where parts: "extract_tables_and_conditions l = Inr (ts1, cs1)"
    "extract_tables_and_conditions r = Inr (ts2, cs2)" "ts = ts1 @ ts2"
    "cs = (if c = Const (BoolC True) then [] else [c]) @ cs1 @ cs2" by (auto simp: join_parts_Inr)
  have "mset (tree_rows rows_of p l) = filtered_product rows_of p ts1 cs1"
    "mset (tree_rows rows_of p r) = filtered_product rows_of p ts2 cs2"
    using parallel.IH(1) [OF parts(1)] parallel.IH(2) [OF parts(2)] parallel.prems(2,3) parts(3) by simp_all
  from join_step [OF parallel.hyps(1-3) assms(2,3) parts(1,2) this] parallel.prems(2,3) parts(3,4) show ?case by simp
next
  case (filter_by i c)
  from filter_by.prems(1) obtain cs' where parts: "extract_tables_and_conditions i = Inr (ts, cs')" "cs = c # cs'"
    by (auto simp: bind_result_Inr)
  have "mset (tree_rows rows_of p i) = filtered_product rows_of p ts cs'"
    using filter_by.IH [OF parts(1)] filter_by.prems(2,3) by simp
  then show ?case by (simp add: filtered_product_def filter_filter_mset parts(2) conj_commute)
qed

lemma passes_conjuncts: "passes ar other c e \<longleftrightarrow> (\<forall>d \<in> set (conjuncts c). passes ar other d e)"
proof (induction c rule: conjuncts.induct)
  case (1 c)
  show ?case
  proof (cases "\<exists>l r. c = BinOp And l r")
    case True
    then show ?thesis using 1 by (auto simp: passes_And)
  next
    case False
    then have "conjuncts c = [c]" by (subst conjuncts.simps) (auto split: expr.split bin_op.split)
    then show ?thesis by simp
  qed
qed

lemma passes_all_conjuncts:
  "(\<forall>c \<in> set cs. passes ar other c e) \<longleftrightarrow> (\<forall>d \<in> (\<Union>c \<in> set cs. set (conjuncts c)). passes ar other d e)"
proof -
  have "(\<forall>c \<in> set cs. passes ar other c e) \<longleftrightarrow> (\<forall>c \<in> set cs. \<forall>d \<in> set (conjuncts c). passes ar other d e)"
    by (intro ball_cong refl passes_conjuncts)
  then show ?thesis by simp
qed

subsection \<open>The rewrite\<close>

lemma eligible_simps [simp]:
  "is_left_deep_eligible (Join jt c l r) \<longleftrightarrow> (jt = Inner \<or> jt = Cross) \<and> is_left_deep_eligible l \<and> is_left_deep_eligible r"
  "is_left_deep_eligible (ParallelHashJoin jt c l r w) \<longleftrightarrow> (jt = Inner \<or> jt = Cross) \<and> is_left_deep_eligible l \<and> is_left_deep_eligible r"
  "is_left_deep_eligible (Filter q i) = is_left_deep_eligible i"
  "is_left_deep_eligible (Project pc i) = is_left_deep_eligible i"
  "is_left_deep_eligible (Aggregate g ag i) = is_left_deep_eligible i"
  "is_left_deep_eligible (Sort ks i) = is_left_deep_eligible i"
  "is_left_deep_eligible (Limit n off i) = is_left_deep_eligible i"
  "is_left_deep_eligible (Window fs i) = is_left_deep_eligible i"
  "is_left_deep_eligible (Distinct i) = is_left_deep_eligible i"
  "is_left_deep_eligible (IncrementalSort ps ss i) = is_left_deep_eligible i"
  "is_left_deep_eligible (TopK ta tb tm tk i) = is_left_deep_eligible i"
  "is_left_deep_eligible (GatherRel i w) = is_left_deep_eligible i"
  "is_left_deep_eligible (ParallelAggregate g ag i w) = is_left_deep_eligible i"
  by (simp_all add: is_left_deep_eligible.simps)

lemma count_tables_simps [simp]:
  "count_tables (Join jt c l r) = count_tables l + count_tables r"
  "count_tables (ParallelHashJoin jt c l r w) = count_tables l + count_tables r"
  "count_tables (Filter q i) = count_tables i"
  "count_tables (Project pc i) = count_tables i"
  "count_tables (Aggregate g ag i) = count_tables i"
  "count_tables (Sort ks i) = count_tables i"
  "count_tables (Limit n off i) = count_tables i"
  "count_tables (Window fs i) = count_tables i"
  "count_tables (Distinct i) = count_tables i"
  "count_tables (IncrementalSort ps ss i) = count_tables i"
  "count_tables (TopK ta tb tm tk i) = count_tables i"
  "count_tables (GatherRel i w) = count_tables i"
  "count_tables (ParallelAggregate g ag i w) = count_tables i"
  by (simp_all add: count_tables.simps)

lemma extract_unary [simp]:
  "extract_tables_and_conditions (Project pc i) = extract_tables_and_conditions i"
  "extract_tables_and_conditions (Aggregate g ag i) = extract_tables_and_conditions i"
  "extract_tables_and_conditions (Sort ks i) = extract_tables_and_conditions i"
  "extract_tables_and_conditions (Limit n off i) = extract_tables_and_conditions i"
  "extract_tables_and_conditions (Window fs i) = extract_tables_and_conditions i"
  "extract_tables_and_conditions (Distinct i) = extract_tables_and_conditions i"
  "extract_tables_and_conditions (IncrementalSort ps ss i) = extract_tables_and_conditions i"
  "extract_tables_and_conditions (TopK ta tb tm tk i) = extract_tables_and_conditions i"
  "extract_tables_and_conditions (GatherRel i w) = extract_tables_and_conditions i"
  "extract_tables_and_conditions (ParallelAggregate g ag i w) = extract_tables_and_conditions i"
  by (simp_all add: extract_tables_and_conditions.simps)

lemma count_tables_base: "is_base b \<Longrightarrow> count_tables b = 1"
  by (cases b) (simp_all add: is_base_def count_tables.simps)

lemma eligible_extract:
  "is_left_deep_eligible t \<Longrightarrow> \<exists>ts cs. extract_tables_and_conditions t = Inr (ts, cs) \<and> length ts = count_tables t
    \<and> (\<forall>b \<in> set ts. is_base b)"
proof (induction t rule: measure_induct_rule [where f = size])
  case (less t)
  show ?case
  proof (cases "is_base t")
    case True
    then show ?thesis by (simp add: extract_base count_tables_base)
  next
    case False
    show ?thesis
    proof (cases t)
      case (Join jt c l r)
      with less.prems less.IH [of l] less.IH [of r] show ?thesis by (fastforce simp: join_parts_def)
    next
      case (ParallelHashJoin jt c l r w)
      with less.prems less.IH [of l] less.IH [of r] show ?thesis by (fastforce simp: join_parts_def)
    next
      case (Filter q i)
      with less.prems less.IH [of i] show ?thesis by auto
    next
      case (Project pc i)
      with less.prems less.IH [of i] show ?thesis by auto
    next
      case (Aggregate g ag i)
      with less.prems less.IH [of i] show ?thesis by auto
    next
      case (Sort ks i)
      with less.prems less.IH [of i] show ?thesis by auto
    next
      case (Limit n off i)
      with less.prems less.IH [of i] show ?thesis by auto
    next
      case (Window fs i)
      with less.prems less.IH [of i] show ?thesis by auto
    next
      case (Distinct i)
      with less.prems less.IH [of i] show ?thesis by auto
    next
      case (IncrementalSort ps ss i)
      with less.prems less.IH [of i] show ?thesis by auto
    next
      case (TopK ta tb tm tk i)
      with less.prems less.IH [of i] show ?thesis by auto
    next
      case (GatherRel i w)
      with less.prems less.IH [of i] show ?thesis by auto
    next
      case (ParallelAggregate g ag i w)
      with less.prems less.IH [of i] show ?thesis by auto
    qed (use less.prems False in \<open>simp_all add: is_left_deep_eligible.simps\<close>)
  qed
qed


text \<open>Peeling and re-applying the outer operators are inverse.\<close>

lemma reapply_Cons [simp]: "reapply_outer_ops r (op # ops) = reapply_outer_op op (reapply_outer_ops r ops)"
  by (simp add: reapply_outer_ops_def)

lemma peel_outer_ops_spec:
  "peel_outer_ops e = (ops, sub) \<Longrightarrow> e = reapply_outer_ops sub ops
    \<and> is_left_deep_eligible e = is_left_deep_eligible sub \<and> count_tables e = count_tables sub"
proof (induction e arbitrary: ops rule: measure_induct_rule [where f = size])
  case (less e)
  have step: ?case if sub: "peel_outer_ops e = map_prod (Cons op) id (peel_outer_ops i)" and smaller: "size i < size e"
    and same: "e = reapply_outer_op op i" "is_left_deep_eligible e = is_left_deep_eligible i" "count_tables e = count_tables i"
    for op i
  proof -
    obtain ops' where "ops = op # ops'" "peel_outer_ops i = (ops', sub)"
      using sub less.prems by (cases "peel_outer_ops i") auto
    with less.IH [OF smaller] same show ?thesis by auto
  qed
  have stop: ?case if "peel_outer_ops e = ([], e)"
    using that less.prems by (auto simp: reapply_outer_ops_def)
  show ?case
  proof (cases e)
    case (Project pc i)
    then show ?thesis by (intro step [of "OuterProject pc" i]) (simp_all add: peel_outer_ops.simps reapply_outer_op_def)
  next
    case (Aggregate g ag i)
    then show ?thesis by (intro step [of "OuterAggregate g ag" i]) (simp_all add: peel_outer_ops.simps reapply_outer_op_def)
  next
    case (Sort ks i)
    then show ?thesis by (intro step [of "OuterSort ks" i]) (simp_all add: peel_outer_ops.simps reapply_outer_op_def)
  next
    case (Limit n off i)
    then show ?thesis by (intro step [of "OuterLimit n off" i]) (simp_all add: peel_outer_ops.simps reapply_outer_op_def)
  next
    case (Window fs i)
    then show ?thesis by (intro step [of "OuterWindow fs" i]) (simp_all add: peel_outer_ops.simps reapply_outer_op_def)
  next
    case (Distinct i)
    then show ?thesis by (intro step [of OuterDistinct i]) (simp_all add: peel_outer_ops.simps reapply_outer_op_def)
  qed (rule stop, simp add: peel_outer_ops.simps)+
qed

lemma build_eligible:
  assumes "can_use_left_deep e" "peel_outer_ops e = (ops, sub)" "extract_tables_and_conditions sub = Inr (ts, cs)"
  shows "build F stats e = Inr (reapply_outer_ops (build_join_tree (sort_by_rows F stats ts) cs) ops)"
    and "ts \<noteq> []" "\<forall>b \<in> set ts. is_base b"
proof -
  have "is_left_deep_eligible sub" "2 \<le> count_tables sub"
    using assms(1) peel_outer_ops_spec [OF assms(2)] by (auto simp: can_use_left_deep_def Let_def split: if_splits)
  with eligible_extract [of sub] assms(3) have "2 \<le> length ts" "\<forall>b \<in> set ts. is_base b" by auto
  then show "ts \<noteq> []" "\<forall>b \<in> set ts. is_base b"
    "build F stats e = Inr (reapply_outer_ops (build_join_tree (sort_by_rows F stats ts) cs) ops)"
    using assms(2,3) by (auto simp: build_def)
qed

lemma mset_concat_map: "mset (concat (map f xs)) = (\<Sum>x \<in># mset xs. mset (f x))"
  by (induction xs) simp_all

text \<open>On every eligible query \<^verbatim>\<open>LeftDeepBuilder::build\<close> succeeds, keeps the operators above
  the join tree in their order, and joins exactly the base relations of the old tree, each as
  often as before, under exactly the old predicates, up to how conjunctions are grouped.\<close>

lemma left_deep_keeps:
  assumes "can_use_left_deep e"
  shows "\<exists>ops sub sub' ts ts' cs cs'. e = reapply_outer_ops sub ops \<and> build F stats e = Inr (reapply_outer_ops sub' ops)
    \<and> extract_tables_and_conditions sub = Inr (ts, cs) \<and> extract_tables_and_conditions sub' = Inr (ts', cs')
    \<and> mset ts' = mset ts \<and> (\<Union>c \<in> set cs'. set (conjuncts c)) = (\<Union>c \<in> set cs. set (conjuncts c))"
proof -
  obtain ops sub where peel: "peel_outer_ops e = (ops, sub)" by fastforce
  have "is_left_deep_eligible sub"
    using assms peel_outer_ops_spec [OF peel] by (auto simp: can_use_left_deep_def Let_def split: if_splits)
  then obtain ts cs where parts: "extract_tables_and_conditions sub = Inr (ts, cs)"
    using eligible_extract by blast
  note built_tree = build_eligible [OF assms peel parts]
  let ?ts = "sort_by_rows F stats ts"
  have "?ts \<noteq> []" using built_tree(2) length_sort_by_rows [of F stats ts] by force
  from build_join_tree_extract [OF this, of cs] built_tree(3) obtain us
    where "extract_tables_and_conditions (build_join_tree ?ts cs) = Inr (?ts, us)"
      "(\<Union>c \<in> set us. set (conjuncts c)) = (\<Union>c \<in> set cs. set (conjuncts c))" by auto
  with built_tree(1) peel_outer_ops_spec [OF peel] parts show ?thesis by (metis mset_sort_by_rows)
qed

text \<open>Claim C18. The rebuilt join tree has the rows of the old one, each as often, for every
  interpretation of the expressions that are no operators: when the tree has only base relations
  with different names, inner joins and filters, every condition is built from qualified
  columns, constants and operators and names only relations below it, and the rows of a
  relation have only its columns.\<close>

theorem left_deep_equivalent:
  assumes "can_use_left_deep e" "peel_outer_ops e = (ops, sub)"
    and "scoped_tree sub" "distinct (expr_tables sub)"
    and "\<forall>b. is_base b \<longrightarrow> rows_named rows_of b"
  shows "\<exists>sub'. build F stats e = Inr (reapply_outer_ops sub' ops)
    \<and> mset (tree_rows rows_of (passes ar other) sub') = mset (tree_rows rows_of (passes ar other) sub)"
proof -
  let ?p = "passes ar other"
  obtain ts cs where parts: "extract_tables_and_conditions sub = Inr (ts, cs)"
    and names: "expr_tables sub = concat (map expr_tables ts)"
    using extract_join_tree [OF scoped_tree_join_tree [OF assms(3)]] by blast
  note built_tree = build_eligible [OF assms(1,2) parts]
  let ?ts = "sort_by_rows F stats ts" and ?sub' = "build_join_tree (sort_by_rows F stats ts) cs"
  have ne: "?ts \<noteq> []" using built_tree(2) length_sort_by_rows [of F stats ts] by force
  have base: "\<forall>b \<in> set ?ts. is_base b" using built_tree(3) by simp
  have same: "set (concat (map expr_tables ?ts)) = set (expr_tables sub)" by (simp add: names)
  have "mset (concat (map expr_tables ?ts)) = mset (expr_tables sub)"
    by (simp add: names mset_concat_map)
  then have dist: "distinct (concat (map expr_tables ?ts))" using assms(4) by (metis mset_eq_imp_distinct_iff)
  have "\<forall>c \<in> set cs. in_scope (set (concat (map expr_tables ?ts))) c"
    using extract_in_scope [OF assms(3) parts] unfolding same by blast
  note scoped = build_join_tree_scoped [OF ne base this]
  obtain us where us: "extract_tables_and_conditions ?sub' = Inr (?ts, us)"
    "(\<Union>c \<in> set us. set (conjuncts c)) = (\<Union>c \<in> set cs. set (conjuncts c))"
    using build_join_tree_extract [OF ne base, of cs] by blast
  have "mset (tree_rows rows_of ?p ?sub') = filtered_product rows_of ?p ?ts us"
    using scoped us(1) dist assms(5) base
    by (intro tree_rows_product passes_depends passes_true) auto
  also have "product_rows rows_of ?ts = product_rows rows_of ts"
    using dist assms(5) base by (intro product_rows_perm) auto
  then have "filtered_product rows_of ?p ?ts us = filtered_product rows_of ?p ts cs"
    by (simp only: filtered_product_def passes_all_conjuncts us(2))
  also have "\<dots> = mset (tree_rows rows_of ?p sub)"
    using tree_rows_product [OF assms(3) passes_depends passes_true parts assms(4)] assms(5) built_tree(3) by simp
  finally show ?thesis using built_tree(1) by blast
qed


subsection \<open>An example, and what is lost\<close>

abbreviation column_of :: "string \<Rightarrow> string \<Rightarrow> expr" where
  "column_of t c \<equiv> Column (column_qualified t c)"

definition example_join :: rel_expr where
  "example_join = Filter (BinOp Gt (column_of ''b'' ''y'') (Const (IntC 0)))
     (Join Inner (BinOp Eq (column_of ''a'' ''x'') (column_of ''b'' ''y'')) (rel_scan ''a'') (rel_scan ''b''))"

lemma left_deep_scans [simp]:
  "is_base (rel_scan t)" "expr_tables (rel_scan t) = [t]" "is_left_deep_eligible (rel_scan t)"
  "peel_outer_ops (Filter p i) = ([], Filter p i)" "peel_outer_ops (Join jt c l r) = ([], Join jt c l r)"
  by (simp_all add: rel_scan_def is_base_def expr_tables.simps is_left_deep_eligible.simps peel_outer_ops.simps)

lemma example_join_facts:
  "can_use_left_deep example_join" "peel_outer_ops example_join = ([], example_join)" "scoped_tree example_join"
  "distinct (expr_tables example_join)"
proof -
  show "scoped_tree example_join"
    unfolding example_join_def
    by (intro scoped_tree.filter_by scoped_tree.join scoped_tree.base)
      (simp_all add: in_scope_def set_condition_tables column_qualified_def opt_list_def)
qed (simp_all add: example_join_def can_use_left_deep_def count_tables_base)

definition example_rows :: "rel_expr \<Rightarrow> env list" where
  "example_rows b = (case expr_tables b of [n] \<Rightarrow> [bind n (\<lambda>c. IntC 1)] | _ \<Rightarrow> [])"

lemma left_deep_keeps_witness:
  "\<exists>sub' ts' cs'. build int_ops (\<lambda>_. None) example_join = Inr sub'
    \<and> extract_tables_and_conditions sub' = Inr (ts', cs') \<and> mset ts' = {#rel_scan ''a'', rel_scan ''b''#}"
proof -
  from left_deep_keeps [OF example_join_facts(1), of int_ops "\<lambda>_. None"] show ?thesis
  proof (elim exE conjE, goal_cases)
    case (1 ops sub sub' ts ts' cs cs')
    have "ops = []"
    proof (cases ops)
      case (Cons op ops')
      with 1(1) show ?thesis by (cases op) (simp_all add: example_join_def reapply_outer_op_def)
    qed
    then have "sub = example_join" using 1(1) by (simp add: reapply_outer_ops_def)
    then have "ts = [rel_scan ''a'', rel_scan ''b'']"
      using 1(3) by (simp add: example_join_def extract_base join_parts_def)
    then show ?case using 1(2,4,5) \<open>ops = []\<close>
      by (intro exI [of _ sub'] exI [of _ ts'] exI [of _ cs']) (simp add: reapply_outer_ops_def)
  qed
qed

definition equal_values :: "bin_op \<Rightarrow> const_value \<Rightarrow> const_value \<Rightarrow> const_value" where
  "equal_values op x y = BoolC (x = y)"

lemma left_deep_equivalent_witness:
  "\<exists>sub'. build int_ops (\<lambda>_. None) example_join = Inr sub'
    \<and> mset (tree_rows example_rows (passes equal_values (\<lambda>_ _. NullC)) sub') =
      mset (tree_rows example_rows (passes equal_values (\<lambda>_ _. NullC)) example_join)"
proof -
  have "rows_named example_rows b" if "is_base b" for b
    using expr_tables_base [OF that] by (auto simp: rows_named_def example_rows_def row_over_def bind_def split: if_splits)
  then show ?thesis
    using left_deep_equivalent [OF example_join_facts, of example_rows int_ops "\<lambda>_. None"
      equal_values "\<lambda>_ _. NullC"]
    by (simp add: reapply_outer_ops_def)
qed


text \<open>An operator between a filter and the join tree is lost: with \<^verbatim>\<open>HAVING\<close> the aggregation goes.\<close>

lemma having_loses_aggregate:
  fixes s t c k g a r
  defines "e \<equiv> Filter (BinOp Gt (column_of s c) (Const k))
    (Aggregate g a (Join Inner (Const (BoolC True)) (rel_scan s) (rel_scan t)))"
  shows "can_use_left_deep e \<and> (\<exists>sub'. build F stats e = Inr sub' \<and> join_tree sub')" and "\<not> join_tree (Aggregate g a r)"
proof -
  let ?h = "BinOp Gt (column_of s c) (Const k)"
  have ok: "can_use_left_deep e" by (simp add: e_def can_use_left_deep_def count_tables_base)
  have peel: "peel_outer_ops e = ([], e)" by (simp add: e_def)
  have parts: "extract_tables_and_conditions e = Inr ([rel_scan s, rel_scan t], [?h])"
    by (simp add: e_def extract_base join_parts_def)
  let ?ts = "sort_by_rows F stats [rel_scan s, rel_scan t]"
  have "?ts \<noteq> []" using length_sort_by_rows [of F stats "[rel_scan s, rel_scan t]"] by force
  moreover have "\<forall>b \<in> set ?ts. is_base b" by simp
  moreover have "\<forall>d \<in> set [?h]. in_scope (set (concat (map expr_tables ?ts))) d"
    by (simp add: in_scope_def set_condition_tables column_qualified_def opt_list_def)
  ultimately have "join_tree (build_join_tree ?ts [?h])"
    using build_join_tree_scoped scoped_tree_join_tree by blast
  moreover have "build F stats e = Inr (build_join_tree ?ts [?h])"
    using build_eligible(1) [OF ok peel parts, of F stats] by (simp add: reapply_outer_ops_def)
  ultimately show "can_use_left_deep e \<and> (\<exists>sub'. build F stats e = Inr sub' \<and> join_tree sub')"
    using ok by (intro conjI exI)
  show "\<not> join_tree (Aggregate g a r)" by (auto elim: join_tree.cases simp: is_base_def)
qed

text \<open>The tables below a cast, a \<^verbatim>\<open>CASE\<close> or a subscript are not seen: a join condition with a cast on
  one side counts as a filter of the other side's table and is pushed onto it, where the
  column under the cast is not in scope.\<close>

lemma cast_condition_pushed:
  fixes x y ty
  defines "c \<equiv> BinOp Eq (column_of ''a'' x) (Cast (column_of ''b'' y) ty)"
  shows "condition_tables c = [''a'']" "\<not> is_column_equi c"
    and "push_single_table_filter (Join Inner d (rel_scan ''a'') (rel_scan ''b'')) c ''a''
      = Some (Join Inner d (Filter c (rel_scan ''a'')) (rel_scan ''b''))"
proof -
  show "condition_tables c = [''a'']"
    by (simp add: c_def condition_tables_def collect_condition_tables.simps [of "Cast _ _"] column_qualified_def opt_list_def)
  show "\<not> is_column_equi c" by (simp add: c_def is_column_equi_def)
  have "push_single_table_filter (rel_scan ''a'') c ''a'' = Some (Filter c (rel_scan ''a''))"
    by (subst push_single_table_filter.simps) (simp add: rel_scan_def expr_tables.simps)
  then show "push_single_table_filter (Join Inner d (rel_scan ''a'') (rel_scan ''b'')) c ''a''
      = Some (Join Inner d (Filter c (rel_scan ''a'')) (rel_scan ''b''))"
    by (subst push_single_table_filter.simps) simp
qed

text \<open>An equation of unqualified columns becomes the first join's condition, wherever its columns
  come from.\<close>

lemma unqualified_equation_first:
  "find_join_condition cur new ((BinOp Eq (Column (column_new x)) (Column (column_new y)), False) # cs)
    = (Some (BinOp Eq (Column (column_new x)) (Column (column_new y))),
       (BinOp Eq (Column (column_new x)) (Column (column_new y)), True) # cs)"
  by (simp add: is_column_equi_def usable_condition_def condition_tables_def column_new_def opt_list_def)

text \<open>Called on a single table, \<^verbatim>\<open>build\<close> drops its filter. (The eligibility test asks for two.)\<close>

lemma single_table_filter_dropped: "build F stats (Filter p (rel_scan t)) = Inr (rel_scan t)"
  by (simp add: build_def extract_base reapply_outer_ops_def)

end
