(* ===== verification/Join_Graph.thy ===== *)
theory Join_Graph
  imports Algebra_Ops Statistics "HOL-Library.AList" "HOL-Library.List_Lexorder" "HOL-Library.Char_ord"
begin

text \<open>
  The join graph of a query (\<^verbatim>\<open>crates/ra-engine/src/join_graph.rs\<close>): its edges are the pairs of
  tables an equality of columns connects. The hash map of the edges is an association list, the
  set of tables a list without repetitions; nothing depends on their order.
\<close>

subsection \<open>The graph\<close>

record join_graph =
  jg_edges :: "((string \<times> string) \<times> expr list) list"
  jg_tables :: "string list"

definition join_graph_new :: join_graph where
  "join_graph_new = \<lparr>jg_edges = [], jg_tables = []\<rparr>"

text \<open>Strings are compared byte by byte.\<close>

definition edge_key :: "string \<Rightarrow> string \<Rightarrow> string \<times> string" where
  "edge_key t1 t2 = (if t1 < t2 then (t1, t2) else (t2, t1))"

definition add_edge :: "string \<Rightarrow> string \<Rightarrow> expr \<Rightarrow> join_graph \<Rightarrow> join_graph" where
  "add_edge t1 t2 p g =
    (let k = edge_key t1 t2; ps = (case map_of (jg_edges g) k of None \<Rightarrow> [] | Some ps \<Rightarrow> ps)
     in g\<lparr>jg_edges := AList.update k (ps @ [p]) (jg_edges g)\<rparr>)"

definition extract_table_from_expr :: "expr \<Rightarrow> string option" where
  "extract_table_from_expr e = (case e of Column c \<Rightarrow> cr_table c | _ \<Rightarrow> None)"

function extract_join_predicates :: "expr \<Rightarrow> join_graph \<Rightarrow> join_graph" where
  "extract_join_predicates e g = (case e of
     BinOp op l r \<Rightarrow>
       if op = Eq then
         (case (extract_table_from_expr l, extract_table_from_expr r) of
            (Some lt, Some rt) \<Rightarrow> if lt \<noteq> rt then add_edge lt rt e g else g
          | _ \<Rightarrow> g)
       else if op = And then extract_join_predicates r (extract_join_predicates l g)
       else g
   | _ \<Rightarrow> g)"
  by pat_completeness auto
termination by (relation "measure (size \<circ> fst)") auto

declare extract_join_predicates.simps [simp del]

function analyze_expr :: "rel_expr \<Rightarrow> join_graph \<Rightarrow> join_graph" where
  "analyze_expr r g = (case r of
     Scan t a only \<Rightarrow> g\<lparr>jg_tables := List.insert t (jg_tables g)\<rparr>
   | Join jt c left right \<Rightarrow> extract_join_predicates c (analyze_expr right (analyze_expr left g))
   | Filter p input \<Rightarrow> extract_join_predicates p (analyze_expr input g)
   | Project cs input \<Rightarrow> analyze_expr input g
   | Aggregate gb ag input \<Rightarrow> analyze_expr input g
   | Sort ks input \<Rightarrow> analyze_expr input g
   | Limit n off input \<Rightarrow> analyze_expr input g
   | Window fs input \<Rightarrow> analyze_expr input g
   | Distinct input \<Rightarrow> analyze_expr input g
   | UnionOp al left right \<Rightarrow> analyze_expr right (analyze_expr left g)
   | IntersectOp al left right \<Rightarrow> analyze_expr right (analyze_expr left g)
   | ExceptOp al left right \<Rightarrow> analyze_expr right (analyze_expr left g)
   | CTE n d b \<Rightarrow> analyze_expr b (analyze_expr d g)
   | RecursiveCTE n b rc body cyc \<Rightarrow> analyze_expr body (analyze_expr rc (analyze_expr b g))
   | _ \<Rightarrow> g)"
  by pat_completeness auto
termination by (relation "measure (size \<circ> fst)") auto

declare analyze_expr.simps [simp del]

definition from_expr :: "rel_expr \<Rightarrow> join_graph" where
  "from_expr r = analyze_expr r join_graph_new"

definition can_join :: "join_graph \<Rightarrow> string \<Rightarrow> string \<Rightarrow> bool" where
  "can_join g t1 t2 \<longleftrightarrow> map_of (jg_edges g) (edge_key t1 t2) \<noteq> None"

definition get_join_predicates :: "join_graph \<Rightarrow> string \<Rightarrow> string \<Rightarrow> expr list option" where
  "get_join_predicates g t1 t2 = map_of (jg_edges g) (edge_key t1 t2)"

definition edge_count :: "join_graph \<Rightarrow> nat" where
  "edge_count g = length (jg_edges g)"

subsection \<open>Connectedness\<close>

text \<open>The neighbours of \<open>t\<close> that are pushed, and the loop: the head of \<open>stack\<close> is its top.\<close>

definition new_neighbours :: "join_graph \<Rightarrow> string list \<Rightarrow> string \<Rightarrow> string list \<Rightarrow> string list" where
  "new_neighbours g tables t visited = filter (\<lambda>u. u \<noteq> t \<and> u \<notin> set visited \<and> can_join g t u) tables"

function visit_loop :: "join_graph \<Rightarrow> string list \<Rightarrow> string list \<Rightarrow> string list \<Rightarrow> string list" where
  "visit_loop g tables [] visited = visited"
| "visit_loop g tables (t # stack) visited =
    (if t \<in> set visited then visit_loop g tables stack visited
     else visit_loop g tables (rev (new_neighbours g tables t (t # visited)) @ stack) (t # visited))"
  by pat_completeness auto
termination
proof (relation "measures [\<lambda>(g, tables, stack, visited). card (set tables \<union> set stack - set visited),
    \<lambda>(g, tables, stack, visited). length stack]", goal_cases)
  case (2 g tables t stack visited)
  then have "set tables \<union> set stack - set visited = set tables \<union> set (t # stack) - set visited" by auto
  then show ?case by simp
next
  case (3 g tables t stack visited)
  have "set tables \<union> set (rev (new_neighbours g tables t (t # visited)) @ stack) - set (t # visited)
      \<subset> set tables \<union> set (t # stack) - set visited"
    using 3 by (auto simp: new_neighbours_def)
  then show ?case by (auto intro!: psubset_card_mono)
qed simp

definition is_connected :: "join_graph \<Rightarrow> string list \<Rightarrow> bool" where
  "is_connected g tables =
    (if length tables \<le> 1 then True else length (visit_loop g tables [hd tables] []) = length tables)"

subsection \<open>Statistics\<close>

record 'f join_graph_stats =
  js_table_count :: nat
  js_edge_count :: nat
  js_total_predicates :: nat
  js_avg_predicates_per_edge :: 'f
  js_max_predicates_per_edge :: nat

text \<open>\<open>of_usize\<close> is the conversion \<^verbatim>\<open>as f64\<close>.\<close>

definition graph_stats :: "('f, 'z) f64_ops_scheme \<Rightarrow> (nat \<Rightarrow> 'f) \<Rightarrow> join_graph \<Rightarrow> 'f join_graph_stats" where
  "graph_stats F of_usize g =
    (let counts = map (length \<circ> snd) (jg_edges g); n = sum_list counts in
     \<lparr>js_table_count = length (jg_tables g), js_edge_count = length (jg_edges g), js_total_predicates = n,
      js_avg_predicates_per_edge =
        (if jg_edges g = [] then f64_zero F else f64_div F (of_usize n) (of_usize (length (jg_edges g)))),
      js_max_predicates_per_edge = fold max counts 0\<rparr>)"

definition graph_density :: "('f, 'z) f64_ops_scheme \<Rightarrow> (nat \<Rightarrow> 'f) \<Rightarrow> 'f join_graph_stats \<Rightarrow> 'f" where
  "graph_density F of_usize s =
    (if js_table_count s \<le> 1 then f64_one F
     else f64_div F (of_usize (js_edge_count s)) (of_usize (js_table_count s * (js_table_count s - 1) div 2)))"

definition estimated_reduction_factor :: "('f, 'z) f64_ops_scheme \<Rightarrow> (nat \<Rightarrow> 'f) \<Rightarrow> 'f join_graph_stats \<Rightarrow> 'f" where
  "estimated_reduction_factor F of_usize s =
    (let d = graph_density F of_usize s in f64_sub F (f64_one F) (f64_mul F d d))"

subsection \<open>The loop finds what is reachable\<close>

lemma can_join_commute: "can_join g t u \<longleftrightarrow> can_join g u t"
  by (auto simp: can_join_def edge_key_def)

text \<open>One step between tables of the list.\<close>

definition joins :: "join_graph \<Rightarrow> string list \<Rightarrow> (string \<times> string) set" where
  "joins g tables = {(t, u). t \<in> set tables \<and> u \<in> set tables \<and> can_join g t u}"

lemma visit_loop_subset: "set visited \<union> set stack \<subseteq> set (visit_loop g tables stack visited)"
  by (induction g tables stack visited rule: visit_loop.induct) auto

lemma visit_loop_distinct: "distinct visited \<Longrightarrow> distinct (visit_loop g tables stack visited)"
  by (induction g tables stack visited rule: visit_loop.induct) auto

lemma visit_loop_sound:
  "set stack \<union> set visited \<subseteq> (joins g tables)\<^sup>* `` {root} \<inter> set tables \<Longrightarrow>
    set (visit_loop g tables stack visited) \<subseteq> (joins g tables)\<^sup>* `` {root} \<inter> set tables"
proof (induction g tables stack visited rule: visit_loop.induct)
  case (2 g tables t stack visited)
  show ?case
  proof (cases "t \<in> set visited")
    case True
    with 2 show ?thesis by simp
  next
    case False
    have "u \<in> (joins g tables)\<^sup>* `` {root} \<inter> set tables"
      if "u \<in> set (new_neighbours g tables t (t # visited))" for u
    proof -
      have "(t, u) \<in> joins g tables" using that 2(3) by (auto simp: joins_def new_neighbours_def)
      then show ?thesis using 2(3) that by (auto intro: rtrancl_into_rtrancl simp: new_neighbours_def)
    qed
    with 2 False show ?thesis by auto
  qed
qed simp

text \<open>What is visited is closed under the steps, but for the neighbours still on the stack.\<close>

lemma visit_loop_closed:
  "set stack \<union> set visited \<subseteq> set tables \<Longrightarrow> joins g tables `` set visited \<subseteq> set visited \<union> set stack \<Longrightarrow>
    joins g tables `` set (visit_loop g tables stack visited) \<subseteq> set (visit_loop g tables stack visited)"
proof (induction g tables stack visited rule: visit_loop.induct)
  case (2 g tables t stack visited)
  show ?case
  proof (cases "t \<in> set visited")
    case True
    with 2 show ?thesis by auto
  next
    case False
    let ?stack = "rev (new_neighbours g tables t (t # visited)) @ stack"
    have "set ?stack \<union> set (t # visited) \<subseteq> set tables" using 2(3) by (auto simp: new_neighbours_def)
    moreover have "joins g tables `` set (t # visited) \<subseteq> set (t # visited) \<union> set ?stack"
      using 2(4) by (auto simp: joins_def new_neighbours_def)
    ultimately show ?thesis using 2(2) [OF False] False by simp
  qed
qed simp

lemma visit_loop_reachable:
  assumes "root \<in> set tables"
  shows "set (visit_loop g tables [root] []) = (joins g tables)\<^sup>* `` {root} \<inter> set tables"
proof
  show "set (visit_loop g tables [root] []) \<subseteq> (joins g tables)\<^sup>* `` {root} \<inter> set tables"
    by (rule visit_loop_sound) (use assms in auto)
  have closed: "joins g tables `` set (visit_loop g tables [root] []) \<subseteq> set (visit_loop g tables [root] [])"
    by (rule visit_loop_closed) (use assms in auto)
  have "u \<in> set (visit_loop g tables [root] [])" if "(root, u) \<in> (joins g tables)\<^sup>*" for u
    using that
  proof induction
    case base
    show ?case using visit_loop_subset [of "[]" "[root]" g tables] by simp
  next
    case (step t u)
    then show ?case using closed by blast
  qed
  then show "(joins g tables)\<^sup>* `` {root} \<inter> set tables \<subseteq> set (visit_loop g tables [root] [])" by auto
qed

text \<open>Claim C39. The search of \<^verbatim>\<open>is_connected\<close> ends for every graph and every list of tables, and for
  tables that are all different its answer is whether every two of them are connected by a path
  of joinable pairs within the list.\<close>

theorem is_connected_spec:
  assumes "distinct tables"
  shows "is_connected g tables \<longleftrightarrow> (\<forall>t \<in> set tables. \<forall>u \<in> set tables. (t, u) \<in> (joins g tables)\<^sup>*)"
proof (cases "length tables \<le> 1")
  case True
  then show ?thesis by (cases tables) (auto simp: is_connected_def)
next
  case False
  then obtain root rest where tables: "tables = root # rest" by (cases tables) auto
  let ?V = "visit_loop g tables [root] []"
  have V: "set ?V = (joins g tables)\<^sup>* `` {root} \<inter> set tables"
    by (rule visit_loop_reachable) (simp add: tables)
  have "distinct ?V" by (rule visit_loop_distinct) simp
  then have "length ?V = card (set ?V)" by (simp add: distinct_card)
  moreover have "length tables = card (set tables)" using assms by (simp add: distinct_card)
  ultimately have "length ?V = length tables \<longleftrightarrow> set ?V = set tables"
    using V by (metis Int_lower2 List.finite_set card_subset_eq)
  then have "is_connected g tables \<longleftrightarrow> (\<forall>u \<in> set tables. (root, u) \<in> (joins g tables)\<^sup>*)"
    using False V by (auto simp: is_connected_def tables)
  moreover have "sym ((joins g tables)\<^sup>*)"
    by (rule sym_rtrancl) (auto simp: sym_def joins_def can_join_commute)
  ultimately show ?thesis by (auto simp: tables dest: symD intro: rtrancl_trans)
qed


text \<open>In the chain \<open>a - b - c\<close> the ends are connected, though no predicate joins them.\<close>

definition chain_column :: "string \<Rightarrow> expr" where
  "chain_column t = Column \<lparr>cr_table = Some t, cr_column = ''id''\<rparr>"

definition chain_query :: rel_expr where
  "chain_query = Join Inner (BinOp Eq (chain_column ''c'') (chain_column ''b''))
     (Join Inner (BinOp Eq (chain_column ''a'') (chain_column ''b''))
       (Scan ''a'' None False) (Scan ''b'' None False)) (Scan ''c'' None False)"

lemma chain_graph:
  "from_expr chain_query = \<lparr>jg_edges =
     [((''a'', ''b''), [BinOp Eq (chain_column ''a'') (chain_column ''b'')]),
      ((''b'', ''c''), [BinOp Eq (chain_column ''c'') (chain_column ''b'')])],
     jg_tables = [''c'', ''b'', ''a'']\<rparr>"
  by (simp add: from_expr_def chain_query_def analyze_expr.simps extract_join_predicates.simps add_edge_def
      edge_key_def extract_table_from_expr_def chain_column_def join_graph_new_def Let_def less_char_def)

theorem is_connected_spec_witness:
  "is_connected (from_expr chain_query) [''a'', ''b'', ''c''] \<and>
    \<not> can_join (from_expr chain_query) ''a'' ''c'' \<and>
    (''a'', ''c'') \<in> (joins (from_expr chain_query) [''a'', ''b'', ''c''])\<^sup>*"
proof -
  have "is_connected (from_expr chain_query) [''a'', ''b'', ''c'']"
    by (simp add: chain_graph is_connected_def new_neighbours_def can_join_def edge_key_def less_char_def)
  moreover have "\<not> can_join (from_expr chain_query) ''a'' ''c''"
    by (simp add: chain_graph can_join_def edge_key_def less_char_def)
  ultimately show ?thesis using is_connected_spec [of "[''a'', ''b'', ''c'']" "from_expr chain_query"] by simp
qed

subsection \<open>The edges of a query\<close>

text \<open>The equations between columns of two tables among the conjuncts of a predicate, and among the
  predicates \<^verbatim>\<open>analyze_expr\<close> reads, in its order.\<close>

function predicate_equations :: "expr \<Rightarrow> (string \<times> string \<times> expr) list" where
  "predicate_equations e = (case e of
     BinOp op l r \<Rightarrow>
       if op = Eq then
         (case (extract_table_from_expr l, extract_table_from_expr r) of
            (Some lt, Some rt) \<Rightarrow> if lt \<noteq> rt then [(lt, rt, e)] else []
          | _ \<Rightarrow> [])
       else if op = And then predicate_equations l @ predicate_equations r else []
   | _ \<Rightarrow> [])"
  by pat_completeness auto
termination by (relation "measure size") auto

declare predicate_equations.simps [simp del]

fun query_equations :: "rel_expr \<Rightarrow> (string \<times> string \<times> expr) list" where
  "query_equations (Join jt c left right) = query_equations left @ query_equations right @ predicate_equations c"
| "query_equations (Filter p input) = query_equations input @ predicate_equations p"
| "query_equations (Project cs input) = query_equations input"
| "query_equations (Aggregate gb ag input) = query_equations input"
| "query_equations (Sort ks input) = query_equations input"
| "query_equations (Limit n off input) = query_equations input"
| "query_equations (Window fs input) = query_equations input"
| "query_equations (Distinct input) = query_equations input"
| "query_equations (UnionOp al left right) = query_equations left @ query_equations right"
| "query_equations (IntersectOp al left right) = query_equations left @ query_equations right"
| "query_equations (ExceptOp al left right) = query_equations left @ query_equations right"
| "query_equations (CTE n d b) = query_equations d @ query_equations b"
| "query_equations (RecursiveCTE n b rc body cyc) = query_equations b @ query_equations rc @ query_equations body"
| "query_equations _ = []"

definition add_equation :: "string \<times> string \<times> expr \<Rightarrow> ((string \<times> string) \<times> expr list) list \<Rightarrow> ((string \<times> string) \<times> expr list) list" where
  "add_equation q edges = (case q of (t, u, e) \<Rightarrow> jg_edges (add_edge t u e \<lparr>jg_edges = edges, jg_tables = []\<rparr>))"

definition links :: "string \<Rightarrow> string \<Rightarrow> string \<times> string \<times> expr \<Rightarrow> bool" where
  "links t u q \<longleftrightarrow> (case q of (t', u', e) \<Rightarrow> edge_key t' u' = edge_key t u)"

lemma links_iff: "links t u (t', u', e) \<longleftrightarrow> {t', u'} = {t, u}"
  by (auto simp: links_def edge_key_def doubleton_eq_iff dest: less_asym)

lemma add_edge_edges: "jg_edges (add_edge t u e g) = add_equation (t, u, e) (jg_edges g)"
  by (simp add: add_equation_def add_edge_def Let_def)

lemma extract_join_predicates_edges:
  "jg_edges (extract_join_predicates e g) = fold add_equation (predicate_equations e) (jg_edges g)"
proof (induction e g rule: extract_join_predicates.induct)
  case (1 e g)
  show ?case
  proof (cases e)
    case (BinOp op l r)
    with 1 show ?thesis
      by (simp add: extract_join_predicates.simps [of "BinOp op l r"] predicate_equations.simps [of "BinOp op l r"]
          add_edge_edges split: option.splits)
  qed (subst extract_join_predicates.simps, subst predicate_equations.simps, simp)+
qed

lemma analyze_expr_edges: "jg_edges (analyze_expr r g) = fold add_equation (query_equations r) (jg_edges g)"
  by (induction r arbitrary: g rule: query_equations.induct)
    (subst analyze_expr.simps, simp add: extract_join_predicates_edges)+

lemma add_equation_lookup:
  "map_of (add_equation (t, u, e) edges) k =
    (if k = edge_key t u then Some ((case map_of edges k of None \<Rightarrow> [] | Some ps \<Rightarrow> ps) @ [e])
     else map_of edges k)"
  by (simp add: add_equation_def add_edge_def Let_def update_conv')

lemma add_equations_lookup:
  "map_of (fold add_equation eqs edges) (edge_key t u) =
    (let ps = map (snd \<circ> snd) (filter (links t u) eqs) in
     case map_of edges (edge_key t u) of
       None \<Rightarrow> if ps = [] then None else Some ps
     | Some qs \<Rightarrow> Some (qs @ ps))"
proof (induction eqs arbitrary: edges)
  case (Cons q eqs)
  obtain t' u' e where "q = (t', u', e)" by (cases q)
  with Cons [of "add_equation q edges"] show ?case
    by (auto simp: add_equation_lookup links_def Let_def split: option.splits)
qed (simp add: Let_def split: option.splits)

lemma add_equations_distinct: "distinct (map fst edges) \<Longrightarrow> distinct (map fst (fold add_equation eqs edges))"
  by (induction eqs arbitrary: edges)
    (auto simp: add_equation_def add_edge_def Let_def distinct_update split: prod.splits)

text \<open>The predicates the graph of a query keeps for two tables are exactly the equations between
  a column of one and a column of the other among the conjuncts of the query's joins and filters,
  in the order they are met, and two tables can be joined iff there is one. No pair of tables has
  two edges, so the number of edges is the number of pairs with an equation.\<close>

lemma join_graph_edges:
  "get_join_predicates (from_expr r) t u =
      (let ps = map (snd \<circ> snd) (filter (links t u) (query_equations r)) in if ps = [] then None else Some ps) \<and>
    (can_join (from_expr r) t u \<longleftrightarrow> (\<exists>(t', u', e) \<in> set (query_equations r). {t', u'} = {t, u})) \<and>
    edge_count (from_expr r) = card (dom (map_of (jg_edges (from_expr r))))"
proof (intro conjI)
  show get: "get_join_predicates (from_expr r) t u =
      (let ps = map (snd \<circ> snd) (filter (links t u) (query_equations r)) in if ps = [] then None else Some ps)"
    by (simp add: get_join_predicates_def from_expr_def analyze_expr_edges add_equations_lookup join_graph_new_def)
  show "can_join (from_expr r) t u \<longleftrightarrow> (\<exists>(t', u', e) \<in> set (query_equations r). {t', u'} = {t, u})"
    using get by (auto simp: get_join_predicates_def can_join_def Let_def filter_empty_conv links_iff Bex_def
        split: if_splits)
  have "distinct (map fst (jg_edges (from_expr r)))"
    unfolding from_expr_def analyze_expr_edges by (rule add_equations_distinct) (simp add: join_graph_new_def)
  then show "edge_count (from_expr r) = card (dom (map_of (jg_edges (from_expr r))))"
    by (metis edge_count_def dom_map_of_conv_image_fst distinct_card length_map set_map)
qed

end
