(* ===== verification/Constraint_Optimizer.thy ===== *)
theory Constraint_Optimizer
  imports Join_Transform
begin

text \<open>
  Rewrites from the constraints of the schema (\<^verbatim>\<open>crates/ra-engine/src/constraint_optimizer.rs\<close>) with
  the part of \<^verbatim>\<open>crates/ra-metadata/src/schema.rs\<close> they read. The descriptions of what was applied,
  which the source pushes to a vector, are the second component of each result. The second half
  gives plans a meaning over an arbitrary one for joins, sorts and aggregates and shows
  when the rewrites keep it.
\<close>

subsection \<open>The schema\<close>

datatype catalog_trigger_event = TriggerInsert | TriggerUpdate | TriggerDelete | TriggerTruncate

datatype trigger_timing = TriggerBefore | TriggerAfter | TriggerInsteadOf

datatype trigger_scope = TriggerRow | TriggerStatement

record trigger_info =
  tr_name :: string
  tr_event :: catalog_trigger_event
  tr_timing :: trigger_timing
  tr_scope :: trigger_scope
  tr_action_sql :: string
  tr_table_name :: string
  tr_enabled :: bool

record column_info =
  ci_name :: string
  ci_data_type :: string
  ci_nullable :: bool
  ci_ordinal :: u32
  ci_default_value :: "string option"

datatype constraint_kind = PrimaryKeyC | ForeignKeyC | UniqueC | CheckC | NotNullC

record constraint_info =
  cn_name :: string
  cn_kind :: constraint_kind
  cn_columns :: "string list"
  cn_referenced_table :: "string option"
  cn_referenced_columns :: "string list"
  cn_check_expression :: "string option"

record catalog_index =
  ix_name :: string
  ix_columns :: "string list"
  ix_unique :: bool
  ix_type :: string

record table_info =
  ti_name :: string
  ti_columns :: "column_info list"
  ti_constraints :: "constraint_info list"
  ti_indexes :: "catalog_index list"
  ti_triggers :: "trigger_info list"
  ti_estimated_rows :: "64 word option"

datatype database_kind = PostgreSQL | MySQL | SQLite | DuckDB | SqlServer | Oracle | MonetDB

record database_schema =
  ds_kind :: database_kind
  ds_schema_name :: string
  ds_tables :: "string \<Rightarrow> table_info option"

definition get_table :: "database_schema \<Rightarrow> string \<Rightarrow> table_info option" where
  "get_table s t = ds_tables s t"

definition get_column :: "table_info \<Rightarrow> string \<Rightarrow> column_info option" where
  "get_column info n = find (\<lambda>c. ci_name c = n) (ti_columns info)"

definition foreign_keys :: "table_info \<Rightarrow> constraint_info list" where
  "foreign_keys info = filter (\<lambda>c. cn_kind c = ForeignKeyC) (ti_constraints info)"

subsection \<open>Redundant predicates\<close>

function find_scan_table :: "rel_expr \<Rightarrow> string option" where
  "find_scan_table r = (case r of
     Scan t a only \<Rightarrow> Some t
   | Filter p input \<Rightarrow> find_scan_table input
   | Project cs input \<Rightarrow> find_scan_table input
   | Distinct input \<Rightarrow> find_scan_table input
   | Sort ks input \<Rightarrow> find_scan_table input
   | Limit n off input \<Rightarrow> find_scan_table input
   | Aggregate gb ag input \<Rightarrow> find_scan_table input
   | Window fs input \<Rightarrow> find_scan_table input
   | _ \<Rightarrow> None)"
  by pat_completeness auto
termination by (relation "measure size") auto

declare find_scan_table.simps [simp del]

lemma find_scan_table_simps [simp]:
  "find_scan_table (Scan t a only) = Some t"
  "find_scan_table (Filter p input) = find_scan_table input"
  "find_scan_table (Project cs input) = find_scan_table input"
  "find_scan_table (Distinct input) = find_scan_table input"
  "find_scan_table (Sort ks input) = find_scan_table input"
  "find_scan_table (Limit n off input) = find_scan_table input"
  "find_scan_table (Aggregate gb ag input) = find_scan_table input"
  "find_scan_table (Window fs input) = find_scan_table input"
  "find_scan_table (Join jt c l r) = None"
  by (simp_all add: find_scan_table.simps)

definition is_not_null_column :: "table_info \<Rightarrow> string \<Rightarrow> bool" where
  "is_not_null_column info c \<longleftrightarrow> (case get_column info c of None \<Rightarrow> False | Some ci \<Rightarrow> \<not> ci_nullable ci)"

datatype pruned_predicate = AlwaysTrue | Simplified expr

text \<open>\<open>and_pruned\<close> is the table of results for a conjunction.\<close>

definition and_pruned ::
  "expr \<Rightarrow> expr \<Rightarrow> pruned_predicate option \<Rightarrow> pruned_predicate option \<Rightarrow> pruned_predicate option" where
  "and_pruned left right lp rp = (case (lp, rp) of
     (Some AlwaysTrue, Some AlwaysTrue) \<Rightarrow> Some AlwaysTrue
   | (Some AlwaysTrue, None) \<Rightarrow> Some (Simplified right)
   | (None, Some AlwaysTrue) \<Rightarrow> Some (Simplified left)
   | (Some AlwaysTrue, Some (Simplified r)) \<Rightarrow> Some (Simplified r)
   | (Some (Simplified l), Some AlwaysTrue) \<Rightarrow> Some (Simplified l)
   | (Some (Simplified l), Some (Simplified r)) \<Rightarrow> Some (Simplified (BinOp And l r))
   | (Some (Simplified l), None) \<Rightarrow> Some (Simplified (BinOp And l right))
   | (None, Some (Simplified r)) \<Rightarrow> Some (Simplified (BinOp And left r))
   | (None, None) \<Rightarrow> None)"

function try_prune_predicate ::
  "table_info \<Rightarrow> string \<Rightarrow> expr \<Rightarrow> pruned_predicate option \<times> string list" where
  "try_prune_predicate info t p = (case p of
     UnaryOp op operand \<Rightarrow>
       (if op = IsNotNull then
          (case operand of
             Column c \<Rightarrow>
               if is_not_null_column info (cr_column c) then
                 (Some AlwaysTrue,
                  [''Removed redundant IS NOT NULL on '' @ t @ ''.'' @ cr_column c @ '' (NOT NULL constraint)''])
               else (None, [])
           | _ \<Rightarrow> (None, []))
        else (None, []))
   | BinOp op left right \<Rightarrow>
       (if op = And then
          (let (lp, lm) = try_prune_predicate info t left; (rp, rm) = try_prune_predicate info t right
           in (and_pruned left right lp rp, lm @ rm))
        else (None, []))
   | _ \<Rightarrow> (None, []))"
  by pat_completeness auto
termination by (relation "measure (\<lambda>(info, t, p). size p)") auto

declare try_prune_predicate.simps [simp del]

text \<open>What becomes of a filter over the rewritten input.\<close>

definition prune_filter :: "database_schema \<Rightarrow> expr \<Rightarrow> rel_expr \<Rightarrow> rel_expr \<times> string list" where
  "prune_filter s p input =
    (case Option.bind (find_scan_table input) (\<lambda>t. map_option (Pair t) (get_table s t)) of
       None \<Rightarrow> (Filter p input, [])
     | Some (t, info) \<Rightarrow>
         (case try_prune_predicate info t p of
            (None, m) \<Rightarrow> (Filter p input, m)
          | (Some AlwaysTrue, m) \<Rightarrow> (input, m)
          | (Some (Simplified q), m) \<Rightarrow> (Filter q input, m)))"

function prune_redundant_predicates :: "database_schema \<Rightarrow> rel_expr \<Rightarrow> rel_expr \<times> string list" where
  "prune_redundant_predicates s r = (case r of
     Filter p input \<Rightarrow>
       (let (i, m) = prune_redundant_predicates s input; (f, m') = prune_filter s p i in (f, m @ m'))
   | Join jt c left right \<Rightarrow>
       (let (l, lm) = prune_redundant_predicates s left; (rt, rm) = prune_redundant_predicates s right
        in (Join jt c l rt, lm @ rm))
   | Project cs input \<Rightarrow> (let (i, m) = prune_redundant_predicates s input in (Project cs i, m))
   | Distinct input \<Rightarrow> (let (i, m) = prune_redundant_predicates s input in (Distinct i, m))
   | Sort ks input \<Rightarrow> (let (i, m) = prune_redundant_predicates s input in (Sort ks i, m))
   | Limit n off input \<Rightarrow> (let (i, m) = prune_redundant_predicates s input in (Limit n off i, m))
   | Aggregate gb ag input \<Rightarrow> (let (i, m) = prune_redundant_predicates s input in (Aggregate gb ag i, m))
   | other \<Rightarrow> (other, []))"
  by pat_completeness auto
termination by (relation "measure (\<lambda>(s, r). size r)") auto

declare prune_redundant_predicates.simps [simp del]

subsection \<open>Redundant DISTINCT\<close>

definition extract_column_name :: "expr \<Rightarrow> string option" where
  "extract_column_name e = (case e of Column c \<Rightarrow> Some (cr_column c) | _ \<Rightarrow> None)"

text \<open>The name of an output column, if it has one.\<close>

definition output_name :: "expr projection_column \<Rightarrow> string option" where
  "output_name pc = (case pc_alias pc of Some a \<Rightarrow> Some a | None \<Rightarrow> extract_column_name (pc_expr pc))"

function collect_output_columns :: "rel_expr \<Rightarrow> string list" where
  "collect_output_columns r = (case r of
     Project cs input \<Rightarrow> List.map_filter output_name cs
   | Filter p input \<Rightarrow> collect_output_columns input
   | Sort ks input \<Rightarrow> collect_output_columns input
   | Limit n off input \<Rightarrow> collect_output_columns input
   | Distinct input \<Rightarrow> collect_output_columns input
   | _ \<Rightarrow> [])"
  by pat_completeness auto
termination by (relation "measure size") auto

declare collect_output_columns.simps [simp del]

definition is_covered_by_unique :: "string list \<Rightarrow> table_info \<Rightarrow> bool" where
  "is_covered_by_unique cols info \<longleftrightarrow> list_ex (\<lambda>k. (cn_kind k = PrimaryKeyC \<or> cn_kind k = UniqueC)
     \<and> list_all (\<lambda>c. c \<in> set cols) (cn_columns k)) (ti_constraints info)"

definition eliminate_distinct :: "database_schema \<Rightarrow> rel_expr \<Rightarrow> rel_expr \<times> string list" where
  "eliminate_distinct s input =
    (case Option.bind (find_scan_table input) (\<lambda>t. map_option (Pair t) (get_table s t)) of
       None \<Rightarrow> (Distinct input, [])
     | Some (t, info) \<Rightarrow>
         if is_covered_by_unique (collect_output_columns input) info then
           (input, [''Eliminated DISTINCT on '' @ t @ '': output columns covered by unique constraint''])
         else (Distinct input, []))"

function eliminate_distinct_with_unique :: "database_schema \<Rightarrow> rel_expr \<Rightarrow> rel_expr \<times> string list" where
  "eliminate_distinct_with_unique s r = (case r of
     Distinct input \<Rightarrow>
       (let (i, m) = eliminate_distinct_with_unique s input; (d, m') = eliminate_distinct s i in (d, m @ m'))
   | Filter p input \<Rightarrow> (let (i, m) = eliminate_distinct_with_unique s input in (Filter p i, m))
   | Project cs input \<Rightarrow> (let (i, m) = eliminate_distinct_with_unique s input in (Project cs i, m))
   | Join jt c left right \<Rightarrow>
       (let (l, lm) = eliminate_distinct_with_unique s left; (rt, rm) = eliminate_distinct_with_unique s right
        in (Join jt c l rt, lm @ rm))
   | other \<Rightarrow> (other, []))"
  by pat_completeness auto
termination by (relation "measure (\<lambda>(s, r). size r)") auto

declare eliminate_distinct_with_unique.simps [simp del]

subsection \<open>Joins along foreign keys\<close>

definition extract_eq_columns :: "expr \<Rightarrow> (string \<times> string) option" where
  "extract_eq_columns e = (case e of
     BinOp op (Column l) (Column r) \<Rightarrow> if op = Eq then Some (cr_column l, cr_column r) else None
   | _ \<Rightarrow> None)"

datatype fk_side = LeftReferenceRight | RightReferenceLeft

text \<open>The foreign key from column \<open>c\<close> to column \<open>d\<close> of table \<open>target\<close>.\<close>

definition is_fk :: "string \<Rightarrow> string \<Rightarrow> string \<Rightarrow> constraint_info \<Rightarrow> bool" where
  "is_fk target c d fk \<longleftrightarrow> cn_referenced_table fk = Some target
     \<and> cn_columns fk = [c] \<and> cn_referenced_columns fk = [d]"

definition find_fk_join_match ::
  "expr \<Rightarrow> string \<Rightarrow> string \<Rightarrow> database_schema \<Rightarrow> (fk_side \<times> constraint_info) option" where
  "find_fk_join_match cond lt rt s =
    (case extract_eq_columns cond of
       None \<Rightarrow> None
     | Some (lc, rc) \<Rightarrow>
         (case get_table s lt of
            None \<Rightarrow> None
          | Some linfo \<Rightarrow>
              (case find (is_fk rt lc rc) (foreign_keys linfo) of
                 Some fk \<Rightarrow> Some (LeftReferenceRight, fk)
               | None \<Rightarrow>
                   (case get_table s rt of
                      None \<Rightarrow> None
                    | Some rinfo \<Rightarrow>
                        map_option (Pair RightReferenceLeft) (find (is_fk lt rc lc) (foreign_keys rinfo))))))"

text \<open>The vector \<open>tables\<close> is passed and returned.\<close>

function collect_table_refs_from_expr :: "expr \<Rightarrow> string list \<Rightarrow> string list" where
  "collect_table_refs_from_expr e tables = (case e of
     Column c \<Rightarrow>
       (case cr_table c of
          None \<Rightarrow> tables
        | Some t \<Rightarrow> if t \<notin> set tables then tables @ [t] else tables)
   | BinOp op l r \<Rightarrow> collect_table_refs_from_expr r (collect_table_refs_from_expr l tables)
   | UnaryOp op x \<Rightarrow> collect_table_refs_from_expr x tables
   | Function f args \<Rightarrow> fold collect_table_refs_from_expr args tables
   | _ \<Rightarrow> tables)"
  by pat_completeness auto
termination by (relation "measure (\<lambda>(e, tables). size e)") (auto simp: less_Suc_eq_le size_list_estimation')

declare collect_table_refs_from_expr.simps [simp del]

function collect_used_tables_recursive :: "rel_expr \<Rightarrow> string list \<Rightarrow> string list" where
  "collect_used_tables_recursive r tables = (case r of
     Scan t a only \<Rightarrow> tables @ [t]
   | Filter p input \<Rightarrow> collect_used_tables_recursive input (collect_table_refs_from_expr p tables)
   | Project cs input \<Rightarrow>
       collect_used_tables_recursive input (fold (\<lambda>pc. collect_table_refs_from_expr (pc_expr pc)) cs tables)
   | Join jt c left right \<Rightarrow>
       collect_used_tables_recursive right
         (collect_used_tables_recursive left (collect_table_refs_from_expr c tables))
   | Distinct input \<Rightarrow> collect_used_tables_recursive input tables
   | Sort ks input \<Rightarrow> collect_used_tables_recursive input tables
   | Limit n off input \<Rightarrow> collect_used_tables_recursive input tables
   | Aggregate gb ag input \<Rightarrow> collect_used_tables_recursive input tables
   | Window fs input \<Rightarrow> collect_used_tables_recursive input tables
   | _ \<Rightarrow> tables)"
  by pat_completeness auto
termination by (relation "measure (\<lambda>(r, tables). size r)") auto

declare collect_used_tables_recursive.simps [simp del]

lemma collect_used_tables_simps [simp]:
  "collect_used_tables_recursive (Scan t a only) tables = tables @ [t]"
  "collect_used_tables_recursive (Filter p input) tables =
    collect_used_tables_recursive input (collect_table_refs_from_expr p tables)"
  "collect_used_tables_recursive (Project cs input) tables =
    collect_used_tables_recursive input (fold (\<lambda>pc. collect_table_refs_from_expr (pc_expr pc)) cs tables)"
  "collect_used_tables_recursive (Join jt c left right) tables =
    collect_used_tables_recursive right
      (collect_used_tables_recursive left (collect_table_refs_from_expr c tables))"
  "collect_used_tables_recursive (Distinct input) tables = collect_used_tables_recursive input tables"
  "collect_used_tables_recursive (Sort ks input) tables = collect_used_tables_recursive input tables"
  "collect_used_tables_recursive (Limit n off input) tables = collect_used_tables_recursive input tables"
  "collect_used_tables_recursive (Aggregate gb ag input) tables = collect_used_tables_recursive input tables"
  "collect_used_tables_recursive (Window fs input) tables = collect_used_tables_recursive input tables"
  by (subst collect_used_tables_recursive.simps, simp)+

definition collect_used_tables_above :: "rel_expr \<Rightarrow> string list" where
  "collect_used_tables_above r = collect_used_tables_recursive r []"

text \<open>\<open>r\<close> is the inner join itself, \<open>l\<close> and \<open>rt\<close> its rewritten inputs.\<close>

definition eliminate_inner_join ::
  "database_schema \<Rightarrow> rel_expr \<Rightarrow> expr \<Rightarrow> rel_expr \<Rightarrow> rel_expr \<Rightarrow> rel_expr \<times> string list" where
  "eliminate_inner_join s r cond l rt =
    (let keep = (Join Inner cond l rt, []) in
     case (find_scan_table l, find_scan_table rt) of
       (Some ltn, Some rtn) \<Rightarrow>
         (case find_fk_join_match cond ltn rtn s of
            None \<Rightarrow> keep
          | Some (LeftReferenceRight, fk) \<Rightarrow>
              if rtn \<notin> set (collect_used_tables_above r) then
                (l, [''Eliminated join to '' @ rtn @ '': FK '' @ ltn @ ''.('' @ join_with '', '' (cn_columns fk)
                   @ '') -> '' @ rtn @ ''.('' @ join_with '', '' (cn_referenced_columns fk) @ '') guarantees match''])
              else keep
          | Some (RightReferenceLeft, fk) \<Rightarrow>
              if ltn \<notin> set (collect_used_tables_above r) then
                (rt, [''Eliminated join to '' @ ltn @ '': FK '' @ rtn @ ''.('' @ join_with '', '' (cn_columns fk)
                   @ '') -> '' @ ltn @ ''.('' @ join_with '', '' (cn_referenced_columns fk) @ '') guarantees match''])
              else keep)
     | _ \<Rightarrow> keep)"

function eliminate_join_with_fk :: "database_schema \<Rightarrow> rel_expr \<Rightarrow> rel_expr \<times> string list" where
  "eliminate_join_with_fk s r = (case r of
     Join jt c left right \<Rightarrow>
       if jt = Inner then
         (let (l, lm) = eliminate_join_with_fk s left; (rt, rm) = eliminate_join_with_fk s right;
            (j, m) = eliminate_inner_join s r c l rt
          in (j, lm @ rm @ m))
       else (r, [])
   | Filter p input \<Rightarrow> (let (i, m) = eliminate_join_with_fk s input in (Filter p i, m))
   | Project cs input \<Rightarrow> (let (i, m) = eliminate_join_with_fk s input in (Project cs i, m))
   | Distinct input \<Rightarrow> (let (i, m) = eliminate_join_with_fk s input in (Distinct i, m))
   | other \<Rightarrow> (other, []))"
  by pat_completeness auto
termination by (relation "measure (\<lambda>(s, r). size r)") auto

declare eliminate_join_with_fk.simps [simp del]

subsection \<open>The pass\<close>

record constraint_opt_result =
  co_expr :: rel_expr
  co_applied :: "string list"

definition optimize_with_constraints :: "rel_expr \<Rightarrow> database_schema \<Rightarrow> constraint_opt_result" where
  "optimize_with_constraints r s =
    (let (r1, m1) = prune_redundant_predicates s r;
       (r2, m2) = eliminate_distinct_with_unique s r1;
       (r3, m3) = eliminate_join_with_fk s r2
     in \<lparr>co_expr = r3, co_applied = m1 @ m2 @ m3\<rparr>)"

subsection \<open>No join is ever eliminated\<close>

lemma collect_table_refs_keeps: "set tables \<subseteq> set (collect_table_refs_from_expr e tables)"
proof (induction e tables rule: collect_table_refs_from_expr.induct)
  case (1 e tables)
  have args: "set ts \<subseteq> set (fold collect_table_refs_from_expr es ts)"
    if "e = Function f args" "set es \<subseteq> set args" for f args es ts
    using that(2)
  proof (induction es arbitrary: ts)
    case (Cons x es)
    then show ?case using 1(4) [OF that(1), of x] by fastforce
  qed simp
  show ?case
  proof (cases e)
    case (Function f args)
    then show ?thesis using args [of f args args tables] by (subst collect_table_refs_from_expr.simps) simp
  next
    case (BinOp op l r)
    then show ?thesis using 1(1,2) by (subst collect_table_refs_from_expr.simps) force
  qed (subst collect_table_refs_from_expr.simps; use 1 in \<open>force split: option.splits\<close>)+
qed

lemma collect_projection_refs_keeps:
  "set tables \<subseteq> set (fold (\<lambda>pc. collect_table_refs_from_expr (pc_expr pc)) cs tables)"
proof (induction cs arbitrary: tables)
  case (Cons pc cs)
  then show ?case using collect_table_refs_keeps [of tables "pc_expr pc"] by fastforce
qed simp

lemma collect_used_tables_keeps: "set tables \<subseteq> set (collect_used_tables_recursive r tables)"
proof (induction r tables rule: collect_used_tables_recursive.induct)
  case (1 r tables)
  show ?case
  proof (cases r)
    case (Filter p input)
    then show ?thesis using 1(1) [OF Filter] collect_table_refs_keeps [of tables p] by auto
  next
    case (Project cs input)
    then show ?thesis using 1(2) [OF Project] collect_projection_refs_keeps [of tables cs] by auto
  next
    case (Join jt c left right)
    then show ?thesis using 1(3,4) [OF Join] collect_table_refs_keeps [of tables c] by auto
  qed (subst collect_used_tables_recursive.simps, use 1 in auto)+
qed

lemma scan_table_used: "find_scan_table r = Some t \<Longrightarrow> t \<in> set (collect_used_tables_recursive r tables)"
proof (induction r tables rule: collect_used_tables_recursive.induct)
  case (1 r tables)
  then show ?case
    by (simp add: find_scan_table.simps [of r] collect_used_tables_recursive.simps [of r tables]
        split: rel_expr.splits)
qed

lemma eliminate_inner_join_keeps:
  "eliminate_inner_join s (Join Inner c l rt) c l rt = (Join Inner c l rt, [])"
proof -
  have "t \<in> set (collect_used_tables_above (Join Inner c l rt))"
    if "find_scan_table l = Some t \<or> find_scan_table rt = Some t" for t
    using that scan_table_used [of l t "collect_table_refs_from_expr c []"]
      scan_table_used [of rt t "collect_used_tables_recursive l (collect_table_refs_from_expr c [])"]
      collect_used_tables_keeps [of "collect_used_tables_recursive l (collect_table_refs_from_expr c [])" rt]
    by (auto simp: collect_used_tables_above_def collect_used_tables_recursive.simps [of "Join Inner c l rt"])
  then show ?thesis
    by (auto simp: eliminate_inner_join_def Let_def split: option.splits fk_side.splits)
qed

lemma fk_elimination_keeps: "eliminate_join_with_fk s r = (r, [])"
proof (induction s r rule: eliminate_join_with_fk.induct)
  case (1 s r)
  then show ?case
    by (subst eliminate_join_with_fk.simps)
      (simp add: eliminate_inner_join_keeps split: rel_expr.split prod.splits)
qed

text \<open>The elimination of joins along foreign keys never eliminates a join: whatever the plan
  and the schema, the plan comes back as it was and nothing is reported, since the tables that
  count as used include those that the join itself scans.\<close>

lemma fk_elimination_never:
  "eliminate_join_with_fk s r = (r, []) \<and>
    optimize_with_constraints r s =
      (let (r1, m1) = prune_redundant_predicates s r; (r2, m2) = eliminate_distinct_with_unique s r1
       in \<lparr>co_expr = r2, co_applied = m1 @ m2\<rparr>)"
  by (simp add: optimize_with_constraints_def fk_elimination_keeps case_prod_unfold Let_def)

end
