(* ===== verification/Constraint_Sound.thy ===== *)
theory Constraint_Sound
  imports Constraint_Optimizer "HOL-Library.Multiset"
begin

text \<open>
  When the rewrites of \<open>Constraint_Optimizer\<close> keep the rows of a plan. The meaning of joins, sorts,
  projections and aggregates is a parameter; what is used of it is that a sort permutes the rows
  and that a projection's output columns have the values of its expressions. The tables satisfy
  the constraints of the schema.
\<close>

subsection \<open>The rows of a plan\<close>

record plan_ops =
  po_scan :: "string \<Rightarrow> string option \<Rightarrow> bool \<Rightarrow> env list"
  po_project :: "expr projection_column list \<Rightarrow> env \<Rightarrow> env"
  po_sort :: "expr sort_key list \<Rightarrow> env list \<Rightarrow> env list"
  po_join :: "join_type \<Rightarrow> expr \<Rightarrow> env list \<Rightarrow> env list \<Rightarrow> env list"
  po_aggregate :: "expr list \<Rightarrow> expr aggregate_expr list \<Rightarrow> env list \<Rightarrow> env list"
  po_other :: "rel_expr \<Rightarrow> env list"

function plan_env_rows :: "plan_ops \<Rightarrow> (expr \<Rightarrow> env \<Rightarrow> bool) \<Rightarrow> rel_expr \<Rightarrow> env list" where
  "plan_env_rows M p r = (case r of
     Scan t a only \<Rightarrow> po_scan M t a only
   | Filter q input \<Rightarrow> filter (p q) (plan_env_rows M p input)
   | Project cs input \<Rightarrow> map (po_project M cs) (plan_env_rows M p input)
   | Join jt c left right \<Rightarrow> po_join M jt c (plan_env_rows M p left) (plan_env_rows M p right)
   | Distinct input \<Rightarrow> remdups (plan_env_rows M p input)
   | Sort ks input \<Rightarrow> po_sort M ks (plan_env_rows M p input)
   | Limit n off input \<Rightarrow> take (unat n) (drop (unat off) (plan_env_rows M p input))
   | Aggregate gb ag input \<Rightarrow> po_aggregate M gb ag (plan_env_rows M p input)
   | _ \<Rightarrow> po_other M r)"
  by pat_completeness auto
termination by (relation "measure (\<lambda>(M, p, r). size r)") auto

declare plan_env_rows.simps [simp del]

lemma plan_env_rows_simps [simp]:
  "plan_env_rows M p (Scan t a only) = po_scan M t a only"
  "plan_env_rows M p (Filter q input) = filter (p q) (plan_env_rows M p input)"
  "plan_env_rows M p (Project cs input) = map (po_project M cs) (plan_env_rows M p input)"
  "plan_env_rows M p (Join jt c left right) = po_join M jt c (plan_env_rows M p left) (plan_env_rows M p right)"
  "plan_env_rows M p (Distinct input) = remdups (plan_env_rows M p input)"
  "plan_env_rows M p (Sort ks input) = po_sort M ks (plan_env_rows M p input)"
  "plan_env_rows M p (Limit n off input) = take (unat n) (drop (unat off) (plan_env_rows M p input))"
  "plan_env_rows M p (Aggregate gb ag input) = po_aggregate M gb ag (plan_env_rows M p input)"
  by (subst plan_env_rows.simps, simp)+

subsection \<open>Plans that read one table\<close>

text \<open>The scan whose rows a plan selects from, unchanged.\<close>

function base_chain :: "rel_expr \<Rightarrow> (string \<times> string option \<times> bool) option" where
  "base_chain r = (case r of
     Scan t a only \<Rightarrow> Some (t, a, only)
   | Filter p input \<Rightarrow> base_chain input
   | Sort ks input \<Rightarrow> base_chain input
   | Limit n off input \<Rightarrow> base_chain input
   | Distinct input \<Rightarrow> base_chain input
   | _ \<Rightarrow> None)"
  by pat_completeness auto
termination by (relation "measure size") auto

declare base_chain.simps [simp del]

lemma base_chain_simps [simp]:
  "base_chain (Scan t a only) = Some (t, a, only)"
  "base_chain (Filter p input) = base_chain input"
  "base_chain (Sort ks input) = base_chain input"
  "base_chain (Limit n off input) = base_chain input"
  "base_chain (Distinct input) = base_chain input"
  "base_chain (Project cs input) = None"
  "base_chain (Join jt c left right) = None"
  "base_chain (Aggregate gb ag input) = None"
  by (subst base_chain.simps, simp)+

text \<open>The projection of such a plan that a plan selects from.\<close>

function projected_chain :: "rel_expr \<Rightarrow> (expr projection_column list \<times> string \<times> string option \<times> bool) option" where
  "projected_chain r = (case r of
     Project cs input \<Rightarrow> map_option (Pair cs) (base_chain input)
   | Filter p input \<Rightarrow> projected_chain input
   | Sort ks input \<Rightarrow> projected_chain input
   | Limit n off input \<Rightarrow> projected_chain input
   | Distinct input \<Rightarrow> projected_chain input
   | _ \<Rightarrow> None)"
  by pat_completeness auto
termination by (relation "measure size") auto

declare projected_chain.simps [simp del]

lemma projected_chain_simps [simp]:
  "projected_chain (Scan t a only) = None"
  "projected_chain (Filter p input) = projected_chain input"
  "projected_chain (Sort ks input) = projected_chain input"
  "projected_chain (Limit n off input) = projected_chain input"
  "projected_chain (Distinct input) = projected_chain input"
  "projected_chain (Project cs input) = map_option (Pair cs) (base_chain input)"
  "projected_chain (Join jt c left right) = None"
  "projected_chain (Aggregate gb ag input) = None"
  by (subst projected_chain.simps, simp)+

text \<open>A reference to a column of the scan, by its alias or without a qualifier.\<close>

definition names_scan :: "string \<Rightarrow> string option \<Rightarrow> column_ref \<Rightarrow> bool" where
  "names_scan t a c \<longleftrightarrow> cr_table c = None \<or> cr_table c = Some (case a of None \<Rightarrow> t | Some x \<Rightarrow> x)"

subsection \<open>Constraints on the tables\<close>

definition key_kind :: "constraint_info \<Rightarrow> bool" where
  "key_kind k \<longleftrightarrow> cn_kind k = PrimaryKeyC \<or> cn_kind k = UniqueC"

text \<open>Two rows with the same key, all of it not null, do not occur.\<close>

definition rows_differ :: "string list \<Rightarrow> env \<Rightarrow> env \<Rightarrow> bool" where
  "rows_differ cols e f \<longleftrightarrow> (\<exists>n \<in> set cols. e (column_new n) \<noteq> f (column_new n) \<or> e (column_new n) = NullC)"

definition satisfies_schema :: "plan_ops \<Rightarrow> database_schema \<Rightarrow> bool" where
  "satisfies_schema M s \<longleftrightarrow> (\<forall>t a only info. get_table s t = Some info \<longrightarrow>
     (\<forall>env \<in> set (po_scan M t a only). \<forall>c. names_scan t a c \<longrightarrow>
        env c = env (column_new (cr_column c)) \<and> (is_not_null_column info (cr_column c) \<longrightarrow> env c \<noteq> NullC)) \<and>
     (\<forall>k \<in> set (ti_constraints info). key_kind k \<longrightarrow>
        sorted_wrt (rows_differ (cn_columns k)) (po_scan M t a only) \<and>
        (cn_kind k = PrimaryKeyC \<longrightarrow>
          (\<forall>env \<in> set (po_scan M t a only). \<forall>n \<in> set (cn_columns k). env (column_new n) \<noteq> NullC))))"

definition sort_permutes :: "plan_ops \<Rightarrow> bool" where
  "sort_permutes M \<longleftrightarrow> (\<forall>ks rows. mset (po_sort M ks rows) = mset rows)"

definition projects_columns ::
  "plan_ops \<Rightarrow> (bin_op \<Rightarrow> const_value \<Rightarrow> const_value \<Rightarrow> const_value) \<Rightarrow> (expr \<Rightarrow> env \<Rightarrow> const_value) \<Rightarrow> bool" where
  "projects_columns M ar other \<longleftrightarrow> (\<forall>cs n. n \<in> set (List.map_filter output_name cs) \<longrightarrow>
     (\<exists>pc \<in> set cs. output_name pc = Some n \<and>
       (\<forall>env. po_project M cs env (column_new n) = eval_expr ar other env (pc_expr pc))))"

subsection \<open>The plans the rewrites are right for\<close>

text \<open>The columns a predicate tests with \<^verbatim>\<open>IS NOT NULL\<close>, as \<^verbatim>\<open>try_prune_predicate\<close> finds them.\<close>

function tested_columns :: "expr \<Rightarrow> column_ref list" where
  "tested_columns p = (case p of
     UnaryOp op (Column c) \<Rightarrow> if op = IsNotNull then [c] else []
   | BinOp op l r \<Rightarrow> if op = And then tested_columns l @ tested_columns r else []
   | _ \<Rightarrow> [])"
  by pat_completeness auto
termination by (relation "measure size") auto

declare tested_columns.simps [simp del]

lemma tested_columns_And [simp]: "tested_columns (BinOp And l r) = tested_columns l @ tested_columns r"
  by (subst tested_columns.simps) simp

lemma tested_columns_IsNotNull [simp]: "tested_columns (UnaryOp IsNotNull (Column c)) = [c]"
  by (subst tested_columns.simps) simp

text \<open>Every tested column belongs to the scan the filter reads.\<close>

definition filter_ok :: "expr \<Rightarrow> rel_expr \<Rightarrow> bool" where
  "filter_ok q input \<longleftrightarrow> find_scan_table input = None \<or> tested_columns q = []
     \<or> (\<exists>t a only. base_chain input = Some (t, a, only) \<and> (\<forall>c \<in> set (tested_columns q). names_scan t a c))"

text \<open>The key columns among the output columns are columns of the scan under their own names, and
  a unique key has no nullable column.\<close>

definition key_output :: "table_info \<Rightarrow> string \<Rightarrow> string option \<Rightarrow> expr projection_column list \<Rightarrow> constraint_info \<Rightarrow> bool" where
  "key_output info t a cs k \<longleftrightarrow>
     (\<forall>pc \<in> set cs. \<forall>n \<in> set (cn_columns k). output_name pc = Some n \<longrightarrow>
        (\<exists>c. pc_expr pc = Column c \<and> cr_column c = n \<and> names_scan t a c)) \<and>
     (cn_kind k = PrimaryKeyC \<or> (\<forall>n \<in> set (cn_columns k). is_not_null_column info n))"

definition distinct_ok :: "database_schema \<Rightarrow> rel_expr \<Rightarrow> bool" where
  "distinct_ok s input \<longleftrightarrow> (\<forall>t info. find_scan_table input = Some t \<longrightarrow> get_table s t = Some info \<longrightarrow>
     is_covered_by_unique (collect_output_columns input) info \<longrightarrow>
     (\<exists>cs a only. projected_chain input = Some (cs, t, a, only) \<and>
       (\<forall>k \<in> set (ti_constraints info). key_kind k \<longrightarrow>
          set (cn_columns k) \<subseteq> set (collect_output_columns input) \<longrightarrow> key_output info t a cs k)))"

function filters_ok :: "rel_expr \<Rightarrow> bool" where
  "filters_ok r = (case r of
     Filter q input \<Rightarrow> filter_ok q input \<and> filters_ok input
   | Join jt c left right \<Rightarrow> filters_ok left \<and> filters_ok right
   | Project cs input \<Rightarrow> filters_ok input
   | Distinct input \<Rightarrow> filters_ok input
   | Sort ks input \<Rightarrow> filters_ok input
   | Limit n off input \<Rightarrow> filters_ok input
   | Aggregate gb ag input \<Rightarrow> filters_ok input
   | _ \<Rightarrow> True)"
  by pat_completeness auto
termination by (relation "measure size") auto

declare filters_ok.simps [simp del]

function distincts_ok :: "database_schema \<Rightarrow> rel_expr \<Rightarrow> bool" where
  "distincts_ok s r = (case r of
     Distinct input \<Rightarrow> distinct_ok s input \<and> distincts_ok s input
   | Filter q input \<Rightarrow> distincts_ok s input
   | Project cs input \<Rightarrow> distincts_ok s input
   | Join jt c left right \<Rightarrow> distincts_ok s left \<and> distincts_ok s right
   | _ \<Rightarrow> True)"
  by pat_completeness auto
termination by (relation "measure (\<lambda>(s, r). size r)") auto

declare distincts_ok.simps [simp del]

subsection \<open>Predicates\<close>

lemma try_prune_And:
  "fst (try_prune_predicate info t (BinOp And l r)) =
    and_pruned l r (fst (try_prune_predicate info t l)) (fst (try_prune_predicate info t r))"
  by (subst try_prune_predicate.simps) (simp add: case_prod_unfold Let_def)

lemma passes_IsNotNull: "passes ar other (UnaryOp IsNotNull (Column c)) env \<longleftrightarrow> env c \<noteq> NullC"
  by (simp add: passes_def eval_unop_def)

definition pruned_passes :: "(expr \<Rightarrow> env \<Rightarrow> bool) \<Rightarrow> expr \<Rightarrow> pruned_predicate option \<Rightarrow> env \<Rightarrow> bool" where
  "pruned_passes p q pr env = (case pr of
     None \<Rightarrow> p q env | Some AlwaysTrue \<Rightarrow> True | Some (Simplified q') \<Rightarrow> p q' env)"

lemma pruned_passes_simps [simp]:
  "pruned_passes p q None = p q"
  "pruned_passes p q (Some AlwaysTrue) = (\<lambda>env. True)"
  "pruned_passes p q (Some (Simplified q')) = p q'"
  by (simp_all add: pruned_passes_def fun_eq_iff)

lemma and_pruned_passes:
  "pruned_passes (passes ar other) (BinOp And l r) (and_pruned l r lp rp) env \<longleftrightarrow>
    pruned_passes (passes ar other) l lp env \<and> pruned_passes (passes ar other) r rp env"
  by (simp add: and_pruned_def pruned_passes_def passes_And split: option.splits pruned_predicate.splits)

lemma try_prune_passes:
  assumes "\<forall>c \<in> set (tested_columns q). is_not_null_column info (cr_column c) \<longrightarrow> env c \<noteq> NullC"
  shows "pruned_passes (passes ar other) q (fst (try_prune_predicate info t q)) env \<longleftrightarrow> passes ar other q env"
  using assms
proof (induction info t q rule: try_prune_predicate.induct)
  case (1 info t q)
  show ?case
  proof (cases "\<exists>l r. q = BinOp And l r")
    case True
    then obtain l r where q: "q = BinOp And l r" by blast
    show ?thesis using 1(1) [OF q refl] 1(2) [OF q refl refl prod.collapse] 1(3)
      by (simp add: q try_prune_And and_pruned_passes passes_And)
  next
    case no_And: False
    show ?thesis
    proof (cases "\<exists>c. q = UnaryOp IsNotNull (Column c)")
      case True
      then obtain c where q: "q = UnaryOp IsNotNull (Column c)" by blast
      with 1(3) show ?thesis
        by (simp add: q try_prune_predicate.simps [of info t "UnaryOp IsNotNull (Column c)"] passes_IsNotNull
            pruned_passes_def)
    next
      case False
      with no_And have "try_prune_predicate info t q = (None, [])"
        by (subst try_prune_predicate.simps) (simp split: expr.split)
      then show ?thesis by (simp add: pruned_passes_def)
    qed
  qed
qed

subsection \<open>Pruning keeps the rows\<close>

lemma prune_simps [simp]:
  "fst (prune_redundant_predicates s (Filter q input)) =
    fst (prune_filter s q (fst (prune_redundant_predicates s input)))"
  "fst (prune_redundant_predicates s (Join jt c left right)) =
    Join jt c (fst (prune_redundant_predicates s left)) (fst (prune_redundant_predicates s right))"
  "fst (prune_redundant_predicates s (Project cs input)) = Project cs (fst (prune_redundant_predicates s input))"
  "fst (prune_redundant_predicates s (Distinct input)) = Distinct (fst (prune_redundant_predicates s input))"
  "fst (prune_redundant_predicates s (Sort ks input)) = Sort ks (fst (prune_redundant_predicates s input))"
  "fst (prune_redundant_predicates s (Limit n off input)) = Limit n off (fst (prune_redundant_predicates s input))"
  "fst (prune_redundant_predicates s (Aggregate gb ag input)) =
    Aggregate gb ag (fst (prune_redundant_predicates s input))"
  by (subst prune_redundant_predicates.simps, simp add: case_prod_unfold Let_def)+

text \<open>The operators a rewrite goes below.\<close>

definition rewritten_node :: "rel_expr \<Rightarrow> bool" where
  "rewritten_node r = (case r of
     Filter q input \<Rightarrow> True | Join jt c left right \<Rightarrow> True | Project cs input \<Rightarrow> True | Distinct input \<Rightarrow> True
   | Sort ks input \<Rightarrow> True | Limit n off input \<Rightarrow> True | Aggregate gb ag input \<Rightarrow> True | _ \<Rightarrow> False)"

lemma prune_other: "\<not> rewritten_node r \<Longrightarrow> prune_redundant_predicates s r = (r, [])"
  by (subst prune_redundant_predicates.simps) (simp add: rewritten_node_def split: rel_expr.splits)

lemma plan_induct [case_names Filter Join Project Distinct Sort Limit Aggregate other]:
  assumes "\<And>q input. P input \<Longrightarrow> P (Filter q input)"
    and "\<And>jt c left right. P left \<Longrightarrow> P right \<Longrightarrow> P (Join jt c left right)"
    and "\<And>cs input. P input \<Longrightarrow> P (Project cs input)"
    and "\<And>input. P input \<Longrightarrow> P (Distinct input)"
    and "\<And>ks input. P input \<Longrightarrow> P (Sort ks input)"
    and "\<And>n off input. P input \<Longrightarrow> P (Limit n off input)"
    and "\<And>gb ag input. P input \<Longrightarrow> P (Aggregate gb ag input)"
    and "\<And>r. \<not> rewritten_node r \<Longrightarrow> P r"
  shows "P r"
proof (induction "size r" arbitrary: r rule: less_induct)
  case less
  show ?case
    by (cases r) (simp_all add: assms(1-7) less, (rule assms(8), simp add: rewritten_node_def)+)
qed

lemma prune_filter_shape: "fst (prune_filter s q input) = input \<or> (\<exists>q'. fst (prune_filter s q input) = Filter q' input)"
  by (simp add: prune_filter_def split: option.split prod.split pruned_predicate.split)

lemma collect_output_columns_simps [simp]:
  "collect_output_columns (Project cs input) = List.map_filter output_name cs"
  "collect_output_columns (Filter q input) = collect_output_columns input"
  "collect_output_columns (Sort ks input) = collect_output_columns input"
  "collect_output_columns (Limit n off input) = collect_output_columns input"
  "collect_output_columns (Distinct input) = collect_output_columns input"
  "collect_output_columns (Join jt c left right) = []"
  "collect_output_columns (Aggregate gb ag input) = []"
  by (subst collect_output_columns.simps, simp)+

text \<open>What the second rewrite looks at is not changed by the first.\<close>

lemma prune_chains [simp]:
  "find_scan_table (fst (prune_redundant_predicates s r)) = find_scan_table r"
  "base_chain (fst (prune_redundant_predicates s r)) = base_chain r"
  "projected_chain (fst (prune_redundant_predicates s r)) = projected_chain r"
  "collect_output_columns (fst (prune_redundant_predicates s r)) = collect_output_columns r"
proof -
  have "find_scan_table (fst (prune_redundant_predicates s r)) = find_scan_table r
    \<and> base_chain (fst (prune_redundant_predicates s r)) = base_chain r
    \<and> projected_chain (fst (prune_redundant_predicates s r)) = projected_chain r
    \<and> collect_output_columns (fst (prune_redundant_predicates s r)) = collect_output_columns r"
  proof (induction r rule: plan_induct)
    case (Filter q input)
    then show ?case using prune_filter_shape [of s q "fst (prune_redundant_predicates s input)"] by auto
  qed (simp_all add: prune_other)
  then show "find_scan_table (fst (prune_redundant_predicates s r)) = find_scan_table r"
    "base_chain (fst (prune_redundant_predicates s r)) = base_chain r"
    "projected_chain (fst (prune_redundant_predicates s r)) = projected_chain r"
    "collect_output_columns (fst (prune_redundant_predicates s r)) = collect_output_columns r" by auto
qed

lemma mset_take_drop_subset: "mset (take m (drop n xs)) \<subseteq># mset xs"
  by (metis append_take_drop_id mset_append mset_subset_eq_add_left mset_subset_eq_add_right
      subset_mset.order_trans)

text \<open>The rows of a chain are rows of its scan, none more often.\<close>

lemma base_chain_rows:
  assumes "sort_permutes M" "base_chain r = Some (t, a, only)"
  shows "mset (plan_env_rows M p r) \<subseteq># mset (po_scan M t a only)"
  using assms(2)
proof (induction r rule: base_chain.induct)
  case (1 r)
  show ?case
  proof (cases r)
    case (Filter q input)
    then show ?thesis using 1(1) [OF Filter] 1(5)
      by (auto intro: subset_mset.order_trans [OF multiset_filter_subset])
  next
    case (Sort ks input)
    then show ?thesis using 1(2) [OF Sort] 1(5) assms(1) by (simp add: sort_permutes_def)
  next
    case (Limit n off input)
    then show ?thesis using 1(3) [OF Limit] 1(5)
      by (auto intro: subset_mset.order_trans [OF mset_take_drop_subset])
  next
    case (Distinct input)
    then show ?thesis using 1(4) [OF Distinct] 1(5)
      by (auto intro: subset_mset.order_trans [OF mset_remdups_subset_eq])
  qed (use 1(5) in \<open>simp_all add: base_chain.simps\<close>)
qed

lemma base_chain_find: "base_chain r = Some (t, a, only) \<Longrightarrow> find_scan_table r = Some t"
proof (induction r rule: base_chain.induct)
  case (1 r)
  then show ?case by (subst find_scan_table.simps) (simp add: base_chain.simps [of r] split: rel_expr.splits)
qed

lemma prune_filter_rows:
  assumes "satisfies_schema M s" "sort_permutes M" "filter_ok q input"
  shows "plan_env_rows M (passes ar other) (fst (prune_filter s q input)) =
    filter (passes ar other q) (plan_env_rows M (passes ar other) input)"
proof (cases "Option.bind (find_scan_table input) (\<lambda>t. map_option (Pair t) (get_table s t))")
  case None
  then show ?thesis by (simp add: prune_filter_def)
next
  case (Some ti)
  then obtain t info where scan: "find_scan_table input = Some t" and info: "get_table s t = Some info"
    and ti: "ti = (t, info)" by (auto simp: bind_eq_Some_conv)
  let ?rows = "plan_env_rows M (passes ar other) input"
  let ?pr = "fst (try_prune_predicate info t q)"
  have "pruned_passes (passes ar other) q ?pr env \<longleftrightarrow> passes ar other q env" if env: "env \<in> set ?rows" for env
  proof (cases "tested_columns q = []")
    case True
    then show ?thesis by (intro try_prune_passes) simp
  next
    case False
    with assms(3) scan obtain t' a only where chain': "base_chain input = Some (t', a, only)"
      and names': "\<forall>c \<in> set (tested_columns q). names_scan t' a c"
      unfolding filter_ok_def by auto
    have "t' = t" using base_chain_find [OF chain'] scan by simp
    note chain = chain' [unfolded this] and names = names' [unfolded this]
    have "env \<in> set (po_scan M t a only)"
      using base_chain_rows [OF assms(2) chain] env by (metis mset_subset_eqD set_mset_mset)
    then have "\<forall>c \<in> set (tested_columns q). is_not_null_column info (cr_column c) \<longrightarrow> env c \<noteq> NullC"
      using assms(1) info names unfolding satisfies_schema_def by blast
    then show ?thesis by (rule try_prune_passes)
  qed
  then have "filter (pruned_passes (passes ar other) q ?pr) ?rows = filter (passes ar other q) ?rows"
    by (intro filter_cong) auto
  then show ?thesis
    by (cases "try_prune_predicate info t q")
      (auto simp: prune_filter_def scan info split: option.splits pruned_predicate.splits)
qed

lemma filters_ok_simps [simp]:
  "filters_ok (Filter q input) \<longleftrightarrow> filter_ok q input \<and> filters_ok input"
  "filters_ok (Join jt c left right) \<longleftrightarrow> filters_ok left \<and> filters_ok right"
  "filters_ok (Project cs input) \<longleftrightarrow> filters_ok input"
  "filters_ok (Distinct input) \<longleftrightarrow> filters_ok input"
  "filters_ok (Sort ks input) \<longleftrightarrow> filters_ok input"
  "filters_ok (Limit n off input) \<longleftrightarrow> filters_ok input"
  "filters_ok (Aggregate gb ag input) \<longleftrightarrow> filters_ok input"
  by (subst filters_ok.simps, simp)+

lemma prune_rows:
  assumes "satisfies_schema M s" "sort_permutes M" "filters_ok r"
  shows "plan_env_rows M (passes ar other) (fst (prune_redundant_predicates s r)) =
    plan_env_rows M (passes ar other) r"
  using assms(3)
proof (induction r rule: plan_induct)
  case (Filter q input)
  have "filter_ok q (fst (prune_redundant_predicates s input))" using Filter(2) by (simp add: filter_ok_def)
  with Filter show ?case by (simp add: prune_filter_rows [OF assms(1,2)])
qed (simp_all add: prune_other)

subsection \<open>Eliminating DISTINCT keeps the rows\<close>

text \<open>The key of a row.\<close>

definition row_key :: "string list \<Rightarrow> env \<Rightarrow> const_value list" where
  "row_key cols env = map (\<lambda>n. env (column_new n)) cols"

lemma scan_keys_distinct:
  assumes "sorted_wrt (rows_differ cols) rows" "\<forall>env \<in> set rows. \<forall>n \<in> set cols. env (column_new n) \<noteq> NullC"
  shows "distinct (map (row_key cols) rows)"
  using assms by (induction rows) (auto simp: rows_differ_def row_key_def)

lemma distinct_submset:
  assumes "mset ys \<subseteq># mset xs" "distinct xs"
  shows "distinct ys"
proof -
  have "count (mset ys) a = (if a \<in> set ys then 1 else 0)" for a
  proof (cases "a \<in> set ys")
    case True
    then have "a \<in># mset ys" by simp
    then have "0 < count (mset ys) a" by (simp only: count_greater_zero_iff)
    moreover have "count (mset xs) a \<le> 1" using assms(2) by (simp add: distinct_count_atmost_1)
    then have "count (mset ys) a \<le> 1" using mset_subset_eq_count [OF assms(1), of a] by linarith
    ultimately have "count (mset ys) a = 1" by linarith
    then show ?thesis using True by simp
  qed (simp add: count_eq_zero_iff)
  then show ?thesis by (simp add: distinct_count_atmost_1)
qed

lemma projected_chain_rows:
  assumes "sort_permutes M" "projected_chain r = Some (cs, t, a, only)"
  shows "mset (plan_env_rows M p r) \<subseteq># mset (map (po_project M cs) (po_scan M t a only))"
  using assms(2)
proof (induction r rule: projected_chain.induct)
  case (1 r)
  show ?case
  proof (cases r)
    case (Project cs' input)
    with 1(5) have "cs' = cs" "base_chain input = Some (t, a, only)" by auto
    then show ?thesis using base_chain_rows [OF assms(1)] Project by (simp add: image_mset_subseteq_mono)
  next
    case (Filter q input)
    then show ?thesis using 1(1) [OF Filter] 1(5)
      by (auto intro: subset_mset.order_trans [OF multiset_filter_subset])
  next
    case (Sort ks input)
    then show ?thesis using 1(2) [OF Sort] 1(5) assms(1) by (simp add: sort_permutes_def)
  next
    case (Limit n off input)
    then show ?thesis using 1(3) [OF Limit] 1(5)
      by (auto intro: subset_mset.order_trans [OF mset_take_drop_subset])
  next
    case (Distinct input)
    then show ?thesis using 1(4) [OF Distinct] 1(5)
      by (auto intro: subset_mset.order_trans [OF mset_remdups_subset_eq])
  qed (use 1(5) in \<open>simp_all add: projected_chain.simps\<close>)
qed

lemma key_output_kept:
  assumes "satisfies_schema M s" "projects_columns M ar other" "get_table s t = Some info"
    and "key_output info t a cs k" "set (cn_columns k) \<subseteq> set (List.map_filter output_name cs)"
    and "env \<in> set (po_scan M t a only)"
  shows "row_key (cn_columns k) (po_project M cs env) = row_key (cn_columns k) env"
proof -
  have "po_project M cs env (column_new n) = env (column_new n)" if n: "n \<in> set (cn_columns k)" for n
  proof -
    have "n \<in> set (List.map_filter output_name cs)" using n assms(5) by blast
    then obtain pc where pc: "pc \<in> set cs" "output_name pc = Some n"
      and val: "po_project M cs env (column_new n) = eval_expr ar other env (pc_expr pc)"
      using assms(2) unfolding projects_columns_def by blast
    from pc n assms(4) obtain c where c: "pc_expr pc = Column c" "cr_column c = n" "names_scan t a c"
      unfolding key_output_def by blast
    have "env c = env (column_new (cr_column c))"
      using assms(1,3,6) c(3) unfolding satisfies_schema_def by blast
    then show ?thesis using val c by simp
  qed
  then show ?thesis by (simp add: row_key_def)
qed

lemma projected_chain_columns:
  "projected_chain r = Some (cs, ti) \<Longrightarrow> collect_output_columns r = List.map_filter output_name cs"
proof (induction r rule: projected_chain.induct)
  case (1 r)
  then show ?case
    by (subst collect_output_columns.simps) (auto simp: projected_chain.simps [of r] split: rel_expr.splits)
qed

lemma covered_rows_distinct:
  assumes "satisfies_schema M s" "sort_permutes M" "projects_columns M ar other" "distinct_ok s input"
    and "find_scan_table input = Some t" "get_table s t = Some info"
    and "is_covered_by_unique (collect_output_columns input) info"
  shows "distinct (plan_env_rows M p input)"
proof -
  from assms(4-7) obtain cs a only where chain: "projected_chain input = Some (cs, t, a, only)"
    and keys: "\<forall>k \<in> set (ti_constraints info). key_kind k \<longrightarrow>
      set (cn_columns k) \<subseteq> set (collect_output_columns input) \<longrightarrow> key_output info t a cs k"
    unfolding distinct_ok_def by blast
  have cols: "collect_output_columns input = List.map_filter output_name cs"
    by (rule projected_chain_columns [OF chain])
  from assms(7) obtain k where k: "k \<in> set (ti_constraints info)" "key_kind k"
    and covered: "set (cn_columns k) \<subseteq> set (List.map_filter output_name cs)"
    by (auto simp: is_covered_by_unique_def list_ex_iff list_all_iff key_kind_def cols)
  have out: "key_output info t a cs k" using keys k covered cols by simp
  let ?rows = "po_scan M t a only"
  have "sorted_wrt (rows_differ (cn_columns k)) ?rows"
    using assms(1,6) k unfolding satisfies_schema_def by blast
  moreover have "env (column_new n) \<noteq> NullC" if "env \<in> set ?rows" "n \<in> set (cn_columns k)" for env n
  proof (cases "cn_kind k = PrimaryKeyC")
    case True
    then show ?thesis using assms(1,6) k that unfolding satisfies_schema_def by blast
  next
    case False
    then have "is_not_null_column info n" using out that(2) by (auto simp: key_output_def)
    moreover have "names_scan t a (column_new n)" "cr_column (column_new n) = n"
      by (simp_all add: names_scan_def column_new_def)
    ultimately show ?thesis using assms(1,6) that(1) unfolding satisfies_schema_def by metis
  qed
  ultimately have "distinct (map (row_key (cn_columns k)) ?rows)" by (intro scan_keys_distinct) auto
  moreover have "map (row_key (cn_columns k)) (map (po_project M cs) ?rows) = map (row_key (cn_columns k)) ?rows"
    using key_output_kept [OF assms(1,3,6) out covered] by simp
  ultimately have "distinct (map (po_project M cs) ?rows)" by (metis distinct_map)
  then show ?thesis using distinct_submset projected_chain_rows [OF assms(2) chain] by blast
qed

lemma distincts_ok_simps [simp]:
  "distincts_ok s (Distinct input) \<longleftrightarrow> distinct_ok s input \<and> distincts_ok s input"
  "distincts_ok s (Filter q input) \<longleftrightarrow> distincts_ok s input"
  "distincts_ok s (Project cs input) \<longleftrightarrow> distincts_ok s input"
  "distincts_ok s (Join jt c left right) \<longleftrightarrow> distincts_ok s left \<and> distincts_ok s right"
  "distincts_ok s (Sort ks input)"
  "distincts_ok s (Limit n off input)"
  "distincts_ok s (Aggregate gb ag input)"
  by (subst distincts_ok.simps, simp)+

lemma prune_distincts_ok: "distincts_ok s r \<Longrightarrow> distincts_ok s (fst (prune_redundant_predicates s r))"
proof (induction r rule: plan_induct)
  case (Filter q input)
  then show ?case using prune_filter_shape [of s q "fst (prune_redundant_predicates s input)"] by auto
next
  case (Distinct input)
  then show ?case by (simp add: distinct_ok_def)
qed (simp_all add: prune_other)

lemma eliminate_simps [simp]:
  "fst (eliminate_distinct_with_unique s (Distinct input)) =
    fst (eliminate_distinct s (fst (eliminate_distinct_with_unique s input)))"
  "fst (eliminate_distinct_with_unique s (Filter q input)) = Filter q (fst (eliminate_distinct_with_unique s input))"
  "fst (eliminate_distinct_with_unique s (Project cs input)) = Project cs (fst (eliminate_distinct_with_unique s input))"
  "fst (eliminate_distinct_with_unique s (Join jt c left right)) =
    Join jt c (fst (eliminate_distinct_with_unique s left)) (fst (eliminate_distinct_with_unique s right))"
  "eliminate_distinct_with_unique s (Sort ks input) = (Sort ks input, [])"
  "eliminate_distinct_with_unique s (Limit n off input) = (Limit n off input, [])"
  "eliminate_distinct_with_unique s (Aggregate gb ag input) = (Aggregate gb ag input, [])"
  by (subst eliminate_distinct_with_unique.simps, simp add: case_prod_unfold Let_def)+

lemma eliminate_other: "\<not> rewritten_node r \<Longrightarrow> eliminate_distinct_with_unique s r = (r, [])"
  by (subst eliminate_distinct_with_unique.simps) (simp add: rewritten_node_def split: rel_expr.splits)

lemma eliminate_distinct_shape: "fst (eliminate_distinct s input) \<in> {input, Distinct input}"
  by (simp add: eliminate_distinct_def split: option.split)

lemma eliminate_chains [simp]:
  "find_scan_table (fst (eliminate_distinct_with_unique s r)) = find_scan_table r"
  "base_chain (fst (eliminate_distinct_with_unique s r)) = base_chain r"
  "projected_chain (fst (eliminate_distinct_with_unique s r)) = projected_chain r"
  "collect_output_columns (fst (eliminate_distinct_with_unique s r)) = collect_output_columns r"
proof -
  have "find_scan_table (fst (eliminate_distinct_with_unique s r)) = find_scan_table r
    \<and> base_chain (fst (eliminate_distinct_with_unique s r)) = base_chain r
    \<and> projected_chain (fst (eliminate_distinct_with_unique s r)) = projected_chain r
    \<and> collect_output_columns (fst (eliminate_distinct_with_unique s r)) = collect_output_columns r"
  proof (induction r rule: plan_induct)
    case (Distinct input)
    then show ?case using eliminate_distinct_shape [of s "fst (eliminate_distinct_with_unique s input)"] by auto
  qed (simp_all add: eliminate_other)
  then show "find_scan_table (fst (eliminate_distinct_with_unique s r)) = find_scan_table r"
    "base_chain (fst (eliminate_distinct_with_unique s r)) = base_chain r"
    "projected_chain (fst (eliminate_distinct_with_unique s r)) = projected_chain r"
    "collect_output_columns (fst (eliminate_distinct_with_unique s r)) = collect_output_columns r" by auto
qed

lemma eliminate_rows:
  assumes "satisfies_schema M s" "sort_permutes M" "projects_columns M ar other" "distincts_ok s r"
  shows "plan_env_rows M p (fst (eliminate_distinct_with_unique s r)) = plan_env_rows M p r"
  using assms(4)
proof (induction r rule: plan_induct)
  case (Distinct input)
  let ?i = "fst (eliminate_distinct_with_unique s input)"
  have ok: "distinct_ok s ?i" and rows: "plan_env_rows M p ?i = plan_env_rows M p input"
    using Distinct by (simp_all add: distinct_ok_def)
  have "plan_env_rows M p (fst (eliminate_distinct s ?i)) = remdups (plan_env_rows M p ?i)"
    using covered_rows_distinct [OF assms(1-3) ok, of _ _ p]
    by (auto simp: eliminate_distinct_def bind_eq_Some_conv distinct_remdups_id split: option.split)
  then show ?case by (simp add: rows)
qed (simp_all add: eliminate_other)

text \<open>Claim C19. The pass keeps the rows of a plan, in their order, whatever joins, sorts, projections and
  aggregates mean: when the tables satisfy the constraints of the schema, every
  \<^verbatim>\<open>IS NOT NULL\<close> test is on a column of the scan below it and every \<^verbatim>\<open>DISTINCT\<close> that a key
  covers stands over a projection of the key's own columns, none of a unique key nullable.\<close>

theorem constraint_optimizer_sound:
  assumes "satisfies_schema M s" "sort_permutes M" "projects_columns M ar other"
    and "filters_ok r" "distincts_ok s r"
  shows "plan_env_rows M (passes ar other) (co_expr (optimize_with_constraints r s)) =
    plan_env_rows M (passes ar other) r"
proof -
  let ?r1 = "fst (prune_redundant_predicates s r)"
  have "co_expr (optimize_with_constraints r s) = fst (eliminate_distinct_with_unique s ?r1)"
    by (simp add: optimize_with_constraints_def case_prod_unfold Let_def fk_elimination_keeps)
  then show ?thesis
    by (simp add: eliminate_rows [OF assms(1-3) prune_distincts_ok [OF assms(5)]] prune_rows [OF assms(1,2,4)])
qed

subsection \<open>Examples\<close>

definition example_column :: "string \<Rightarrow> bool \<Rightarrow> column_info" where
  "example_column n nullable = \<lparr>ci_name = n, ci_data_type = ''text'', ci_nullable = nullable, ci_ordinal = 1,
     ci_default_value = None\<rparr>"

definition example_key :: "constraint_kind \<Rightarrow> string \<Rightarrow> constraint_info" where
  "example_key kind n = \<lparr>cn_name = n, cn_kind = kind, cn_columns = [n], cn_referenced_table = None,
     cn_referenced_columns = [], cn_check_expression = None\<rparr>"

text \<open>A table \<open>users\<close> with the primary key \<open>id\<close>, a unique email that may be null, and a name.\<close>

definition users_info :: table_info where
  "users_info = \<lparr>ti_name = ''users'',
     ti_columns = [example_column ''id'' False, example_column ''email'' True, example_column ''name'' True],
     ti_constraints = [example_key PrimaryKeyC ''id'', example_key UniqueC ''email''],
     ti_indexes = [], ti_triggers = [], ti_estimated_rows = None\<rparr>"

definition users_schema :: database_schema where
  "users_schema = \<lparr>ds_kind = PostgreSQL, ds_schema_name = ''public'', ds_tables = [''users'' \<mapsto> users_info]\<rparr>"

definition user_row :: "64 word \<Rightarrow> const_value \<Rightarrow> env" where
  "user_row i name = (\<lambda>c. if cr_column c = ''id'' then IntC i else if cr_column c = ''name'' then name else NullC)"

definition project_row ::
  "(bin_op \<Rightarrow> const_value \<Rightarrow> const_value \<Rightarrow> const_value) \<Rightarrow> (expr \<Rightarrow> env \<Rightarrow> const_value) \<Rightarrow>
    expr projection_column list \<Rightarrow> env \<Rightarrow> env" where
  "project_row ar other cs env = (\<lambda>c. case find (\<lambda>pc. output_name pc = Some (cr_column c)) cs of
     Some pc \<Rightarrow> eval_expr ar other env (pc_expr pc) | None \<Rightarrow> NullC)"

definition users_ops ::
  "(bin_op \<Rightarrow> const_value \<Rightarrow> const_value \<Rightarrow> const_value) \<Rightarrow> (expr \<Rightarrow> env \<Rightarrow> const_value) \<Rightarrow> plan_ops" where
  "users_ops ar other = \<lparr>
     po_scan = (\<lambda>t a only. if t = ''users'' then [user_row 1 (StringC ''ann''), user_row 2 (StringC ''ann'')] else []),
     po_project = project_row ar other, po_sort = (\<lambda>ks rows. rows), po_join = (\<lambda>jt c ls rs. []),
     po_aggregate = (\<lambda>gb ag rows. rows), po_other = (\<lambda>r. [])\<rparr>"

lemma users_schema_satisfied: "satisfies_schema (users_ops ar other) users_schema"
  by (auto simp: satisfies_schema_def users_ops_def users_schema_def get_table_def users_info_def example_key_def
      example_column_def user_row_def rows_differ_def column_new_def is_not_null_column_def get_column_def
      split: if_splits)

lemma users_ops_laws: "sort_permutes (users_ops ar other)" "projects_columns (users_ops ar other) ar other"
proof -
  show "sort_permutes (users_ops ar other)" by (simp add: sort_permutes_def users_ops_def)
  have "\<exists>pc \<in> set cs. output_name pc = Some n \<and>
      (\<forall>env. project_row ar other cs env (column_new n) = eval_expr ar other env (pc_expr pc))"
    if "n \<in> set (List.map_filter output_name cs)" for cs n
  proof -
    from that obtain pc where "pc \<in> set cs" "output_name pc = Some n" by (auto simp: map_filter_def)
    then have "find (\<lambda>pc. output_name pc = Some n) cs \<noteq> None" by (auto simp: find_None_iff)
    then obtain pc where found: "find (\<lambda>pc. output_name pc = Some n) cs = Some pc" by blast
    then have "pc \<in> set cs \<and> output_name pc = Some n" by (auto simp: find_Some_iff)
    with found show ?thesis by (intro bexI [of _ pc]) (simp_all add: project_row_def column_new_def)
  qed
  then show "projects_columns (users_ops ar other) ar other" by (simp add: projects_columns_def users_ops_def)
qed

text \<open>\<^verbatim>\<open>SELECT DISTINCT id, name FROM users WHERE id IS NOT NULL\<close>: both the filter and the
  \<^verbatim>\<open>DISTINCT\<close> go.\<close>

definition users_columns :: "expr projection_column list" where
  "users_columns = [ProjectionColumn (Column (column_new ''id'')) None, ProjectionColumn (Column (column_new ''name'')) None]"

definition users_query :: rel_expr where
  "users_query = Distinct (Project users_columns
     (Filter (UnaryOp IsNotNull (Column (column_new ''id''))) (Scan ''users'' None False)))"

lemma users_query_optimized:
  "co_expr (optimize_with_constraints users_query users_schema) = Project users_columns (Scan ''users'' None False)"
proof -
  have scan: "prune_redundant_predicates s (Scan t a only) = (Scan t a only, [])"
    "eliminate_distinct_with_unique s (Scan t a only) = (Scan t a only, [])" for s t a only
    by (simp_all add: prune_other eliminate_other rewritten_node_def)
  have pruned: "fst (prune_redundant_predicates users_schema users_query) =
      Distinct (Project users_columns (Scan ''users'' None False))"
    by (simp add: users_query_def scan prune_filter_def users_schema_def get_table_def column_new_def
        try_prune_predicate.simps [of _ _ "UnaryOp IsNotNull (Column _)"] is_not_null_column_def get_column_def
        users_info_def example_column_def)
  have "fst (eliminate_distinct_with_unique users_schema (Distinct (Project users_columns (Scan ''users'' None False)))) =
      Project users_columns (Scan ''users'' None False)"
    by (simp add: scan eliminate_distinct_def users_schema_def get_table_def is_covered_by_unique_def users_info_def
        example_key_def users_columns_def map_filter_simps output_name_def extract_column_name_def column_new_def)
  then show ?thesis
    by (simp add: optimize_with_constraints_def fk_elimination_keeps case_prod_unfold Let_def pruned)
qed

lemma constraint_optimizer_sound_witness:
  "plan_env_rows (users_ops (\<lambda>op x y. BoolC (x = y)) (\<lambda>e env. NullC))
      (passes (\<lambda>op x y. BoolC (x = y)) (\<lambda>e env. NullC)) (Project users_columns (Scan ''users'' None False)) =
    plan_env_rows (users_ops (\<lambda>op x y. BoolC (x = y)) (\<lambda>e env. NullC))
      (passes (\<lambda>op x y. BoolC (x = y)) (\<lambda>e env. NullC)) users_query"
proof -
  have "filters_ok users_query"
    by (auto simp: users_query_def filter_ok_def names_scan_def column_new_def filters_ok.simps [of "Scan _ _ _"])
  moreover have "distincts_ok users_schema users_query"
    by (auto simp: users_query_def distinct_ok_def distincts_ok.simps [of _ "Scan _ _ _"] users_schema_def get_table_def
        users_info_def key_output_def key_kind_def example_key_def users_columns_def output_name_def
        extract_column_name_def names_scan_def column_new_def is_not_null_column_def get_column_def
        example_column_def map_filter_simps)
  ultimately show ?thesis
    using constraint_optimizer_sound [OF users_schema_satisfied users_ops_laws, of users_query]
    by (simp add: users_query_optimized)
qed

text \<open>The qualifier and the origin of a column are not looked at: over a projection that gives a
  nullable column the name of one that is not, the test is removed.\<close>

lemma renamed_column_test_removed:
  "fst (prune_redundant_predicates users_schema (Filter (UnaryOp IsNotNull (Column (column_new ''id'')))
      (Project [ProjectionColumn (Column (column_new ''name'')) (Some ''id'')] (Scan ''users'' None False)))) =
    Project [ProjectionColumn (Column (column_new ''name'')) (Some ''id'')] (Scan ''users'' None False)"
  by (simp add: prune_other rewritten_node_def prune_filter_def users_schema_def get_table_def column_new_def
      try_prune_predicate.simps [of _ _ "UnaryOp IsNotNull (Column _)"] is_not_null_column_def get_column_def
      users_info_def example_column_def)

text \<open>A unique column may be null in many rows, which \<^verbatim>\<open>DISTINCT\<close> reduces to one; it is removed
  all the same.\<close>

lemma nullable_unique_distinct_removed:
  "fst (eliminate_distinct_with_unique users_schema
      (Distinct (Project [ProjectionColumn (Column (column_new ''email'')) None] (Scan ''users'' None False)))) =
    Project [ProjectionColumn (Column (column_new ''email'')) None] (Scan ''users'' None False)"
  "rows_differ [''email''] null_row null_row"
  by (simp_all add: eliminate_other rewritten_node_def eliminate_distinct_def users_schema_def get_table_def
      is_covered_by_unique_def users_info_def example_key_def map_filter_simps output_name_def
      extract_column_name_def column_new_def rows_differ_def null_row_def)

text \<open>\<^verbatim>\<open>IS NULL\<close> on a column that is not null is documented as always false, but left alone.\<close>

lemma is_null_not_pruned: "try_prune_predicate info t (UnaryOp IsNull x) = (None, [])"
  by (subst try_prune_predicate.simps) simp

end
