(* ===== verification/Distribution.thy ===== *)
theory Distribution
  imports Join_Transform "HOL-Library.Multiset"
begin

text \<open>
  Where the rows of a relation are in a cluster, and the choice of how a join moves them
  (\<^verbatim>\<open>crates/ra-core/src/distribution.rs\<close>). The second half says what the distributions mean and
  that a join for which no rows are moved is complete.
\<close>

subsection \<open>Distributions and strategies\<close>

datatype cluster_node = NodeId u32

record range_boundary =
  rb_value :: string
  rb_inclusive :: bool

datatype data_distribution =
    Arbitrary
  | Replicated
  | HashPartitioned "expr list" u32
  | RangePartitioned expr "range_boundary list"
  | SinglePartition cluster_node

datatype distribution_strategy =
    Broadcast cluster_node "cluster_node list"
  | Shuffle cluster_node "cluster_node list" "expr list"
  | CoLocated
  | PartitionWise expr
  | RangeRepartition expr "(string \<times> string) list"
  | PartialBroadcast cluster_node "cluster_node list" expr

definition target_count :: "distribution_strategy \<Rightarrow> nat" where
  "target_count s = (case s of
     Broadcast src targets \<Rightarrow> length targets
   | Shuffle src targets keys \<Rightarrow> length targets
   | PartialBroadcast src targets p \<Rightarrow> length targets
   | CoLocated \<Rightarrow> 0
   | PartitionWise key \<Rightarrow> 0
   | RangeRepartition key ranges \<Rightarrow> length ranges)"

definition requires_network :: "distribution_strategy \<Rightarrow> bool" where
  "requires_network s = (case s of CoLocated \<Rightarrow> False | PartitionWise key \<Rightarrow> False | _ \<Rightarrow> True)"

definition strategy_label :: "distribution_strategy \<Rightarrow> string" where
  "strategy_label s = (case s of
     Broadcast src targets \<Rightarrow> ''Broadcast''
   | Shuffle src targets keys \<Rightarrow> ''Shuffle''
   | CoLocated \<Rightarrow> ''CoLocated''
   | PartitionWise key \<Rightarrow> ''PartitionWise''
   | RangeRepartition key ranges \<Rightarrow> ''RangePartition''
   | PartialBroadcast src targets p \<Rightarrow> ''PartialBroadcast'')"

record distributed_rel_expr =
  dr_plan :: rel_expr
  dr_distribution :: data_distribution
  dr_node_assignment :: "cluster_node option"
  dr_input_strategy :: "distribution_strategy option"

definition distributed_new :: "rel_expr \<Rightarrow> distributed_rel_expr" where
  "distributed_new plan = \<lparr>dr_plan = plan, dr_distribution = Arbitrary, dr_node_assignment = None,
     dr_input_strategy = None\<rparr>"

definition with_distribution :: "distributed_rel_expr \<Rightarrow> data_distribution \<Rightarrow> distributed_rel_expr" where
  "with_distribution d dist = d\<lparr>dr_distribution := dist\<rparr>"

definition on_node :: "distributed_rel_expr \<Rightarrow> cluster_node \<Rightarrow> distributed_rel_expr" where
  "on_node d n = d\<lparr>dr_node_assignment := Some n\<rparr>"

definition with_strategy :: "distributed_rel_expr \<Rightarrow> distribution_strategy \<Rightarrow> distributed_rel_expr" where
  "with_strategy d s = d\<lparr>dr_input_strategy := Some s\<rparr>"

definition is_partitioned_on :: "distributed_rel_expr \<Rightarrow> expr list \<Rightarrow> bool" where
  "is_partitioned_on d keys = (case dr_distribution d of HashPartitioned ks n \<Rightarrow> keys = ks | _ \<Rightarrow> False)"

definition is_replicated :: "distributed_rel_expr \<Rightarrow> bool" where
  "is_replicated d \<longleftrightarrow> dr_distribution d = Replicated"

definition is_single_partition :: "distributed_rel_expr \<Rightarrow> bool" where
  "is_single_partition d = (case dr_distribution d of SinglePartition n \<Rightarrow> True | _ \<Rightarrow> False)"

subsection \<open>Compatibility\<close>

datatype distribution_compatibility =
  Compatible | LeftMustRedistribute | RightMustRedistribute | BothMustRedistribute

definition check_join_compatibility ::
  "data_distribution \<Rightarrow> data_distribution \<Rightarrow> expr list \<Rightarrow> expr list \<Rightarrow> distribution_compatibility" where
  "check_join_compatibility left right jl jr =
    (if left = Replicated \<or> right = Replicated then Compatible
     else if (case (left, right) of
         (HashPartitioned lks ln, HashPartitioned rks rn) \<Rightarrow> lks = jl \<and> rks = jr \<and> ln = rn
       | _ \<Rightarrow> False) then Compatible
     else if (case left of HashPartitioned ks n \<Rightarrow> ks = jl | _ \<Rightarrow> False) then RightMustRedistribute
     else if (case right of HashPartitioned ks n \<Rightarrow> ks = jr | _ \<Rightarrow> False) then LeftMustRedistribute
     else BothMustRedistribute)"

text \<open>The sizes are computed with 128 bits.\<close>

definition should_broadcast :: "u64 \<Rightarrow> u64 \<Rightarrow> u32 \<Rightarrow> u64 \<Rightarrow> bool" where
  "should_broadcast small_bytes large_bytes num_nodes threshold =
    (if threshold < small_bytes then False
     else if num_nodes = 0 then False
     else (let broadcast_cost = (ucast small_bytes :: 128 word) * ucast num_nodes;
             shuffle_cost = (ucast small_bytes + ucast large_bytes) * ucast (num_nodes - 1) div ucast num_nodes
           in broadcast_cost < shuffle_cost))"

subsection \<open>The choice for a join\<close>

record join_strategy_input =
  ji_left_dist :: data_distribution
  ji_right_dist :: data_distribution
  ji_left_bytes :: u64
  ji_right_bytes :: u64
  ji_join_keys_left :: "expr list"
  ji_join_keys_right :: "expr list"
  ji_nodes :: "cluster_node list"
  ji_broadcast_threshold :: u64

definition u32_of_len :: "'a list \<Rightarrow> u32" where
  "u32_of_len xs = (if length xs < 2 ^ 32 then of_nat (length xs) else - 1)"

definition select_join_strategy :: "join_strategy_input \<Rightarrow> distribution_strategy" where
  "select_join_strategy i =
    (if check_join_compatibility (ji_left_dist i) (ji_right_dist i) (ji_join_keys_left i) (ji_join_keys_right i)
         = Compatible then
       (case ji_left_dist i of
          HashPartitioned keys n \<Rightarrow> (case keys of [] \<Rightarrow> CoLocated | key # _ \<Rightarrow> PartitionWise key)
        | _ \<Rightarrow> CoLocated)
     else
       (let lb = ji_left_bytes i; rb = ji_right_bytes i; small_bytes = (if lb \<le> rb then lb else rb);
          shuffle = Shuffle (case ji_nodes i of [] \<Rightarrow> NodeId 0 | n # _ \<Rightarrow> n) (ji_nodes i)
            (if lb \<le> rb then ji_join_keys_left i else ji_join_keys_right i)
        in case ji_nodes i of
             [] \<Rightarrow> shuffle
           | source # _ \<Rightarrow>
               if should_broadcast small_bytes (max lb rb) (u32_of_len (ji_nodes i)) (ji_broadcast_threshold i)
               then Broadcast source (ji_nodes i) else shuffle))"

subsection \<open>What distributions mean\<close>

text \<open>The rows of each of \<open>n\<close> partitions. \<open>ev\<close> evaluates an expression on a row, \<open>h\<close> hashes the
  values of the keys.\<close>

definition placed ::
  "(expr \<Rightarrow> env \<Rightarrow> const_value) \<Rightarrow> (const_value list \<Rightarrow> nat) \<Rightarrow> nat \<Rightarrow> data_distribution \<Rightarrow> env list \<Rightarrow>
    (nat \<Rightarrow> env list) \<Rightarrow> bool" where
  "placed ev h n d rows place = (case d of
     Replicated \<Rightarrow> \<forall>p < n. place p = rows
   | HashPartitioned keys k \<Rightarrow>
       unat k = n \<and> (\<forall>p < n. place p = filter (\<lambda>r. h (map (\<lambda>e. ev e r) keys) mod n = p) rows)
   | _ \<Rightarrow> (\<Sum>p < n. mset (place p)) = mset rows)"

definition pair_join :: "(env \<Rightarrow> env \<Rightarrow> bool) \<Rightarrow> env list \<Rightarrow> env list \<Rightarrow> (env \<times> env) list" where
  "pair_join cond ls rs = concat (map (\<lambda>l. map (Pair l) (filter (cond l) rs)) ls)"

lemma mset_pair_join: "mset (pair_join cond ls rs) = (\<Sum>l \<in># mset ls. image_mset (Pair l) (filter_mset (cond l) (mset rs)))"
  by (induction ls) (simp_all add: pair_join_def)

lemma pair_join_Cons: "pair_join cond (l # ls) rs = map (Pair l) (filter (cond l) rs) @ pair_join cond ls rs"
  by (simp add: pair_join_def)

lemma sum_image_filter:
  "(\<Sum>p < (n::nat). image_mset f (filter_mset P (M p))) = image_mset f (filter_mset P (\<Sum>p < n. M p))"
  by (induction n) simp_all

lemma sum_hash_parts: "0 < n \<Longrightarrow> (\<Sum>p < (n::nat). mset (filter (\<lambda>r. g r mod n = p) rows)) = mset rows"
proof (induction rows)
  case (Cons r rows)
  have "(\<Sum>p < n. mset (filter (\<lambda>r. g r mod n = p) (r # rows))) =
      (\<Sum>p < n. (if g r mod n = p then {#r#} else {#}) + mset (filter (\<lambda>r. g r mod n = p) rows))"
    by (intro sum.cong) auto
  also have "\<dots> = (\<Sum>p < n. if g r mod n = p then {#r#} else {#}) + mset rows"
    using Cons by (simp add: sum.distrib)
  also have "(\<Sum>p < n. if g r mod n = p then {#r#} else {#}) = {#r#}"
    using Cons(2) by simp
  finally show ?case by simp
qed simp

lemma placed_total:
  assumes "placed ev h n d rows place" "d \<noteq> Replicated" "0 < n"
  shows "(\<Sum>p < n. mset (place p)) = mset rows"
proof (cases d)
  case (HashPartitioned keys k)
  then have "(\<Sum>p < n. mset (place p)) = (\<Sum>p < n. mset (filter (\<lambda>r. h (map (\<lambda>e. ev e r) keys) mod n = p) rows))"
    using assms(1) by (intro sum.cong) (auto simp: placed_def)
  then show ?thesis using sum_hash_parts [OF assms(3)] by simp
qed (use assms in \<open>simp_all add: placed_def\<close>)

text \<open>One side on every node: the other may be partitioned in any way.\<close>

lemma join_replicated_left:
  assumes "(\<Sum>p < (n::nat). mset (R p)) = mset rs"
  shows "(\<Sum>p < n. mset (pair_join cond ls (R p))) = mset (pair_join cond ls rs)"
proof (induction ls)
  case (Cons l ls)
  have "(\<Sum>p < n. mset (pair_join cond (l # ls) (R p))) =
      (\<Sum>p < n. image_mset (Pair l) (filter_mset (cond l) (mset (R p)))) + (\<Sum>p < n. mset (pair_join cond ls (R p)))"
    by (simp add: pair_join_Cons sum.distrib)
  then show ?case using Cons by (simp add: sum_image_filter assms pair_join_Cons)
qed (simp add: pair_join_def)

lemma join_replicated_right:
  assumes "(\<Sum>p < (n::nat). mset (L p)) = mset ls"
  shows "(\<Sum>p < n. mset (pair_join cond (L p) rs)) = mset (pair_join cond ls rs)"
proof -
  let ?f = "\<lambda>l. image_mset (Pair l) (filter_mset (cond l) (mset rs))"
  have "(\<Sum>p < (n::nat). \<Sum>l \<in># mset (L p). ?f l) = (\<Sum>l \<in># (\<Sum>p < n. mset (L p)). ?f l)"
    by (induction n) simp_all
  then show ?thesis by (simp add: mset_pair_join assms)
qed

text \<open>Both sides hashed by the keys the condition compares.\<close>

lemma join_hashed:
  assumes "0 < (n::nat)" and keys: "\<And>l r. cond l r \<Longrightarrow> g l = k r"
  shows "(\<Sum>p < n. mset (pair_join cond (filter (\<lambda>l. g l mod n = p) ls) (filter (\<lambda>r. k r mod n = p) rs))) =
    mset (pair_join cond ls rs)"
proof (induction ls)
  case (Cons l ls)
  let ?R = "\<lambda>p. filter (\<lambda>r. k r mod n = p) rs"
  have "(\<Sum>p < n. mset (pair_join cond (filter (\<lambda>l. g l mod n = p) (l # ls)) (?R p))) =
      (\<Sum>p < n. (if g l mod n = p then mset (map (Pair l) (filter (cond l) (?R p))) else {#})
        + mset (pair_join cond (filter (\<lambda>l. g l mod n = p) ls) (?R p)))"
    by (intro sum.cong) (auto simp: pair_join_Cons)
  also have "\<dots> = mset (map (Pair l) (filter (cond l) (?R (g l mod n)))) + mset (pair_join cond ls rs)"
    using Cons assms(1) by (simp add: sum.distrib del: mset_map filter_filter)
  also have "filter (cond l) (?R (g l mod n)) = filter (cond l) rs"
    using keys [of l] by (auto intro: filter_cong)
  finally show ?case by (simp add: pair_join_Cons)
qed (simp add: pair_join_def)

lemma select_local_compatible:
  "\<not> requires_network (select_join_strategy i) \<longleftrightarrow>
    check_join_compatibility (ji_left_dist i) (ji_right_dist i) (ji_join_keys_left i) (ji_join_keys_right i) = Compatible"
  by (auto simp: select_join_strategy_def requires_network_def Let_def split: data_distribution.split list.split)

text \<open>Claim C28. When the strategy chosen for a join moves no rows, an inner join computed partition by
  partition gives every pair of rows of the whole join exactly once, for every condition that
  implies the equality of the join keys, every hash function and rows placed as the distributions
  say, unless both sides are replicated.\<close>

theorem colocated_join_complete:
  assumes "\<not> requires_network (select_join_strategy i)"
    and "placed ev h n (ji_left_dist i) ls L" "placed ev h n (ji_right_dist i) rs R" "0 < n"
    and "\<not> (ji_left_dist i = Replicated \<and> ji_right_dist i = Replicated)"
    and keys: "\<And>l r. cond l r \<Longrightarrow>
      map (\<lambda>e. ev e l) (ji_join_keys_left i) = map (\<lambda>e. ev e r) (ji_join_keys_right i)"
  shows "(\<Sum>p < n. mset (pair_join cond (L p) (R p))) = mset (pair_join cond ls rs)"
proof -
  have compat: "check_join_compatibility (ji_left_dist i) (ji_right_dist i) (ji_join_keys_left i)
      (ji_join_keys_right i) = Compatible"
    using assms(1) by (simp only: select_local_compatible)
  consider (left) "ji_left_dist i = Replicated" "ji_right_dist i \<noteq> Replicated"
    | (right) "ji_right_dist i = Replicated" "ji_left_dist i \<noteq> Replicated"
    | (both) k where "ji_left_dist i = HashPartitioned (ji_join_keys_left i) k"
        "ji_right_dist i = HashPartitioned (ji_join_keys_right i) k"
    using compat assms(5) by (auto simp: check_join_compatibility_def split: if_splits data_distribution.splits)
  then show ?thesis
  proof cases
    case left
    then have "(\<Sum>p < n. mset (pair_join cond (L p) (R p))) = (\<Sum>p < n. mset (pair_join cond ls (R p)))"
      using assms(2) by (intro sum.cong) (simp_all add: placed_def)
    then show ?thesis using join_replicated_left placed_total [OF assms(3) left(2) assms(4)] by simp
  next
    case right
    then have "(\<Sum>p < n. mset (pair_join cond (L p) (R p))) = (\<Sum>p < n. mset (pair_join cond (L p) rs))"
      using assms(3) by (intro sum.cong) (simp_all add: placed_def)
    then show ?thesis using join_replicated_right placed_total [OF assms(2) right(2) assms(4)] by simp
  next
    case (both k)
    then have "(\<Sum>p < n. mset (pair_join cond (L p) (R p))) =
        (\<Sum>p < n. mset (pair_join cond
          (filter (\<lambda>l. h (map (\<lambda>e. ev e l) (ji_join_keys_left i)) mod n = p) ls)
          (filter (\<lambda>r. h (map (\<lambda>e. ev e r) (ji_join_keys_right i)) mod n = p) rs)))"
      using assms(2,3) by (intro sum.cong) (simp_all add: placed_def)
    then show ?thesis using join_hashed [OF assms(4), of cond] keys by simp
  qed
qed

text \<open>Two relations hashed over two partitions by the column \<open>id\<close>: the hash of the keys is 1 for the
  key 1 and 0 for the others.\<close>

definition id_row :: "string \<Rightarrow> 64 word \<Rightarrow> env" where
  "id_row t i = bind t (\<lambda>c. IntC i)"

definition id_key :: "string \<Rightarrow> expr" where
  "id_key t = Column \<lparr>cr_table = Some t, cr_column = ''id''\<rparr>"

definition hashed_join :: join_strategy_input where
  "hashed_join = \<lparr>ji_left_dist = HashPartitioned [id_key ''a''] 2, ji_right_dist = HashPartitioned [id_key ''b''] 2,
     ji_left_bytes = 100, ji_right_bytes = 100, ji_join_keys_left = [id_key ''a''],
     ji_join_keys_right = [id_key ''b''], ji_nodes = [NodeId 0, NodeId 1], ji_broadcast_threshold = 10\<rparr>"

definition column_value :: "expr \<Rightarrow> env \<Rightarrow> const_value" where
  "column_value e env = (case e of Column c \<Rightarrow> env c | _ \<Rightarrow> NullC)"

lemma colocated_join_complete_witness:
  "(\<Sum>p < (2::nat). mset (pair_join (\<lambda>l r. column_value (id_key ''a'') l = column_value (id_key ''b'') r)
      (if p = 1 then [id_row ''a'' 1] else [id_row ''a'' 2])
      (if p = 1 then [id_row ''b'' 1, id_row ''b'' 1] else []))) =
    mset (pair_join (\<lambda>l r. column_value (id_key ''a'') l = column_value (id_key ''b'') r)
      [id_row ''a'' 1, id_row ''a'' 2] [id_row ''b'' 1, id_row ''b'' 1])"
proof -
  let ?h = "\<lambda>vs. if vs = [IntC 1] then 1 else 0 :: nat"
  have two: "(\<forall>p < (2::nat). P p) \<longleftrightarrow> P 0 \<and> P 1" for P by (auto simp: less_2_cases_iff)
  have left: "placed column_value ?h 2 (ji_left_dist hashed_join) [id_row ''a'' 1, id_row ''a'' 2]
      (\<lambda>p. if p = 1 then [id_row ''a'' 1] else [id_row ''a'' 2])"
    by (simp add: two placed_def hashed_join_def id_row_def id_key_def bind_def column_value_def)
  have right: "placed column_value ?h 2 (ji_right_dist hashed_join) [id_row ''b'' 1, id_row ''b'' 1]
      (\<lambda>p. if p = 1 then [id_row ''b'' 1, id_row ''b'' 1] else [])"
    by (simp add: two placed_def hashed_join_def id_row_def id_key_def bind_def column_value_def)
  show ?thesis
    by (rule colocated_join_complete [OF _ left right])
      (simp_all add: select_local_compatible hashed_join_def check_join_compatibility_def)
qed

text \<open>With both sides on every node each node computes the whole join.\<close>

lemma replicated_join_repeated:
  assumes "placed ev h n Replicated ls L" "placed ev h n Replicated rs R"
  shows "(\<Sum>p < n. mset (pair_join cond (L p) (R p))) = (\<Sum>p < n. mset (pair_join cond ls rs))"
    and "check_join_compatibility Replicated Replicated jl jr = Compatible"
  using assms by (auto intro: sum.cong simp: placed_def check_join_compatibility_def)

text \<open>The kind of the join is not asked for. For a left join with a replicated left side a row that
  matches in one partition comes out of every other one as well, extended by nulls.\<close>

lemma left_join_replicated_wrong:
  "check_join_compatibility Replicated d jl jr = Compatible"
  "cond (combine T l r) \<Longrightarrow> left_rows T cond [l] [r] = [combine T l r]"
  "left_rows T cond [l] [] = [combine T l null_row]"
  by (simp_all add: check_join_compatibility_def left_rows_def matches_def)

subsection \<open>Sizes\<close>

text \<open>The decision to broadcast is made on exact sizes: nothing overflows in the 128-bit
  products, whatever the 64-bit sizes and the number of nodes are.\<close>

lemma should_broadcast_exact:
  "should_broadcast small_bytes large_bytes n threshold \<longleftrightarrow>
    unat small_bytes \<le> unat threshold \<and> 0 < unat n \<and>
    unat small_bytes * unat n < (unat small_bytes + unat large_bytes) * (unat n - 1) div unat n"
proof -
  let ?s = "unat small_bytes" and ?l = "unat large_bytes" and ?n = "unat n"
  have width: "unat (x :: 64 word) < 2 ^ LENGTH(64)" "unat (y :: 32 word) < 2 ^ LENGTH(32)" for x y
    by (rule unsigned_less)+
  have bounds: "?s < 2 ^ 64" "?l < 2 ^ 64" "?n < 2 ^ 32"
    using width(1) [of small_bytes] width(1) [of large_bytes] width(2) [of n] by simp_all
  have "?s * ?n \<le> 2 ^ 64 * 2 ^ 32" using bounds by (intro mult_le_mono) simp_all
  then have cost: "?s * ?n < 2 ^ 128" by simp
  have "(?s + ?l) * (?n - 1) \<le> 2 ^ 65 * 2 ^ 32" using bounds by (intro mult_le_mono) simp_all
  then have shuffle: "(?s + ?l) * (?n - 1) < 2 ^ 128" by simp
  have sum: "?s + ?l < 2 ^ 128" using bounds by simp
  have cast: "unat (ucast small_bytes :: 128 word) = ?s" "unat (ucast large_bytes :: 128 word) = ?l"
    "unat (ucast n :: 128 word) = ?n" "unat (ucast (n - 1) :: 128 word) = unat (n - 1)"
    using bounds width(2) [of "n - 1"] by (simp_all add: unsigned_ucast_eq take_bit_eq_mod)
  have pred: "n \<noteq> 0 \<Longrightarrow> unat (n - 1) = ?n - 1" by (simp add: unat_minus_one)
  have "unat ((ucast small_bytes :: 128 word) * ucast n) = ?s * ?n"
    using cost by (simp add: unat_word_ariths cast)
  moreover have "n \<noteq> 0 \<Longrightarrow>
      unat (((ucast small_bytes :: 128 word) + ucast large_bytes) * ucast (n - 1) div ucast n) =
        (?s + ?l) * (?n - 1) div ?n"
    using shuffle sum by (simp add: unat_div unat_word_ariths cast pred)
  ultimately show ?thesis
    by (auto simp: should_broadcast_def Let_def word_less_nat_alt word_le_nat_alt not_less unat_gt_0)
qed

end
