(* ===== verification/Distributed_Agg.thy ===== *)
theory Distributed_Agg
  imports Complex_Main Algebra_Ops Statistics
begin

text \<open>
  Splitting aggregates into a phase on every partition and a global one
  (\<^verbatim>\<open>crates/ra-core/src/distributed_agg.rs\<close>), and the proof that the split gives the aggregates
  of the whole input. Floats are the type variable of \<open>f64_ops\<close>; \<open>agg_ops\<close> adds the conversions,
  literals and the minimum this file uses.
\<close>

subsection \<open>Strategies\<close>

datatype agg_value = AggNull | AggInt i64 | AggFloat "64 word" | AggString string

datatype aggregation_strategy =
    TwoPhase "expr aggregate_expr" "expr aggregate_expr"
  | ThreePhase "expr aggregate_expr" "expr list" "expr aggregate_expr"
  | MapReduce "expr aggregate_expr" "expr aggregate_expr"
  | SkewAware "agg_value list" aggregation_strategy aggregation_strategy
  | SinglePhase

record agg_decomposition =
  ad_local_function :: aggregate_function
  ad_global_function :: aggregate_function

record avg_decomposition =
  av_local_sum :: aggregate_function
  av_local_count :: aggregate_function
  av_global_sum :: aggregate_function
  av_global_count :: aggregate_function

record variance_decomposition =
  vd_local_count :: aggregate_function
  vd_local_sum :: aggregate_function
  vd_local_sum_squares :: aggregate_function

record 'f distributed_agg_config =
  dc_min_rows_for_two_phase :: u64
  dc_min_rows_for_three_phase :: u64
  dc_max_rows_for_single_phase :: u64
  dc_num_nodes :: u32
  dc_network_bandwidth_bps :: 'f
  dc_avg_row_bytes :: 'f

record 'f agg_ops = "'f f64_ops" +
  ao_of_u64 :: "u64 \<Rightarrow> 'f"
  ao_of_u32 :: "u32 \<Rightarrow> 'f"
  ao_half :: 'f
  ao_min :: "'f \<Rightarrow> 'f \<Rightarrow> 'f"

definition default_agg_config :: "('f, 'z) agg_ops_scheme \<Rightarrow> 'f distributed_agg_config" where
  "default_agg_config F = \<lparr>dc_min_rows_for_two_phase = 1000000, dc_min_rows_for_three_phase = 10000000,
     dc_max_rows_for_single_phase = 100000, dc_num_nodes = 8,
     dc_network_bandwidth_bps = ao_of_u64 F 1250000000, dc_avg_row_bytes = ao_of_u64 F 100\<rparr>"

definition f64_clamp :: "('f, 'z) f64_ops_scheme \<Rightarrow> 'f \<Rightarrow> 'f" where
  "f64_clamp F x = (if f64_lt F x (f64_zero F) then f64_zero F else if f64_lt F (f64_one F) x then f64_one F else x)"

definition is_decomposable :: "aggregate_function \<Rightarrow> bool" where
  "is_decomposable f \<longleftrightarrow> f \<in> {Count, Sum, Min, Max, Avg}"

definition decompose_aggregate :: "aggregate_function \<Rightarrow> agg_decomposition option" where
  "decompose_aggregate f = (case f of
     Count \<Rightarrow> Some \<lparr>ad_local_function = Count, ad_global_function = Sum\<rparr>
   | Sum \<Rightarrow> Some \<lparr>ad_local_function = Sum, ad_global_function = Sum\<rparr>
   | Avg \<Rightarrow> Some \<lparr>ad_local_function = Sum, ad_global_function = Sum\<rparr>
   | Min \<Rightarrow> Some \<lparr>ad_local_function = Min, ad_global_function = Min\<rparr>
   | Max \<Rightarrow> Some \<lparr>ad_local_function = Max, ad_global_function = Max\<rparr>
   | _ \<Rightarrow> None)"

definition decompose_avg :: avg_decomposition where
  "decompose_avg = \<lparr>av_local_sum = Sum, av_local_count = Count, av_global_sum = Sum, av_global_count = Sum\<rparr>"

definition decompose_variance :: variance_decomposition where
  "decompose_variance = \<lparr>vd_local_count = Count, vd_local_sum = Sum, vd_local_sum_squares = Sum\<rparr>"

definition phase :: "aggregate_function \<Rightarrow> string \<Rightarrow> expr aggregate_expr" where
  "phase f a = AggregateExpr f None False (Some a)"

definition default_two_phase :: "aggregate_function \<Rightarrow> aggregation_strategy" where
  "default_two_phase f = (case decompose_aggregate f of
     Some d \<Rightarrow> TwoPhase (phase (ad_local_function d) ''partial'') (phase (ad_global_function d) ''final'')
   | None \<Rightarrow> SinglePhase)"

definition default_three_phase :: "aggregate_function \<Rightarrow> aggregation_strategy" where
  "default_three_phase f = (case decompose_aggregate f of
     Some d \<Rightarrow> ThreePhase (phase (ad_local_function d) ''partial'') [] (phase (ad_global_function d) ''final'')
   | None \<Rightarrow> SinglePhase)"

definition choose_strategy ::
  "aggregate_function \<Rightarrow> u64 \<Rightarrow> u64 \<Rightarrow> bool \<Rightarrow> 'f distributed_agg_config \<Rightarrow> aggregation_strategy" where
  "choose_strategy f input_rows distinct_groups has_skew config =
    (if input_rows \<le> dc_max_rows_for_single_phase config then SinglePhase
     else if \<not> is_decomposable f then SinglePhase
     else if has_skew \<and> dc_min_rows_for_three_phase config \<le> input_rows then default_three_phase f
     else if dc_min_rows_for_two_phase config \<le> input_rows then default_two_phase f
     else SinglePhase)"

subsection \<open>Costs\<close>

definition shuffle_fraction :: "('f, 'z) agg_ops_scheme \<Rightarrow> 'f distributed_agg_config \<Rightarrow> 'f" where
  "shuffle_fraction F config =
    (let n = ao_of_u32 F (dc_num_nodes config) in f64_div F (f64_sub F n (f64_one F)) n)"

definition estimated_benefit :: "('f, 'z) agg_ops_scheme \<Rightarrow> u64 \<Rightarrow> u64 \<Rightarrow> 'f distributed_agg_config \<Rightarrow> 'f" where
  "estimated_benefit F input_rows distinct_groups config =
    (if dc_num_nodes config \<le> 1 \<or> input_rows = 0 then f64_zero F
     else (let frac = shuffle_fraction F config;
             cost = (\<lambda>rows. f64_div F (f64_mul F (f64_mul F rows (dc_avg_row_bytes config)) frac)
               (dc_network_bandwidth_bps config));
             cost_single = cost (ao_of_u64 F input_rows);
             cost_two_phase = cost (f64_mul F (ao_of_u64 F distinct_groups) (ao_of_u32 F (dc_num_nodes config)))
           in if f64_le F cost_single (f64_zero F) then f64_zero F
              else f64_clamp F (f64_div F (f64_sub F cost_single cost_two_phase) cost_single)))"

definition three_phase_cost :: "('f, 'z) agg_ops_scheme \<Rightarrow> u64 \<Rightarrow> u64 \<Rightarrow> u64 \<Rightarrow> 'f distributed_agg_config \<Rightarrow> 'f" where
  "three_phase_cost F input_rows distinct_values groups config =
    (if dc_num_nodes config \<le> 1 then f64_zero F
     else (let n = ao_of_u32 F (dc_num_nodes config); frac = shuffle_fraction F config;
             dedup_rows = f64_mul F (ao_min F (ao_of_u64 F distinct_values) (f64_div F (ao_of_u64 F input_rows) n)) n;
             shuffle_1 = f64_div F (f64_mul F (f64_mul F dedup_rows (dc_avg_row_bytes config)) frac)
               (dc_network_bandwidth_bps config);
             shuffle_2 = f64_div F (f64_mul F (f64_mul F (f64_mul F (ao_of_u64 F groups) n) (ao_of_u64 F 16)) frac)
               (dc_network_bandwidth_bps config)
           in f64_add F shuffle_1 shuffle_2))"

definition reduction_ratio :: "('f, 'z) agg_ops_scheme \<Rightarrow> u64 \<Rightarrow> u64 \<Rightarrow> 'f" where
  "reduction_ratio F input_rows distinct_groups =
    (if input_rows = 0 then f64_zero F
     else f64_clamp F (f64_sub F (f64_one F) (f64_div F (ao_of_u64 F distinct_groups) (ao_of_u64 F input_rows))))"

definition is_two_phase_worthwhile ::
  "('f, 'z) agg_ops_scheme \<Rightarrow> u64 \<Rightarrow> u64 \<Rightarrow> 'f distributed_agg_config \<Rightarrow> bool" where
  "is_two_phase_worthwhile F input_rows distinct_groups config =
    (if input_rows < dc_min_rows_for_two_phase config then False
     else f64_lt F (ao_half F) (reduction_ratio F input_rows distinct_groups))"

subsection \<open>Decomposing a list of aggregates\<close>

definition all_decomposable :: "expr aggregate_expr list \<Rightarrow> bool" where
  "all_decomposable aggs = list_all (\<lambda>a. is_decomposable (ag_function a)) aggs"

definition alias_or_col :: "expr aggregate_expr \<Rightarrow> string" where
  "alias_or_col a = (case ag_alias a of Some x \<Rightarrow> x | None \<Rightarrow> ''col'')"

definition decompose_one :: "expr aggregate_expr \<Rightarrow> (expr aggregate_expr \<times> expr aggregate_expr) list option" where
  "decompose_one a =
    (if ag_function a = Avg then
       Some [(AggregateExpr (av_local_sum decompose_avg) (ag_arg a) False (Some (''partial_sum_'' @ alias_or_col a)),
              AggregateExpr (av_global_sum decompose_avg) None False (ag_alias a)),
             (AggregateExpr (av_local_count decompose_avg) (ag_arg a) False (Some (''partial_count_'' @ alias_or_col a)),
              AggregateExpr (av_global_count decompose_avg) None False None)]
     else (case decompose_aggregate (ag_function a) of
         None \<Rightarrow> None
       | Some d \<Rightarrow>
           Some [(AggregateExpr (ad_local_function d) (ag_arg a) False (Some (''partial_'' @ alias_or_col a)),
                  AggregateExpr (ad_global_function d) None False (ag_alias a))]))"

fun decompose_all :: "expr aggregate_expr list \<Rightarrow> (expr aggregate_expr \<times> expr aggregate_expr) list option" where
  "decompose_all [] = Some []"
| "decompose_all (a # as) = (case decompose_one a of
     None \<Rightarrow> None
   | Some ps \<Rightarrow> map_option ((@) ps) (decompose_all as))"

subsection \<open>What aggregates compute\<close>

text \<open>The values of a column that are not null, and the aggregates of SQL over exact numbers. \<open>oth\<close> is
  the meaning of the functions that are not decomposed.\<close>

definition present :: "'a option list \<Rightarrow> 'a list" where
  "present xs = List.map_filter id xs"

fun reduce1 :: "('a \<Rightarrow> 'a \<Rightarrow> 'a) \<Rightarrow> 'a list \<Rightarrow> 'a option" where
  "reduce1 f [] = None"
| "reduce1 f (x # xs) = Some (foldl f x xs)"

definition quotient :: "rat option \<Rightarrow> rat option \<Rightarrow> rat option" where
  "quotient s c = (case (s, c) of (Some x, Some y) \<Rightarrow> if y = 0 then None else Some (x / y) | _ \<Rightarrow> None)"

definition aggregate ::
  "(aggregate_function \<Rightarrow> rat option list \<Rightarrow> rat option) \<Rightarrow> aggregate_function \<Rightarrow> rat option list \<Rightarrow> rat option" where
  "aggregate oth f xs = (case f of
     Count \<Rightarrow> Some (of_nat (length (present xs)))
   | Sum \<Rightarrow> reduce1 (+) (present xs)
   | Min \<Rightarrow> reduce1 min (present xs)
   | Max \<Rightarrow> reduce1 max (present xs)
   | Avg \<Rightarrow> (if present xs = [] then None else Some (sum_list (present xs) / of_nat (length (present xs))))
   | _ \<Rightarrow> oth f xs)"

text \<open>The column an aggregate reads: without an argument every row counts.\<close>

definition agg_column :: "(expr \<Rightarrow> 'r \<Rightarrow> rat option) \<Rightarrow> expr option \<Rightarrow> 'r list \<Rightarrow> rat option list" where
  "agg_column val arg rows = map (\<lambda>r. case arg of None \<Rightarrow> Some 1 | Some e \<Rightarrow> val e r) rows"

definition whole_result where
  "whole_result oth val a rows = aggregate oth (ag_function a) (agg_column val (ag_arg a) rows)"

text \<open>The local phase on every partition, and the global one over the partial results.\<close>

definition phased_result where
  "phased_result oth val pair parts =
    aggregate oth (ag_function (snd pair)) (map (\<lambda>part. whole_result oth val (fst pair) part) parts)"

text \<open>An average is the quotient of its two results.\<close>

fun finalize :: "expr aggregate_expr list \<Rightarrow> rat option list \<Rightarrow> rat option list" where
  "finalize (a # as) (r # rs) =
    (if ag_function a = Avg then
       (case rs of c # rs' \<Rightarrow> quotient r c # finalize as rs' | [] \<Rightarrow> [])
     else r # finalize as rs)"
| "finalize _ _ = []"

lemma aggregate_simps [simp]:
  "aggregate oth Count xs = Some (of_nat (length (present xs)))"
  "aggregate oth Sum xs = reduce1 (+) (present xs)"
  "aggregate oth Min xs = reduce1 min (present xs)"
  "aggregate oth Max xs = reduce1 max (present xs)"
  by (simp_all add: aggregate_def)

lemma present_simps [simp]:
  "present [] = []"
  "present (None # xs) = present xs"
  "present (Some x # xs) = x # present xs"
  "present (xs @ ys) = present xs @ present ys"
  by (simp_all add: present_def map_filter_def)

lemma agg_column_append [simp]: "agg_column val arg (xs @ ys) = agg_column val arg xs @ agg_column val arg ys"
  by (simp add: agg_column_def)

fun merge_option :: "('a \<Rightarrow> 'a \<Rightarrow> 'a) \<Rightarrow> 'a option \<Rightarrow> 'a option \<Rightarrow> 'a option" where
  "merge_option f None y = y"
| "merge_option f x None = x"
| "merge_option f (Some x) (Some y) = Some (f x y)"

lemma foldl_assoc: "(\<And>x y z. f (f x y) z = f x (f y z)) \<Longrightarrow> foldl f (f x y) zs = f x (foldl f y zs)"
  by (induction zs arbitrary: y) simp_all

lemma reduce1_append:
  assumes "\<And>x y z. f (f x y) z = f x (f y z)"
  shows "reduce1 f (xs @ ys) = merge_option f (reduce1 f xs) (reduce1 f ys)"
  by (cases xs; cases ys) (simp_all add: foldl_assoc [of f, OF assms])

lemma reduce1_parts:
  assumes "\<And>x y z. f (f x y) z = f x (f y z)"
  shows "reduce1 f (present (map (\<lambda>part. reduce1 f (present (agg_column val arg part))) parts)) =
    reduce1 f (present (agg_column val arg (concat parts)))"
proof (induction parts)
  case (Cons part parts)
  let ?g = "\<lambda>part. reduce1 f (present (agg_column val arg part))"
  show ?case
  proof (cases "?g part")
    case None
    then have "present (agg_column val arg part) = []" by (cases "present (agg_column val arg part)") simp_all
    with None Cons show ?thesis by simp
  next
    case (Some v)
    then have "reduce1 f (present (map ?g (part # parts))) = merge_option f (?g part) (reduce1 f (present (map ?g parts)))"
      using reduce1_append [OF assms, of "[v]" "present (map ?g parts)"] by simp
    then show ?thesis by (simp add: Cons reduce1_append [OF assms])
  qed
qed (simp add: agg_column_def)

lemma reduce1_plus: "reduce1 (+) xs = (if xs = [] then None else Some (sum_list xs))" for xs :: "rat list"
proof (cases xs)
  case (Cons x ys)
  have "foldl (+) x ys = x + sum_list ys" for x :: rat and ys by (induction ys arbitrary: x) simp_all
  with Cons show ?thesis by simp
qed simp

lemma present_Some [simp]: "present (map (\<lambda>x. Some (f x)) xs) = map f xs"
  by (induction xs) simp_all

lemma sum_counts:
  "sum_list (map (\<lambda>part. of_nat (length (present (agg_column val arg part))) :: rat) parts) =
    of_nat (length (present (agg_column val arg (concat parts))))"
  by (induction parts) (simp_all add: agg_column_def)

lemma aggregate_avg:
  "aggregate oth Avg xs = quotient (reduce1 (+) (present xs)) (Some (of_nat (length (present xs))))"
  by (simp add: aggregate_def quotient_def reduce1_plus)

lemma count_parts:
  "parts \<noteq> [] \<Longrightarrow> reduce1 (+) (map (\<lambda>part. of_nat (length (present (agg_column val arg part))) :: rat) parts) =
    Some (of_nat (length (present (agg_column val arg (concat parts)))))"
  using sum_counts [of val arg parts] by (simp add: reduce1_plus)

lemmas phase_parts = reduce1_parts [of "(+) :: rat \<Rightarrow> rat \<Rightarrow> rat", OF add.assoc]
  reduce1_parts [of "min :: rat \<Rightarrow> rat \<Rightarrow> rat", OF min.assoc] reduce1_parts [of "max :: rat \<Rightarrow> rat \<Rightarrow> rat", OF max.assoc]

lemma decompose_aggregate_correct:
  assumes "decompose_aggregate f = Some d" "f \<noteq> Avg" "parts \<noteq> []"
  shows "aggregate oth (ad_global_function d)
      (map (\<lambda>part. aggregate oth (ad_local_function d) (agg_column val arg part)) parts) =
    aggregate oth f (agg_column val arg (concat parts))"
  using assms by (cases f) (auto simp: decompose_aggregate_def phase_parts count_parts)

text \<open>Claim C29. A decomposed list of aggregates computes what the aggregates compute over the whole input:
  running the local phase on each partition, the global phase over the partial results and the
  quotient for averages gives the same values, nulls and groups without values included, for
  every way the rows are split into one or more partitions and every list of aggregates without
  \<^verbatim>\<open>DISTINCT\<close>, in exact (rational) arithmetic.\<close>

theorem decompose_all_correct:
  assumes "decompose_all aggs = Some pairs" "\<forall>a \<in> set aggs. \<not> ag_distinct a" "parts \<noteq> []"
  shows "finalize aggs (map (\<lambda>pair. phased_result oth val pair parts) pairs) =
    map (\<lambda>a. whole_result oth val a (concat parts)) aggs"
  using assms(1,2)
proof (induction aggs arbitrary: pairs)
  case (Cons a as)
  then obtain ps rest where ps: "decompose_one a = Some ps" and rest: "decompose_all as = Some rest"
    and pairs: "pairs = ps @ rest" by (auto split: option.splits)
  note IH = Cons.IH [OF rest]
  show ?case
  proof (cases "ag_function a = Avg")
    case True
    let ?xs = "present (agg_column val (ag_arg a) (concat parts))"
    obtain p q where pq: "ps = [p, q]" and "phased_result oth val p parts = reduce1 (+) ?xs"
      "phased_result oth val q parts = Some (of_nat (length ?xs))"
      using ps True assms(3)
      by (auto simp: decompose_one_def decompose_avg_def phased_result_def whole_result_def phase_parts count_parts)
    then show ?thesis using IH Cons(3) True
      by (simp add: pairs whole_result_def aggregate_avg)
  next
    case False
    with ps obtain d where d: "decompose_aggregate (ag_function a) = Some d"
      and p: "ps = [(AggregateExpr (ad_local_function d) (ag_arg a) False (Some (''partial_'' @ alias_or_col a)),
        AggregateExpr (ad_global_function d) None False (ag_alias a))]"
      by (auto simp: decompose_one_def split: option.splits)
    then show ?thesis using IH Cons(3) False decompose_aggregate_correct [OF d False assms(3)]
      by (simp add: pairs p phased_result_def whole_result_def)
  qed
qed simp

subsection \<open>Examples\<close>

text \<open>\<^verbatim>\<open>COUNT(*)\<close> and \<^verbatim>\<open>AVG(x)\<close> over three partitions, one of them empty.\<close>

definition count_star :: "expr aggregate_expr" where
  "count_star = AggregateExpr Count None False None"

definition avg_x :: "expr aggregate_expr" where
  "avg_x = AggregateExpr Avg (Some (Column (column_new ''x''))) False (Some ''mean'')"

lemma example_decomposed:
  "decompose_all [count_star, avg_x] = Some
    [(AggregateExpr Count None False (Some ''partial_col''), AggregateExpr Sum None False None),
     (AggregateExpr Sum (Some (Column (column_new ''x''))) False (Some ''partial_sum_mean''),
        AggregateExpr Sum None False (Some ''mean'')),
     (AggregateExpr Count (Some (Column (column_new ''x''))) False (Some ''partial_count_mean''),
        AggregateExpr Sum None False None)]"
  by (simp add: count_star_def avg_x_def decompose_one_def decompose_aggregate_def decompose_avg_def alias_or_col_def)

lemma decompose_all_correct_witness:
  "finalize [count_star, avg_x] (map (\<lambda>pair. phased_result (\<lambda>f xs. None) (\<lambda>e r. r) pair
      [[Some 1, Some 2], [], [Some 6, None]]) (the (decompose_all [count_star, avg_x]))) = [Some 4, Some (3 :: rat)]"
proof -
  have "\<forall>a \<in> set [count_star, avg_x]. \<not> ag_distinct a" by (simp add: count_star_def avg_x_def)
  from decompose_all_correct [OF example_decomposed this, of "[[Some 1, Some 2], [], [Some 6, None]]"
      "\<lambda>f xs. None" "\<lambda>e r. r"]
  show ?thesis
    unfolding example_decomposed
    by (simp add: count_star_def avg_x_def whole_result_def agg_column_def aggregate_avg quotient_def)
qed

text \<open>The strategy chosen for an average alone is that of the sum, which is another number.\<close>

lemma average_chosen_as_sum:
  "choose_strategy Avg 2000000 groups False (default_agg_config F) = TwoPhase (phase Sum ''partial'') (phase Sum ''final'')"
  "aggregate oth Sum [Some 1, Some 3] = Some (4 :: rat)" "aggregate oth Avg [Some 1, Some 3] = Some (2 :: rat)"
  by (simp_all add: choose_strategy_def default_agg_config_def is_decomposable_def default_two_phase_def
      decompose_aggregate_def aggregate_avg quotient_def)

text \<open>\<^verbatim>\<open>DISTINCT\<close> is dropped: the partial counts of a value in two partitions add up.\<close>

lemma distinct_count_repeated:
  "decompose_all [AggregateExpr Count (Some e) True None] =
    Some [(AggregateExpr Count (Some e) False (Some ''partial_col''), AggregateExpr Sum None False None)]"
  "phased_result oth (\<lambda>e r. Some r) (AggregateExpr Count (Some e) False (Some ''partial_col''),
      AggregateExpr Sum None False None) [[5], [5]] = Some (2 :: rat)"
  by (simp_all add: decompose_one_def decompose_aggregate_def alias_or_col_def phased_result_def whole_result_def
      agg_column_def)

text \<open>The default strategies have no argument, and the three-phase one no keys to shuffle by.\<close>

lemma default_phases_bare:
  "choose_strategy f n groups skew config = ThreePhase l keys g \<Longrightarrow> keys = [] \<and> ag_arg l = None"
  "choose_strategy f n groups skew config = TwoPhase l g \<Longrightarrow> ag_arg l = None"
  by (auto simp: choose_strategy_def default_two_phase_def default_three_phase_def phase_def split: if_splits option.splits)

end
