(* ===== verification/Ring_Buffer.thy ===== *)
theory Ring_Buffer
  imports Cost_Type
begin

text \<open>
  The ring buffer and the moving averages of the streaming statistics
  (\<^verbatim>\<open>crates/ra-stats-advanced/src/ring_buffer.rs\<close>, \<^verbatim>\<open>smoother.rs\<close>). A panic is
  \<open>None\<close>. The two counters are atomic in the source, but a push has exclusive access to
  the buffer, so every operation is one step.
\<close>

subsection \<open>The buffer\<close>

record 'f ring_buffer =
  rg_data :: "'f list"
  rg_capacity :: nat
  rg_head :: nat
  rg_len :: nat

definition ring_new :: "('f, 'z) f64_ops_scheme \<Rightarrow> nat \<Rightarrow> 'f ring_buffer option" where
  "ring_new F capacity = (if capacity = 0 then None
     else Some \<lparr>rg_data = replicate capacity (f64_zero F), rg_capacity = capacity, rg_head = 0, rg_len = 0\<rparr>)"

definition ring_push :: "'f \<Rightarrow> 'f ring_buffer \<Rightarrow> 'f ring_buffer" where
  "ring_push v b =
    (let head = rg_head b; current_len = rg_len b;
       b1 = b\<lparr>rg_data := (rg_data b)[head := v], rg_head := (head + 1) mod rg_capacity b\<rparr>
     in if current_len < rg_capacity b then b1\<lparr>rg_len := current_len + 1\<rparr> else b1)"

definition ring_snapshot :: "'f ring_buffer \<Rightarrow> 'f list" where
  "ring_snapshot b =
    (let len = rg_len b; head = rg_head b in
     if len = 0 then []
     else (let start = (if len \<le> head then head - len else rg_capacity b - (len - head))
           in map (\<lambda>i. rg_data b ! ((start + i) mod rg_capacity b)) [0..<len]))"

definition ring_is_empty :: "'f ring_buffer \<Rightarrow> bool" where
  "ring_is_empty b \<longleftrightarrow> rg_len b = 0"

definition ring_clear :: "'f ring_buffer \<Rightarrow> 'f ring_buffer" where
  "ring_clear b = b\<lparr>rg_head := 0, rg_len := 0\<rparr>"

definition ring_mean :: "('f, 'z) f64_ops_scheme \<Rightarrow> (nat \<Rightarrow> 'f) \<Rightarrow> 'f ring_buffer \<Rightarrow> 'f option" where
  "ring_mean F of_usize b =
    (let snap = ring_snapshot b in
     if snap = [] then None else Some (f64_div F (f64_sum F snap) (of_usize (length snap))))"

text \<open>\<^verbatim>\<open>reduce\<close> with \<^verbatim>\<open>f64::min\<close> or \<^verbatim>\<open>f64::max\<close>.\<close>

definition reduce_samples :: "('f \<Rightarrow> 'f \<Rightarrow> 'f) \<Rightarrow> 'f list \<Rightarrow> 'f option" where
  "reduce_samples f xs = (case xs of [] \<Rightarrow> None | y # ys \<Rightarrow> Some (foldl f y ys))"

definition ring_min :: "('f \<Rightarrow> 'f \<Rightarrow> 'f) \<Rightarrow> 'f ring_buffer \<Rightarrow> 'f option" where
  "ring_min fmin b = reduce_samples fmin (ring_snapshot b)"

definition ring_max :: "('f, 'z) f64_ops_scheme \<Rightarrow> 'f ring_buffer \<Rightarrow> 'f option" where
  "ring_max F b = reduce_samples (f64_max F) (ring_snapshot b)"

subsection \<open>What it holds\<close>

definition ring_inv :: "'f ring_buffer \<Rightarrow> bool" where
  "ring_inv b \<longleftrightarrow> 0 < rg_capacity b \<and> length (rg_data b) = rg_capacity b \<and> rg_head b < rg_capacity b
     \<and> rg_len b \<le> rg_capacity b \<and> (rg_len b < rg_capacity b \<longrightarrow> rg_head b = rg_len b)"

lemma ring_inv_new: "ring_new F c = Some b \<Longrightarrow> ring_inv b"
  by (auto simp: ring_new_def ring_inv_def split: if_splits)

lemma ring_inv_push: "ring_inv b \<Longrightarrow> ring_inv (ring_push v b)"
  by (auto simp: ring_inv_def ring_push_def Let_def mod_Suc)

lemma ring_inv_clear: "ring_inv b \<Longrightarrow> ring_inv (ring_clear b)"
  by (simp add: ring_inv_def ring_clear_def)

lemma length_ring_snapshot [simp]: "length (ring_snapshot b) = rg_len b"
  by (simp add: ring_snapshot_def Let_def)

text \<open>While the buffer fills, the samples are a prefix of the data; once full, they start at the
  head.\<close>

lemma ring_snapshot_filling: "ring_inv b \<Longrightarrow> rg_len b < rg_capacity b \<Longrightarrow> ring_snapshot b = take (rg_len b) (rg_data b)"
  by (rule nth_equalityI) (auto simp: ring_snapshot_def ring_inv_def Let_def)

lemma ring_snapshot_full:
  "ring_inv b \<Longrightarrow> rg_len b = rg_capacity b \<Longrightarrow> ring_snapshot b = rotate (rg_head b) (rg_data b)"
  by (rule nth_equalityI) (auto simp: ring_snapshot_def ring_inv_def Let_def nth_rotate)

lemma ring_push_filling:
  assumes "ring_inv b" "rg_len b < rg_capacity b"
  shows "ring_snapshot (ring_push v b) = ring_snapshot b @ [v]"
proof -
  have inv: "ring_inv (ring_push v b)" by (rule ring_inv_push [OF assms(1)])
  have head: "rg_head b = rg_len b" and data: "length (rg_data b) = rg_capacity b"
    using assms by (simp_all add: ring_inv_def)
  have pushed: "rg_data (ring_push v b) = (rg_data b)[rg_len b := v]" "rg_len (ring_push v b) = rg_len b + 1"
    "rg_capacity (ring_push v b) = rg_capacity b" "rg_head (ring_push v b) = (rg_len b + 1) mod rg_capacity b"
    using assms(2) head by (simp_all add: ring_push_def Let_def)
  have take: "take (rg_len b + 1) ((rg_data b)[rg_len b := v]) = take (rg_len b) (rg_data b) @ [v]"
    using assms(2) data by (simp add: take_Suc_conv_app_nth)
  show ?thesis
  proof (cases "rg_len b + 1 < rg_capacity b")
    case True
    then show ?thesis
      using ring_snapshot_filling [OF inv] ring_snapshot_filling [OF assms] take by (simp add: pushed)
  next
    case False
    then have "rg_len b + 1 = rg_capacity b" using assms(2) by simp
    then show ?thesis
      using ring_snapshot_full [OF inv] ring_snapshot_filling [OF assms] take data by (simp add: pushed)
  qed
qed

lemma ring_push_full:
  assumes "ring_inv b" "rg_len b = rg_capacity b"
  shows "ring_snapshot (ring_push v b) = tl (ring_snapshot b) @ [v]"
proof -
  let ?d = "rg_data b" and ?h = "rg_head b"
  have inv: "ring_inv (ring_push v b)" by (rule ring_inv_push [OF assms(1)])
  have h: "?h < length ?d" and data: "length ?d = rg_capacity b" using assms by (simp_all add: ring_inv_def)
  have "ring_snapshot (ring_push v b) = rotate ((?h + 1) mod length (?d[?h := v])) (?d[?h := v])"
    using ring_snapshot_full [OF inv] assms(2) data by (simp add: ring_push_def Let_def)
  also have "\<dots> = rotate1 (rotate ?h (?d[?h := v]))" by (simp only: rotate_conv_mod [symmetric]) simp
  also have "rotate ?h (?d[?h := v]) = v # drop (Suc ?h) ?d @ take ?h ?d"
    using h by (simp add: rotate_drop_take Cons_nth_drop_Suc [symmetric])
  also have "rotate1 \<dots> = tl (rotate ?h ?d) @ [v]"
    using h by (simp add: rotate_drop_take Cons_nth_drop_Suc [symmetric])
  finally show ?thesis by (simp add: ring_snapshot_full [OF assms])
qed

subsection \<open>The buffer implements a sliding window\<close>

text \<open>The operations of a client, and the samples since the last clear.\<close>

datatype 'f ring_op = Push 'f | Clear

fun samples :: "'f ring_op list \<Rightarrow> 'f list \<Rightarrow> 'f list" where
  "samples [] xs = xs"
| "samples (Push v # ops) xs = samples ops (xs @ [v])"
| "samples (Clear # ops) xs = samples ops []"

text \<open>What a client relies on, and what it sees.\<close>

locale sliding_window =
  fixes inv :: "'b \<Rightarrow> bool" and capacity :: "'b \<Rightarrow> nat" and push :: "'f \<Rightarrow> 'b \<Rightarrow> 'b" and clear :: "'b \<Rightarrow> 'b"
    and contents :: "'b \<Rightarrow> 'f list"
  assumes inv_push: "inv b \<Longrightarrow> inv (push v b)"
    and inv_clear: "inv b \<Longrightarrow> inv (clear b)"
    and capacity_push: "capacity (push v b) = capacity b"
    and capacity_clear: "capacity (clear b) = capacity b"
    and capacity_pos: "inv b \<Longrightarrow> 0 < capacity b"
    and contents_push: "inv b \<Longrightarrow> contents (push v b) =
      drop (if length (contents b) = capacity b then 1 else 0) (contents b @ [v])"
    and contents_clear: "contents (clear b) = []"
begin

lemma contents_window:
  assumes "inv b" "contents b = drop (length xs - capacity b) xs"
  shows "contents (push v b) = drop (length (xs @ [v]) - capacity b) (xs @ [v])"
proof (cases "length xs < capacity b")
  case True
  then show ?thesis using contents_push [OF assms(1), of v] assms(2) by simp
next
  case False
  let ?n = "length xs - capacity b"
  have n: "?n \<le> length xs" "length (contents b) = capacity b" using False by (simp_all add: assms(2))
  then have "contents (push v b) = drop 1 (drop ?n xs @ [v])" using contents_push [OF assms(1), of v] assms(2) by simp
  also have "drop ?n xs @ [v] = drop ?n (xs @ [v])" using n by simp
  also have "drop 1 \<dots> = drop (Suc ?n) (xs @ [v])" by simp
  also have "Suc ?n = length (xs @ [v]) - capacity b" using False by simp
  finally show ?thesis .
qed

lemma window_steps:
  "inv b \<Longrightarrow> contents b = drop (length xs - capacity b) xs \<Longrightarrow>
    contents (fold (case_ring_op push clear) ops b) = drop (length (samples ops xs) - capacity b) (samples ops xs)"
proof (induction ops xs arbitrary: b rule: samples.induct)
  case (2 v ops xs)
  then show ?case using contents_window [OF 2(2,3), of v] by (simp add: inv_push capacity_push)
next
  case (3 ops xs)
  then show ?case by (simp add: inv_clear capacity_clear contents_clear)
qed simp

end

interpretation ring: sliding_window ring_inv rg_capacity ring_push ring_clear ring_snapshot
proof
  fix b :: "'a ring_buffer" and v
  show "ring_inv b \<Longrightarrow> ring_inv (ring_push v b)" by (rule ring_inv_push)
  show "ring_inv b \<Longrightarrow> ring_inv (ring_clear b)" by (rule ring_inv_clear)
  show "rg_capacity (ring_push v b) = rg_capacity b" by (simp add: ring_push_def Let_def)
  show "rg_capacity (ring_clear b) = rg_capacity b" by (simp add: ring_clear_def)
  show "ring_inv b \<Longrightarrow> 0 < rg_capacity b" by (simp add: ring_inv_def)
  show "ring_snapshot (ring_clear b) = []" by (simp add: ring_snapshot_def ring_clear_def)
  show "ring_inv b \<Longrightarrow> ring_snapshot (ring_push v b) =
      drop (if length (ring_snapshot b) = rg_capacity b then 1 else 0) (ring_snapshot b @ [v])"
  proof -
    assume inv: "ring_inv b"
    then have "0 < rg_capacity b" "rg_len b \<le> rg_capacity b" by (simp_all add: ring_inv_def)
    then show ?thesis using ring_push_filling [OF inv] ring_push_full [OF inv]
      by (cases "ring_snapshot b") (auto simp flip: length_ring_snapshot)
  qed
qed

definition ring_step :: "'f ring_op \<Rightarrow> 'f ring_buffer \<Rightarrow> 'f ring_buffer" where
  "ring_step = case_ring_op ring_push ring_clear"

text \<open>Claim C40. After any sequence of pushes and clears on a new buffer, a snapshot is the window of the
  last samples since the buffer was cleared: the most recent ones in their order, as many as the
  capacity allows; the buffer reports their number.\<close>

theorem ring_buffer_window:
  assumes "ring_new F c = Some b"
  shows "ring_snapshot (fold ring_step ops b) = drop (length (samples ops []) - c) (samples ops []) \<and>
    rg_len (fold ring_step ops b) = min c (length (samples ops []))"
proof -
  have b: "rg_capacity b = c" "ring_snapshot b = []"
    using assms by (auto simp: ring_new_def ring_snapshot_def split: if_splits)
  have snap: "ring_snapshot (fold ring_step ops b) = drop (length (samples ops []) - c) (samples ops [])"
    using ring.window_steps [OF ring_inv_new [OF assms], of "[]" ops] b by (simp add: ring_step_def)
  then have "rg_len (fold ring_step ops b) = length (drop (length (samples ops []) - c) (samples ops []))"
    using length_ring_snapshot by metis
  with snap show ?thesis by simp
qed

lemma ring_buffer_window_witness:
  "ring_snapshot (fold ring_step [Push 1, Push 2, Clear, Push 3, Push 4, Push 5, Push 6] (the (ring_new int_ops 3))) =
    [4, 5, 6 :: int]"
proof -
  have "ring_new int_ops 3 = Some (the (ring_new int_ops 3))" by (simp add: ring_new_def)
  from ring_buffer_window [OF this, of "[Push 1, Push 2, Clear, Push 3, Push 4, Push 5, Push 6]"]
  show ?thesis by simp
qed

subsection \<open>Moving averages\<close>

record 'f ewma =
  ew_alpha :: 'f
  ew_value :: "'f option"
  ew_count :: "64 word"

definition ewma_new :: "('f, 'z) f64_ops_scheme \<Rightarrow> 'f \<Rightarrow> 'f ewma option" where
  "ewma_new F alpha = (if f64_lt F (f64_zero F) alpha \<and> f64_le F alpha (f64_one F)
     then Some \<lparr>ew_alpha = alpha, ew_value = None, ew_count = 0\<rparr> else None)"

text \<open>\<open>powf\<close> is \<^verbatim>\<open>f64::powf\<close>, \<open>half\<close> the literal \<^verbatim>\<open>0.5\<close>.\<close>

definition ewma_from_half_life ::
  "('f, 'z) f64_ops_scheme \<Rightarrow> ('f \<Rightarrow> 'f \<Rightarrow> 'f) \<Rightarrow> 'f \<Rightarrow> (64 word \<Rightarrow> 'f) \<Rightarrow> 64 word \<Rightarrow> 'f ewma option" where
  "ewma_from_half_life F powf half of_u64 half_life =
    (if half_life = 0 then None
     else ewma_new F (f64_sub F (f64_one F) (powf half (f64_div F (f64_one F) (of_u64 half_life)))))"

definition ewma_update :: "('f, 'z) f64_ops_scheme \<Rightarrow> 'f \<Rightarrow> 'f ewma \<Rightarrow> 'f \<times> 'f ewma" where
  "ewma_update F v e =
    (let smoothed = (case ew_value e of
         Some prev \<Rightarrow> f64_add F (f64_mul F (ew_alpha e) v) (f64_mul F (f64_sub F (f64_one F) (ew_alpha e)) prev)
       | None \<Rightarrow> v)
     in (smoothed, e\<lparr>ew_count := ew_count e + 1, ew_value := Some smoothed\<rparr>))"

definition ewma_reset :: "'f ewma \<Rightarrow> 'f ewma" where
  "ewma_reset e = e\<lparr>ew_value := None, ew_count := 0\<rparr>"

record 'f smoother_set =
  sm_alpha :: 'f
  sm_smoothers :: "(string \<times> 'f ewma) list"

definition smoother_set_new :: "'f \<Rightarrow> 'f smoother_set" where
  "smoother_set_new alpha = \<lparr>sm_alpha = alpha, sm_smoothers = []\<rparr>"

definition smoother_add :: "('f, 'z) f64_ops_scheme \<Rightarrow> string \<Rightarrow> 'f smoother_set \<Rightarrow> 'f smoother_set option" where
  "smoother_add F name s =
    (if \<not> list_ex (\<lambda>(n, _). n = name) (sm_smoothers s)
     then (case ewma_new F (sm_alpha s) of None \<Rightarrow> None
       | Some e \<Rightarrow> Some (s\<lparr>sm_smoothers := sm_smoothers s @ [(name, e)]\<rparr>))
     else Some s)"

fun update_named ::
  "('f, 'z) f64_ops_scheme \<Rightarrow> string \<Rightarrow> 'f \<Rightarrow> (string \<times> 'f ewma) list \<Rightarrow> 'f option \<times> (string \<times> 'f ewma) list" where
  "update_named F name v [] = (None, [])"
| "update_named F name v ((n, e) # es) =
    (if n = name then (case ewma_update F v e of (x, e') \<Rightarrow> (Some x, (n, e') # es))
     else (case update_named F name v es of (r, es') \<Rightarrow> (r, (n, e) # es')))"

definition smoother_update ::
  "('f, 'z) f64_ops_scheme \<Rightarrow> string \<Rightarrow> 'f \<Rightarrow> 'f smoother_set \<Rightarrow> 'f option \<times> 'f smoother_set" where
  "smoother_update F name v s =
    (case update_named F name v (sm_smoothers s) of (r, es) \<Rightarrow> (r, s\<lparr>sm_smoothers := es\<rparr>))"

definition smoother_get :: "string \<Rightarrow> 'f smoother_set \<Rightarrow> 'f option" where
  "smoother_get name s = (case map_of (sm_smoothers s) name of None \<Rightarrow> None | Some e \<Rightarrow> ew_value e)"

definition reset_all :: "'f smoother_set \<Rightarrow> 'f smoother_set" where
  "reset_all s = s\<lparr>sm_smoothers := map (map_prod id ewma_reset) (sm_smoothers s)\<rparr>"

text \<open>In exact arithmetic, the weight of an observation decays with every later one; the weights of
  all add up to one.\<close>

fun decayed :: "real \<Rightarrow> real list \<Rightarrow> real" where
  "decayed a [] = 0"
| "decayed a (v # vs) = (1 - a) ^ length vs * a * v + decayed a vs"

lemma decayed_snoc: "decayed a (vs @ [v]) = a * v + (1 - a) * decayed a vs"
  by (induction vs) (simp_all add: algebra_simps)

lemma decayed_ones: "decayed a (replicate n 1) = 1 - (1 - a) ^ n"
  by (induction n) (simp_all add: algebra_simps)

theorem ewma_weights:
  "ew_value (fold (\<lambda>v e. snd (ewma_update real_ops v e)) vs (e\<lparr>ew_value := Some x\<rparr>)) =
    Some ((1 - ew_alpha e) ^ length vs * x + decayed (ew_alpha e) vs)"
proof (induction vs rule: rev_induct)
  case (snoc v vs)
  have "ew_alpha (fold (\<lambda>v e. snd (ewma_update real_ops v e)) vs d) = ew_alpha d" for d
    by (induction vs arbitrary: d) (simp_all add: ewma_update_def Let_def)
  with snoc show ?case by (simp add: ewma_update_def decayed_snoc algebra_simps Let_def)
qed simp

text \<open>A metric is smoothed for itself: an update of one name leaves every other as it is.\<close>

lemma map_of_update_named:
  "map_of (snd (update_named F name v es)) n =
    (if n = name then map_option (\<lambda>e. snd (ewma_update F v e)) (map_of es name) else map_of es n)"
  by (induction es) (auto split: prod.splits)

lemma smoother_update_other:
  "smoother_get n (snd (smoother_update F name v s)) =
    (if n = name then map_option (\<lambda>e. fst (ewma_update F v e)) (map_of (sm_smoothers s) name)
     else smoother_get n s)"
  using map_of_update_named [of F name v "sm_smoothers s" n]
  by (auto simp: smoother_get_def smoother_update_def ewma_update_def Let_def split: prod.splits option.splits)

end
