(* ===== verification/T_Digest.thy ===== *)
theory T_Digest
  imports Cost_Type
begin

text \<open>
  The t-digest that estimates percentiles of a stream
  (\<^verbatim>\<open>crates/ra-stats-advanced/src/percentiles.rs\<close>). Floats are the type variable of
  \<open>runtime_ops\<close>; the literals and conversions this file needs beyond it are \<open>digest_lits\<close>.
  The theorems are over exact arithmetic (\<open>real_ops\<close>).
\<close>

subsection \<open>The digest\<close>

record 'f digest_lits =
  dl_infinity :: 'f
  dl_neg_infinity :: 'f
  dl_to_usize :: "'f \<Rightarrow> nat"
  dl_p75 :: 'f
  dl_p90 :: 'f
  dl_p99 :: 'f

record 'f centroid =
  ce_mean :: 'f
  ce_weight :: 'f

record 'f t_digest =
  td_centroids :: "'f centroid list"
  td_compression :: 'f
  td_total_weight :: 'f
  td_max_unmerged :: nat
  td_unmerged :: "'f centroid list"
  td_min_val :: 'f
  td_max_val :: 'f

definition digest_new :: "('f, 'z) runtime_ops_scheme \<Rightarrow> 'f digest_lits \<Rightarrow> 'f \<Rightarrow> 'f t_digest" where
  "digest_new F L compression = \<lparr>td_centroids = [], td_compression = compression, td_total_weight = f64_zero F,
     td_max_unmerged = dl_to_usize L compression, td_unmerged = [], td_min_val = dl_infinity L,
     td_max_val = dl_neg_infinity L\<rparr>"

definition digest_default :: "('f, 'z) runtime_ops_scheme \<Rightarrow> 'f digest_lits \<Rightarrow> 'f t_digest" where
  "digest_default F L = digest_new F L (f64_100 F)"

definition max_weight :: "('f, 'z) runtime_ops_scheme \<Rightarrow> 'f \<Rightarrow> 'f \<Rightarrow> 'f \<Rightarrow> 'f" where
  "max_weight F q compression n =
    f64_div F (f64_mul F (f64_mul F (f64_mul F (f64_4 F) n) q) (f64_sub F (f64_one F) q)) compression"

text \<open>The stable sort by mean.\<close>

fun insert_by_mean :: "('f, 'z) runtime_ops_scheme \<Rightarrow> 'f centroid \<Rightarrow> 'f centroid list \<Rightarrow> 'f centroid list" where
  "insert_by_mean F x [] = [x]"
| "insert_by_mean F x (y # ys) =
    (if f64_lt F (ce_mean y) (ce_mean x) then y # insert_by_mean F x ys else x # y # ys)"

definition sort_by_mean :: "('f, 'z) runtime_ops_scheme \<Rightarrow> 'f centroid list \<Rightarrow> 'f centroid list" where
  "sort_by_mean F cs = foldr (insert_by_mean F) cs []"

definition merge_centroids :: "('f, 'z) runtime_ops_scheme \<Rightarrow> 'f centroid \<Rightarrow> 'f centroid \<Rightarrow> 'f centroid" where
  "merge_centroids F cur inc =
    (let new_weight = f64_add F (ce_weight cur) (ce_weight inc) in
     \<lparr>ce_mean = f64_add F (ce_mean cur)
        (f64_div F (f64_mul F (f64_sub F (ce_mean inc) (ce_mean cur)) (ce_weight inc)) new_weight),
      ce_weight = new_weight\<rparr>)"

fun merge_loop ::
  "('f, 'z) runtime_ops_scheme \<Rightarrow> 'f \<Rightarrow> 'f \<Rightarrow> 'f \<Rightarrow> 'f centroid \<Rightarrow> 'f centroid list \<Rightarrow> 'f centroid list" where
  "merge_loop F compression n weight_so_far cur [] = [cur]"
| "merge_loop F compression n weight_so_far cur (inc # rest) =
    (let q = f64_div F (f64_add F weight_so_far (f64_div F (ce_weight cur) (f64_2 F))) n in
     if f64_le F (f64_add F (ce_weight cur) (ce_weight inc)) (max_weight F q compression n)
     then merge_loop F compression n weight_so_far (merge_centroids F cur inc) rest
     else cur # merge_loop F compression n (f64_add F weight_so_far (ce_weight cur)) inc rest)"

definition compress :: "('f, 'z) runtime_ops_scheme \<Rightarrow> 'f t_digest \<Rightarrow> 'f t_digest" where
  "compress F d =
    (if td_unmerged d = [] then d
     else (case sort_by_mean F (td_centroids d @ td_unmerged d) of
         [] \<Rightarrow> d\<lparr>td_centroids := [], td_unmerged := []\<rparr>
       | cur # rest \<Rightarrow> d\<lparr>td_centroids := merge_loop F (td_compression d) (td_total_weight d) (f64_zero F) cur rest,
             td_unmerged := []\<rparr>))"

definition add_weighted :: "('f, 'z) runtime_ops_scheme \<Rightarrow> 'f \<Rightarrow> 'f \<Rightarrow> 'f t_digest \<Rightarrow> 'f t_digest" where
  "add_weighted F v w d =
    (if f64_le F w (f64_zero F) then d
     else (let d1 = d\<lparr>td_min_val := (if f64_lt F v (td_min_val d) then v else td_min_val d),
                      td_max_val := (if f64_lt F (td_max_val d) v then v else td_max_val d),
                      td_unmerged := td_unmerged d @ [\<lparr>ce_mean = v, ce_weight = w\<rparr>],
                      td_total_weight := f64_add F (td_total_weight d) w\<rparr>
           in if td_max_unmerged d1 \<le> length (td_unmerged d1) then compress F d1 else d1))"

definition digest_add :: "('f, 'z) runtime_ops_scheme \<Rightarrow> 'f \<Rightarrow> 'f t_digest \<Rightarrow> 'f t_digest" where
  "digest_add F v d = add_weighted F v (f64_one F) d"

text \<open>The loop over the centroids: \<open>prev\<close> is the one before, \<open>cum\<close> the weight before it ends.\<close>

fun quantile_loop ::
  "('f, 'z) runtime_ops_scheme \<Rightarrow> 'f \<Rightarrow> 'f \<Rightarrow> 'f \<Rightarrow> 'f centroid option \<Rightarrow> 'f \<Rightarrow> 'f centroid list \<Rightarrow> 'f" where
  "quantile_loop F mn mx target prev cum [] = mx"
| "quantile_loop F mn mx target prev cum (c # cs) =
    (let half_w = f64_div F (ce_weight c) (f64_2 F) in
     if f64_le F target (f64_add F cum half_w) then
       (case prev of
          None \<Rightarrow> f64_add F mn (f64_mul F (f64_div F target half_w) (f64_sub F (ce_mean c) mn))
        | Some p \<Rightarrow>
            (let gap = f64_sub F (ce_mean c) (ce_mean p); prev_half = f64_div F (ce_weight p) (f64_2 F);
               range = f64_add F prev_half half_w; offset = f64_sub F target (f64_sub F cum prev_half)
             in f64_add F (ce_mean p) (f64_div F (f64_mul F gap offset) range)))
     else
       (let cum' = f64_add F cum (ce_weight c) in
        if f64_le F target cum' then
          (case cs of
             [] \<Rightarrow>
               (let t = f64_div F (f64_sub F cum' target) half_w
                in f64_sub F mx (f64_mul F t (f64_sub F mx (ce_mean c))))
           | n # _ \<Rightarrow>
               (let gap = f64_sub F (ce_mean n) (ce_mean c); next_half = f64_div F (ce_weight n) (f64_2 F);
                  range = f64_add F half_w next_half; offset = f64_sub F target (f64_sub F cum' half_w)
                in f64_add F (ce_mean c) (f64_div F (f64_mul F gap offset) range)))
        else quantile_loop F mn mx target (Some c) cum' cs))"

definition clamp_unit :: "('f, 'z) runtime_ops_scheme \<Rightarrow> 'f \<Rightarrow> 'f" where
  "clamp_unit F x = (if f64_lt F x (f64_zero F) then f64_zero F else if f64_lt F (f64_one F) x then f64_one F else x)"

definition quantile :: "('f, 'z) runtime_ops_scheme \<Rightarrow> 'f \<Rightarrow> 'f t_digest \<Rightarrow> 'f option \<times> 'f t_digest" where
  "quantile F q0 d0 =
    (let d = compress F d0 in
     if td_centroids d = [] then (None, d)
     else (let q = clamp_unit F q0 in
       if f64_lt F (f64_abs F (f64_sub F q (f64_zero F))) (f64_eps F) then (Some (td_min_val d), d)
       else if f64_lt F (f64_abs F (f64_sub F q (f64_one F))) (f64_eps F) then (Some (td_max_val d), d)
       else (Some (quantile_loop F (td_min_val d) (td_max_val d) (f64_mul F q (td_total_weight d)) None (f64_zero F)
               (td_centroids d)), d)))"

definition centroid_count :: "'f t_digest \<Rightarrow> nat" where
  "centroid_count d = length (td_centroids d) + length (td_unmerged d)"

text \<open>\<^verbatim>\<open>total_weight == 0.0\<close>; a comparison of floats is two of its order.\<close>

definition digest_is_empty :: "('f, 'z) runtime_ops_scheme \<Rightarrow> 'f t_digest \<Rightarrow> bool" where
  "digest_is_empty F d \<longleftrightarrow> f64_le F (td_total_weight d) (f64_zero F) \<and> f64_le F (f64_zero F) (td_total_weight d)"

definition digest_min :: "('f, 'z) runtime_ops_scheme \<Rightarrow> 'f t_digest \<Rightarrow> 'f option" where
  "digest_min F d = (if digest_is_empty F d then None else Some (td_min_val d))"

definition digest_max :: "('f, 'z) runtime_ops_scheme \<Rightarrow> 'f t_digest \<Rightarrow> 'f option" where
  "digest_max F d = (if digest_is_empty F d then None else Some (td_max_val d))"

definition digest_clear :: "('f, 'z) runtime_ops_scheme \<Rightarrow> 'f digest_lits \<Rightarrow> 'f t_digest \<Rightarrow> 'f t_digest" where
  "digest_clear F L d = d\<lparr>td_centroids := [], td_unmerged := [], td_total_weight := f64_zero F,
     td_min_val := dl_infinity L, td_max_val := dl_neg_infinity L\<rparr>"

subsection \<open>The tracker\<close>

record 'f percentile_summary =
  su_p50 :: 'f
  su_p75 :: 'f
  su_p90 :: 'f
  su_p99 :: 'f
  su_count :: 'f
  su_min :: 'f
  su_max :: 'f

record 'f percentile_tracker =
  pt_digest :: "'f t_digest"
  pt_name :: string

definition tracker_new :: "('f, 'z) runtime_ops_scheme \<Rightarrow> 'f digest_lits \<Rightarrow> string \<Rightarrow> 'f percentile_tracker" where
  "tracker_new F L name = \<lparr>pt_digest = digest_default F L, pt_name = name\<rparr>"

definition tracker_with_compression ::
  "('f, 'z) runtime_ops_scheme \<Rightarrow> 'f digest_lits \<Rightarrow> string \<Rightarrow> 'f \<Rightarrow> 'f percentile_tracker" where
  "tracker_with_compression F L name compression = \<lparr>pt_digest = digest_new F L compression, pt_name = name\<rparr>"

definition tracker_record :: "('f, 'z) runtime_ops_scheme \<Rightarrow> 'f \<Rightarrow> 'f percentile_tracker \<Rightarrow> 'f percentile_tracker" where
  "tracker_record F v t = t\<lparr>pt_digest := digest_add F v (pt_digest t)\<rparr>"

definition tracker_summary ::
  "('f, 'z) runtime_ops_scheme \<Rightarrow> 'f digest_lits \<Rightarrow> 'f percentile_tracker \<Rightarrow>
    'f percentile_summary option \<times> 'f percentile_tracker" where
  "tracker_summary F L t =
    (case quantile F (f64_half F) (pt_digest t) of
       (None, d) \<Rightarrow> (None, t\<lparr>pt_digest := d\<rparr>)
     | (Some p50, d) \<Rightarrow> (case quantile F (dl_p75 L) d of
         (None, d) \<Rightarrow> (None, t\<lparr>pt_digest := d\<rparr>)
       | (Some p75, d) \<Rightarrow> (case quantile F (dl_p90 L) d of
           (None, d) \<Rightarrow> (None, t\<lparr>pt_digest := d\<rparr>)
         | (Some p90, d) \<Rightarrow> (case quantile F (dl_p99 L) d of
             (None, d) \<Rightarrow> (None, t\<lparr>pt_digest := d\<rparr>)
           | (Some p99, d) \<Rightarrow>
               (Some \<lparr>su_p50 = p50, su_p75 = p75, su_p90 = p90, su_p99 = p99, su_count = td_total_weight d,
                  su_min = td_min_val d, su_max = td_max_val d\<rparr>, t\<lparr>pt_digest := d\<rparr>)))))"

definition tracker_clear :: "('f, 'z) runtime_ops_scheme \<Rightarrow> 'f digest_lits \<Rightarrow> 'f percentile_tracker \<Rightarrow> 'f percentile_tracker" where
  "tracker_clear F L t = t\<lparr>pt_digest := digest_clear F L (pt_digest t)\<rparr>"

subsection \<open>Exact arithmetic\<close>

lemma real_ops_more [simp]: "f64_abs real_ops = abs" "f64_eps real_ops = 1 / 2 ^ 52" "f64_half real_ops = 1 / 2"
  by (simp_all add: real_ops_def)

definition mass :: "real centroid list \<Rightarrow> real" where
  "mass cs = sum_list (map ce_weight cs)"

definition moment :: "real centroid list \<Rightarrow> real" where
  "moment cs = sum_list (map (\<lambda>c. ce_mean c * ce_weight c) cs)"

definition positive :: "real centroid list \<Rightarrow> bool" where
  "positive cs \<longleftrightarrow> (\<forall>c \<in> set cs. 0 < ce_weight c)"

definition between :: "real \<Rightarrow> real \<Rightarrow> real centroid list \<Rightarrow> bool" where
  "between lo hi cs \<longleftrightarrow> (\<forall>c \<in> set cs. lo \<le> ce_mean c \<and> ce_mean c \<le> hi)"

lemma centroid_list_simps [simp]:
  "mass [] = 0" "mass (c # cs) = ce_weight c + mass cs" "mass (cs @ ds) = mass cs + mass ds"
  "moment [] = 0" "moment (c # cs) = ce_mean c * ce_weight c + moment cs" "moment (cs @ ds) = moment cs + moment ds"
  "positive []" "positive (c # cs) \<longleftrightarrow> 0 < ce_weight c \<and> positive cs" "positive (cs @ ds) \<longleftrightarrow> positive cs \<and> positive ds"
  "between lo hi []" "between lo hi (c # cs) \<longleftrightarrow> lo \<le> ce_mean c \<and> ce_mean c \<le> hi \<and> between lo hi cs"
  "between lo hi (cs @ ds) \<longleftrightarrow> between lo hi cs \<and> between lo hi ds"
  by (auto simp: mass_def moment_def positive_def between_def)

subsection \<open>Compression keeps the weights and the mean\<close>

lemma insert_by_mean_facts [simp]:
  "mass (insert_by_mean real_ops x cs) = ce_weight x + mass cs"
  "moment (insert_by_mean real_ops x cs) = ce_mean x * ce_weight x + moment cs"
  "positive (insert_by_mean real_ops x cs) \<longleftrightarrow> 0 < ce_weight x \<and> positive cs"
  "between lo hi (insert_by_mean real_ops x cs) \<longleftrightarrow> lo \<le> ce_mean x \<and> ce_mean x \<le> hi \<and> between lo hi cs"
  "set (insert_by_mean real_ops x cs) = insert x (set cs)"
  by (induction cs) auto

lemma insert_by_mean_sorted: "sorted (map ce_mean cs) \<Longrightarrow> sorted (map ce_mean (insert_by_mean real_ops x cs))"
  by (induction cs) auto

lemma sort_by_mean_facts [simp]:
  "mass (sort_by_mean real_ops cs) = mass cs" "moment (sort_by_mean real_ops cs) = moment cs"
  "positive (sort_by_mean real_ops cs) \<longleftrightarrow> positive cs" "between lo hi (sort_by_mean real_ops cs) \<longleftrightarrow> between lo hi cs"
  "sorted (map ce_mean (sort_by_mean real_ops cs))" "set (sort_by_mean real_ops cs) = set cs"
  unfolding sort_by_mean_def by (induction cs) (auto intro: insert_by_mean_sorted)

text \<open>A point between \<open>a\<close> and \<open>b\<close>, at \<open>x\<close> of \<open>r\<close>.\<close>

definition interp :: "real \<Rightarrow> real \<Rightarrow> real \<Rightarrow> real \<Rightarrow> real" where
  "interp a b r x = a + (b - a) * x / r"

lemma interp_mono: "a \<le> b \<Longrightarrow> 0 < r \<Longrightarrow> x \<le> y \<Longrightarrow> interp a b r x \<le> interp a b r y"
  unfolding interp_def by (intro add_left_mono divide_right_mono mult_left_mono) auto

lemma interp_ends [simp]: "interp a b r 0 = a" "r \<noteq> 0 \<Longrightarrow> interp a b r r = b"
  by (simp_all add: interp_def)

lemma interp_between:
  assumes "a \<le> b" "0 < r" "0 \<le> x" "x \<le> r"
  shows "a \<le> interp a b r x" "interp a b r x \<le> b"
  using interp_mono [OF assms(1,2,3)] interp_mono [OF assms(1,2,4)] assms(2) by simp_all

lemma merge_centroids_facts:
  assumes "0 < ce_weight c" "0 < ce_weight d" "ce_mean c \<le> ce_mean d"
  shows "ce_weight (merge_centroids real_ops c d) = ce_weight c + ce_weight d"
    and "ce_mean (merge_centroids real_ops c d) * (ce_weight c + ce_weight d) =
      ce_mean c * ce_weight c + ce_mean d * ce_weight d"
    and "ce_mean c \<le> ce_mean (merge_centroids real_ops c d)" "ce_mean (merge_centroids real_ops c d) \<le> ce_mean d"
proof -
  have mean: "ce_mean (merge_centroids real_ops c d) = interp (ce_mean c) (ce_mean d) (ce_weight c + ce_weight d) (ce_weight d)"
    by (simp add: merge_centroids_def interp_def Let_def)
  show "ce_weight (merge_centroids real_ops c d) = ce_weight c + ce_weight d" by (simp add: merge_centroids_def Let_def)
  show "ce_mean (merge_centroids real_ops c d) * (ce_weight c + ce_weight d) =
      ce_mean c * ce_weight c + ce_mean d * ce_weight d"
    using assms by (simp add: mean interp_def field_simps)
  show "ce_mean c \<le> ce_mean (merge_centroids real_ops c d)" "ce_mean (merge_centroids real_ops c d) \<le> ce_mean d"
    unfolding mean using assms by (auto intro: interp_between)
qed

lemma merge_loop_facts:
  assumes "sorted (map ce_mean (cur # rest))" "positive (cur # rest)" "between lo hi (cur # rest)"
  shows "mass (merge_loop real_ops cpr n wsf cur rest) = mass (cur # rest) \<and>
    moment (merge_loop real_ops cpr n wsf cur rest) = moment (cur # rest) \<and>
    positive (merge_loop real_ops cpr n wsf cur rest) \<and>
    between lo hi (merge_loop real_ops cpr n wsf cur rest) \<and>
    sorted (map ce_mean (merge_loop real_ops cpr n wsf cur rest)) \<and>
    (\<forall>c \<in> set (merge_loop real_ops cpr n wsf cur rest). ce_mean cur \<le> ce_mean c)"
  using assms
proof (induction rest arbitrary: cur wsf)
  case (Cons inc rest)
  let ?m = "merge_centroids real_ops cur inc"
  have le: "ce_mean cur \<le> ce_mean inc" and pos: "0 < ce_weight cur" "0 < ce_weight inc"
    using Cons.prems by auto
  note m = merge_centroids_facts [OF pos le]
  have merged: "sorted (map ce_mean (?m # rest))" "positive (?m # rest)" "between lo hi (?m # rest)"
    using Cons.prems m by auto
  have later: "sorted (map ce_mean (inc # rest))" "positive (inc # rest)" "between lo hi (inc # rest)"
    using Cons.prems by auto
  let ?q = "(wsf + ce_weight cur / 2) / n"
  show ?case
  proof (cases "ce_weight cur + ce_weight inc \<le> max_weight real_ops ?q cpr n")
    case True
    then show ?thesis using Cons.IH [OF merged, of wsf] m by (auto simp: Let_def)
  next
    case False
    then show ?thesis using Cons.IH [OF later, of "wsf + ce_weight cur"] le pos Cons.prems
      by (auto simp: Let_def intro: order_trans)
  qed
qed auto

subsection \<open>The invariant\<close>

text \<open>\<open>vs\<close> are the values added, with their weights.\<close>

definition digest_holds :: "real digest_lits \<Rightarrow> (real \<times> real) list \<Rightarrow> real t_digest \<Rightarrow> bool" where
  "digest_holds L vs d \<longleftrightarrow>
     sorted (map ce_mean (td_centroids d)) \<and> positive (td_centroids d @ td_unmerged d)
     \<and> between (foldl min (dl_infinity L) (map fst vs)) (foldl max (dl_neg_infinity L) (map fst vs))
          (td_centroids d @ td_unmerged d)
     \<and> mass (td_centroids d @ td_unmerged d) = sum_list (map snd vs) \<and> td_total_weight d = sum_list (map snd vs)
     \<and> moment (td_centroids d @ td_unmerged d) = sum_list (map (\<lambda>(v, w). v * w) vs)
     \<and> (vs = [] \<longleftrightarrow> td_centroids d @ td_unmerged d = [])
     \<and> td_min_val d = foldl min (dl_infinity L) (map fst vs)
     \<and> td_max_val d = foldl max (dl_neg_infinity L) (map fst vs)"

lemma between_mono: "between lo hi cs \<Longrightarrow> lo' \<le> lo \<Longrightarrow> hi \<le> hi' \<Longrightarrow> between lo' hi' cs"
  by (fastforce simp: between_def)

lemma merge_loop_nonempty: "merge_loop F cpr n wsf cur rest \<noteq> []"
  by (induction rest arbitrary: cur wsf) (simp_all add: Let_def)

lemma compress_holds:
  assumes "digest_holds L vs d"
  shows "digest_holds L vs (compress real_ops d) \<and> td_unmerged (compress real_ops d) = []"
proof (cases "td_unmerged d = []")
  case True
  with assms show ?thesis by (simp add: compress_def)
next
  case False
  let ?all = "sort_by_mean real_ops (td_centroids d @ td_unmerged d)"
  have "set ?all \<noteq> {}" using False by simp
  then obtain cur rest where all: "?all = cur # rest" by (cases ?all) auto
  have facts: "sorted (map ce_mean ?all)" "positive ?all"
    "between (foldl min (dl_infinity L) (map fst vs)) (foldl max (dl_neg_infinity L) (map fst vs)) ?all"
    "mass ?all = sum_list (map snd vs)" "moment ?all = sum_list (map (\<lambda>(v, w). v * w) vs)"
    using assms by (simp_all add: digest_holds_def)
  note merged = merge_loop_facts [OF facts(1-3) [unfolded all], of "td_compression d" "td_total_weight d" 0]
  show ?thesis
    using assms False facts(4,5) [unfolded all] merged merge_loop_nonempty [of real_ops _ _ _ cur rest]
    by (simp add: digest_holds_def compress_def all)
qed

lemma new_bounds: "(if v < mn then v else mn) = min mn (v::real)" "(if mx < v then v else mx) = max mx (v::real)"
  by auto

lemma add_weighted_holds:
  assumes "digest_holds L vs d" "0 < w"
  shows "digest_holds L (vs @ [(v, w)]) (add_weighted real_ops v w d)"
proof -
  define d1 where "d1 = d\<lparr>td_min_val := min (td_min_val d) v, td_max_val := max (td_max_val d) v,
    td_unmerged := td_unmerged d @ [\<lparr>ce_mean = v, ce_weight = w\<rparr>], td_total_weight := td_total_weight d + w\<rparr>"
  let ?mn = "foldl min (dl_infinity L) (map fst vs)" and ?mx = "foldl max (dl_neg_infinity L) (map fst vs)"
  note h = assms(1) [unfolded digest_holds_def]
  have old: "between (min ?mn v) (max ?mx v) (td_centroids d @ td_unmerged d)"
    by (rule between_mono [where lo = ?mn and hi = ?mx]) (use h in blast, simp_all)
  have fields: "td_centroids d1 = td_centroids d" "td_unmerged d1 = td_unmerged d @ [\<lparr>ce_mean = v, ce_weight = w\<rparr>]"
    "td_min_val d1 = min (td_min_val d) v" "td_max_val d1 = max (td_max_val d) v"
    "td_total_weight d1 = td_total_weight d + w" by (simp_all add: d1_def)
  have d1: "digest_holds L (vs @ [(v, w)]) d1"
    unfolding digest_holds_def fields append_assoc [symmetric]
  proof (intro conjI)
    show "between (foldl min (dl_infinity L) (map fst (vs @ [(v, w)]))) (foldl max (dl_neg_infinity L) (map fst (vs @ [(v, w)])))
        ((td_centroids d @ td_unmerged d) @ [\<lparr>ce_mean = v, ce_weight = w\<rparr>])"
      using old unfolding centroid_list_simps(12) by simp
    show "mass ((td_centroids d @ td_unmerged d) @ [\<lparr>ce_mean = v, ce_weight = w\<rparr>]) = sum_list (map snd (vs @ [(v, w)]))"
      using h unfolding centroid_list_simps(3) by simp
    show "moment ((td_centroids d @ td_unmerged d) @ [\<lparr>ce_mean = v, ce_weight = w\<rparr>])
        = sum_list (map (\<lambda>(v, w). v * w) (vs @ [(v, w)]))"
      using h unfolding centroid_list_simps(6) by simp
  qed (use h assms(2) in \<open>auto simp only: foldl_append map_append sum_list.append foldl_Cons list.map fst_conv snd_conv
      foldl_Nil centroid_list_simps list.distinct append_is_Nil_conv sum_list.Cons sum_list.Nil add_0_right centroid.simps\<close>)
  have step: "add_weighted real_ops v w d =
      (if td_max_unmerged d1 \<le> length (td_unmerged d1) then compress real_ops d1 else d1)"
    unfolding add_weighted_def Let_def real_ops_simps new_bounds d1_def using assms(2) by simp
  show ?thesis unfolding step using compress_holds [OF d1] d1 by simp
qed

definition digest_of :: "real digest_lits \<Rightarrow> real \<Rightarrow> (real \<times> real) list \<Rightarrow> real t_digest" where
  "digest_of L compression vs = fold (\<lambda>(v, w). add_weighted real_ops v w) vs (digest_new real_ops L compression)"

text \<open>The values that count.\<close>

definition weighted :: "(real \<times> real) list \<Rightarrow> (real \<times> real) list" where
  "weighted vs = filter (\<lambda>(v, w). 0 < w) vs"

lemma digest_of_holds: "digest_holds L (weighted vs) (digest_of L compression vs)"
proof (induction vs rule: rev_induct)
  case Nil
  then show ?case by (simp add: digest_of_def digest_holds_def digest_new_def weighted_def)
next
  case (snoc x vs)
  obtain v w where x: "x = (v, w)" by (cases x)
  show ?case
  proof (cases "0 < w")
    case True
    then show ?thesis using add_weighted_holds [OF snoc True, of v] by (simp add: x digest_of_def weighted_def)
  next
    case False
    then show ?thesis using snoc by (simp add: x digest_of_def weighted_def add_weighted_def)
  qed
qed

text \<open>Claim C26. In exact arithmetic, whatever values with weights are added, however often the digest compresses itself on the
  way and for every compression factor: after a query the weights of its centroids add up to the
  total weight of the values, their weighted means to the weighted sum of the values, and the
  means are in order between the least and the greatest value seen. Compression loses no weight
  and does not move the mean.\<close>

theorem digest_conserves:
  "let d = snd (quantile real_ops q (digest_of L compression vs)) in
    td_unmerged d = [] \<and> mass (td_centroids d) = sum_list (map snd (weighted vs)) \<and>
    td_total_weight d = sum_list (map snd (weighted vs)) \<and>
    moment (td_centroids d) = sum_list (map (\<lambda>(v, w). v * w) (weighted vs)) \<and>
    sorted (map ce_mean (td_centroids d)) \<and> between (td_min_val d) (td_max_val d) (td_centroids d) \<and>
    td_min_val d = foldl min (dl_infinity L) (map fst (weighted vs)) \<and>
    td_max_val d = foldl max (dl_neg_infinity L) (map fst (weighted vs))"
proof -
  let ?d = "compress real_ops (digest_of L compression vs)"
  have d: "snd (quantile real_ops q (digest_of L compression vs)) = ?d"
    by (simp add: quantile_def Let_def)
  have un: "td_unmerged ?d = []" and h: "digest_holds L (weighted vs) ?d"
    using compress_holds [OF digest_of_holds, of L vs compression] by simp_all
  show ?thesis using h unfolding d Let_def digest_holds_def un by simp
qed

subsection \<open>Quantiles\<close>

text \<open>The point at the border between two centroids.\<close>

definition border :: "real centroid \<Rightarrow> real centroid \<Rightarrow> real" where
  "border p c = interp (ce_mean p) (ce_mean c) (ce_weight p / 2 + ce_weight c / 2) (ce_weight p / 2)"

lemma border_between:
  assumes "ce_mean p \<le> ce_mean c" "0 < ce_weight p" "0 < ce_weight c"
  shows "ce_mean p \<le> border p c" "border p c \<le> ce_mean c"
  unfolding border_def using assms by (auto intro: interp_between)

text \<open>The loop at a centroid, with the points written as interpolations.\<close>

lemma quantile_loop_Cons:
  "quantile_loop real_ops mn mx t prev cum (c # cs) =
    (if t \<le> cum + ce_weight c / 2 then
       (case prev of
          None \<Rightarrow> interp mn (ce_mean c) (ce_weight c / 2) t
        | Some p \<Rightarrow> interp (ce_mean p) (ce_mean c) (ce_weight p / 2 + ce_weight c / 2) (t - (cum - ce_weight p / 2)))
     else if t \<le> cum + ce_weight c then
       (case cs of
          [] \<Rightarrow> mx - (mx - ce_mean c) * (cum + ce_weight c - t) / (ce_weight c / 2)
        | n # _ \<Rightarrow> interp (ce_mean c) (ce_mean n) (ce_weight c / 2 + ce_weight n / 2) (t - (cum + ce_weight c - ce_weight c / 2)))
     else quantile_loop real_ops mn mx t (Some c) (cum + ce_weight c) cs)"
  by (simp add: Let_def interp_def mult.commute split: option.split list.split)

declare quantile_loop.simps(2) [simp del]

text \<open>The point where a centroid ends: the border to the next one, or the greatest value.\<close>

fun end_of :: "real \<Rightarrow> real centroid \<Rightarrow> real centroid list \<Rightarrow> real" where
  "end_of mx c [] = mx"
| "end_of mx c (n # ns) = border c n"

abbreviation ordered_centroids :: "real \<Rightarrow> real centroid list \<Rightarrow> bool" where
  "ordered_centroids mx cs \<equiv> sorted (map ce_mean cs) \<and> positive cs \<and> (\<forall>c \<in> set cs. ce_mean c \<le> mx)"

lemma end_of_above: "ordered_centroids mx (c # cs) \<Longrightarrow> ce_mean c \<le> end_of mx c cs"
  by (cases cs) (auto intro: border_between)

text \<open>The second half of a centroid.\<close>

definition upper_half :: "real \<Rightarrow> real centroid \<Rightarrow> real centroid list \<Rightarrow> real \<Rightarrow> real" where
  "upper_half mx c cs x =
    (case cs of [] \<Rightarrow> mx - (mx - ce_mean c) * (ce_weight c / 2 - x) / (ce_weight c / 2)
     | n # _ \<Rightarrow> interp (ce_mean c) (ce_mean n) (ce_weight c / 2 + ce_weight n / 2) x)"

lemma upper_half_Nil: "0 < ce_weight c \<Longrightarrow> upper_half mx c [] x = interp (ce_mean c) mx (ce_weight c / 2) x"
  by (simp add: upper_half_def interp_def field_simps)

lemma upper_half_ends:
  assumes "0 < ce_weight c"
  shows "upper_half mx c cs 0 = ce_mean c" "upper_half mx c cs (ce_weight c / 2) = end_of mx c cs"
proof -
  show "upper_half mx c cs 0 = ce_mean c"
    by (cases cs) (use assms in \<open>simp_all only: upper_half_Nil interp_ends, simp add: upper_half_def\<close>)
  show "upper_half mx c cs (ce_weight c / 2) = end_of mx c cs"
    by (cases cs) (use assms in \<open>simp_all add: upper_half_Nil\<close>, simp add: upper_half_def border_def)
qed

lemma upper_half_mono:
  assumes "ordered_centroids mx (c # cs)" "x \<le> y"
  shows "upper_half mx c cs x \<le> upper_half mx c cs y"
proof (cases cs)
  case Nil
  have "ce_mean c \<le> mx" "0 < ce_weight c" using assms(1) by simp_all
  with assms(2) show ?thesis unfolding Nil by (simp only: upper_half_Nil interp_mono half_gt_zero)
next
  case (Cons n ns)
  have "ce_mean c \<le> ce_mean n" "0 < ce_weight c / 2 + ce_weight n / 2" using assms(1) by (simp_all add: Cons)
  with assms(2) show ?thesis unfolding Cons by (simp only: upper_half_def list.case interp_mono)
qed

text \<open>The first half, which begins where the centroid before ends.\<close>

definition lower_half :: "real \<Rightarrow> real centroid option \<Rightarrow> real centroid \<Rightarrow> real \<Rightarrow> real" where
  "lower_half mn prev c x =
    (case prev of None \<Rightarrow> interp mn (ce_mean c) (ce_weight c / 2) x
     | Some p \<Rightarrow> interp (ce_mean p) (ce_mean c) (ce_weight p / 2 + ce_weight c / 2) (ce_weight p / 2 + x))"

definition start_of :: "real \<Rightarrow> real centroid option \<Rightarrow> real centroid \<Rightarrow> real" where
  "start_of mn prev c = (case prev of None \<Rightarrow> mn | Some p \<Rightarrow> border p c)"

definition prev_ok :: "real \<Rightarrow> real centroid option \<Rightarrow> real centroid list \<Rightarrow> bool" where
  "prev_ok mn prev cs \<longleftrightarrow>
    (case prev of None \<Rightarrow> (\<forall>c \<in> set cs. mn \<le> ce_mean c)
     | Some p \<Rightarrow> 0 < ce_weight p \<and> (\<forall>c \<in> set cs. ce_mean p \<le> ce_mean c))"

lemma lower_half_ends:
  assumes "0 < ce_weight c" "prev_ok mn prev (c # cs)"
  shows "lower_half mn prev c 0 = start_of mn prev c" "lower_half mn prev c (ce_weight c / 2) = ce_mean c"
  using assms by (cases prev; simp add: lower_half_def start_of_def prev_ok_def border_def)+

lemma lower_half_mono:
  assumes "0 < ce_weight c" "prev_ok mn prev (c # cs)" "x \<le> y"
  shows "lower_half mn prev c x \<le> lower_half mn prev c y"
  using assms by (cases prev) (simp_all add: lower_half_def prev_ok_def interp_mono)

lemma loop_halves:
  assumes "0 < ce_weight c" "prev = None \<Longrightarrow> cum = 0"
  shows "t \<le> cum + ce_weight c / 2 \<Longrightarrow>
      quantile_loop real_ops mn mx t prev cum (c # cs) = lower_half mn prev c (t - cum)"
    and "cum + ce_weight c / 2 < t \<Longrightarrow> t \<le> cum + ce_weight c \<Longrightarrow>
      quantile_loop real_ops mn mx t prev cum (c # cs) = upper_half mx c cs (t - cum - ce_weight c / 2)"
    and "cum + ce_weight c < t \<Longrightarrow>
      quantile_loop real_ops mn mx t prev cum (c # cs) = quantile_loop real_ops mn mx t (Some c) (cum + ce_weight c) cs"
proof -
  show "quantile_loop real_ops mn mx t prev cum (c # cs) = lower_half mn prev c (t - cum)"
    if "t \<le> cum + ce_weight c / 2"
    using that assms(2) by (cases prev) (simp_all add: quantile_loop_Cons lower_half_def algebra_simps)
  show "quantile_loop real_ops mn mx t prev cum (c # cs) = upper_half mx c cs (t - cum - ce_weight c / 2)"
    if "cum + ce_weight c / 2 < t" "t \<le> cum + ce_weight c"
  proof -
    have "cum + ce_weight c - t = ce_weight c / 2 - (t - cum - ce_weight c / 2)"
      "t - (cum + ce_weight c - ce_weight c / 2) = t - cum - ce_weight c / 2"
      "(t \<le> cum + ce_weight c / 2) = False" "(t \<le> cum + ce_weight c) = True"
      using that by (simp_all add: field_simps)
    then show ?thesis by (cases cs) (simp_all only: quantile_loop_Cons upper_half_def list.case if_False if_True)
  qed
  show "quantile_loop real_ops mn mx t prev cum (c # cs) = quantile_loop real_ops mn mx t (Some c) (cum + ce_weight c) cs"
    if "cum + ce_weight c < t"
    using that assms(1) by (simp add: quantile_loop_Cons)
qed

text \<open>The loop is monotone in the target, and never less than where its first centroid begins.\<close>

lemma loop_mono:
  assumes "ordered_centroids mx cs" "prev_ok mn prev cs" "prev = None \<Longrightarrow> cum = 0" "cum \<le> t" "t \<le> u"
  shows "quantile_loop real_ops mn mx t prev cum cs \<le> quantile_loop real_ops mn mx u prev cum cs \<and>
    (case cs of [] \<Rightarrow> mx | c # _ \<Rightarrow> start_of mn prev c) \<le> quantile_loop real_ops mn mx t prev cum cs"
  using assms
proof (induction cs arbitrary: prev cum t u)
  case (Cons c cs)
  let ?h = "ce_weight c / 2" and ?Q = "\<lambda>t. quantile_loop real_ops mn mx t prev cum (c # cs)"
  have pos: "0 < ce_weight c" and above: "ce_mean c \<le> end_of mx c cs"
    using Cons.prems(1) end_of_above by auto
  note halves = loop_halves [OF pos Cons.prems(3), where mn = mn and mx = mx and cs = cs]
  note low = lower_half_mono [OF pos Cons.prems(2)] lower_half_ends [OF pos Cons.prems(2)]
  note up = upper_half_mono [OF Cons.prems(1)] upper_half_ends [OF pos, of mx cs]
  have rest: "prev_ok mn (Some c) cs" "ordered_centroids mx cs"
    using Cons.prems(1) by (auto simp: prev_ok_def)
  have first: "start_of mn prev c \<le> ?Q x \<and> ?Q x \<le> ce_mean c" if "cum \<le> x" "x \<le> cum + ?h" for x
    using low(1) [of 0 "x - cum"] low(1) [of "x - cum" ?h] that by (simp add: halves(1) low(2,3))
  have second: "ce_mean c \<le> ?Q x \<and> ?Q x \<le> end_of mx c cs" if "cum + ?h < x" "x \<le> cum + ce_weight c" for x
    using up(1) [of 0 "x - cum - ?h"] up(1) [of "x - cum - ?h" ?h] that by (simp add: halves(2) up(2,3))
  have later: "?Q x \<le> ?Q y \<and> end_of mx c cs \<le> ?Q x" if "cum + ce_weight c < x" "x \<le> y" for x y
  proof -
    have "?Q x = quantile_loop real_ops mn mx x (Some c) (cum + ce_weight c) cs"
      "?Q y = quantile_loop real_ops mn mx y (Some c) (cum + ce_weight c) cs"
      using that by (intro halves(3); simp)+
    moreover have "end_of mx c cs = (case cs of [] \<Rightarrow> mx | n # _ \<Rightarrow> start_of mn (Some c) n)"
      by (cases cs) (simp_all add: start_of_def)
    ultimately show ?thesis
      using Cons.IH [OF rest(2,1), of "cum + ce_weight c" x y] that by simp
  qed
  have begins: "start_of mn prev c \<le> ce_mean c"
    using first [of "cum + ?h"] pos by simp
  consider "t \<le> cum + ?h" "u \<le> cum + ?h" | "t \<le> cum + ?h" "cum + ?h < u" "u \<le> cum + ce_weight c"
    | "t \<le> cum + ?h" "cum + ce_weight c < u" | "cum + ?h < t" "t \<le> cum + ce_weight c" "u \<le> cum + ce_weight c"
    | "cum + ?h < t" "t \<le> cum + ce_weight c" "cum + ce_weight c < u" | "cum + ce_weight c < t" by linarith
  then show ?case
  proof cases
    case 1
    then show ?thesis using Cons.prems(4,5) first [of t] low(1) [of "t - cum" "u - cum"] by (simp add: halves(1))
  next
    case 2
    then show ?thesis using Cons.prems(4) first [of t] second [of u] by (simp add: order_trans)
  next
    case 3
    then show ?thesis using Cons.prems(4) first [of t] later [of u u] above by simp
  next
    case 4
    then show ?thesis using Cons.prems(5) begins second [of t] up(1) [of "t - cum - ?h" "u - cum - ?h"]
      by (simp add: halves(2))
  next
    case 5
    then show ?thesis using begins second [of t] later [of u u] by simp
  next
    case 6
    then show ?thesis using Cons.prems(5) begins above later [of t u] by simp
  qed
qed simp

lemma loop_beyond: "positive cs \<Longrightarrow> cum + mass cs < t \<Longrightarrow> quantile_loop real_ops mn mx t prev cum cs = mx"
proof (induction cs arbitrary: prev cum)
  case (Cons c cs)
  have "0 \<le> mass cs" using Cons.prems(1) unfolding mass_def positive_def
    by (intro sum_list_nonneg) (auto simp: less_imp_le)
  then have "\<not> t \<le> cum + ce_weight c / 2" "\<not> t \<le> cum + ce_weight c" using Cons.prems by simp_all
  moreover have "quantile_loop real_ops mn mx t (Some c) (cum + ce_weight c) cs = mx"
    using Cons.prems by (intro Cons.IH) auto
  ultimately show ?case by (simp only: quantile_loop_Cons if_False)
qed simp

text \<open>What a quantile is, in one line.\<close>

definition quantile_value :: "real t_digest \<Rightarrow> real \<Rightarrow> real" where
  "quantile_value d q =
    (if \<bar>q\<bar> < 1 / 2 ^ 52 then td_min_val d
     else if \<bar>q - 1\<bar> < 1 / 2 ^ 52 then td_max_val d
     else quantile_loop real_ops (td_min_val d) (td_max_val d) (q * td_total_weight d) None 0 (td_centroids d))"

lemma clamp_unit_real: "clamp_unit real_ops x = min 1 (max 0 x)"
  by (simp add: clamp_unit_def min_def max_def)

lemma quantile_value_mono:
  assumes "ordered_centroids (td_max_val d) (td_centroids d)" "\<forall>c \<in> set (td_centroids d). td_min_val d \<le> ce_mean c"
    and "td_centroids d \<noteq> []" "0 \<le> td_total_weight d" "0 \<le> p" "p \<le> q" "q \<le> 1"
  shows "td_min_val d \<le> quantile_value d p \<and> quantile_value d p \<le> quantile_value d q \<and> quantile_value d q \<le> td_max_val d"
proof -
  let ?L = "\<lambda>t. quantile_loop real_ops (td_min_val d) (td_max_val d) t None 0 (td_centroids d)"
  have ok: "prev_ok (td_min_val d) None (td_centroids d)" using assms(2) by (simp add: prev_ok_def)
  have mono: "?L t \<le> ?L u \<and> td_min_val d \<le> ?L t" if "0 \<le> t" "t \<le> u" for t u
    using loop_mono [OF assms(1) ok refl that] assms(3) by (cases "td_centroids d") (simp_all add: start_of_def)
  have top: "?L t \<le> td_max_val d" if "0 \<le> t" for t
  proof -
    let ?u = "max t (mass (td_centroids d) + 1)"
    have "?L ?u = td_max_val d" using assms(1) by (intro loop_beyond) simp_all
    then show ?thesis using mono [of t ?u] that by simp
  qed
  have low: "td_min_val d \<le> td_max_val d" using mono [of 0 0] top [of 0] by simp
  have scale: "0 \<le> x * td_total_weight d" "x \<le> y \<Longrightarrow> x * td_total_weight d \<le> y * td_total_weight d"
    if "0 \<le> x" for x y using assms(4) that by (simp_all add: mult_right_mono)
  have range: "td_min_val d \<le> quantile_value d x \<and> quantile_value d x \<le> td_max_val d" if "0 \<le> x" for x
    using low mono [of "x * td_total_weight d" "x * td_total_weight d"] top [of "x * td_total_weight d"] scale(1) [OF that]
    by (simp add: quantile_value_def)
  have "quantile_value d p \<le> quantile_value d q"
  proof (cases "p < 1 / 2 ^ 52 \<or> 1 - q < 1 / 2 ^ 52")
    case True
    then show ?thesis using range [of p] range [of q] assms(5-7) by (auto simp: quantile_value_def)
  next
    case False
    then show ?thesis
      using assms(5-7) mono [of "p * td_total_weight d" "q * td_total_weight d"] scale(1) [of p] scale(2) [of p q]
      by (simp add: quantile_value_def)
  qed
  then show ?thesis using range [of p] range [of q] assms(5-7) by simp
qed

text \<open>Claim C27. In exact arithmetic the quantiles of a digest are ordered: whatever values with weights went in and however
  they were compressed, a digest that got a value answers every quantile, a lower one is at most
  a higher one, and all lie between the least and the greatest value. The interpolation between
  the centroids, the two ends and the clamping of the argument fit together without a step back.
  A digest that got none answers nothing.\<close>

theorem quantile_monotone:
  assumes "p \<le> q"
  shows "case (fst (quantile real_ops p (digest_of L compression vs)), fst (quantile real_ops q (digest_of L compression vs))) of
      (Some a, Some b) \<Rightarrow> weighted vs \<noteq> [] \<and> foldl min (dl_infinity L) (map fst (weighted vs)) \<le> a \<and> a \<le> b
        \<and> b \<le> foldl max (dl_neg_infinity L) (map fst (weighted vs))
    | (None, None) \<Rightarrow> weighted vs = []
    | _ \<Rightarrow> False"
proof -
  let ?d = "compress real_ops (digest_of L compression vs)"
  have un: "td_unmerged ?d = []" and h: "digest_holds L (weighted vs) ?d"
    using compress_holds [OF digest_of_holds, of L vs compression] by simp_all
  note facts = h [unfolded digest_holds_def un append_Nil2]
  have answer: "fst (quantile real_ops x (digest_of L compression vs)) =
      (if weighted vs = [] then None else Some (quantile_value ?d (min 1 (max 0 x))))" for x
    using facts by (simp add: quantile_def quantile_value_def Let_def clamp_unit_real)
  show ?thesis
  proof (cases "weighted vs = []")
    case False
    have "0 \<le> mass (td_centroids ?d)" using facts unfolding mass_def positive_def
      by (intro sum_list_nonneg) (auto simp: less_imp_le)
    then have "td_min_val ?d \<le> quantile_value ?d (min 1 (max 0 p)) \<and>
        quantile_value ?d (min 1 (max 0 p)) \<le> quantile_value ?d (min 1 (max 0 q)) \<and>
        quantile_value ?d (min 1 (max 0 q)) \<le> td_max_val ?d"
      using facts False assms by (intro quantile_value_mono) (auto simp: between_def)
    with False facts show ?thesis by (simp add: answer)
  qed (simp add: answer)
qed

definition digest_lits0 :: "real digest_lits" where
  "digest_lits0 = \<lparr>dl_infinity = 1000, dl_neg_infinity = - 1000, dl_to_usize = (\<lambda>x. nat \<lfloor>x\<rfloor>),
     dl_p75 = 3 / 4, dl_p90 = 9 / 10, dl_p99 = 99 / 100\<rparr>"

theorem quantile_monotone_witness:
  "\<exists>a b. fst (quantile real_ops (1 / 4) (digest_of digest_lits0 100 [(20, 1), (15, 0), (10, 2)])) = Some a
    \<and> fst (quantile real_ops (3 / 4) (digest_of digest_lits0 100 [(20, 1), (15, 0), (10, 2)])) = Some b
    \<and> 10 \<le> a \<and> a \<le> b \<and> b \<le> 20"
proof -
  have "weighted [(20, 1), (15, 0), (10, 2)] = [(20, 1), (10, 2)]" by (simp add: weighted_def)
  then show ?thesis
    using quantile_monotone [of "1 / 4" "3 / 4", where L = digest_lits0 and compression = 100
        and vs = "[(20, 1), (15, 0), (10, 2)]"]
    by (auto simp: digest_lits0_def split: option.splits)
qed

end
