(* ===== verification/Stats_Timeline.thy ===== *)
theory Stats_Timeline
  imports Cost_Type "HOL-Library.Char_ord" "HOL-Library.List_Lexorder" "HOL-Library.Multiset"
begin

text \<open>
  Timelines of table statistics and their playback (\<^verbatim>\<open>crates/ra-stats-advanced/src/timeline.rs\<close>), and the
  differences between two snapshots (\<^verbatim>\<open>delta.rs\<close>). A \<^verbatim>\<open>u64\<close> is a word, an index a natural number, a
  \<^verbatim>\<open>HashMap\<close> a map; \<open>iter\<close> is the order in which a hash map with the given keys is iterated. Reading
  a timeline from its file and the conversion of a snapshot to managed statistics are not modelled.
\<close>

subsection \<open>Timelines\<close>

datatype timeline_error = ParseError string | SnapshotOutOfBounds nat nat | EmptyTimeline
  | DuplicateOffset u64 | UnsortedOffsets nat | IoError string

record 'f column_snapshot =
  cs_name :: string
  cs_ndv :: u64
  cs_null_fraction :: 'f
  cs_avg_width :: 'f
  cs_correlation :: "'f option"
  cs_min_value :: "string option"
  cs_max_value :: "string option"

record 'f table_snapshot =
  ts_name :: string
  ts_row_count :: u64
  ts_page_count :: "u64 option"
  ts_avg_row_size :: "'f option"
  ts_table_size_bytes :: "u64 option"
  ts_columns :: "'f column_snapshot list"

record 'f snapshot =
  sn_time_offset :: u64
  sn_label :: "string option"
  sn_tables :: "'f table_snapshot list"

datatype event_kind = InsertEvent | UpdateEvent | DeleteEvent | Analyze | Reoptimize | SchemaChange | Vacuum

record timeline_event =
  te_time_offset :: u64
  te_kind :: event_kind
  te_table :: string
  te_row_count :: "u64 option"
  te_description :: "string option"

record 'f execution_feedback =
  ef_time_offset :: u64
  ef_query :: string
  ef_operator :: "string option"
  ef_estimated_rows :: 'f
  ef_actual_rows :: 'f
  ef_estimated_cost :: "'f option"
  ef_actual_time_ms :: "'f option"

record 'f timeline_metadata =
  tm_name :: string
  tm_description :: string
  tm_database :: "string option"
  tm_schema :: "string option"
  tm_scale_factor :: "'f option"
  tm_duration_seconds :: "u64 option"

record 'f timeline =
  tl_metadata :: "'f timeline_metadata"
  tl_snapshots :: "'f snapshot list"
  tl_events :: "timeline_event list"
  tl_feedback :: "'f execution_feedback list"

definition q_error :: "('f, 'z) runtime_ops_scheme \<Rightarrow> 'f execution_feedback \<Rightarrow> 'f" where
  "q_error F e =
    (let est = f64_max F (ef_estimated_rows e) (f64_one F); act = f64_max F (ef_actual_rows e) (f64_one F)
     in f64_max F (f64_div F est act) (f64_div F act est))"

definition is_overestimate :: "('f, 'z) runtime_ops_scheme \<Rightarrow> 'f execution_feedback \<Rightarrow> bool" where
  "is_overestimate F e = f64_lt F (ef_actual_rows e) (ef_estimated_rows e)"

definition is_underestimate :: "('f, 'z) runtime_ops_scheme \<Rightarrow> 'f execution_feedback \<Rightarrow> bool" where
  "is_underestimate F e = f64_lt F (ef_estimated_rows e) (ef_actual_rows e)"

fun first_unsorted :: "nat \<Rightarrow> u64 list \<Rightarrow> nat option" where
  "first_unsorted i (a # b # ts) = (if b \<le> a then Some i else first_unsorted (i + 1) (b # ts))"
| "first_unsorted i _ = None"

fun first_duplicate :: "u64 set \<Rightarrow> u64 list \<Rightarrow> u64 option" where
  "first_duplicate seen [] = None"
| "first_duplicate seen (t # ts) = (if t \<in> seen then Some t else first_duplicate (insert t seen) ts)"

definition validate :: "'f timeline \<Rightarrow> timeline_error + unit" where
  "validate tln =
    (if tl_snapshots tln = [] then Inl EmptyTimeline
     else (case first_unsorted 1 (map sn_time_offset (tl_snapshots tln)) of
         Some i \<Rightarrow> Inl (UnsortedOffsets i)
       | None \<Rightarrow> (case first_duplicate {} (map sn_time_offset (tl_snapshots tln)) of
           Some t \<Rightarrow> Inl (DuplicateOffset t)
         | None \<Rightarrow> Inr ())))"

definition time_span :: "'f timeline \<Rightarrow> u64" where
  "time_span tln = (if length (tl_snapshots tln) < 2 then 0
     else sn_time_offset (last (tl_snapshots tln)) - sn_time_offset (hd (tl_snapshots tln)))"

definition table_names :: "'f timeline \<Rightarrow> string list" where
  "table_names tln = sort (remdups (concat (map (\<lambda>s. map ts_name (sn_tables s)) (tl_snapshots tln))))"

definition events_in_range :: "'f timeline \<Rightarrow> u64 \<Rightarrow> u64 \<Rightarrow> timeline_event list" where
  "events_in_range tln start stop = filter (\<lambda>e. start \<le> te_time_offset e \<and> te_time_offset e \<le> stop) (tl_events tln)"

definition feedback_in_range :: "'f timeline \<Rightarrow> u64 \<Rightarrow> u64 \<Rightarrow> 'f execution_feedback list" where
  "feedback_in_range tln start stop = filter (\<lambda>e. start \<le> ef_time_offset e \<and> ef_time_offset e \<le> stop) (tl_feedback tln)"

subsection \<open>Differences\<close>

text \<open>\<open>de_eq\<close> is \<^verbatim>\<open>==\<close> of floats, \<open>de_50\<close> the literal \<^verbatim>\<open>50.0\<close>.\<close>

record 'f delta_ops =
  de_eq :: "'f \<Rightarrow> 'f \<Rightarrow> bool"
  de_infinity :: 'f
  de_is_finite :: "'f \<Rightarrow> bool"
  de_50 :: 'f

datatype staleness_level = Fresh | SlightlyStale | ModeratelyStale | VeryStale | UnknownStaleness

datatype 'f statistics_delta =
    TableRowCount string u64 u64
  | ColumnNDV string string u64 u64
  | ColumnNullFraction string string 'f 'f
  | ColumnCorrelation string string "'f option" "'f option"
  | TableAdded string u64
  | TableRemoved string u64
  | StalenessChanged string staleness_level staleness_level

record 'f delta_set =
  ds_deltas :: "'f statistics_delta list"
  ds_from_time :: u64
  ds_to_time :: u64

fun delta_table :: "'f statistics_delta \<Rightarrow> string" where
  "delta_table (TableRowCount t _ _) = t"
| "delta_table (ColumnNDV t _ _ _) = t"
| "delta_table (ColumnNullFraction t _ _ _) = t"
| "delta_table (ColumnCorrelation t _ _ _) = t"
| "delta_table (TableAdded t _) = t"
| "delta_table (TableRemoved t _) = t"
| "delta_table (StalenessChanged t _ _) = t"

definition relative_change :: "('f, 'z) runtime_ops_scheme \<Rightarrow> 'f \<Rightarrow> 'f \<Rightarrow> 'f" where
  "relative_change F old new =
    (let base = f64_max F old (f64_one F) in f64_div F (f64_abs F (f64_sub F new old)) base)"

fun magnitude :: "('f, 'z) runtime_ops_scheme \<Rightarrow> 'f delta_ops \<Rightarrow> 'f statistics_delta \<Rightarrow> 'f" where
  "magnitude F D (TableRowCount _ old new) = relative_change F (f64_of_u64 F old) (f64_of_u64 F new)"
| "magnitude F D (ColumnNDV _ _ old new) = relative_change F (f64_of_u64 F old) (f64_of_u64 F new)"
| "magnitude F D (ColumnNullFraction _ _ old new) = f64_abs F (f64_sub F new old)"
| "magnitude F D (ColumnCorrelation _ _ old new) =
    (case (old, new) of
       (Some a, Some b) \<Rightarrow> f64_abs F (f64_sub F b a)
     | (None, None) \<Rightarrow> f64_zero F
     | _ \<Rightarrow> de_infinity D)"
| "magnitude F D (TableAdded _ _) = de_infinity D"
| "magnitude F D (TableRemoved _ _) = de_infinity D"
| "magnitude F D (StalenessChanged _ _ _) = de_infinity D"

fun is_structural :: "'f statistics_delta \<Rightarrow> bool" where
  "is_structural (TableAdded _ _) = True"
| "is_structural (TableRemoved _ _) = True"
| "is_structural _ = False"

definition delta_set_new :: "u64 \<Rightarrow> u64 \<Rightarrow> 'f delta_set" where
  "delta_set_new from_time to_time = \<lparr>ds_deltas = [], ds_from_time = from_time, ds_to_time = to_time\<rparr>"

text \<open>The last of several tables or columns with one name is the one in the map.\<close>

definition table_map :: "'f table_snapshot list \<Rightarrow> string \<rightharpoonup> 'f table_snapshot" where
  "table_map tables = fold (\<lambda>t m. m(ts_name t \<mapsto> t)) tables Map.empty"

definition column_map :: "'f column_snapshot list \<Rightarrow> string \<rightharpoonup> 'f column_snapshot" where
  "column_map cols = fold (\<lambda>c m. m(cs_name c \<mapsto> c)) cols Map.empty"

definition correlation_differs :: "'f delta_ops \<Rightarrow> 'f option \<Rightarrow> 'f option \<Rightarrow> bool" where
  "correlation_differs D a b =
    (case (a, b) of (Some x, Some y) \<Rightarrow> \<not> de_eq D x y | (None, None) \<Rightarrow> False | _ \<Rightarrow> True)"

definition diff_column ::
  "('f, 'z) runtime_ops_scheme \<Rightarrow> 'f delta_ops \<Rightarrow> string \<Rightarrow> string \<Rightarrow> 'f column_snapshot \<Rightarrow> 'f column_snapshot \<Rightarrow>
    'f statistics_delta list" where
  "diff_column F D table column prev nxt =
    (if cs_ndv prev \<noteq> cs_ndv nxt then [ColumnNDV table column (cs_ndv prev) (cs_ndv nxt)] else [])
    @ (if f64_lt F (f64_eps F) (f64_abs F (f64_sub F (cs_null_fraction prev) (cs_null_fraction nxt)))
       then [ColumnNullFraction table column (cs_null_fraction prev) (cs_null_fraction nxt)] else [])
    @ (if correlation_differs D (cs_correlation prev) (cs_correlation nxt)
       then [ColumnCorrelation table column (cs_correlation prev) (cs_correlation nxt)] else [])"

definition diff_table ::
  "('f, 'z) runtime_ops_scheme \<Rightarrow> 'f delta_ops \<Rightarrow> (string list \<Rightarrow> string list) \<Rightarrow> string \<Rightarrow>
    'f table_snapshot \<Rightarrow> 'f table_snapshot \<Rightarrow> 'f statistics_delta list" where
  "diff_table F D iter table prev nxt =
    (if ts_row_count prev \<noteq> ts_row_count nxt then [TableRowCount table (ts_row_count prev) (ts_row_count nxt)] else [])
    @ (let prev_cols = column_map (ts_columns prev); next_cols = column_map (ts_columns nxt)
       in concat (map (\<lambda>name. case (prev_cols name, next_cols name) of
              (Some p, Some n) \<Rightarrow> diff_column F D table name p n
            | _ \<Rightarrow> []) (iter (remdups (map cs_name (ts_columns prev))))))"

definition compute_deltas ::
  "('f, 'z) runtime_ops_scheme \<Rightarrow> 'f delta_ops \<Rightarrow> (string list \<Rightarrow> string list) \<Rightarrow> 'f snapshot \<Rightarrow> 'f snapshot \<Rightarrow>
    'f delta_set" where
  "compute_deltas F D iter prev nxt =
    (let prev_tables = table_map (sn_tables prev); next_tables = table_map (sn_tables nxt)
     in \<lparr>ds_deltas =
           concat (map (\<lambda>name. case prev_tables name of
               None \<Rightarrow> []
             | Some p \<Rightarrow> (case next_tables name of
                 Some n \<Rightarrow> diff_table F D iter name p n
               | None \<Rightarrow> [TableRemoved name (ts_row_count p)])) (iter (remdups (map ts_name (sn_tables prev)))))
           @ concat (map (\<lambda>name. case next_tables name of
               None \<Rightarrow> []
             | Some n \<Rightarrow> if prev_tables name = None then [TableAdded name (ts_row_count n)] else [])
               (iter (remdups (map ts_name (sn_tables nxt))))),
         ds_from_time = sn_time_offset prev, ds_to_time = sn_time_offset nxt\<rparr>)"

definition max_magnitude :: "('f, 'z) runtime_ops_scheme \<Rightarrow> 'f delta_ops \<Rightarrow> 'f delta_set \<Rightarrow> 'f" where
  "max_magnitude F D ds = foldl (f64_max F) (f64_zero F) (map (magnitude F D) (ds_deltas ds))"

definition total_magnitude :: "('f, 'z) runtime_ops_scheme \<Rightarrow> 'f delta_ops \<Rightarrow> 'f delta_set \<Rightarrow> 'f" where
  "total_magnitude F D ds = f64_sum F (filter (de_is_finite D) (map (magnitude F D) (ds_deltas ds)))"

definition has_structural_changes :: "'f delta_set \<Rightarrow> bool" where
  "has_structural_changes ds = list_ex is_structural (ds_deltas ds)"

definition affected_tables :: "'f delta_set \<Rightarrow> string list" where
  "affected_tables ds = sort (remdups (map delta_table (ds_deltas ds)))"

definition row_count_change_pct :: "('f, 'z) runtime_ops_scheme \<Rightarrow> 'f delta_set \<Rightarrow> 'f" where
  "row_count_change_pct F ds =
    foldl (f64_max F) (f64_zero F)
      (List.map_filter (\<lambda>d. case d of
          TableRowCount _ old new \<Rightarrow>
            Some (f64_mul F (relative_change F (f64_of_u64 F old) (f64_of_u64 F new)) (f64_100 F))
        | _ \<Rightarrow> None) (ds_deltas ds))"

definition needs_full :: "('f, 'z) runtime_ops_scheme \<Rightarrow> 'f delta_ops \<Rightarrow> 'f delta_set \<Rightarrow> bool" where
  "needs_full F D ds =
    (if has_structural_changes ds then True
     else if f64_lt F (de_50 D) (row_count_change_pct F ds) then True
     else 10 < length (ds_deltas ds))"

definition merge_deltas :: "'f delta_set \<Rightarrow> 'f delta_set \<Rightarrow> 'f delta_set" where
  "merge_deltas ds other = ds\<lparr>ds_deltas := ds_deltas ds @ ds_deltas other,
     ds_to_time := max (ds_to_time ds) (ds_to_time other)\<rparr>"

subsection \<open>Playback\<close>

datatype playback_state = BeforeStart | AtSnapshot nat | AfterEnd

record 'f timeline_player =
  tp_timeline :: "'f timeline"
  tp_position :: playback_state

abbreviation player_snapshots :: "'f timeline_player \<Rightarrow> 'f snapshot list" where
  "player_snapshots p \<equiv> tl_snapshots (tp_timeline p)"

definition player_new :: "'f timeline \<Rightarrow> timeline_error + 'f timeline_player" where
  "player_new tln = (if tl_snapshots tln = [] then Inl EmptyTimeline
     else Inr \<lparr>tp_timeline = tln, tp_position = BeforeStart\<rparr>)"

definition get_snapshot :: "'f timeline_player \<Rightarrow> nat \<Rightarrow> 'f snapshot option" where
  "get_snapshot p i = (if i < length (player_snapshots p) then Some (player_snapshots p ! i) else None)"

definition current_index :: "'f timeline_player \<Rightarrow> nat option" where
  "current_index p = (case tp_position p of AtSnapshot i \<Rightarrow> Some i | _ \<Rightarrow> None)"

definition current_snapshot :: "'f timeline_player \<Rightarrow> 'f snapshot option" where
  "current_snapshot p = (case tp_position p of AtSnapshot i \<Rightarrow> get_snapshot p i | _ \<Rightarrow> None)"

definition current_time :: "'f timeline_player \<Rightarrow> u64 option" where
  "current_time p = map_option sn_time_offset (current_snapshot p)"

definition step_forward :: "'f timeline_player \<Rightarrow> 'f timeline_player" where
  "step_forward p = p\<lparr>tp_position :=
     (case tp_position p of
        BeforeStart \<Rightarrow> AtSnapshot 0
      | AtSnapshot i \<Rightarrow> if i + 1 < length (player_snapshots p) then AtSnapshot (i + 1) else AfterEnd
      | AfterEnd \<Rightarrow> AfterEnd)\<rparr>"

definition step_backward :: "'f timeline_player \<Rightarrow> 'f timeline_player" where
  "step_backward p = p\<lparr>tp_position :=
     (case tp_position p of
        BeforeStart \<Rightarrow> BeforeStart
      | AtSnapshot i \<Rightarrow> (case i of 0 \<Rightarrow> BeforeStart | Suc j \<Rightarrow> AtSnapshot j)
      | AfterEnd \<Rightarrow> AtSnapshot (length (player_snapshots p) - 1))\<rparr>"

definition seek :: "nat \<Rightarrow> 'f timeline_player \<Rightarrow> timeline_error + 'f timeline_player" where
  "seek index p =
    (if length (player_snapshots p) \<le> index then Inl (SnapshotOutOfBounds index (length (player_snapshots p)))
     else Inr (p\<lparr>tp_position := AtSnapshot index\<rparr>))"

definition seek_start :: "'f timeline_player \<Rightarrow> 'f timeline_player" where
  "seek_start p = p\<lparr>tp_position := AtSnapshot 0\<rparr>"

definition seek_end :: "'f timeline_player \<Rightarrow> 'f timeline_player" where
  "seek_end p = p\<lparr>tp_position := AtSnapshot (length (player_snapshots p) - 1)\<rparr>"

definition player_reset :: "'f timeline_player \<Rightarrow> 'f timeline_player" where
  "player_reset p = p\<lparr>tp_position := BeforeStart\<rparr>"

definition abs_diff :: "u64 \<Rightarrow> u64 \<Rightarrow> u64" where
  "abs_diff a b = (if a < b then b - a else a - b)"

fun closest :: "u64 \<Rightarrow> nat \<Rightarrow> u64 list \<Rightarrow> nat \<Rightarrow> u64 \<Rightarrow> nat" where
  "closest t i [] best_idx best_diff = best_idx"
| "closest t i (x # xs) best_idx best_diff =
    (if abs_diff x t < best_diff then closest t (i + 1) xs i (abs_diff x t)
     else closest t (i + 1) xs best_idx best_diff)"

definition seek_to_time :: "u64 \<Rightarrow> 'f timeline_player \<Rightarrow> 'f timeline_player" where
  "seek_to_time t p =
    p\<lparr>tp_position := AtSnapshot (closest t 0 (map sn_time_offset (player_snapshots p)) 0 (- 1))\<rparr>"

definition has_next :: "'f timeline_player \<Rightarrow> bool" where
  "has_next p = (case tp_position p of BeforeStart \<Rightarrow> True
     | AtSnapshot i \<Rightarrow> i + 1 < length (player_snapshots p) | AfterEnd \<Rightarrow> False)"

definition has_previous :: "'f timeline_player \<Rightarrow> bool" where
  "has_previous p = (case tp_position p of BeforeStart \<Rightarrow> False | AtSnapshot i \<Rightarrow> 0 < i | AfterEnd \<Rightarrow> True)"

text \<open>The access to the current snapshot panics when there is none; \<open>position_ok\<close> below rules it out.\<close>

definition events_until_next :: "'f timeline_player \<Rightarrow> timeline_event list option" where
  "events_until_next p =
    (case tp_position p of
       AtSnapshot i \<Rightarrow>
         (case get_snapshot p i of
            None \<Rightarrow> None
          | Some s \<Rightarrow>
              (let start = sn_time_offset s;
                 stop = (case get_snapshot p (i + 1) of None \<Rightarrow> - 1 | Some n \<Rightarrow> sn_time_offset n)
               in Some (filter (\<lambda>e. start \<le> te_time_offset e \<and> te_time_offset e < stop) (tl_events (tp_timeline p)))))
     | _ \<Rightarrow> Some [])"

definition feedback_at_current :: "'f timeline_player \<Rightarrow> 'f execution_feedback list" where
  "feedback_at_current p = (case current_time p of None \<Rightarrow> []
     | Some t \<Rightarrow> filter (\<lambda>f. ef_time_offset f = t) (tl_feedback (tp_timeline p)))"

definition snapshot_rows :: "string \<Rightarrow> 'f snapshot \<Rightarrow> u64 option" where
  "snapshot_rows table s = map_option ts_row_count (find (\<lambda>t. ts_name t = table) (sn_tables s))"

text \<open>The difference of two \<^verbatim>\<open>u64\<close> as an \<^verbatim>\<open>i64\<close>.\<close>

definition row_count_delta :: "string \<Rightarrow> nat \<Rightarrow> nat \<Rightarrow> 'f timeline_player \<Rightarrow> i64 option" where
  "row_count_delta table from_idx to_idx p =
    (case (get_snapshot p from_idx, get_snapshot p to_idx) of
       (Some a, Some b) \<Rightarrow> (case (snapshot_rows table a, snapshot_rows table b) of
           (Some x, Some y) \<Rightarrow> Some (y - x) | _ \<Rightarrow> None)
     | _ \<Rightarrow> None)"

definition average_q_error :: "('f, 'z) runtime_ops_scheme \<Rightarrow> (nat \<Rightarrow> 'f) \<Rightarrow> 'f timeline_player \<Rightarrow> 'f option" where
  "average_q_error F of_usize p =
    (let fs = tl_feedback (tp_timeline p) in
     if fs = [] then None else Some (f64_div F (f64_sum F (map (q_error F) fs)) (of_usize (length fs))))"

definition max_q_error :: "('f, 'z) runtime_ops_scheme \<Rightarrow> 'f timeline_player \<Rightarrow> 'f option" where
  "max_q_error F p =
    (case map (q_error F) (tl_feedback (tp_timeline p)) of [] \<Rightarrow> None | q # qs \<Rightarrow> Some (foldl (f64_max F) q qs))"

definition compute_delta ::
  "('f, 'z) runtime_ops_scheme \<Rightarrow> 'f delta_ops \<Rightarrow> (string list \<Rightarrow> string list) \<Rightarrow> nat \<Rightarrow> nat \<Rightarrow> 'f timeline_player \<Rightarrow>
    'f delta_set option" where
  "compute_delta F D iter from_idx to_idx p =
    (case (get_snapshot p from_idx, get_snapshot p to_idx) of
       (Some a, Some b) \<Rightarrow> Some (compute_deltas F D iter a b) | _ \<Rightarrow> None)"

definition delta_to_next ::
  "('f, 'z) runtime_ops_scheme \<Rightarrow> 'f delta_ops \<Rightarrow> (string list \<Rightarrow> string list) \<Rightarrow> 'f timeline_player \<Rightarrow>
    'f delta_set option" where
  "delta_to_next F D iter p = (case current_index p of None \<Rightarrow> None | Some i \<Rightarrow> compute_delta F D iter i (i + 1) p)"

definition cumulative_delta ::
  "('f, 'z) runtime_ops_scheme \<Rightarrow> 'f delta_ops \<Rightarrow> (string list \<Rightarrow> string list) \<Rightarrow> nat \<Rightarrow> 'f timeline_player \<Rightarrow>
    'f delta_set option" where
  "cumulative_delta F D iter from_idx p =
    (case current_index p of
       None \<Rightarrow> None
     | Some current \<Rightarrow>
         if current \<le> from_idx then None
         else (case compute_delta F D iter from_idx (from_idx + 1) p of
             None \<Rightarrow> None
           | Some first \<Rightarrow>
               Some (fold (\<lambda>i merged. case compute_delta F D iter i (i + 1) p of
                   Some d \<Rightarrow> merge_deltas merged d | None \<Rightarrow> merged) [from_idx + 1..<current] first)))"

definition last_analyze_snapshot_idx :: "'f timeline_player \<Rightarrow> nat option" where
  "last_analyze_snapshot_idx p =
    (case current_time p of
       None \<Rightarrow> None
     | Some now \<Rightarrow>
         fold (\<lambda>e best. if te_kind e = Analyze \<and> te_time_offset e \<le> now
             then fold (\<lambda>(i, s) best. if sn_time_offset s \<le> te_time_offset e then Some i else best)
                    (enumerate 0 (player_snapshots p)) best
             else best) (tl_events (tp_timeline p)) None)"

definition player_needs_full ::
  "('f, 'z) runtime_ops_scheme \<Rightarrow> 'f delta_ops \<Rightarrow> (string list \<Rightarrow> string list) \<Rightarrow> 'f timeline_player \<Rightarrow> bool" where
  "player_needs_full F D iter p =
    (case last_analyze_snapshot_idx p of
       None \<Rightarrow> True
     | Some idx \<Rightarrow> (case cumulative_delta F D iter idx p of None \<Rightarrow> False | Some d \<Rightarrow> needs_full F D d))"

subsection \<open>Validation\<close>

lemma first_unsorted_None: "first_unsorted i ts = None \<longleftrightarrow> sorted_wrt (<) ts"
  by (induction i ts rule: first_unsorted.induct) auto

lemma first_unsorted_Some:
  "first_unsorted i ts = Some j \<longleftrightarrow>
    i \<le> j \<and> j < i + length ts - 1 \<and> ts ! (j - i + 1) \<le> ts ! (j - i) \<and> sorted_wrt (<) (take (j - i + 1) ts)"
proof (induction i ts rule: first_unsorted.induct)
  case (1 i a b ts)
  show ?case
  proof (cases "b \<le> a")
    case True
    have "\<not> sorted_wrt (<) (take (j - i + 1) (a # b # ts))" if "i < j"
      using that True by (cases "j - i") auto
    then show ?thesis using True by (cases "i = j") auto
  next
    case False
    have "j - i = Suc (j - Suc i)" if "i < j" using that by simp
    then show ?thesis using False 1
      by (cases "i < j") (auto simp: nth_Cons' less_Suc_eq_le Suc_le_eq not_le intro: less_trans)
  qed
qed auto

lemma first_duplicate_sorted:
  "sorted_wrt (<) ts \<Longrightarrow> \<forall>s \<in> seen. \<forall>t \<in> set ts. s < t \<Longrightarrow> first_duplicate seen ts = None"
  by (induction seen ts rule: first_duplicate.induct) auto

text \<open>A validated timeline has snapshots in the order of their times; the check for duplicate times
  never fires, because the check for the order rejects equal times before.\<close>

lemma validate_ok:
  "validate tln = Inr () \<longleftrightarrow> tl_snapshots tln \<noteq> [] \<and> sorted_wrt (<) (map sn_time_offset (tl_snapshots tln))"
  using first_duplicate_sorted [of "map sn_time_offset (tl_snapshots tln)" "{}"]
    first_unsorted_None [of 1 "map sn_time_offset (tl_snapshots tln)"]
  by (cases "first_unsorted 1 (map sn_time_offset (tl_snapshots tln))") (auto simp: validate_def)

lemma duplicates_unreported: "validate tln \<noteq> Inl (DuplicateOffset t)"
  using first_duplicate_sorted [of "map sn_time_offset (tl_snapshots tln)" "{}"]
    first_unsorted_None [of 1 "map sn_time_offset (tl_snapshots tln)"]
  by (cases "first_unsorted 1 (map sn_time_offset (tl_snapshots tln))") (auto simp: validate_def)

subsection \<open>The positions of a player\<close>

datatype player_op = StepForward | StepBackward | SeekTo nat | SeekStart | SeekEnd | SeekTime u64 | ResetPlayer

inductive player_step :: "'f timeline_player \<Rightarrow> player_op \<Rightarrow> 'f timeline_player \<Rightarrow> bool" where
  forward: "player_step p StepForward (step_forward p)"
| backward: "player_step p StepBackward (step_backward p)"
| seek_to: "seek i p = Inr q \<Longrightarrow> player_step p (SeekTo i) q"
| start: "player_step p SeekStart (seek_start p)"
| stop: "player_step p SeekEnd (seek_end p)"
| seek_at: "player_step p (SeekTime t) (seek_to_time t p)"
| restart: "player_step p ResetPlayer (player_reset p)"

inductive_cases player_stepE: "player_step p a q"

inductive player_reaches :: "'f timeline_player \<Rightarrow> 'f timeline_player \<Rightarrow> bool" where
  here: "player_reaches p p"
| further: "player_reaches p q \<Longrightarrow> player_step q a r \<Longrightarrow> player_reaches p r"

definition position_ok :: "'f timeline_player \<Rightarrow> bool" where
  "position_ok p \<longleftrightarrow> player_snapshots p \<noteq> [] \<and>
    (case tp_position p of AtSnapshot i \<Rightarrow> i < length (player_snapshots p) | _ \<Rightarrow> True)"

lemma closest_less: "best < n \<Longrightarrow> i + length ts \<le> n \<Longrightarrow> closest t i ts best d < n"
  by (induction t i ts best d rule: closest.induct) auto

lemma position_ok_step: "player_step p a q \<Longrightarrow> position_ok p \<Longrightarrow> position_ok q"
  by (erule player_stepE)
    (auto simp: position_ok_def step_forward_def step_backward_def seek_def seek_start_def seek_end_def
      seek_to_time_def player_reset_def closest_less split: playback_state.splits nat.splits if_splits)

lemma position_ok_reaches: "player_reaches p q \<Longrightarrow> position_ok p \<Longrightarrow> position_ok q"
  by (induction rule: player_reaches.induct) (auto intro: position_ok_step)

lemma reaches_timeline: "player_reaches p q \<Longrightarrow> tp_timeline q = tp_timeline p"
proof (induction rule: player_reaches.induct)
  case (further p q a r)
  then show ?case by (auto elim!: player_stepE simp: step_forward_def step_backward_def seek_def seek_start_def
      seek_end_def seek_to_time_def player_reset_def split: if_splits)
qed simp

subsection \<open>Playing a timeline delivers its events\<close>

lemma step_forward_timeline [simp]: "tp_timeline (step_forward p) = tp_timeline p"
  "tp_timeline ((step_forward ^^ k) p) = tp_timeline p"
  by (induction k) (simp_all add: step_forward_def)

lemma reaches_forward: "player_reaches p ((step_forward ^^ k) p)"
  by (induction k) (simp_all add: player_reaches.here player_reaches.further [OF _ player_step.forward])

lemma forward_position:
  assumes "tp_position p = BeforeStart" "player_snapshots p \<noteq> []"
  shows "tp_position ((step_forward ^^ Suc k) p) =
    (if k < length (player_snapshots p) then AtSnapshot k else AfterEnd)"
proof (induction k)
  case 0
  then show ?case using assms by (simp add: step_forward_def)
next
  case (Suc k)
  have "tp_position ((step_forward ^^ Suc (Suc k)) p) = tp_position (step_forward ((step_forward ^^ Suc k) p))" by simp
  also have "\<dots> = (if Suc k < length (player_snapshots p) then AtSnapshot (Suc k) else AfterEnd)"
    unfolding step_forward_def [of "(step_forward ^^ Suc k) p"] Suc by simp
  finally show ?case .
qed

definition in_window :: "timeline_event list \<Rightarrow> u64 \<Rightarrow> u64 \<Rightarrow> timeline_event list" where
  "in_window es start stop = filter (\<lambda>e. start \<le> te_time_offset e \<and> te_time_offset e < stop) es"

lemma in_window_append:
  "a \<le> b \<Longrightarrow> b \<le> c \<Longrightarrow> mset (in_window es a b) + mset (in_window es b c) = mset (in_window es a c)"
  by (induction es) (auto simp: in_window_def)

fun windows :: "timeline_event list \<Rightarrow> u64 list \<Rightarrow> timeline_event list list" where
  "windows es [] = []"
| "windows es (t # ts) = in_window es t (case ts of [] \<Rightarrow> - 1 | u # _ \<Rightarrow> u) # windows es ts"

lemma windows_partition:
  "sorted_wrt (<) ts \<Longrightarrow> ts \<noteq> [] \<Longrightarrow> mset (concat (windows es ts)) = mset (in_window es (hd ts) (- 1))"
proof (induction ts)
  case (Cons t ts)
  show ?case
  proof (cases ts)
    case (Cons u us)
    then have "t \<le> u" using Cons.prems by (simp add: less_imp_le)
    with Cons Cons.IH Cons.prems show ?thesis using in_window_append [of t u "- 1" es] by simp
  qed simp
qed simp

lemma length_windows [simp]: "length (windows es ts) = length ts"
  by (induction ts) simp_all

lemma nth_windows:
  "k < length ts \<Longrightarrow> windows es ts ! k = in_window es (ts ! k) (if Suc k < length ts then ts ! Suc k else - 1)"
proof (induction ts arbitrary: k)
  case (Cons t ts)
  then show ?case by (cases k; cases ts) auto
qed simp

lemma events_at:
  assumes "tp_position p = AtSnapshot k" "k < length (player_snapshots p)"
  shows "events_until_next p =
    Some (windows (tl_events (tp_timeline p)) (map sn_time_offset (player_snapshots p)) ! k)"
  using assms by (simp add: events_until_next_def get_snapshot_def nth_windows in_window_def Let_def)

text \<open>Claim C21. A validated timeline that is played forward from before its start reaches its end after
  one step for each snapshot and one more, and the events asked for on the way are the events of
  the timeline from the first snapshot on, each as often as it occurs there: the windows of the
  snapshots leave no gap and do not overlap. (An event at the largest time a \<^verbatim>\<open>u64\<close> holds falls out
  of the last window.)\<close>

theorem playback_delivers_events:
  assumes "validate tln = Inr ()" "player_new tln = Inr p"
  shows "tp_position ((step_forward ^^ (length (tl_snapshots tln) + 1)) p) = AfterEnd \<and>
    (\<forall>k. events_until_next ((step_forward ^^ k) p) \<noteq> None) \<and>
    mset (concat (map (\<lambda>k. the (events_until_next ((step_forward ^^ k) p))) [0..<length (tl_snapshots tln) + 2]))
      = mset (filter (\<lambda>e. sn_time_offset (hd (tl_snapshots tln)) \<le> te_time_offset e \<and> te_time_offset e < - 1) (tl_events tln))"
proof -
  let ?n = "length (tl_snapshots tln)" and ?ts = "map sn_time_offset (tl_snapshots tln)"
  let ?ev = "\<lambda>k. events_until_next ((step_forward ^^ k) p)"
  have p: "tp_timeline p = tln" "tp_position p = BeforeStart" and some: "tl_snapshots tln \<noteq> []"
    using assms(2) by (auto simp: player_new_def split: if_splits)
  have pos: "tp_position ((step_forward ^^ Suc k) p) = (if k < ?n then AtSnapshot k else AfterEnd)" for k
    using forward_position [of p k] p some by simp
  have ev: "?ev (Suc k) = Some (if k < ?n then windows (tl_events tln) ?ts ! k else [])" for k
  proof (cases "k < ?n")
    case True
    then show ?thesis using events_at [of "(step_forward ^^ Suc k) p" k] pos [of k] p
      by (simp del: funpow.simps)
  next
    case False
    then show ?thesis using pos [of k] by (simp add: events_until_next_def del: funpow.simps)
  qed
  have ev0: "?ev 0 = Some []" using p by (simp add: events_until_next_def)
  have "map (\<lambda>k. the (?ev k)) [0..<?n + 2] = [] # map (\<lambda>k. the (?ev (Suc k))) [0..<?n + 1]"
    using ev0 by (simp add: upt_conv_Cons map_Suc_upt [symmetric] del: upt_Suc)
  also have "map (\<lambda>k. the (?ev (Suc k))) [0..<?n + 1] = windows (tl_events tln) ?ts @ [[]]"
  proof -
    have "map (\<lambda>k. the (?ev (Suc k))) [0..<?n] = windows (tl_events tln) ?ts"
      by (rule nth_equalityI) (simp_all add: ev del: funpow.simps)
    then show ?thesis by (simp add: ev del: funpow.simps)
  qed
  finally have all: "map (\<lambda>k. the (?ev k)) [0..<?n + 2] = [] # windows (tl_events tln) ?ts @ [[]]" .
  have "mset (concat (map (\<lambda>k. the (?ev k)) [0..<?n + 2])) = mset (concat (windows (tl_events tln) ?ts))"
    unfolding all by simp
  also have "\<dots> = mset (in_window (tl_events tln) (hd ?ts) (- 1))"
    using assms(1) by (intro windows_partition) (simp_all add: validate_ok)
  finally have events: "mset (concat (map (\<lambda>k. the (?ev k)) [0..<?n + 2])) =
      mset (in_window (tl_events tln) (hd ?ts) (- 1))" .
  have "?ev k \<noteq> None" for k using ev ev0 by (cases k) (simp_all del: funpow.simps)
  then show ?thesis using events pos [of ?n] some by (simp add: in_window_def hd_map)
qed

definition sample_snapshot :: "u64 \<Rightarrow> u64 \<Rightarrow> real snapshot" where
  "sample_snapshot t rows = \<lparr>sn_time_offset = t, sn_label = None, sn_tables =
     [\<lparr>ts_name = ''orders'', ts_row_count = rows, ts_page_count = None, ts_avg_row_size = None,
       ts_table_size_bytes = None, ts_columns = []\<rparr>]\<rparr>"

definition sample_event :: "u64 \<Rightarrow> event_kind \<Rightarrow> timeline_event" where
  "sample_event t kind = \<lparr>te_time_offset = t, te_kind = kind, te_table = ''orders'', te_row_count = None,
     te_description = None\<rparr>"

definition sample_timeline :: "real snapshot list \<Rightarrow> timeline_event list \<Rightarrow> real timeline" where
  "sample_timeline snaps es = \<lparr>tl_metadata = \<lparr>tm_name = ''growth'', tm_description = [], tm_database = None,
       tm_schema = None, tm_scale_factor = None, tm_duration_seconds = None\<rparr>,
     tl_snapshots = snaps, tl_events = es, tl_feedback = []\<rparr>"

abbreviation growth :: "real timeline" where
  "growth \<equiv> sample_timeline [sample_snapshot 0 100, sample_snapshot 60 140, sample_snapshot 120 196]
    [sample_event 0 Analyze, sample_event 60 InsertEvent, sample_event 200 InsertEvent]"

abbreviation playing :: "real timeline \<Rightarrow> playback_state \<Rightarrow> real timeline_player" where
  "playing t pos \<equiv> \<lparr>tp_timeline = t, tp_position = pos\<rparr>"

lemma growth_valid: "validate growth = Inr ()"
  by (simp add: validate_def sample_timeline_def sample_snapshot_def)

lemma playback_delivers_events_witness:
  "tp_position ((step_forward ^^ 4) (playing growth BeforeStart)) = AfterEnd \<and>
    mset (concat (map (\<lambda>k. the (events_until_next ((step_forward ^^ k) (playing growth BeforeStart)))) [0..<5]))
      = {#sample_event 0 Analyze, sample_event 60 InsertEvent, sample_event 200 InsertEvent#}"
proof -
  have new: "player_new growth = Inr (playing growth BeforeStart)" and len: "length (tl_snapshots growth) = 3"
    and sums: "(3 :: nat) + 1 = 4" "(3 :: nat) + 2 = 5"
    by (simp_all add: player_new_def sample_timeline_def)
  have "mset (filter (\<lambda>e. sn_time_offset (hd (tl_snapshots growth)) \<le> te_time_offset e \<and> te_time_offset e < - 1) (tl_events growth))
      = {#sample_event 0 Analyze, sample_event 60 InsertEvent, sample_event 200 InsertEvent#}"
    by (simp add: sample_timeline_def sample_snapshot_def sample_event_def word_gt_0)
  then show ?thesis
    using playback_delivers_events [OF growth_valid new, unfolded len sums] by metis
qed

subsection \<open>Replaying differences\<close>

text \<open>What a difference says of the rows of a table, and of the distinct values of a column.\<close>

fun row_after :: "string \<Rightarrow> 'f statistics_delta \<Rightarrow> u64 option \<Rightarrow> u64 option" where
  "row_after t (TableRowCount u _ new) r = (if u = t then Some new else r)"
| "row_after t (TableAdded u new) r = (if u = t then Some new else r)"
| "row_after t (TableRemoved u _) r = (if u = t then None else r)"
| "row_after t _ r = r"

fun ndv_after :: "string \<Rightarrow> string \<Rightarrow> 'f statistics_delta \<Rightarrow> u64 option \<Rightarrow> u64 option" where
  "ndv_after t c (ColumnNDV u d _ new) n = (if u = t \<and> d = c then Some new else n)"
| "ndv_after t c _ n = n"

definition rows_of :: "'f snapshot \<Rightarrow> string \<Rightarrow> u64 option" where
  "rows_of s t = map_option ts_row_count (table_map (sn_tables s) t)"

definition ndv_of :: "'f snapshot \<Rightarrow> string \<Rightarrow> string \<Rightarrow> u64 option" where
  "ndv_of s t c = (case table_map (sn_tables s) t of None \<Rightarrow> None
     | Some tab \<Rightarrow> map_option cs_ndv (column_map (ts_columns tab) c))"

lemma dom_table_map: "dom (table_map ts) = ts_name ` set ts"
proof -
  have "dom (fold (\<lambda>t m. m(ts_name t \<mapsto> t)) ts m) = dom m \<union> ts_name ` set ts" for m
    by (induction ts arbitrary: m) auto
  then show ?thesis by (simp add: table_map_def)
qed

lemma dom_column_map: "dom (column_map cols) = cs_name ` set cols"
proof -
  have "dom (fold (\<lambda>t m. m(cs_name t \<mapsto> t)) cols m) = dom m \<union> cs_name ` set cols" for m
    by (induction cols arbitrary: m) auto
  then show ?thesis by (simp add: column_map_def)
qed

lemma fold_idle: "(\<And>d v. d \<in> set ds \<Longrightarrow> f d v = v) \<Longrightarrow> fold f ds v = v"
  by (induction ds) simp_all

text \<open>Of groups of differences only the group of one name matters.\<close>

lemma fold_groups:
  assumes "distinct ns" and "\<And>n d v. n \<in> set ns \<Longrightarrow> n \<noteq> m \<Longrightarrow> d \<in> set (g n) \<Longrightarrow> f d v = v"
  shows "fold f (concat (map g ns)) v = (if m \<in> set ns then fold f (g m) v else v)"
  using assms
proof (induction ns arbitrary: v)
  case (Cons n ns)
  have IH: "fold f (concat (map g ns)) w = (if m \<in> set ns then fold f (g m) w else w)" for w
    using Cons.prems by (intro Cons.IH) auto
  show ?case
  proof (cases "n = m")
    case True
    then show ?thesis using Cons.prems(1) IH by simp
  next
    case False
    then have "fold f (g n) v = v" using Cons.prems(2) by (intro fold_idle) auto
    with False show ?thesis using IH by simp
  qed
qed simp

text \<open>A hash map with given keys is iterated once over each.\<close>

definition iterates :: "(string list \<Rightarrow> string list) \<Rightarrow> bool" where
  "iterates iter \<longleftrightarrow> (\<forall>ks. mset (iter ks) = mset ks)"

lemma iterates_keys [simp]:
  assumes "iterates iter"
  shows "set (iter ks) = set ks" "distinct (iter ks) = distinct ks"
  using assms unfolding iterates_def by (metis set_mset_mset, metis mset_eq_imp_distinct_iff)

lemma diff_column_rows: "d \<in> set (diff_column F D u c p n) \<Longrightarrow> row_after t d r = r"
  by (auto simp: diff_column_def split: if_splits)

lemma diff_column_other: "d \<in> set (diff_column F D u e p n) \<Longrightarrow> u \<noteq> t \<or> e \<noteq> c \<Longrightarrow> ndv_after t c d v = v"
  by (auto simp: diff_column_def split: if_splits)

lemma diff_table_rows:
  "fold (row_after t) (diff_table F D iter t p n) (Some (ts_row_count p)) = Some (ts_row_count n)"
proof -
  let ?cols = "concat (map (\<lambda>name. case (column_map (ts_columns p) name, column_map (ts_columns n) name) of
      (Some p, Some n) \<Rightarrow> diff_column F D t name p n | _ \<Rightarrow> []) (iter (remdups (map cs_name (ts_columns p)))))"
  have "row_after t d v = v" if "d \<in> set ?cols" for d v
    using that by (auto split: option.splits dest: diff_column_rows)
  then have "fold (row_after t) ?cols v = v" for v by (intro fold_idle) auto
  then show ?thesis by (simp add: diff_table_def Let_def)
qed

lemma diff_table_other:
  assumes "d \<in> set (diff_table F D iter u p n)" "u \<noteq> t"
  shows "row_after t d r = r" "ndv_after t c d v = v"
  using assms by (auto simp: diff_table_def Let_def split: if_splits option.splits dest: diff_column_rows
      intro: diff_column_other)

lemma diff_table_ndv:
  assumes "iterates iter" "column_map (ts_columns p) c = Some a" "column_map (ts_columns n) c = Some b"
  shows "fold (ndv_after t c) (diff_table F D iter t p n) (Some (cs_ndv a)) = Some (cs_ndv b)"
proof -
  let ?g = "\<lambda>name. case (column_map (ts_columns p) name, column_map (ts_columns n) name) of
      (Some p, Some n) \<Rightarrow> diff_column F D t name p n | _ \<Rightarrow> []"
  have "c \<in> cs_name ` set (ts_columns p)" using assms(2) dom_column_map [of "ts_columns p"] by auto
  moreover have "fold (ndv_after t c) (concat (map ?g (iter (remdups (map cs_name (ts_columns p)))))) v =
      (if c \<in> set (iter (remdups (map cs_name (ts_columns p)))) then fold (ndv_after t c) (?g c) v else v)" for v
    using assms(1) by (intro fold_groups) (auto split: option.splits dest: diff_column_other)
  moreover have "fold (ndv_after t c) (?g c) (Some (cs_ndv a)) = Some (cs_ndv b)"
    using assms(2,3) by (simp add: diff_column_def)
  ultimately show ?thesis using assms(1) by (simp add: diff_table_def Let_def)
qed

lemma compute_deltas_rows:
  fixes a b :: "'f snapshot"
  assumes "iterates iter"
  shows "fold (row_after t) (ds_deltas (compute_deltas F D iter a b)) (rows_of a t) = rows_of b t"
proof -
  let ?prev = "table_map (sn_tables a)" and ?next = "table_map (sn_tables b)"
  let ?g = "\<lambda>name. case ?prev name of None \<Rightarrow> [] | Some p \<Rightarrow> (case ?next name of
      Some n \<Rightarrow> diff_table F D iter name p n | None \<Rightarrow> [TableRemoved name (ts_row_count p)])"
  let ?h = "\<lambda>name. case ?next name of None \<Rightarrow> []
      | Some n \<Rightarrow> if ?prev name = None then [TableAdded name (ts_row_count n) :: 'f statistics_delta] else []"
  let ?ps = "iter (remdups (map ts_name (sn_tables a)))" and ?ns = "iter (remdups (map ts_name (sn_tables b)))"
  have dom: "t \<in> set ?ps \<longleftrightarrow> ?prev t \<noteq> None" "t \<in> set ?ns \<longleftrightarrow> ?next t \<noteq> None"
    using assms dom_table_map [of "sn_tables a"] dom_table_map [of "sn_tables b"] by (auto simp: dom_def set_eq_iff)
  have "fold (row_after t) (concat (map ?g ?ps)) v = (if t \<in> set ?ps then fold (row_after t) (?g t) v else v)" for v
    using assms by (intro fold_groups) (auto split: option.splits dest: diff_table_other)
  moreover have "fold (row_after t) (concat (map ?h ?ns)) v = (if t \<in> set ?ns then fold (row_after t) (?h t) v else v)" for v
    using assms by (intro fold_groups [where g = ?h]) (auto split: option.splits if_splits)
  ultimately show ?thesis unfolding dom
    by (cases "?prev t"; cases "?next t") (simp_all add: compute_deltas_def Let_def rows_of_def diff_table_rows)
qed

lemma compute_deltas_ndv:
  fixes a b :: "'f snapshot"
  assumes "iterates iter" "ndv_of a t c \<noteq> None" "ndv_of b t c \<noteq> None"
  shows "fold (ndv_after t c) (ds_deltas (compute_deltas F D iter a b)) (ndv_of a t c) = ndv_of b t c"
proof -
  let ?prev = "table_map (sn_tables a)" and ?next = "table_map (sn_tables b)"
  let ?g = "\<lambda>name. case ?prev name of None \<Rightarrow> [] | Some p \<Rightarrow> (case ?next name of
      Some n \<Rightarrow> diff_table F D iter name p n | None \<Rightarrow> [TableRemoved name (ts_row_count p)])"
  let ?h = "\<lambda>name. case ?next name of None \<Rightarrow> []
      | Some n \<Rightarrow> if ?prev name = None then [TableAdded name (ts_row_count n) :: 'f statistics_delta] else []"
  let ?ps = "iter (remdups (map ts_name (sn_tables a)))" and ?ns = "iter (remdups (map ts_name (sn_tables b)))"
  obtain p q n r where tabs: "?prev t = Some p" "column_map (ts_columns p) c = Some q"
      "?next t = Some n" "column_map (ts_columns n) c = Some r"
    using assms(2,3) by (auto simp: ndv_of_def split: option.splits)
  have "t \<in> set ?ps" using assms(1) tabs(1) dom_table_map [of "sn_tables a"] by (auto simp: dom_def set_eq_iff)
  moreover have "fold (ndv_after t c) (concat (map ?g ?ps)) v = (if t \<in> set ?ps then fold (ndv_after t c) (?g t) v else v)"
    for v using assms(1) by (intro fold_groups) (auto split: option.splits dest: diff_table_other)
  moreover have "fold (ndv_after t c) (concat (map ?h ?ns)) v = v" for v
    by (intro fold_idle) (auto split: option.splits if_splits)
  ultimately show ?thesis
    using tabs diff_table_ndv [OF assms(1) tabs(2,4), of t F D]
    by (simp add: compute_deltas_def Let_def ndv_of_def)
qed

text \<open>The cumulative difference is the sequence of the differences of its steps.\<close>

lemma cumulative_deltas:
  fixes p :: "'f timeline_player" and F :: "('f, 'z) runtime_ops_scheme" and D :: "'f delta_ops"
    and iter :: "string list \<Rightarrow> string list"
  assumes "tp_position p = AtSnapshot i" "i < length (player_snapshots p)" "from_idx < i"
    and "sorted_wrt (<) (map sn_time_offset (player_snapshots p))"
  defines "step \<equiv> \<lambda>j. compute_deltas F D iter (player_snapshots p ! j) (player_snapshots p ! Suc j)"
  shows "\<exists>d. cumulative_delta F D iter from_idx p = Some d
    \<and> ds_deltas d = concat (map (\<lambda>j. ds_deltas (step j)) [from_idx..<i])
    \<and> ds_from_time d = sn_time_offset (player_snapshots p ! from_idx)
    \<and> ds_to_time d = sn_time_offset (player_snapshots p ! i)"
proof -
  have comp: "compute_delta F D iter j (Suc j) p = Some (step j)" if "j < i" for j
    using that assms(2) by (simp add: compute_delta_def get_snapshot_def step_def)
  define merged where "merged k = fold (\<lambda>j m. case compute_delta F D iter j (Suc j) p of
      Some d \<Rightarrow> merge_deltas m d | None \<Rightarrow> m) [Suc from_idx..<k] (step from_idx)" for k
  have "ds_deltas (merged k) = concat (map (\<lambda>j. ds_deltas (step j)) [from_idx..<k])
      \<and> ds_from_time (merged k) = sn_time_offset (player_snapshots p ! from_idx)
      \<and> ds_to_time (merged k) = sn_time_offset (player_snapshots p ! k)" if "Suc from_idx \<le> k" "k \<le> i" for k
    using that
  proof (induction k rule: nat_induct_at_least)
    case base
    then show ?case by (simp add: merged_def step_def compute_deltas_def Let_def)
  next
    case (Suc k)
    have "sn_time_offset (player_snapshots p ! k) < sn_time_offset (player_snapshots p ! Suc k)"
      using assms(4) Suc.prems assms(2) by (simp add: sorted_wrt_iff_nth_less)
    moreover have "merged (Suc k) = merge_deltas (merged k) (step k)"
      using Suc comp [of k] by (simp add: merged_def)
    moreover have "ds_to_time (step k) = sn_time_offset (player_snapshots p ! Suc k)"
      by (simp add: step_def compute_deltas_def Let_def)
    ultimately show ?case using Suc by (simp add: merge_deltas_def max_def less_imp_le)
  qed
  moreover have "cumulative_delta F D iter from_idx p = Some (merged i)"
    using assms(1,3) comp [of from_idx] by (simp add: cumulative_delta_def current_index_def merged_def)
  ultimately show ?thesis using assms(3) by simp
qed

text \<open>Claim C20. The cumulative difference of a validated timeline leads from the snapshot it starts at
  to the current one: it exists whenever the start lies before the current snapshot, is labelled
  with the times of the two, and replayed on the row counts of the first it gives the row count
  of every table in the second, whatever tables were added and removed on the way and in whatever
  order the hash maps are iterated; the numbers of distinct values follow for every column that
  all snapshots between them have.\<close>

theorem cumulative_delta_replays:
  assumes "iterates iter" "validate (tp_timeline p) = Inr ()" "player_reaches (playing (tp_timeline p) BeforeStart) p"
    and "tp_position p = AtSnapshot i" "from_idx < i"
  shows "\<exists>d. cumulative_delta F D iter from_idx p = Some d
    \<and> ds_from_time d = sn_time_offset (player_snapshots p ! from_idx)
    \<and> ds_to_time d = sn_time_offset (player_snapshots p ! i)
    \<and> (\<forall>t. fold (row_after t) (ds_deltas d) (rows_of (player_snapshots p ! from_idx) t) = rows_of (player_snapshots p ! i) t)
    \<and> (\<forall>t c. (\<forall>j \<in> {from_idx..i}. ndv_of (player_snapshots p ! j) t c \<noteq> None) \<longrightarrow>
        fold (ndv_after t c) (ds_deltas d) (ndv_of (player_snapshots p ! from_idx) t c) = ndv_of (player_snapshots p ! i) t c)"
proof -
  let ?s = "player_snapshots p"
  let ?steps = "\<lambda>k. concat (map (\<lambda>j. ds_deltas (compute_deltas F D iter (?s ! j) (?s ! Suc j))) [from_idx..<k])"
  have some: "?s \<noteq> []" and sorted: "sorted_wrt (<) (map sn_time_offset ?s)" using assms(2) by (simp_all add: validate_ok)
  then have "position_ok (playing (tp_timeline p) BeforeStart)" by (simp add: position_ok_def)
  then have "i < length ?s" using position_ok_reaches [OF assms(3)] assms(4) by (simp add: position_ok_def)
  from cumulative_deltas [OF assms(4) this assms(5) sorted, of F D iter] obtain d where
    d: "cumulative_delta F D iter from_idx p = Some d" "ds_deltas d = ?steps i"
      "ds_from_time d = sn_time_offset (?s ! from_idx)" "ds_to_time d = sn_time_offset (?s ! i)" by auto
  have rows: "fold (row_after t) (?steps k) (rows_of (?s ! from_idx) t) = rows_of (?s ! k) t" if "from_idx \<le> k" for k t
    using that by (induction k rule: nat_induct_at_least) (simp_all add: compute_deltas_rows [OF assms(1)])
  have ndv: "fold (ndv_after t c) (?steps k) (ndv_of (?s ! from_idx) t c) = ndv_of (?s ! k) t c"
    if "from_idx \<le> k" "\<forall>j \<in> {from_idx..k}. ndv_of (?s ! j) t c \<noteq> None" for k t c
    using that
  proof (induction k rule: nat_induct_at_least)
    case (Suc k)
    then have "ndv_of (?s ! k) t c \<noteq> None" "ndv_of (?s ! Suc k) t c \<noteq> None" by auto
    with Suc show ?case by (simp add: compute_deltas_ndv [OF assms(1)])
  qed simp
  show ?thesis using d rows [of i] ndv [of i] assms(5) by auto
qed

definition delta_ops0 :: "real delta_ops" where
  "delta_ops0 = \<lparr>de_eq = (=), de_infinity = 1000, de_is_finite = (\<lambda>x. x < 1000), de_50 = 50\<rparr>"

lemma cumulative_delta_replays_witness:
  "\<exists>d. cumulative_delta real_ops delta_ops0 (\<lambda>ks. ks) 0 (playing growth (AtSnapshot 2)) = Some d
    \<and> ds_to_time d = 120 \<and> fold (row_after ''orders'') (ds_deltas d) (Some 100) = Some 196"
proof -
  have "(step_forward ^^ 3) (playing growth BeforeStart) = playing growth (AtSnapshot 2)"
    by (simp add: step_forward_def sample_timeline_def numeral_3_eq_3)
  with reaches_forward [of "playing growth BeforeStart" 3]
  have reach: "player_reaches (playing growth BeforeStart) (playing growth (AtSnapshot 2))" by simp
  have iter: "iterates (\<lambda>ks. ks)" by (simp add: iterates_def)
  have ends: "rows_of (tl_snapshots growth ! 0) ''orders'' = Some 100" "rows_of (tl_snapshots growth ! 2) ''orders'' = Some 196"
    "sn_time_offset (tl_snapshots growth ! 2) = 120"
    by (simp_all add: rows_of_def table_map_def sample_timeline_def sample_snapshot_def)
  define p where "p = playing growth (AtSnapshot 2)"
  have p: "tp_timeline p = growth" "tp_position p = AtSnapshot 2" by (simp_all add: p_def)
  have valid: "validate (tp_timeline p) = Inr ()" "player_reaches (playing (tp_timeline p) BeforeStart) p"
    using growth_valid reach unfolding p by (simp_all only: p_def)
  have rows: "rows_of (player_snapshots p ! 0) ''orders'' = Some 100" "rows_of (player_snapshots p ! 2) ''orders'' = Some 196"
    "sn_time_offset (player_snapshots p ! 2) = 120" using ends unfolding p by simp_all
  obtain d where d: "cumulative_delta real_ops delta_ops0 (\<lambda>ks. ks) 0 p = Some d" "ds_to_time d = 120"
      "\<forall>t. fold (row_after t) (ds_deltas d) (rows_of (player_snapshots p ! 0) t) = rows_of (player_snapshots p ! 2) t"
    using cumulative_delta_replays [OF iter valid p(2) zero_less_numeral, of real_ops delta_ops0, unfolded rows(3)]
    by blast
  from d(3) have "fold (row_after ''orders'') (ds_deltas d) (Some 100) = Some 196" unfolding rows(1,2) [symmetric] by (rule spec)
  with d(1,2) show ?thesis unfolding p_def by (intro exI conjI)
qed

subsection \<open>Growth in steps\<close>

text \<open>The decision for a full reoptimization looks at the largest change of a single step: two steps of
  40 per cent nearly double a table and are not enough, where the difference of the first and the
  last snapshot, 96 per cent, is.\<close>

lemma growth_in_steps_missed:
  "player_needs_full real_ops delta_ops0 (\<lambda>ks. ks) (playing growth (AtSnapshot 2)) = False"
  "map_option (needs_full real_ops delta_ops0) (compute_delta real_ops delta_ops0 (\<lambda>ks. ks) 0 2 (playing growth (AtSnapshot 2)))
    = Some True"
proof -
  have arith: "f64_max real_ops = max" "f64_abs real_ops = abs" "f64_100 real_ops = 100"
    "f64_of_u64 real_ops = (\<lambda>w. of_int (uint w))" "de_50 delta_ops0 = 50"
    by (simp_all add: real_ops_def delta_ops0_def)
  have snaps: "get_snapshot (playing growth (AtSnapshot 2)) 0 = Some (sample_snapshot 0 100)"
    "get_snapshot (playing growth (AtSnapshot 2)) (Suc 0) = Some (sample_snapshot 60 140)"
    "get_snapshot (playing growth (AtSnapshot 2)) 2 = Some (sample_snapshot 120 196)"
    by (simp_all add: get_snapshot_def sample_timeline_def)
  have diff: "compute_deltas real_ops delta_ops0 (\<lambda>ks. ks) (sample_snapshot a x) (sample_snapshot b y) =
      \<lparr>ds_deltas = if x \<noteq> y then [TableRowCount ''orders'' x y] else [], ds_from_time = a, ds_to_time = b\<rparr>" for a b x y
    by (simp add: compute_deltas_def sample_snapshot_def table_map_def column_map_def diff_table_def Let_def)
  have idx: "last_analyze_snapshot_idx (playing growth (AtSnapshot 2)) = Some 0"
    unfolding last_analyze_snapshot_idx_def current_time_def current_snapshot_def
    by (simp add: snaps) (simp add: sample_timeline_def sample_snapshot_def sample_event_def)
  have cum: "cumulative_delta real_ops delta_ops0 (\<lambda>ks. ks) 0 (playing growth (AtSnapshot 2)) =
      Some \<lparr>ds_deltas = [TableRowCount ''orders'' 100 140, TableRowCount ''orders'' 140 196], ds_from_time = 0, ds_to_time = 120\<rparr>"
    by (simp add: cumulative_delta_def current_index_def compute_delta_def snaps diff merge_deltas_def
        upt_rec numeral_2_eq_2 [symmetric])
  show "player_needs_full real_ops delta_ops0 (\<lambda>ks. ks) (playing growth (AtSnapshot 2)) = False"
    unfolding player_needs_full_def idx
    by (simp add: cum needs_full_def has_structural_changes_def row_count_change_pct_def List.map_filter_simps
        relative_change_def arith Let_def)
  show "map_option (needs_full real_ops delta_ops0)
      (compute_delta real_ops delta_ops0 (\<lambda>ks. ks) 0 2 (playing growth (AtSnapshot 2))) = Some True"
    by (simp add: compute_delta_def snaps diff needs_full_def has_structural_changes_def row_count_change_pct_def
        List.map_filter_simps relative_change_def arith Let_def)
qed

text \<open>The last ANALYZE event is the last in the list of events, which nothing sorts: here the one at time
  10 hides the one at time 115.\<close>

lemma analyze_events_unsorted:
  "last_analyze_snapshot_idx (playing (growth\<lparr>tl_events := [sample_event 115 Analyze, sample_event 10 Analyze]\<rparr>) (AtSnapshot 2))
    = Some 0"
  "last_analyze_snapshot_idx (playing (growth\<lparr>tl_events := [sample_event 10 Analyze, sample_event 115 Analyze]\<rparr>) (AtSnapshot 2))
    = Some 1"
  unfolding last_analyze_snapshot_idx_def current_time_def current_snapshot_def
  by (simp_all add: get_snapshot_def sample_timeline_def sample_snapshot_def sample_event_def)

end
