(* ===== verification/Spec2Isabelle.thy ===== *)
theory Spec2Isabelle
  imports Advice_Mask Advice_Render Advice_Trove Rule_Registry Ordering_Pass Grouping_Meaning Recursive_Cte
    Join_Transform Advice_Validate Advice_Choices Incremental Adaptive_Executor Plan_Cache_Reoptimize
    Set_Returning Partition_Pruning Left_Deep_Rows Join_Graph Constraint_Sound Distribution
    Distributed_Agg Ring_Buffer T_Digest Stats_Timeline
begin

text \<open>
  A model of the deterministic core of the Ra query optimizer, with the theorems that make it
  correct.

  \<^bold>\<open>The program.\<close> Ra reads SQL, turns it into a relational algebra tree
  (\<^verbatim>\<open>crates/ra-core\<close>), rewrites the tree (\<^verbatim>\<open>crates/ra-engine\<close>: passes over the tree
  and equality saturation over an e-graph) and hands the plan to an executor or to PostgreSQL.
  Plan advice (\<^verbatim>\<open>crates/ra-plan-advice\<close>) is a small language in which a plan's decisions
  are written down, parsed and enforced. Plans are kept in a cache
  (\<^verbatim>\<open>crates/ra-cache-api\<close>, \<^verbatim>\<open>crates/ra-cache-impl\<close>) until the statistics drift, and may be
  changed while they run (\<^verbatim>\<open>crates/ra-adaptive\<close>). The development follows five strands: the
  advice language from its text to the decisions it causes, the algebra with the passes that
  rewrite it, execution, the plan cache, and the data structures that record which rules were
  applied.

  \<^bold>\<open>Plan advice.\<close> The crate is modelled whole.
  \<^item> \<open>Advice_Ast\<close> (\<^verbatim>\<open>ast.rs\<close>): tags, keywords, targets, items.
  \<^item> \<open>Advice_Mask\<close> (\<^verbatim>\<open>mask.rs\<close>, \<^verbatim>\<open>feedback.rs\<close>): the 64-bit strategy mask and the
    8-bit feedback flags, both interpretations of the locale \<open>flag_word\<close>.
  \<^item> \<open>Advice_Parser\<close>, \<open>Advice_Shape\<close> (\<^verbatim>\<open>parser.rs\<close>): the recursive-descent parser on
    bytes as functions on an explicit parser state; its lists share the locale \<open>target_loop\<close>.
    What it accepts is an instance of the grammar, with lists nested at most 64 deep.
  \<^item> \<open>Advice_Render\<close> (\<^verbatim>\<open>render.rs\<close>): the renderer; a well-formed document whose names
    survive the scanner is read back unchanged.
  \<^item> \<open>Advice_Trove\<close> (\<^verbatim>\<open>trove.rs\<close>): the index over a document, shown to return what a
    linear scan of the document returns.
  \<^item> \<open>Advice_Emit\<close> (\<^verbatim>\<open>ra-engine/src/plan_advice_emit.rs\<close>): the advice a plan gives rise to.
  \<^item> \<open>Advice_Validate\<close> (\<^verbatim>\<open>plan_advice_validate.rs\<close>): the feedback on supplied advice;
    what is emitted for a join tree, printed, parsed and validated on it is matched.
  \<^item> \<open>Advice_Choices\<close> (\<^verbatim>\<open>plan_advice_physical.rs\<close>, \<^verbatim>\<open>plan_advice_honor.rs\<close>): advice
    compiled to a strategy for each alias, with cost-driven defaults below it.

  \<^bold>\<open>The algebra and its passes.\<close>
  \<^item> \<open>Algebra\<close>, \<open>Algebra_Ops\<close> (\<^verbatim>\<open>ra-core/src/expr.rs\<close>, \<^verbatim>\<open>algebra.rs\<close>): expressions and
    plans as one mutually recursive datatype with every variant of the source, and the traversals
    \<^verbatim>\<open>children\<close>, \<^verbatim>\<open>referenced_columns\<close> and \<^verbatim>\<open>references_cte\<close>.
  \<^item> \<open>Properties\<close> (\<^verbatim>\<open>properties.rs\<close>, \<^verbatim>\<open>physical_properties.rs\<close>): orderings, property
    sets, their derivation for every operator, and what an ordering means on rows.
  \<^item> \<open>Incremental_Sort\<close>, \<open>Ordering_Pass\<close> (\<^verbatim>\<open>incremental_sort.rs\<close>,
    \<^verbatim>\<open>ordering_pass.rs\<close>): sorts removed or made incremental, with the proof that the rows
    still come in the required order and that nothing but sorts changes.
  \<^item> \<open>Grouping_Sets\<close>, \<open>Grouping_Meaning\<close> (\<^verbatim>\<open>grouping_sets.rs\<close>): ROLLUP, CUBE and GROUPING SETS as
    unions of plain aggregates; the second theory says what the markers mean on rows, without the
    code's branches and positions, and that the expansion computes it.
  \<^item> \<open>Recursive_Cte\<close> (\<^verbatim>\<open>recursive.rs\<close>): the fixpoint iteration; it reaches the closure
    when the closure is finite and fits the iteration limit.
  \<^item> \<open>Join_Transform\<close> (\<^verbatim>\<open>join_transformations.rs\<close>): self-join elimination and the
    conversion of outer joins, with the meaning of joins and of three-valued predicates.
  \<^item> \<open>Left_Deep\<close>, \<open>Left_Deep_Sound\<close>, \<open>Left_Deep_Rows\<close> (\<^verbatim>\<open>left_deep.rs\<close>): join trees rebuilt
    in the order of the tables' sizes; the second theory shows which tables and predicates the
    rebuilt tree has, the third that it has the same rows.
  \<^item> \<open>Join_Graph\<close> (\<^verbatim>\<open>join_graph.rs\<close>): which tables a query's equations connect, and the
    search for connectedness, shown to end with the reachable tables.
  \<^item> \<open>Partition_Pruning\<close> (\<^verbatim>\<open>partition_pruning.rs\<close>): the partitions a predicate excludes; none
    that can hold a matching row is lost while constants keep their order as floats.
  \<^item> \<open>Constraint_Optimizer\<close>, \<open>Constraint_Sound\<close> (\<^verbatim>\<open>constraint_optimizer.rs\<close>, the catalog types of
    \<^verbatim>\<open>ra-metadata/src/schema.rs\<close>): tests, DISTINCTs and joins that constraints make redundant; the
    second theory evaluates plans and shows which of the rewrites keep their rows, and where they
    do not.
  \<^item> \<open>Distribution\<close>, \<open>Distributed_Agg\<close> (\<^verbatim>\<open>ra-core/src/distribution.rs\<close>,
    \<^verbatim>\<open>distributed_agg.rs\<close>): where rows are in a cluster and how joins and aggregates are split over
    it; a join without movement and a decomposed aggregate compute what they compute on one node.

  \<^bold>\<open>Execution.\<close>
  \<^item> \<open>Set_Returning\<close> (\<^verbatim>\<open>ra-engine/src/executors\<close>): UNNEST, table functions and lateral joins,
    with errors and panics as outcomes; \<open>Rust_Text\<close> holds the string operations they use.
  \<^item> \<open>Runtime_Stats\<close>, \<open>Plan_Switch\<close>, \<open>Adaptive_Executor\<close> (\<^verbatim>\<open>ra-adaptive\<close>): what is
    observed of a running plan, the adaptations and checkpoints, and the executor as a state
    machine over its public operations. An adaptation keeps the rows of the plan, happens at a
    checkpoint that allows it, and never touches a completed operator. The log of checkpoints
    is the locale \<open>checkpoint_log\<close>.

  \<^bold>\<open>Statistics over time\<close> (\<^verbatim>\<open>crates/ra-stats-advanced\<close>).
  \<^item> \<open>Ring_Buffer\<close> (\<^verbatim>\<open>ring_buffer.rs\<close>, \<^verbatim>\<open>smoother.rs\<close>): the ring buffer, an interpretation of the
    locale \<open>sliding_window\<close>, and moving averages.
  \<^item> \<open>T_Digest\<close> (\<^verbatim>\<open>percentiles.rs\<close>): the digest that estimates percentiles; compression keeps
    weight and mean, and quantiles are monotone.
  \<^item> \<open>Stats_Timeline\<close> (\<^verbatim>\<open>timeline.rs\<close>, \<^verbatim>\<open>delta.rs\<close>): timelines of statistics, the player as a
    state machine (\<open>player_step\<close>, \<open>player_reaches\<close>), and the differences between snapshots, which
    replayed lead from one to the other.

  \<^bold>\<open>The plan cache.\<close>
  \<^item> \<open>Cost_Type\<close> (\<^verbatim>\<open>ra-core/src/cost.rs\<close>): costs and their comparison.
  \<^item> \<open>Cache_Types\<close>, \<open>Plan_Drift\<close> (\<^verbatim>\<open>ra-cache-api\<close>, \<^verbatim>\<open>ra-cache-impl/src/validity.rs\<close>): keys
    over normalised SQL text, metrics, cached plans and the test for drift.
  \<^item> \<open>Plan_Cache\<close>, \<open>Plan_Cache_Laws\<close>, \<open>Plan_Cache_Reoptimize\<close> (\<^verbatim>\<open>ra-cache-impl/src/lib.rs\<close>,
    \<^verbatim>\<open>eviction.rs\<close>): the operations as critical sections of the cache's lock; the locale
    \<open>plan_store\<close> states the contract of a bounded store of plans, and the cache, an
    interpretation of it, refines an unbounded map in every interleaving of threads.

  \<^bold>\<open>Data structures.\<close>
  \<^item> \<open>Sparsemap\<close> (\<^verbatim>\<open>sparsemap.rs\<close>): the compressed bitmap, an implementation of sets of
    indices; the set interface is the locale \<open>bit_set\<close>.
  \<^item> \<open>Rule_Registry\<close> (\<^verbatim>\<open>rule_registry.rs\<close>): rule sets over the bitmap and the registry of
    rules; a second interpretation of \<open>bit_set\<close>, proved from the first.

  \<^item> \<open>Memo\<close>, \<open>Incremental\<close> (\<^verbatim>\<open>memo.rs\<close>, \<^verbatim>\<open>differential.rs\<close>): the memo table with the
    structural hash that keys it, and the incremental optimizer on top of it: a state machine
    (\<open>io_step\<close>, \<open>io_reachable\<close>) whose invariant says what a registered query's optimized plan
    is, and the invalidation of cached plans by changes of statistics. It shows that no change is
    missed except an added index, and that the memo is right only as far as the hash tells plans
    apart, which for predicates it does not.
  \<^item> \<open>Statistics\<close> (\<^verbatim>\<open>ra-core/src/statistics.rs\<close>): the statistics these decisions read.

  \<open>Prelude\<close> holds the fixed-width integers, Rust's byte strings and the standard-library
  operations on them.

  \<^bold>\<open>Conventions.\<close> A struct is a record or a one-constructor datatype, an enum a datatype in the
  source's order, a method a definition of the same name, with a suffix where the name is taken.
  \<^verbatim>\<open>Result\<close> is a sum (\<open>Inl\<close> the error), \<^verbatim>\<open>Option\<close> an option, a mutable receiver a state
  that is passed and returned. A byte string is a list of 8-bit characters. A 64-bit float is
  its bit pattern, or a type variable with the arithmetic as a parameter (\<open>f64_ops\<close>);
  equality of floats inside expressions is equality of patterns, except for rows
  (\<open>Recursive_Cte\<close>), where NaN differs from itself as in the source. Integers keep their width;
  an unchecked increment wraps, as in a release build. A hash map is a function to options, an
  association list where its length counts, or the list of its entries where the code iterates
  it.

  \<^bold>\<open>Parameters.\<close> The catalog and the cost decision of the ordering pass, the cost comparison of
  the incremental sort, the expression evaluator of the recursive executor, the batch optimizer, the hasher and the
  dataflow join of the incremental optimizer, the float arithmetic
  and the Unicode lower-casing of the physical choices; the float arithmetic of statistics, costs
  and triggers (\<open>runtime_ops\<close>); the order in which a hash map is iterated (\<open>it\<close>) and the clock
  (\<open>now\<close>), with the SQL parser and the optimizer the cache calls; the JSON library, the reading
  of floats and the debug output of the set-returning executors (\<open>exec_env\<close>); and, in the theorems about the meaning
  of plans, how rows are evaluated and ranked and which rows a table has (\<open>rows_of\<close>, \<open>grouping_ops\<close>). The comparisons
  of 64-bit floats and their conversions are the parameter \<open>f64_cmp\<close> of the partition pruning; the
  arithmetic of distributed aggregation, of the digest and of the differences is extended by
  \<open>agg_ops\<close>, \<open>digest_lits\<close> and \<open>delta_ops\<close>; \<open>plan_ops\<close> evaluates the operators that the soundness of
  the constraint optimizer does not look into. Theorems about the digest, moving averages and
  costs are over exact arithmetic (\<open>real_ops\<close>), those about the values of decomposed aggregates over
  rationals: in 64-bit floats they hold up to rounding only.

  \<^bold>\<open>Bounds and termination.\<close> Recursions over plans descend to \<^verbatim>\<open>children()\<close>, which are
  smaller. The parser's loops consume input: their measure is what is left to read, and nesting is
  cut at 64. Grouping markers take at most 12 columns. The fixpoint iteration
  counts up to its configured limit; the search of the join graph visits a table at most once; \<^verbatim>\<open>generate_series\<close> is cut at a million rows. No function
  needs fuel.

  \<^bold>\<open>Not modelled.\<close> The cost model and the statistics estimates (floating-point heuristics with
  no exact contract); equality saturation (the egg crate is not part of the repository, and the
  rules are strings it reads), with \<^verbatim>\<open>physical_choices_from_recexpr\<close>, which reads its nodes;
  machine learning and routing; the SQL parser (a copy of the sqlparser crate) and
  the generated grammar; the PostgreSQL extension (foreign-function glue on raw pointers);
  metadata connectors, command line, hardware profiles, tests and benchmarks. Statement types of
  \<^verbatim>\<open>algebra.rs\<close> (DDL, utility and transaction statements) are not plans and are left out, as are
  the reading of timelines from TOML and their conversion to managed
  statistics, the batch processor and the cache adapter of \<^verbatim>\<open>ra-adaptive\<close>, which drive external services, and
  the elapsed times it reports.
\<close>

end
